(* ===== verification/Prelude.thy ===== *)
theory Prelude
  imports Main "HOL-Library.Code_Target_Nat"
begin

text \<open>
  Shared vocabulary of the development: Rust strings as lists of Unicode scalar
  values, the string functions of the Rust standard library that the code calls, the
  decimal printers and parsers, and the generic lemmas the component theories use.
  A Rust \<open>&str\<close> is a \<open>ustr\<close>; \<open>str::len\<close> counts UTF-8 bytes (\<open>utf8_len\<close>), while
  \<open>chars().count()\<close> is the list length.
\<close>

named_theorems text_simps
named_theorems outcome_simps

section \<open>Strings as lists of code points\<close>

type_synonym uchar = nat
type_synonym ustr = "uchar list"

definition lit :: "string \<Rightarrow> ustr" where
  "lit s = map of_char s"

abbreviation uc :: "char \<Rightarrow> uchar" where
  "uc c \<equiv> of_char c"

lemma lit_Nil [simp]: "lit [] = []"
  by (simp add: lit_def)

lemma lit_Cons [text_simps]: "lit (c # s) = of_char c # lit s"
  by (simp add: lit_def)

lemma length_lit [simp]: "length (lit s) = length s"
  by (simp add: lit_def)

lemma lit_append: "lit (s @ t) = lit s @ lit t"
  by (simp add: lit_def)

lemma inj_of_char_nat: "inj (of_char :: char \<Rightarrow> nat)"
  by (rule injI) simp

lemma lit_eq_iff [simp]: "lit s = lit t \<longleftrightarrow> s = t"
  by (simp add: lit_def inj_map_eq_map inj_of_char_nat)

lemma lit_eq_Nil_iff [simp]: "lit s = [] \<longleftrightarrow> s = []"
  by (simp add: lit_def)

section \<open>Character classes\<close>

definition is_ascii :: "uchar \<Rightarrow> bool" where
  "is_ascii c \<longleftrightarrow> c < 128"

definition is_ascii_digit :: "uchar \<Rightarrow> bool" where
  "is_ascii_digit c \<longleftrightarrow> 48 \<le> c \<and> c \<le> 57"

definition is_ascii_upper :: "uchar \<Rightarrow> bool" where
  "is_ascii_upper c \<longleftrightarrow> 65 \<le> c \<and> c \<le> 90"

definition is_ascii_lower :: "uchar \<Rightarrow> bool" where
  "is_ascii_lower c \<longleftrightarrow> 97 \<le> c \<and> c \<le> 122"

definition is_ascii_alnum :: "uchar \<Rightarrow> bool" where
  "is_ascii_alnum c \<longleftrightarrow> is_ascii_digit c \<or> is_ascii_upper c \<or> is_ascii_lower c"

definition is_ascii_whitespace :: "uchar \<Rightarrow> bool" where
  "is_ascii_whitespace c \<longleftrightarrow> c = 32 \<or> c = 9 \<or> c = 10 \<or> c = 12 \<or> c = 13"

text \<open>\<open>char::is_whitespace\<close>: the Unicode property White\_Space.\<close>

definition is_whitespace :: "uchar \<Rightarrow> bool" where
  "is_whitespace c \<longleftrightarrow>
     (9 \<le> c \<and> c \<le> 13) \<or> c = 32 \<or> c = 133 \<or> c = 160 \<or> c = 5760 \<or>
     (8192 \<le> c \<and> c \<le> 8202) \<or> c = 8232 \<or> c = 8233 \<or> c = 8239 \<or> c = 8287 \<or> c = 12288"

lemmas char_class_defs =
  is_ascii_def is_ascii_digit_def is_ascii_upper_def is_ascii_lower_def
  is_ascii_alnum_def is_ascii_whitespace_def is_whitespace_def

definition ascii_lower :: "uchar \<Rightarrow> uchar" where
  "ascii_lower c = (if is_ascii_upper c then c + 32 else c)"

definition ascii_upper :: "uchar \<Rightarrow> uchar" where
  "ascii_upper c = (if is_ascii_lower c then c - 32 else c)"

definition to_ascii_lowercase :: "ustr \<Rightarrow> ustr" where
  "to_ascii_lowercase s = map ascii_lower s"

lemma ascii_lower_idem [simp]: "ascii_lower (ascii_lower c) = ascii_lower c"
  by (auto simp: ascii_lower_def is_ascii_upper_def)

lemma to_ascii_lowercase_idem [simp]:
  "to_ascii_lowercase (to_ascii_lowercase s) = to_ascii_lowercase s"
  by (simp add: to_ascii_lowercase_def)

section \<open>String functions of the standard library\<close>

definition utf8_width :: "uchar \<Rightarrow> nat" where
  "utf8_width c = (if c < 128 then 1 else if c < 2048 then 2 else if c < 65536 then 3 else 4)"

definition utf8_len :: "ustr \<Rightarrow> nat" where
  "utf8_len s = sum_list (map utf8_width s)"

lemma utf8_width_bounds: "1 \<le> utf8_width c \<and> utf8_width c \<le> 4"
  by (simp add: utf8_width_def)

lemma utf8_len_Nil [simp]: "utf8_len [] = 0"
  by (simp add: utf8_len_def)

lemma utf8_len_Cons [simp]: "utf8_len (c # s) = utf8_width c + utf8_len s"
  by (simp add: utf8_len_def)

lemma utf8_len_append [simp]: "utf8_len (s @ t) = utf8_len s + utf8_len t"
  by (simp add: utf8_len_def)

lemma length_le_utf8_len: "length s \<le> utf8_len s"
proof (induction s)
  case (Cons c s)
  then show ?case using utf8_width_bounds [of c] by simp
qed simp

lemma utf8_len_eq_0 [simp]: "utf8_len s = 0 \<longleftrightarrow> s = []"
  using length_le_utf8_len [of s] by (cases s) auto

lemma utf8_len_ascii: "list_all is_ascii s \<Longrightarrow> utf8_len s = length s"
  by (induction s) (auto simp: utf8_width_def is_ascii_def)

definition trim_start_matches :: "(uchar \<Rightarrow> bool) \<Rightarrow> ustr \<Rightarrow> ustr" where
  "trim_start_matches p s = dropWhile p s"

definition trim_end_matches :: "(uchar \<Rightarrow> bool) \<Rightarrow> ustr \<Rightarrow> ustr" where
  "trim_end_matches p s = rev (dropWhile p (rev s))"

definition trim_matches :: "(uchar \<Rightarrow> bool) \<Rightarrow> ustr \<Rightarrow> ustr" where
  "trim_matches p s = trim_end_matches p (trim_start_matches p s)"

definition trim :: "ustr \<Rightarrow> ustr" where
  "trim s = trim_matches is_whitespace s"

lemma trim_matches_Nil [simp]: "trim_matches p [] = []"
  by (simp add: trim_matches_def trim_start_matches_def trim_end_matches_def)

lemma set_dropWhile_subset: "set (dropWhile p s) \<subseteq> set s"
  by (induction s) auto

lemma set_trim_matches: "set (trim_matches p s) \<subseteq> set s"
  unfolding trim_matches_def trim_start_matches_def trim_end_matches_def
  using set_dropWhile_subset [of p "rev (dropWhile p s)"] set_dropWhile_subset [of p s]
  by auto

lemma set_trim: "set (trim s) \<subseteq> set s"
  by (simp add: trim_def set_trim_matches)

lemma trim_matches_fixed:
  assumes "s = [] \<or> (\<not> p (hd s) \<and> \<not> p (last s))"
  shows "trim_matches p s = s"
proof (cases s)
  case (Cons c t)
  with assms have "\<not> p (hd s)" and "\<not> p (last s)" by auto
  with Cons have start: "dropWhile p s = s" by simp
  obtain d u where rev_s: "rev s = d # u" using Cons by (cases "rev s") auto
  then have "d = last s" using Cons by (metis list.sel(1) hd_rev list.distinct(1))
  with \<open>\<not> p (last s)\<close> rev_s have "dropWhile p (rev s) = rev s"
    by (metis dropWhile.simps(2))
  with start show ?thesis
    by (simp add: trim_matches_def trim_start_matches_def trim_end_matches_def)
qed simp

lemma trim_fixed_if_none: "(\<And>c. c \<in> set s \<Longrightarrow> \<not> is_whitespace c) \<Longrightarrow> trim s = s"
  unfolding trim_def by (rule trim_matches_fixed) (cases s, auto)

text \<open>\<open>str::split(c)\<close>, \<open>split_once\<close>, \<open>rsplit_once\<close>, \<open>strip_prefix\<close>, \<open>contains\<close>.\<close>

fun split_on :: "uchar \<Rightarrow> ustr \<Rightarrow> ustr list" where
  "split_on d [] = [[]]"
| "split_on d (c # s) =
     (if c = d then [] # split_on d s
      else (case split_on d s of [] \<Rightarrow> [[c]] | p # ps \<Rightarrow> (c # p) # ps))"

fun split_once :: "uchar \<Rightarrow> ustr \<Rightarrow> (ustr \<times> ustr) option" where
  "split_once d [] = None"
| "split_once d (c # s) =
     (if c = d then Some ([], s) else map_option (\<lambda>(a, b). (c # a, b)) (split_once d s))"

definition rsplit_once :: "uchar \<Rightarrow> ustr \<Rightarrow> (ustr \<times> ustr) option" where
  "rsplit_once d s = map_option (\<lambda>(a, b). (rev b, rev a)) (split_once d (rev s))"

fun strip_prefix :: "ustr \<Rightarrow> ustr \<Rightarrow> ustr option" where
  "strip_prefix [] s = Some s"
| "strip_prefix (p # ps) [] = None"
| "strip_prefix (p # ps) (c # s) = (if p = c then strip_prefix ps s else None)"

definition starts_with :: "ustr \<Rightarrow> ustr \<Rightarrow> bool" where
  "starts_with p s \<longleftrightarrow> strip_prefix p s \<noteq> None"

fun contains :: "ustr \<Rightarrow> ustr \<Rightarrow> bool" where
  "contains w [] \<longleftrightarrow> w = []"
| "contains w (c # s) \<longleftrightarrow> starts_with w (c # s) \<or> contains w s"

lemma split_on_not_Nil [simp]: "split_on d s \<noteq> []"
  by (induction s) (auto split: list.splits)

lemma split_on_no_sep: "d \<notin> set s \<Longrightarrow> split_on d s = [s]"
  by (induction s) auto

lemma split_on_append:
  "d \<notin> set a \<Longrightarrow> split_on d (a @ d # s) = a # split_on d s"
  by (induction a) auto

lemma split_once_append: "d \<notin> set a \<Longrightarrow> split_once d (a @ d # s) = Some (a, s)"
  by (induction a) auto

lemma split_once_None_iff: "split_once d s = None \<longleftrightarrow> d \<notin> set s"
  by (induction s) auto

lemma split_once_SomeD:
  "split_once d s = Some (a, b) \<Longrightarrow> s = a @ d # b \<and> d \<notin> set a"
  by (induction s arbitrary: a b) (auto split: if_splits)

lemma rsplit_once_SomeD:
  "rsplit_once d s = Some (a, b) \<Longrightarrow> s = a @ d # b \<and> d \<notin> set b"
proof -
  assume "rsplit_once d s = Some (a, b)"
  then obtain x y where xy: "split_once d (rev s) = Some (x, y)" "a = rev y" "b = rev x"
    by (auto simp: rsplit_once_def)
  from split_once_SomeD [OF xy(1)] have "rev s = x @ d # y" "d \<notin> set x" by auto
  then have "s = rev (x @ d # y)" by (metis rev_rev_ident)
  with xy \<open>d \<notin> set x\<close> show ?thesis by simp
qed

lemma strip_prefix_iff: "strip_prefix p s = Some r \<longleftrightarrow> s = p @ r"
  by (induction p s rule: strip_prefix.induct) auto

lemma starts_with_iff: "starts_with p s \<longleftrightarrow> (\<exists>r. s = p @ r)"
  by (auto simp: starts_with_def strip_prefix_iff)

lemma contains_iff: "contains w s \<longleftrightarrow> (\<exists>a b. s = a @ w @ b)"
proof (induction s)
  case (Cons c s)
  note IH = Cons.IH
  show ?case
  proof
    assume "contains w (c # s)"
    then consider "starts_with w (c # s)" | "contains w s" by auto
    then show "\<exists>a b. c # s = a @ w @ b"
    proof cases
      case 1
      then show ?thesis by (metis append_Nil starts_with_iff)
    next
      case 2
      then show ?thesis using Cons.IH by (metis append_Cons)
    qed
  next
    assume "\<exists>a b. c # s = a @ w @ b"
    then obtain a b where ab: "c # s = a @ w @ b" by blast
    show "contains w (c # s)"
    proof (cases a)
      case Nil
      with ab have "starts_with w (c # s)" by (auto simp: starts_with_iff)
      then show ?thesis by simp
    next
      case (Cons x xs)
      with ab have "s = xs @ w @ b" by simp
      then show ?thesis using IH by auto
    qed
  qed
qed auto

text \<open>
  \<open>str::lines\<close>: lines end at LF or CR LF; a final line ending does not start another line.
\<close>

definition strip_cr :: "ustr \<Rightarrow> ustr" where
  "strip_cr s = (if s \<noteq> [] \<and> last s = 13 then butlast s else s)"

text \<open>
  \<open>split_terminator\<close> cuts at every LF and drops the empty piece after a final LF; the pieces that
  an LF ended also lose a CR before it.
\<close>

fun lines_aux :: "ustr list \<Rightarrow> ustr list" where
  "lines_aux [] = []"
| "lines_aux [p] = (if p = [] then [] else [p])"
| "lines_aux (p # q # ps) = strip_cr p # lines_aux (q # ps)"

definition lines :: "ustr \<Rightarrow> ustr list" where
  "lines s = lines_aux (split_on 10 s)"

text \<open>\<open>[&str]::join\<close>.\<close>

fun join :: "ustr \<Rightarrow> ustr list \<Rightarrow> ustr" where
  "join sep [] = []"
| "join sep [p] = p"
| "join sep (p # q # ps) = p @ sep @ join sep (q # ps)"

section \<open>Decimal numbers\<close>

definition digits_val :: "ustr \<Rightarrow> nat" where
  "digits_val s = foldl (\<lambda>a c. a * 10 + (c - 48)) 0 s"

text \<open>
  \<open>uN::from_str\<close>: an optional leading plus sign, then at least one ASCII digit and nothing else;
  a value above the type's maximum is an error.
\<close>

definition strip_plus :: "ustr \<Rightarrow> ustr" where
  "strip_plus s = (case s of c # t \<Rightarrow> if c = 43 then t else s | [] \<Rightarrow> s)"

definition parse_digits :: "nat \<Rightarrow> ustr \<Rightarrow> nat option" where
  "parse_digits hi s =
     (if s \<noteq> [] \<and> list_all is_ascii_digit s \<and> digits_val s \<le> hi then Some (digits_val s) else None)"

definition parse_uint :: "nat \<Rightarrow> ustr \<Rightarrow> nat option" where
  "parse_uint hi s = parse_digits hi (strip_plus s)"

definition parse_int :: "nat \<Rightarrow> ustr \<Rightarrow> int option" where
  "parse_int hi s =
     (case s of
        c # t \<Rightarrow> if c = 45 then map_option (\<lambda>n. - int n) (parse_digits (hi + 1) t)
                 else map_option int (parse_uint hi s)
      | [] \<Rightarrow> None)"

definition u16_max :: nat where "u16_max = 65535"
definition u32_max :: nat where "u32_max = 4294967295"
definition u64_max :: nat where "u64_max = 18446744073709551615"
definition i32_max :: nat where "i32_max = 2147483647"
definition i64_max :: int where "i64_max = 9223372036854775807"
definition i64_min :: int where "i64_min = - 9223372036854775808"

text \<open>\<open>Display\<close> of integers.\<close>

fun show_nat :: "nat \<Rightarrow> ustr" where
  "show_nat n = (if n < 10 then [48 + n] else show_nat (n div 10) @ [48 + n mod 10])"

declare show_nat.simps [simp del]

definition show_int :: "int \<Rightarrow> ustr" where
  "show_int i = (if i < 0 then 45 # show_nat (nat (- i)) else show_nat (nat i))"

lemma digits_val_append_single: "digits_val (s @ [c]) = digits_val s * 10 + (c - 48)"
  by (simp add: digits_val_def)

lemma digits_val_show_nat [simp]: "digits_val (show_nat n) = n"
proof (induction n rule: show_nat.induct)
  case (1 n)
  show ?case
  proof (cases "n < 10")
    case True
    then show ?thesis by (simp add: show_nat.simps [of n] digits_val_def)
  next
    case False
    then show ?thesis using 1 by (simp add: show_nat.simps [of n] digits_val_append_single)
  qed
qed

lemma show_nat_digits: "list_all is_ascii_digit (show_nat n)"
proof (induction n rule: show_nat.induct)
  case (1 n)
  show ?case
  proof (cases "n < 10")
    case True
    then show ?thesis by (simp add: show_nat.simps [of n] is_ascii_digit_def)
  next
    case False
    have "n mod 10 \<le> 9" by presburger
    then show ?thesis using 1 False by (simp add: show_nat.simps [of n] is_ascii_digit_def)
  qed
qed

lemma show_nat_not_Nil [simp]: "show_nat n \<noteq> []"
  by (subst show_nat.simps) simp

lemma show_nat_inj [simp]: "show_nat m = show_nat n \<longleftrightarrow> m = n"
  by (metis digits_val_show_nat)

lemma show_nat_set: "c \<in> set (show_nat n) \<Longrightarrow> is_ascii_digit c"
  using show_nat_digits [of n] by (simp add: list_all_iff)

lemma show_int_set: "c \<in> set (show_int i) \<Longrightarrow> is_ascii_digit c \<or> c = 45"
  by (auto simp: show_int_def dest: show_nat_set split: if_splits)

lemma show_int_inj [simp]: "show_int i = show_int j \<longleftrightarrow> i = j"
proof
  assume eq: "show_int i = show_int j"
  have no_minus: "show_nat n \<noteq> 45 # s" for n s
    using show_nat_set [of 45 n] by (auto simp: is_ascii_digit_def)
  show "i = j"
    using eq no_minus no_minus [symmetric] by (auto simp: show_int_def split: if_splits)
qed simp

lemma strip_plus_show_nat [simp]: "strip_plus (show_nat n) = show_nat n"
proof (cases "show_nat n")
  case (Cons c t)
  then have "is_ascii_digit c" using show_nat_set [of c n] by simp
  then show ?thesis using Cons by (simp add: strip_plus_def is_ascii_digit_def)
qed simp

lemma parse_uint_show_nat: "n \<le> hi \<Longrightarrow> parse_uint hi (show_nat n) = Some n"
  by (simp add: parse_uint_def parse_digits_def show_nat_digits)

lemma parse_uint_bound: "parse_uint hi s = Some n \<Longrightarrow> n \<le> hi"
  by (auto simp: parse_uint_def parse_digits_def split: if_splits)

section \<open>Saturating arithmetic on 64-bit signed integers\<close>

definition sat_i64 :: "int \<Rightarrow> int" where
  "sat_i64 x = (if x < i64_min then i64_min else if i64_max < x then i64_max else x)"

definition in_i64 :: "int \<Rightarrow> bool" where
  "in_i64 x \<longleftrightarrow> i64_min \<le> x \<and> x \<le> i64_max"

lemma sat_i64_id: "in_i64 x \<Longrightarrow> sat_i64 x = x"
  by (simp add: sat_i64_def in_i64_def)

lemma sat_i64_range: "in_i64 (sat_i64 x)"
  by (auto simp: sat_i64_def in_i64_def i64_min_def i64_max_def)

lemma sat_i64_mono: "x \<le> y \<Longrightarrow> sat_i64 x \<le> sat_i64 y"
  by (auto simp: sat_i64_def i64_min_def i64_max_def)

section \<open>Generic list lemmas\<close>

lemma takeWhile_dropWhile_length:
  "length (dropWhile p s) \<le> length s"
  by (induction s) auto

lemma takeWhile_stop:
  "\<lbrakk>\<And>x. x \<in> set a \<Longrightarrow> p x; b = [] \<or> \<not> p (hd b)\<rbrakk> \<Longrightarrow> takeWhile p (a @ b) = a"
  by (induction a) (cases b, auto)+

lemma dropWhile_stop:
  "\<lbrakk>\<And>x. x \<in> set a \<Longrightarrow> p x; b = [] \<or> \<not> p (hd b)\<rbrakk> \<Longrightarrow> dropWhile p (a @ b) = b"
  by (induction a) (cases b, auto)+

lemma While_stop_Nil:
  "b = [] \<or> \<not> p (hd b) \<Longrightarrow> takeWhile p b = []"
  "b = [] \<or> \<not> p (hd b) \<Longrightarrow> dropWhile p b = b"
  by (cases b; simp)+

lemma dropWhile_append_Cons: "dropWhile p a = c # t \<Longrightarrow> dropWhile p (a @ b) = c # t @ b"
  by (induction a) (auto split: if_splits)

lemma dropWhile_hd: "dropWhile p s = c # r \<Longrightarrow> \<not> p c"
  by (induction s) (auto split: if_splits)

lemma append_sep_eq:
  fixes d :: uchar
  assumes "d \<notin> set a" and "d \<notin> set b"
  shows "a @ d # s = b @ d # t \<longleftrightarrow> a = b \<and> s = t"
proof
  assume "a @ d # s = b @ d # t"
  then have "split_once d (a @ d # s) = split_once d (b @ d # t)" by simp
  then show "a = b \<and> s = t" using assms by (simp add: split_once_append)
qed simp

end
