(* ===== verification/Transitions.thy ===== *)
theory Transitions
  imports Prelude
begin

text \<open>
  Executable transition systems: a partial step function on events, its runs, and the locales through
  which the components with interleaved operations (concurrency limiter, second-factor use, session
  revocation) get their reachable-state arguments. An event that is not enabled in a state is \<open>None\<close>.
\<close>

fun run_events :: "('s \<Rightarrow> 'e \<Rightarrow> 's option) \<Rightarrow> 's \<Rightarrow> 'e list \<Rightarrow> 's option" where
  "run_events step st [] = Some st"
| "run_events step st (e # es) = (case step st e of None \<Rightarrow> None | Some st' \<Rightarrow> run_events step st' es)"

lemma run_events_append:
  "run_events step st (es @ fs) =
     (case run_events step st es of None \<Rightarrow> None | Some st' \<Rightarrow> run_events step st' fs)"
  by (induction step st es rule: run_events.induct) (auto split: option.split)

inductive reachable :: "('s \<Rightarrow> 'e \<Rightarrow> 's option) \<Rightarrow> 's \<Rightarrow> 's \<Rightarrow> bool"
  for step :: "'s \<Rightarrow> 'e \<Rightarrow> 's option" and st0 :: 's where
  start: "reachable step st0 st0"
| further: "\<lbrakk>reachable step st0 st; step st e = Some st'\<rbrakk> \<Longrightarrow> reachable step st0 st'"

inductive_cases reachable_elim: "reachable step st0 st"

lemma run_reachable: "run_events step st es = Some st' \<Longrightarrow> reachable step st0 st \<Longrightarrow> reachable step st0 st'"
  by (induction step st es rule: run_events.induct) (auto split: option.splits intro: reachable.further)

locale invariant_system =
  fixes step :: "'s \<Rightarrow> 'e \<Rightarrow> 's option"
    and inv :: "'s \<Rightarrow> bool"
  assumes step_inv: "\<lbrakk>inv st; step st e = Some st'\<rbrakk> \<Longrightarrow> inv st'"
begin

lemma reachable_inv: "\<lbrakk>reachable step st0 st; inv st0\<rbrakk> \<Longrightarrow> inv st"
  by (induction rule: reachable.induct) (auto intro: step_inv)

lemma run_inv: "\<lbrakk>run_events step st es = Some st'; inv st\<rbrakk> \<Longrightarrow> inv st'"
  by (rule reachable_inv [OF run_reachable]) (auto intro: reachable.start)

end

section \<open>Counting threads\<close>

definition count_if :: "('a \<Rightarrow> bool) \<Rightarrow> 'a list \<Rightarrow> nat" where
  "count_if p xs = length (filter p xs)"

lemma count_if_simps [simp]:
  "count_if p [] = 0"
  "count_if p (x # xs) = (if p x then 1 else 0) + count_if p xs"
  "count_if p (xs @ ys) = count_if p xs + count_if p ys"
  by (simp_all add: count_if_def)

lemma count_if_update:
  "i < length xs \<Longrightarrow>
     count_if p (xs[i := x]) + (if p (xs ! i) then 1 else 0) = count_if p xs + (if p x then 1 else 0)"
proof (induction xs arbitrary: i)
  case (Cons y ys)
  then show ?case by (cases i) force+
qed simp

lemma count_if_mono: "(\<And>x. x \<in> set xs \<Longrightarrow> p x \<Longrightarrow> q x) \<Longrightarrow> count_if p xs \<le> count_if q xs"
  by (induction xs) (auto simp: le_SucI)

lemma count_if_0: "count_if p xs = 0 \<longleftrightarrow> (\<forall>x\<in>set xs. \<not> p x)"
  by (simp add: count_if_def filter_empty_conv)

lemma count_if_pos: "\<lbrakk>i < length xs; p (xs ! i)\<rbrakk> \<Longrightarrow> 0 < count_if p xs"
  using count_if_0 [of p xs] by (metis gr0I nth_mem)

end
