(* ===== verification/Gcra.thy ===== *)
theory Gcra
  imports Prelude
begin

text \<open>
  The login rate limiter, \<open>src/services/rate_limit.rs\<close>: the configuration and its checks, the GCRA
  parameters, the SQLite backend (one transaction per request over the table \<open>rate_limit_gcra\<close>),
  the Redis backend (its Lua script) and \<open>PersistentRateLimiter::check\<close> with its fail-open switch.
  Both backends are interpretations of one locale, \<open>gcra_backend\<close>, whose laws say that the stored
  theoretical arrival times behave like those of the textbook algorithm \<open>gcra_step\<close>; the bounds on
  admitted requests are proved once, on the textbook algorithm. Times are microseconds (\<open>int\<close>), the
  width of the code's \<open>i64\<close> appears as saturation at \<open>sat_i64\<close>.
\<close>

section \<open>Configuration\<close>

datatype backend_kind = Sqlite | Redis

record sqlite_config =
  sqlite_path :: ustr
  busy_timeout_ms :: nat
  cleanup_interval :: nat

record redis_config =
  redis_host :: ustr
  redis_port :: nat
  redis_database :: int
  redis_tls :: bool
  key_prefix_cfg :: ustr
  connect_timeout_secs :: nat
  response_timeout_secs :: nat
  redis_retries :: nat

record rate_limit_config =
  enabled :: bool
  requests_per_second :: nat
  burst_size :: nat
  max_coroutines_per_ip :: nat
  tls_handshake_timeout_secs :: nat
  connection_timeout_secs :: nat
  max_tracked_ips :: nat
  backend_choice :: backend_kind
  fail_open_cfg :: bool
  sqlite_cfg :: sqlite_config
  redis_cfg :: redis_config

datatype config_error =
    Limits_must_be_positive
  | Sqlite_settings_invalid
  | Redis_settings_invalid
  | Redis_prefix_invalid
  | Redis_requires_tls
  | Rate_or_burst_zero
  | Rate_too_high
  | Burst_too_large

definition is_prefix_char :: "uchar \<Rightarrow> bool" where
  "is_prefix_char c \<longleftrightarrow> is_ascii_alnum c \<or> c = uc CHR '':'' \<or> c = uc CHR ''-'' \<or> c = uc CHR ''_''"

definition validate :: "rate_limit_config \<Rightarrow> config_error + unit" where
  "validate c =
     (if requests_per_second c = 0 \<or> burst_size c = 0 \<or> max_coroutines_per_ip c = 0 \<or>
         tls_handshake_timeout_secs c = 0 \<or> connection_timeout_secs c = 0 \<or> max_tracked_ips c = 0
      then Inl Limits_must_be_positive
      else if sqlite_path (sqlite_cfg c) = [] \<or> busy_timeout_ms (sqlite_cfg c) = 0 \<or>
              cleanup_interval (sqlite_cfg c) = 0
      then Inl Sqlite_settings_invalid
      else if trim (redis_host (redis_cfg c)) = [] \<or> key_prefix_cfg (redis_cfg c) = [] \<or>
              connect_timeout_secs (redis_cfg c) = 0 \<or> response_timeout_secs (redis_cfg c) = 0
      then Inl Redis_settings_invalid
      else if \<not> list_all is_prefix_char (key_prefix_cfg (redis_cfg c))
      then Inl Redis_prefix_invalid
      else if backend_choice c = Redis \<and> \<not> redis_tls (redis_cfg c)
      then Inl Redis_requires_tls
      else Inr ())"

section \<open>Rate and decisions\<close>

record gcra_rate =
  interval_us :: int
  tolerance_us :: int

definition new_rate :: "nat \<Rightarrow> nat \<Rightarrow> config_error + gcra_rate" where
  "new_rate rps burst =
     (if rps = 0 \<or> burst = 0 then Inl Rate_or_burst_zero
      else let interval = int (1000000 div rps) in
        if interval = 0 then Inl Rate_too_high
        else let tolerance = interval * int (burst - 1) in
          if i64_max < tolerance then Inl Burst_too_large
          else Inr \<lparr>interval_us = interval, tolerance_us = tolerance\<rparr>)"

definition valid_rate :: "gcra_rate \<Rightarrow> bool" where
  "valid_rate r \<longleftrightarrow> 0 < interval_us r \<and> 0 \<le> tolerance_us r"

lemma new_rate_valid: "new_rate rps burst = Inr r \<Longrightarrow> valid_rate r"
  by (auto simp: new_rate_def valid_rate_def Let_def split: if_splits)

record decision =
  allowed :: bool
  retry_after :: int

definition allow :: decision where
  "allow = \<lparr>allowed = True, retry_after = 0\<rparr>"

definition reject :: "int \<Rightarrow> decision" where
  "reject us = \<lparr>allowed = False, retry_after = us\<rparr>"

lemma decision_simps [simp]:
  "allowed allow" "\<not> allowed (reject us)" "retry_after (reject us) = us" "retry_after allow = 0"
  by (simp_all add: allow_def reject_def)

section \<open>The textbook algorithm\<close>

text \<open>
  The specification: one theoretical arrival time per key, no storage, no expiry, no overflow.
  \<open>gcra_run\<close> feeds a list of requests (key and time) to any checker and collects the decisions.
\<close>

definition gcra_step ::
    "gcra_rate \<Rightarrow> ('k \<Rightarrow> int) \<Rightarrow> 'k \<Rightarrow> int \<Rightarrow> bool \<times> ('k \<Rightarrow> int)" where
  "gcra_step r T k now =
     (let e = max (T k) now in
      if e \<le> now + tolerance_us r then (True, T(k := e + interval_us r)) else (False, T))"

fun gcra_run :: "('s \<Rightarrow> 'k \<Rightarrow> int \<Rightarrow> bool \<times> 's) \<Rightarrow> 's \<Rightarrow> ('k \<times> int) list \<Rightarrow> bool list" where
  "gcra_run step st [] = []"
| "gcra_run step st ((k, now) # rs) =
     (case step st k now of (b, st') \<Rightarrow> b # gcra_run step st' rs)"

definition admitted :: "'k \<Rightarrow> ('k \<times> int) list \<Rightarrow> bool list \<Rightarrow> nat" where
  "admitted k rs bs = length (filter (\<lambda>(r, b). fst r = k \<and> b) (zip rs bs))"

text \<open>Request times of a trace: they never go back, start no earlier than \<open>t\<close> and satisfy \<open>ok\<close>.\<close>

fun ordered_from :: "(int \<Rightarrow> bool) \<Rightarrow> int \<Rightarrow> ('k \<times> int) list \<Rightarrow> bool" where
  "ordered_from ok t [] \<longleftrightarrow> True"
| "ordered_from ok t ((k, now) # rs) \<longleftrightarrow> t \<le> now \<and> ok now \<and> ordered_from ok now rs"

lemma length_gcra_run [simp]: "length (gcra_run step st rs) = length rs"
  by (induction step st rs rule: gcra_run.induct) (auto split: prod.split)

lemma admitted_Nil [simp]: "admitted k [] bs = 0"
  by (simp add: admitted_def)

lemma admitted_Cons [simp]:
  "admitted k ((k', now) # rs) (b # bs) = (if k' = k \<and> b then 1 else 0) + admitted k rs bs"
  by (simp add: admitted_def)

text \<open>Each admitted request raises the arrival time of its key by one interval.\<close>

lemma gcra_bound_aux:
  assumes "valid_rate r" and "ordered_from ok a rs" and "\<forall>x\<in>set rs. snd x \<le> b"
    and "0 < admitted k rs (gcra_run (gcra_step r) T rs)"
  shows "max (T k) a + (int (admitted k rs (gcra_run (gcra_step r) T rs)) - 1) * interval_us r
           \<le> b + tolerance_us r"
  using assms
proof (induction rs arbitrary: T a)
  case (Cons x rs)
  obtain k' now where x: "x = (k', now)" by (cases x)
  have i: "0 < interval_us r" using \<open>valid_rate r\<close> by (simp add: valid_rate_def)
  have now: "a \<le> now" "now \<le> b" and rest: "ordered_from ok now rs" "\<forall>x\<in>set rs. snd x \<le> b"
    using Cons.prems x by auto
  define T' where "T' = snd (gcra_step r T k' now)"
  define n where "n = admitted k rs (gcra_run (gcra_step r) T' rs)"
  have run: "gcra_run (gcra_step r) T (x # rs) =
      fst (gcra_step r T k' now) # gcra_run (gcra_step r) T' rs"
    by (simp add: x T'_def case_prod_beta)
  have IH: "0 < n \<Longrightarrow> max (T' k) now + (int n - 1) * interval_us r \<le> b + tolerance_us r"
    unfolding n_def using Cons.IH [OF \<open>valid_rate r\<close> rest, of T'] by simp
  show ?case
  proof (cases "k' = k \<and> fst (gcra_step r T k' now)")
    case True
    then have T': "T' k = max (T k) now + interval_us r" and e: "max (T k) now \<le> now + tolerance_us r"
      by (auto simp: T'_def gcra_step_def Let_def split: if_splits)
    have adm: "admitted k (x # rs) (gcra_run (gcra_step r) T (x # rs)) = Suc n"
      unfolding run using True by (auto simp: x n_def)
    show ?thesis
    proof (cases "n = 0")
      case True
      then show ?thesis unfolding adm using e now by simp
    next
      case False
      with IH T' i now show ?thesis unfolding adm by (simp add: algebra_simps)
    qed
  next
    case False
    then have T': "T' k = T k" by (auto simp: T'_def gcra_step_def Let_def)
    have adm: "admitted k (x # rs) (gcra_run (gcra_step r) T (x # rs)) = n"
      unfolding run using False by (simp add: x n_def)
    with Cons.prems(4) have "0 < n" by simp
    with IH T' now show ?thesis unfolding adm by simp
  qed
qed simp

lemma gcra_isolated_aux:
  assumes "T k = U k"
  shows "map snd (filter (\<lambda>(r, b). fst r = k) (zip rs (gcra_run (gcra_step r) T rs))) =
     gcra_run (gcra_step r) U (filter (\<lambda>q. fst q = k) rs)"
  using assms
proof (induction rs arbitrary: T U)
  case (Cons x rs)
  obtain k' now where x: "x = (k', now)" by (cases x)
  obtain b T' where T': "gcra_step r T k' now = (b, T')" by fastforce
  obtain c U' where U': "gcra_step r U k' now = (c, U')" by fastforce
  show ?case
  proof (cases "k' = k")
    case True
    with T' U' Cons.prems have "b = c" "T' k = U' k"
      by (auto simp: gcra_step_def Let_def split: if_splits)
    with Cons.IH [of T' U'] True T' U' show ?thesis by (auto simp: x)
  next
    case False
    with T' Cons.prems have "T' k = U k"
      by (auto simp: gcra_step_def Let_def split: if_splits)
    with Cons.IH [of T' U] False show ?thesis by (simp add: x T')
  qed
qed simp

lemma gcra_isolated:
  "map snd (filter (\<lambda>(r, b). fst r = k) (zip rs (gcra_run (gcra_step r) T rs))) =
     gcra_run (gcra_step r) T (filter (\<lambda>q. fst q = k) rs)"
  by (rule gcra_isolated_aux) (rule refl)

section \<open>The interface of a backend\<close>

text \<open>
  What \<open>RateLimitBackend::check\<close> promises, over the backend's own state. \<open>eff st k t\<close> is the arrival
  time in force for key \<open>k\<close> at time \<open>t\<close> (never before \<open>t\<close> itself), \<open>wf st t\<close> the backend's invariant
  when its last request was at \<open>t\<close>, \<open>ok\<close> the range of clock readings in which its arithmetic is
  exact, and \<open>grain\<close> the resolution of the reported waiting time.
\<close>

locale gcra_backend =
  fixes check :: "'s \<Rightarrow> ustr \<Rightarrow> int \<Rightarrow> decision \<times> 's"
    and eff :: "'s \<Rightarrow> ustr \<Rightarrow> int \<Rightarrow> int"
    and wf :: "'s \<Rightarrow> int \<Rightarrow> bool"
    and rate_of :: "'s \<Rightarrow> gcra_rate"
    and ok :: "gcra_rate \<Rightarrow> int \<Rightarrow> bool"
    and grain :: int
  assumes rate_valid: "wf st t \<Longrightarrow> valid_rate (rate_of st)"
    and rate_kept: "rate_of (snd (check st k now)) = rate_of st"
    and wf_kept: "\<lbrakk>wf st t; t \<le> now; ok (rate_of st) now\<rbrakk> \<Longrightarrow> wf (snd (check st k now)) now"
    and eff_later: "\<lbrakk>wf st t; t \<le> now\<rbrakk> \<Longrightarrow> eff st k now = max (eff st k t) now"
    and check_allowed: "\<lbrakk>wf st t; t \<le> now; ok (rate_of st) now\<rbrakk> \<Longrightarrow>
      allowed (fst (check st k now)) \<longleftrightarrow> eff st k now \<le> now + tolerance_us (rate_of st)"
    and check_eff: "\<lbrakk>wf st t; t \<le> now; ok (rate_of st) now\<rbrakk> \<Longrightarrow>
      eff (snd (check st k now)) k' now =
        (if k' = k \<and> allowed (fst (check st k now)) then eff st k now + interval_us (rate_of st)
         else eff st k' now)"
    and check_wait: "\<lbrakk>wf st t; t \<le> now; ok (rate_of st) now; \<not> allowed (fst (check st k now))\<rbrakk> \<Longrightarrow>
      eff st k now - tolerance_us (rate_of st) - now \<le> retry_after (fst (check st k now)) \<and>
      retry_after (fst (check st k now)) < eff st k now - tolerance_us (rate_of st) - now + grain"
begin

definition admit :: "'s \<Rightarrow> ustr \<Rightarrow> int \<Rightarrow> bool \<times> 's" where
  "admit st k now = (allowed (fst (check st k now)), snd (check st k now))"

lemma run_refines:
  assumes "wf st t" and "\<And>k. eff st k t = max (T k) t" and "ordered_from (ok (rate_of st)) t rs"
  shows "gcra_run admit st rs = gcra_run (gcra_step (rate_of st)) T rs"
  using assms
proof (induction rs arbitrary: st t T)
  case (Cons x rs)
  obtain k now where x: "x = (k, now)" by (cases x)
  have t: "t \<le> now" and okn: "ok (rate_of st) now" and rest: "ordered_from (ok (rate_of st)) now rs"
    using Cons.prems(3) by (auto simp: x)
  define st' where "st' = snd (check st k now)"
  define T' where "T' = snd (gcra_step (rate_of st) T k now)"
  have eff_now: "eff st k' now = max (T k') now" for k'
    using eff_later [OF Cons.prems(1) t] Cons.prems(2) t by (auto simp: max_def)
  have same: "allowed (fst (check st k now)) = fst (gcra_step (rate_of st) T k now)"
    using check_allowed [OF Cons.prems(1) t okn] eff_now by (simp add: gcra_step_def Let_def)
  have i: "0 < interval_us (rate_of st)"
    using rate_valid [OF Cons.prems(1)] by (simp add: valid_rate_def)
  have eff': "eff st' k' now = max (T' k') now" for k'
    using check_eff [OF Cons.prems(1) t okn, of k k'] eff_now same i
    by (auto simp: st'_def T'_def gcra_step_def Let_def)
  have "wf st' now" using wf_kept [OF Cons.prems(1) t okn] by (simp add: st'_def)
  moreover have rate: "rate_of st' = rate_of st" by (simp add: st'_def rate_kept)
  ultimately have "gcra_run admit st' rs = gcra_run (gcra_step (rate_of st)) T' rs"
    using Cons.IH [of st' now T'] eff' rest by simp
  moreover have "admit st k now = (fst (gcra_step (rate_of st) T k now), st')"
    using same by (simp add: admit_def st'_def)
  ultimately show ?case by (simp add: x T'_def case_prod_beta)
qed simp

lemma run_spec:
  assumes "wf st t" and "ordered_from (ok (rate_of st)) t rs"
  shows "gcra_run admit st rs = gcra_run (gcra_step (rate_of st)) (\<lambda>k. eff st k t) rs"
  using assms eff_later [OF assms(1) order_refl] by (intro run_refines) auto

lemma run_bound:
  assumes "wf st t" and "ordered_from (ok (rate_of st)) t rs" and "\<forall>x\<in>set rs. snd x \<le> b"
    and "0 < admitted k rs (gcra_run admit st rs)"
  shows "(int (admitted k rs (gcra_run admit st rs)) - 1) * interval_us (rate_of st)
           \<le> (b - t) + tolerance_us (rate_of st)"
  using gcra_bound_aux [OF rate_valid [OF assms(1)] assms(2,3), of k "\<lambda>k. eff st k t"]
    assms(4) unfolding run_spec [OF assms(1,2)] by simp

lemma run_isolated:
  assumes "wf st t" and "ordered_from (ok (rate_of st)) t rs"
  shows "map snd (filter (\<lambda>(r, b). fst r = k) (zip rs (gcra_run admit st rs))) =
     gcra_run admit st (filter (\<lambda>q. fst q = k) rs)"
proof -
  have "ordered_from (ok (rate_of st)) s rs \<Longrightarrow>
      ordered_from (ok (rate_of st)) s (filter (\<lambda>q. fst q = k) rs)" for s
  proof (induction rs arbitrary: s)
    case (Cons x rs)
    have weaken: "ordered_from f a qs \<Longrightarrow> b \<le> a \<Longrightarrow> ordered_from f b qs"
      for f a b and qs :: "(ustr \<times> int) list"
      by (cases qs) auto
    show ?case using Cons by (cases x) (auto intro: weaken)
  qed simp
  then have "ordered_from (ok (rate_of st)) t (filter (\<lambda>q. fst q = k) rs)"
    using assms(2) by blast
  then show ?thesis by (simp add: run_spec [OF assms(1)] assms(2) gcra_isolated)
qed

lemma wait_is_enough:
  assumes "wf st t" and "t \<le> now" and "ok (rate_of st) now" and "\<not> allowed (fst (check st k now))"
    and "now + retry_after (fst (check st k now)) \<le> later" and "ok (rate_of st) later" and "now \<le> later"
  shows "allowed (fst (check (snd (check st k now)) k later))"
proof -
  define st' where "st' = snd (check st k now)"
  have w: "wf st' now" using wf_kept assms(1-3) by (simp add: st'_def)
  have "eff st' k now = eff st k now"
    using check_eff [OF assms(1-3)] assms(4) by (simp add: st'_def)
  moreover have "eff st' k later = max (eff st' k now) later" by (rule eff_later [OF w assms(7)])
  moreover have "eff st k now \<le> later + tolerance_us (rate_of st)"
    using check_wait [OF assms(1-4)] assms(5) by simp
  ultimately show ?thesis
    using check_allowed [OF w assms(7), of k] assms(6) rate_valid [OF assms(1)]
    by (simp add: st'_def rate_kept valid_rate_def)
qed

lemma wait_is_needed:
  assumes "wf st t" and "t \<le> now" and "ok (rate_of st) now" and "\<not> allowed (fst (check st k now))"
    and "later \<le> now + retry_after (fst (check st k now)) - grain" and "ok (rate_of st) later"
    and "now \<le> later"
  shows "\<not> allowed (fst (check (snd (check st k now)) k later))"
proof -
  define st' where "st' = snd (check st k now)"
  have w: "wf st' now" using wf_kept assms(1-3) by (simp add: st'_def)
  have "eff st' k now = eff st k now"
    using check_eff [OF assms(1-3)] assms(4) by (simp add: st'_def)
  moreover have "eff st' k later = max (eff st' k now) later" by (rule eff_later [OF w assms(7)])
  moreover have "later + tolerance_us (rate_of st) < eff st k now"
    using check_wait [OF assms(1-4)] assms(5) by simp
  ultimately show ?thesis
    using check_allowed [OF w assms(7), of k] assms(6)
    by (simp add: st'_def rate_kept)
qed

end

section \<open>The SQLite backend\<close>

record gcra_row =
  tat_us :: int
  expires_at_us :: int

text \<open>
  \<open>SqliteBackend\<close>: the rows of \<open>rate_limit_gcra\<close> by key, and the \<open>AtomicU64\<close> that counts requests (it
  wraps). The database is not under \<open>src/\<close>; each call it makes may fail, which the \<open>fault\<close> argument
  says. A transaction that fails is rolled back, so its rows are as before.
\<close>

record sqlite_backend =
  sq_rate :: gcra_rate
  cleanup_interval_requests :: nat
  requests :: nat
  rows :: "ustr \<Rightarrow> gcra_row option"

datatype sqlite_fault =
    No_fault | Mutex_poisoned | Begin_failed | Clock_failed | Cleanup_failed
  | Select_failed | Upsert_failed | Commit_failed

definition delete_expired :: "int \<Rightarrow> (ustr \<Rightarrow> gcra_row option) \<Rightarrow> ustr \<Rightarrow> gcra_row option" where
  "delete_expired now rs = (\<lambda>k. case rs k of None \<Rightarrow> None
     | Some r \<Rightarrow> if expires_at_us r \<le> now then None else Some r)"

definition sqlite_check ::
    "sqlite_backend \<Rightarrow> ustr \<Rightarrow> int \<Rightarrow> sqlite_fault \<Rightarrow> (sqlite_fault + decision) \<times> sqlite_backend" where
  "sqlite_check st key now fault =
     (let n = (requests st + 1) mod 2 ^ 64;
          st1 = st\<lparr>requests := n\<rparr>;
          cleanup = cleanup_interval_requests st dvd n;
          rate = sq_rate st
      in if fault \<in> {Mutex_poisoned, Begin_failed, Clock_failed} then (Inl fault, st1)
      else if cleanup \<and> fault = Cleanup_failed then (Inl fault, st1)
      else
        let rs = (if cleanup then delete_expired now (rows st) else rows st) in
        if fault = Select_failed then (Inl fault, st1)
        else
          let tat = (case rs key of None \<Rightarrow> now | Some r \<Rightarrow> tat_us r);
              allow_at = sat_i64 (tat - tolerance_us rate)
          in if now < allow_at then
               (if fault = Commit_failed then (Inl fault, st1)
                else (Inr (reject (allow_at - now)), st1\<lparr>rows := rs\<rparr>))
             else
               let new_tat = sat_i64 (max tat now + interval_us rate);
                   expires_at = sat_i64 (new_tat + tolerance_us rate)
               in if fault = Upsert_failed \<or> fault = Commit_failed then (Inl fault, st1)
                  else (Inr allow, st1\<lparr>rows := rs(key \<mapsto> \<lparr>tat_us = new_tat, expires_at_us = expires_at\<rparr>)\<rparr>))"

text \<open>The fault-free call, its arrival times and its invariant.\<close>

definition sqlite_decide :: "sqlite_backend \<Rightarrow> ustr \<Rightarrow> int \<Rightarrow> decision \<times> sqlite_backend" where
  "sqlite_decide st key now =
     (case sqlite_check st key now No_fault of (Inr d, st') \<Rightarrow> (d, st') | (Inl e, st') \<Rightarrow> (reject 0, st'))"

definition sqlite_eff :: "sqlite_backend \<Rightarrow> ustr \<Rightarrow> int \<Rightarrow> int" where
  "sqlite_eff st k t = (case rows st k of None \<Rightarrow> t | Some r \<Rightarrow> max (tat_us r) t)"

definition sqlite_wf :: "sqlite_backend \<Rightarrow> int \<Rightarrow> bool" where
  "sqlite_wf st t \<longleftrightarrow> valid_rate (sq_rate st) \<and> 0 \<le> t \<and>
     (\<forall>k r. rows st k = Some r \<longrightarrow>
        0 \<le> tat_us r \<and> tat_us r \<le> t + tolerance_us (sq_rate st) + interval_us (sq_rate st) \<and>
        tat_us r \<le> expires_at_us r)"

text \<open>Clock readings for which no sum of the code reaches the end of \<open>i64\<close>.\<close>

definition i64_clock :: "gcra_rate \<Rightarrow> int \<Rightarrow> bool" where
  "i64_clock r now \<longleftrightarrow>
     0 \<le> now \<and> now + 2 * tolerance_us r + interval_us r \<le> i64_max \<and> tolerance_us r \<le> i64_max"

definition sqlite_swept :: "sqlite_backend \<Rightarrow> int \<Rightarrow> ustr \<Rightarrow> gcra_row option" where
  "sqlite_swept st now =
     (if cleanup_interval_requests st dvd (requests st + 1) mod 2 ^ 64 then delete_expired now (rows st)
      else rows st)"

definition sqlite_tat :: "sqlite_backend \<Rightarrow> ustr \<Rightarrow> int \<Rightarrow> int" where
  "sqlite_tat st key now = (case sqlite_swept st now key of None \<Rightarrow> now | Some r \<Rightarrow> tat_us r)"

lemma sqlite_swept_SomeD: "sqlite_swept st now k = Some r \<Longrightarrow> rows st k = Some r"
  by (auto simp: sqlite_swept_def delete_expired_def split: option.splits if_splits)

text \<open>Expired rows carry no information: an arrival time in the past counts as now.\<close>

lemma sqlite_swept_eff:
  assumes "sqlite_wf st t"
  shows "(case sqlite_swept st now k of None \<Rightarrow> now | Some r \<Rightarrow> max (tat_us r) now) = sqlite_eff st k now"
  using assms
  by (fastforce simp: sqlite_swept_def delete_expired_def sqlite_eff_def sqlite_wf_def max_def
    split: option.splits if_splits)

lemma sqlite_tat_eff:
  assumes "sqlite_wf st t"
  shows "max (sqlite_tat st key now) now = sqlite_eff st key now"
  unfolding sqlite_swept_eff [OF assms, symmetric] sqlite_tat_def by (auto split: option.splits)

lemma sqlite_tat_bounds:
  assumes "sqlite_wf st t" and "t \<le> now"
  shows "0 \<le> sqlite_tat st k now"
    and "sqlite_tat st k now \<le> now + tolerance_us (sq_rate st) + interval_us (sq_rate st)"
proof -
  have v: "0 < interval_us (sq_rate st)" "0 \<le> tolerance_us (sq_rate st)" "0 \<le> t"
    using assms(1) by (auto simp: sqlite_wf_def valid_rate_def)
  have "0 \<le> sqlite_tat st k now \<and>
      sqlite_tat st k now \<le> now + tolerance_us (sq_rate st) + interval_us (sq_rate st)"
  proof (cases "sqlite_swept st now k")
    case None
    then show ?thesis using v assms(2) by (simp add: sqlite_tat_def)
  next
    case (Some r)
    then have "rows st k = Some r" by (rule sqlite_swept_SomeD)
    then have "0 \<le> tat_us r" "tat_us r \<le> t + tolerance_us (sq_rate st) + interval_us (sq_rate st)"
      using assms(1) by (auto simp: sqlite_wf_def)
    then show ?thesis using Some assms(2) by (simp add: sqlite_tat_def)
  qed
  then show "0 \<le> sqlite_tat st k now"
    and "sqlite_tat st k now \<le> now + tolerance_us (sq_rate st) + interval_us (sq_rate st)" by auto
qed

lemma sqlite_decide_raw:
  "sqlite_decide st key now =
     (let st1 = st\<lparr>requests := (requests st + 1) mod 2 ^ 64\<rparr>;
          tat = sqlite_tat st key now; rate = sq_rate st;
          allow_at = sat_i64 (tat - tolerance_us rate);
          new_tat = sat_i64 (max tat now + interval_us rate) in
      if now < allow_at then (reject (allow_at - now), st1\<lparr>rows := sqlite_swept st now\<rparr>)
      else (allow, st1\<lparr>rows := (sqlite_swept st now)
        (key \<mapsto> \<lparr>tat_us = new_tat, expires_at_us = sat_i64 (new_tat + tolerance_us rate)\<rparr>)\<rparr>))"
  by (simp add: sqlite_decide_def sqlite_check_def Let_def sqlite_tat_def sqlite_swept_def)

text \<open>Inside the range no saturation happens, so a call computes with plain integers.\<close>

lemma sqlite_decide_eq:
  assumes "sqlite_wf st t" and "t \<le> now" and "i64_clock (sq_rate st) now"
  shows "sqlite_decide st key now =
    (let st1 = st\<lparr>requests := (requests st + 1) mod 2 ^ 64\<rparr>;
         e = sqlite_eff st key now; tol = tolerance_us (sq_rate st) in
     if now + tol < e then (reject (e - tol - now), st1\<lparr>rows := sqlite_swept st now\<rparr>)
     else (allow, st1\<lparr>rows := (sqlite_swept st now)
       (key \<mapsto> \<lparr>tat_us = e + interval_us (sq_rate st), expires_at_us = e + interval_us (sq_rate st) + tol\<rparr>)\<rparr>))"
proof -
  let ?tat = "sqlite_tat st key now" and ?tol = "tolerance_us (sq_rate st)"
    and ?int = "interval_us (sq_rate st)" and ?e = "sqlite_eff st key now"
  have b: "0 \<le> ?tat" "?tat \<le> now + ?tol + ?int" by (rule sqlite_tat_bounds [OF assms(1,2)])+
  have e: "?e = max ?tat now" by (simp add: sqlite_tat_eff [OF assms(1)])
  have v: "0 < ?int" "0 \<le> ?tol" "0 \<le> now" "now + 2 * ?tol + ?int \<le> i64_max"
    using assms by (auto simp: sqlite_wf_def valid_rate_def i64_clock_def)
  have sub: "sat_i64 (?tat - ?tol) = ?tat - ?tol"
    using b v by (intro sat_i64_id) (simp add: in_i64_def i64_min_def i64_max_def)
  have late: "now < ?tat - ?tol \<longleftrightarrow> now + ?tol < ?e" using e v by auto
  have sums: "sat_i64 (?e + ?int) = ?e + ?int" "sat_i64 (?e + ?int + ?tol) = ?e + ?int + ?tol"
    if "\<not> now + ?tol < ?e"
    using that v e by (auto intro!: sat_i64_id simp: in_i64_def i64_min_def)
  have early: "now < ?e" "?tat = ?e" if "now + ?tol < ?e" using that v e by auto
  show ?thesis
  proof (cases "now + ?tol < ?e")
    case True
    with early have "?tat = ?e" by simp
    then show ?thesis using True late sub by (simp add: sqlite_decide_raw Let_def)
  next
    case False
    then show ?thesis using late sub sums [OF False] by (simp add: sqlite_decide_raw Let_def e)
  qed
qed

lemma sqlite_wf_upd:
  assumes "sqlite_wf st t" and "t \<le> now" and "\<And>k r. rs k = Some r \<Longrightarrow> rows st k = Some r \<or>
      (0 \<le> tat_us r \<and> tat_us r \<le> now + tolerance_us (sq_rate st) + interval_us (sq_rate st) \<and>
       tat_us r \<le> expires_at_us r)"
  shows "sqlite_wf (st\<lparr>requests := n, rows := rs\<rparr>) now"
proof -
  have "0 \<le> tat_us r \<and> tat_us r \<le> now + tolerance_us (sq_rate st) + interval_us (sq_rate st) \<and>
      tat_us r \<le> expires_at_us r" if "rs k = Some r" for k r
  proof (cases "rows st k = Some r")
    case True
    then have "0 \<le> tat_us r" "tat_us r \<le> expires_at_us r"
      "tat_us r \<le> t + tolerance_us (sq_rate st) + interval_us (sq_rate st)"
      using assms(1) unfolding sqlite_wf_def by blast+
    then show ?thesis using assms(2) by simp
  qed (use assms(3) [OF that] in blast)
  then show ?thesis using assms(1,2) by (simp add: sqlite_wf_def)
qed

lemma sqlite_law_wf:
  assumes "sqlite_wf st t" and "t \<le> now" and "i64_clock (sq_rate st) now"
  shows "sqlite_wf (snd (sqlite_decide st k now)) now"
proof -
  let ?e = "sqlite_eff st k now" and ?tol = "tolerance_us (sq_rate st)" and ?int = "interval_us (sq_rate st)"
  have v: "0 < ?int" "0 \<le> ?tol" "0 \<le> now"
    using assms by (auto simp: sqlite_wf_def valid_rate_def)
  have e: "now \<le> ?e" by (auto simp: sqlite_eff_def split: option.split)
  show ?thesis
    unfolding sqlite_decide_eq [OF assms] Let_def
    using v e
    by (auto intro!: sqlite_wf_upd [OF assms(1,2)] dest: sqlite_swept_SomeD split: if_splits)
qed

lemma sqlite_law_eff:
  assumes "sqlite_wf st t" and "t \<le> now" and "i64_clock (sq_rate st) now"
  shows "sqlite_eff (snd (sqlite_decide st k now)) k' now =
    (if k' = k \<and> allowed (fst (sqlite_decide st k now)) then sqlite_eff st k now + interval_us (sq_rate st)
     else sqlite_eff st k' now)"
proof -
  have v: "0 < interval_us (sq_rate st)" using assms by (auto simp: sqlite_wf_def valid_rate_def)
  have e: "now \<le> sqlite_eff st k now" by (auto simp: sqlite_eff_def split: option.split)
  show ?thesis
    unfolding sqlite_decide_eq [OF assms] Let_def
    using v e sqlite_swept_eff [OF assms(1), of now k']
    by (auto simp: sqlite_eff_def [of "_\<lparr>rows := _\<rparr>"])
qed

interpretation sq: gcra_backend sqlite_decide sqlite_eff sqlite_wf sq_rate i64_clock 1
proof
  show "sqlite_wf st t \<Longrightarrow> valid_rate (sq_rate st)" for st t by (simp add: sqlite_wf_def)
  show "sq_rate (snd (sqlite_decide st k now)) = sq_rate st" for st k now
    by (simp add: sqlite_decide_raw Let_def)
  show "sqlite_eff st k now = max (sqlite_eff st k t) now" if "t \<le> now" for st t k now
    using that by (auto simp: sqlite_eff_def split: option.split)
  show "allowed (fst (sqlite_decide st k now)) \<longleftrightarrow> sqlite_eff st k now \<le> now + tolerance_us (sq_rate st)"
    if "sqlite_wf st t" "t \<le> now" "i64_clock (sq_rate st) now" for st t k now
    by (auto simp: sqlite_decide_eq [OF that] Let_def)
  show "sqlite_eff st k now - tolerance_us (sq_rate st) - now \<le> retry_after (fst (sqlite_decide st k now)) \<and>
      retry_after (fst (sqlite_decide st k now)) < sqlite_eff st k now - tolerance_us (sq_rate st) - now + 1"
    if "sqlite_wf st t" "t \<le> now" "i64_clock (sq_rate st) now"
      "\<not> allowed (fst (sqlite_decide st k now))" for st t k now
    using that(4) by (auto simp: sqlite_decide_eq [OF that(1-3)] Let_def split: if_splits)
qed (fact sqlite_law_wf sqlite_law_eff)+

section \<open>The Redis backend\<close>

text \<open>
  The Lua script runs atomically in the server. An entry remembers the value, when it was set and its
  \<open>PX\<close> lifetime; \<open>px_alive\<close> (set at, lifetime in ms, now) is the server's own expiry rule, of which
  \<open>redis_wf\<close> only asks what the server documents: no key is dropped before its lifetime is over.
\<close>

record redis_entry =
  value_us :: int
  set_at_us :: int
  ttl_ms :: int

record redis_backend =
  rd_rate :: gcra_rate
  key_prefix :: ustr
  px_alive :: "int \<Rightarrow> int \<Rightarrow> int \<Rightarrow> bool"
  entries :: "ustr \<Rightarrow> redis_entry option"

definition ceil_div :: "int \<Rightarrow> int \<Rightarrow> int" where
  "ceil_div a b = - ((- a) div b)"

lemma ceil_div_bounds: "0 < b \<Longrightarrow> a \<le> ceil_div a b * b \<and> ceil_div a b * b < a + b"
proof -
  assume b: "0 < b"
  have "ceil_div a b * b = a + (- a) mod b"
    using div_mult_mod_eq [of "- a" b] unfolding ceil_div_def mult_minus_left by linarith
  then show ?thesis using b pos_mod_bound [of b "- a"] pos_mod_sign [of b "- a"] by simp
qed

definition redis_tat :: "redis_backend \<Rightarrow> ustr \<Rightarrow> int \<Rightarrow> int" where
  "redis_tat st full now =
     (case entries st full of
        Some e \<Rightarrow> if px_alive st (set_at_us e) (ttl_ms e) now then value_us e else now
      | None \<Rightarrow> now)"

text \<open>\<open>REDIS_GCRA_SCRIPT\<close>: the reply \<open>{flag, milliseconds}\<close> and the entries afterwards.\<close>

definition redis_script :: "redis_backend \<Rightarrow> ustr \<Rightarrow> int \<Rightarrow> (int \<times> int) \<times> redis_backend" where
  "redis_script st full now =
     (let interval = interval_us (rd_rate st); tolerance = tolerance_us (rd_rate st);
          tat = redis_tat st full now;
          allow_at = tat - tolerance
      in if now < allow_at then ((0, ceil_div (allow_at - now) 1000), st)
      else
        let new_tat = max tat now + interval;
            ttl = max 1000 (ceil_div (new_tat - now + tolerance) 1000)
        in ((1, 0), st\<lparr>entries := (entries st)
             (full \<mapsto> \<lparr>value_us = new_tat, set_at_us = now, ttl_ms = ttl\<rparr>)\<rparr>))"

datatype redis_fault = Redis_ok | Redis_unreachable | Reply_lost

definition redis_check ::
    "redis_backend \<Rightarrow> ustr \<Rightarrow> int \<Rightarrow> redis_fault \<Rightarrow> (redis_fault + decision) \<times> redis_backend" where
  "redis_check st key now fault =
     (if fault = Redis_unreachable then (Inl fault, st)
      else case redis_script st (key_prefix st @ key) now of
        ((flag, ms), st') \<Rightarrow>
          if fault = Reply_lost then (Inl fault, st')
          else if flag = 1 then (Inr allow, st')
          else (Inr (reject (max ms 1 * 1000)), st'))"

definition redis_decide :: "redis_backend \<Rightarrow> ustr \<Rightarrow> int \<Rightarrow> decision \<times> redis_backend" where
  "redis_decide st key now =
     (case redis_check st key now Redis_ok of (Inr d, st') \<Rightarrow> (d, st') | (Inl e, st') \<Rightarrow> (reject 0, st'))"

definition redis_eff :: "redis_backend \<Rightarrow> ustr \<Rightarrow> int \<Rightarrow> int" where
  "redis_eff st k t = (case entries st (key_prefix st @ k) of None \<Rightarrow> t | Some e \<Rightarrow> max (value_us e) t)"

definition redis_wf :: "redis_backend \<Rightarrow> int \<Rightarrow> bool" where
  "redis_wf st t \<longleftrightarrow> valid_rate (rd_rate st) \<and>
     (\<forall>s ttl now. \<not> px_alive st s ttl now \<longrightarrow> s + ttl * 1000 \<le> now) \<and>
     (\<forall>k e. entries st k = Some e \<longrightarrow> value_us e \<le> set_at_us e + ttl_ms e * 1000)"

text \<open>Lua computes with doubles, exact for integers up to $2^{53}$.\<close>

definition lua_clock :: "gcra_rate \<Rightarrow> int \<Rightarrow> bool" where
  "lua_clock r now \<longleftrightarrow> 0 \<le> now \<and> now + 2 * tolerance_us r + interval_us r \<le> 2 ^ 53"

lemma redis_tat_eff:
  assumes "redis_wf st t"
  shows "max (redis_tat st (key_prefix st @ k) now) now = redis_eff st k now"
  using assms
proof (cases "entries st (key_prefix st @ k)")
  case (Some e)
  then have "value_us e \<le> set_at_us e + ttl_ms e * 1000"
    and "\<not> px_alive st (set_at_us e) (ttl_ms e) now \<Longrightarrow> set_at_us e + ttl_ms e * 1000 \<le> now"
    using assms by (auto simp: redis_wf_def)
  then have "\<not> px_alive st (set_at_us e) (ttl_ms e) now \<Longrightarrow> value_us e \<le> now" by linarith
  with Some show ?thesis by (auto simp: redis_tat_def redis_eff_def max_def)
qed (simp add: redis_tat_def redis_eff_def)

lemma redis_decide_eq:
  assumes "redis_wf st t"
  shows "redis_decide st k now =
    (let e = redis_eff st k now; tol = tolerance_us (rd_rate st); new = e + interval_us (rd_rate st) in
     if now + tol < e then (reject (max (ceil_div (e - tol - now) 1000) 1 * 1000), st)
     else (allow, st\<lparr>entries := (entries st)(key_prefix st @ k \<mapsto>
        \<lparr>value_us = new, set_at_us = now, ttl_ms = max 1000 (ceil_div (new - now + tol) 1000)\<rparr>)\<rparr>))"
proof -
  let ?tat = "redis_tat st (key_prefix st @ k) now" and ?tol = "tolerance_us (rd_rate st)"
  have e: "max ?tat now = redis_eff st k now" by (rule redis_tat_eff [OF assms])
  have "0 \<le> ?tol" using assms by (simp add: redis_wf_def valid_rate_def)
  then have "now < ?tat - ?tol \<longleftrightarrow> now + ?tol < redis_eff st k now"
    and "now + ?tol < redis_eff st k now \<Longrightarrow> ?tat = redis_eff st k now"
    unfolding e [symmetric] by auto
  then show ?thesis
    by (cases "now + ?tol < redis_eff st k now")
      (simp_all add: redis_decide_def redis_check_def redis_script_def Let_def e)
qed

lemma redis_law_wf:
  assumes "redis_wf st t"
  shows "redis_wf (snd (redis_decide st k now)) now"
proof -
  define new where "new = redis_eff st k now + interval_us (rd_rate st)"
  define ttl where "ttl = max 1000 (ceil_div (new - now + tolerance_us (rd_rate st)) 1000)"
  have tol: "0 \<le> tolerance_us (rd_rate st)" using assms by (simp add: redis_wf_def valid_rate_def)
  have "new - now + tolerance_us (rd_rate st) \<le> ceil_div (new - now + tolerance_us (rd_rate st)) 1000 * 1000"
    using ceil_div_bounds [of 1000] by simp
  then have "new \<le> now + ttl * 1000"
    using tol by (auto simp: ttl_def max_def split: if_splits)
  then show ?thesis
    using assms unfolding redis_decide_eq [OF assms] Let_def
    by (auto simp: redis_wf_def new_def ttl_def)
qed

lemma redis_law_eff:
  assumes "redis_wf st t"
  shows "redis_eff (snd (redis_decide st k now)) k' now =
    (if k' = k \<and> allowed (fst (redis_decide st k now)) then redis_eff st k now + interval_us (rd_rate st)
     else redis_eff st k' now)"
proof -
  have "0 < interval_us (rd_rate st)" using assms by (auto simp: redis_wf_def valid_rate_def)
  moreover have "now \<le> redis_eff st k now" by (auto simp: redis_eff_def split: option.split)
  ultimately show ?thesis
    unfolding redis_decide_eq [OF assms] Let_def
    by (auto simp: redis_eff_def [of "_\<lparr>entries := _\<rparr>"] redis_eff_def [of st k'])
qed

lemma redis_law_wait:
  assumes "redis_wf st t" and "\<not> allowed (fst (redis_decide st k now))"
  shows "redis_eff st k now - tolerance_us (rd_rate st) - now \<le> retry_after (fst (redis_decide st k now)) \<and>
    retry_after (fst (redis_decide st k now)) < redis_eff st k now - tolerance_us (rd_rate st) - now + 1000"
proof -
  define w where "w = redis_eff st k now - tolerance_us (rd_rate st) - now"
  have "0 < w" and eq: "retry_after (fst (redis_decide st k now)) = max (ceil_div w 1000) 1 * 1000"
    using assms(2) by (auto simp: redis_decide_eq [OF assms(1)] Let_def w_def split: if_splits)
  moreover have "w \<le> ceil_div w 1000 * 1000 \<and> ceil_div w 1000 * 1000 < w + 1000"
    by (rule ceil_div_bounds) simp
  ultimately show ?thesis unfolding w_def [symmetric] by auto
qed

interpretation rd: gcra_backend redis_decide redis_eff redis_wf rd_rate lua_clock 1000
proof
  show "redis_wf st t \<Longrightarrow> valid_rate (rd_rate st)" for st t by (simp add: redis_wf_def)
  show "rd_rate (snd (redis_decide st k now)) = rd_rate st" for st k now
    by (simp add: redis_decide_def redis_check_def redis_script_def Let_def)
  show "redis_eff st k now = max (redis_eff st k t) now" if "t \<le> now" for st t k now
    using that by (auto simp: redis_eff_def split: option.split)
  show "allowed (fst (redis_decide st k now)) \<longleftrightarrow> redis_eff st k now \<le> now + tolerance_us (rd_rate st)"
    if "redis_wf st t" for st t k now
    by (auto simp: redis_decide_eq [OF that] Let_def)
qed (rule redis_law_wf redis_law_eff redis_law_wait; assumption)+

section \<open>The persistent limiter\<close>

datatype backend = Sqlite_backend sqlite_backend | Redis_backend redis_backend

record persistent_limiter =
  backend :: backend
  fail_open :: bool

record backend_faults =
  sq_fault :: sqlite_fault
  rd_fault :: redis_fault

definition no_faults :: backend_faults where
  "no_faults = \<lparr>sq_fault = No_fault, rd_fault = Redis_ok\<rparr>"

definition backend_check ::
    "backend \<Rightarrow> ustr \<Rightarrow> int \<Rightarrow> backend_faults \<Rightarrow> decision option \<times> backend" where
  "backend_check be key now f =
     (case be of
        Sqlite_backend st \<Rightarrow> (case sqlite_check st key now (sq_fault f) of
          (Inr d, st') \<Rightarrow> (Some d, Sqlite_backend st') | (Inl _, st') \<Rightarrow> (None, Sqlite_backend st'))
      | Redis_backend st \<Rightarrow> (case redis_check st key now (rd_fault f) of
          (Inr d, st') \<Rightarrow> (Some d, Redis_backend st') | (Inl _, st') \<Rightarrow> (None, Redis_backend st')))"

text \<open>\<open>PersistentRateLimiter::check\<close>: a failed backend admits or rejects (for one second) by configuration.\<close>

definition persistent_check ::
    "persistent_limiter \<Rightarrow> ustr \<Rightarrow> int \<Rightarrow> backend_faults \<Rightarrow> decision \<times> persistent_limiter" where
  "persistent_check lim key now f =
     (case backend_check (backend lim) key now f of
        (Some d, be) \<Rightarrow> (d, lim\<lparr>backend := be\<rparr>)
      | (None, be) \<Rightarrow> (if fail_open lim then allow else reject 1000000, lim\<lparr>backend := be\<rparr>))"

text \<open>
  \<open>from_config\<close>; the rows found in the SQLite file, and the Redis server's entries and expiry rule,
  come from outside. \<open>login_rate_limit_config\<close> of \<open>src/app.rs\<close> derives the limiter of the login form.
\<close>

definition from_config ::
    "(ustr \<Rightarrow> gcra_row option) \<Rightarrow> (int \<Rightarrow> int \<Rightarrow> int \<Rightarrow> bool) \<Rightarrow> (ustr \<Rightarrow> redis_entry option) \<Rightarrow>
     rate_limit_config \<Rightarrow> config_error + persistent_limiter" where
  "from_config disk alive server c =
     (case new_rate (requests_per_second c) (burst_size c) of
        Inl e \<Rightarrow> Inl e
      | Inr rate \<Rightarrow> Inr \<lparr>backend = (case backend_choice c of
            Sqlite \<Rightarrow> Sqlite_backend \<lparr>sq_rate = rate,
              cleanup_interval_requests = cleanup_interval (sqlite_cfg c), requests = 0, rows = disk\<rparr>
          | Redis \<Rightarrow> Redis_backend \<lparr>rd_rate = rate, key_prefix = key_prefix_cfg (redis_cfg c),
              px_alive = alive, entries = server\<rparr>),
          fail_open = fail_open_cfg c\<rparr>)"

definition login_rate_limit_config :: "rate_limit_config \<Rightarrow> rate_limit_config" where
  "login_rate_limit_config c = c\<lparr>requests_per_second := 1, burst_size := 5\<rparr>"

definition limiter_rate :: "persistent_limiter \<Rightarrow> gcra_rate" where
  "limiter_rate lim = (case backend lim of Sqlite_backend st \<Rightarrow> sq_rate st | Redis_backend st \<Rightarrow> rd_rate st)"

definition limiter_wf :: "persistent_limiter \<Rightarrow> int \<Rightarrow> bool" where
  "limiter_wf lim t =
     (case backend lim of Sqlite_backend st \<Rightarrow> sqlite_wf st t | Redis_backend st \<Rightarrow> redis_wf st t)"

definition limiter_clock :: "persistent_limiter \<Rightarrow> int \<Rightarrow> bool" where
  "limiter_clock lim = (case backend lim of
     Sqlite_backend st \<Rightarrow> i64_clock (sq_rate st) | Redis_backend st \<Rightarrow> lua_clock (rd_rate st))"

definition limiter_eff :: "persistent_limiter \<Rightarrow> ustr \<Rightarrow> int \<Rightarrow> int" where
  "limiter_eff lim = (case backend lim of
     Sqlite_backend st \<Rightarrow> sqlite_eff st | Redis_backend st \<Rightarrow> redis_eff st)"

definition limiter_admit :: "persistent_limiter \<Rightarrow> ustr \<Rightarrow> int \<Rightarrow> bool \<times> persistent_limiter" where
  "limiter_admit lim k now =
     (case persistent_check lim k now no_faults of (d, lim') \<Rightarrow> (allowed d, lim'))"

lemma sqlite_check_no_fault:
  "sqlite_check st k now No_fault = (Inr (fst (sqlite_decide st k now)), snd (sqlite_decide st k now))"
  by (simp add: sqlite_decide_def sqlite_check_def Let_def)

lemma redis_check_no_fault:
  "redis_check st k now Redis_ok = (Inr (fst (redis_decide st k now)), snd (redis_decide st k now))"
  by (simp add: redis_decide_def redis_check_def redis_script_def Let_def)

lemma limiter_admit_sqlite:
  "limiter_admit \<lparr>backend = Sqlite_backend st, fail_open = f\<rparr> k now =
     (case sq.admit st k now of (b, st') \<Rightarrow> (b, \<lparr>backend = Sqlite_backend st', fail_open = f\<rparr>))"
  by (simp add: limiter_admit_def persistent_check_def backend_check_def no_faults_def
      sqlite_check_no_fault sq.admit_def)

lemma limiter_admit_redis:
  "limiter_admit \<lparr>backend = Redis_backend st, fail_open = f\<rparr> k now =
     (case rd.admit st k now of (b, st') \<Rightarrow> (b, \<lparr>backend = Redis_backend st', fail_open = f\<rparr>))"
  by (simp add: limiter_admit_def persistent_check_def backend_check_def no_faults_def
      redis_check_no_fault rd.admit_def)

lemma limiter_run_sqlite:
  "gcra_run limiter_admit \<lparr>backend = Sqlite_backend st, fail_open = f\<rparr> rs = gcra_run sq.admit st rs"
  by (induction rs arbitrary: st) (auto simp: limiter_admit_sqlite split: prod.split)

lemma limiter_run_redis:
  "gcra_run limiter_admit \<lparr>backend = Redis_backend st, fail_open = f\<rparr> rs = gcra_run rd.admit st rs"
  by (induction rs arbitrary: st) (auto simp: limiter_admit_redis split: prod.split)

lemmas limiter_defs =
  limiter_wf_def limiter_rate_def limiter_clock_def limiter_eff_def

text \<open>Whatever the backend, a limiter decides like the textbook algorithm.\<close>

lemma limiter_run_spec:
  assumes "limiter_wf lim t" and "ordered_from (limiter_clock lim) t rs"
  shows "gcra_run limiter_admit lim rs =
    gcra_run (gcra_step (limiter_rate lim)) (\<lambda>k. limiter_eff lim k t) rs"
proof -
  obtain be f where lim: "lim = \<lparr>backend = be, fail_open = f\<rparr>" by (cases lim)
  show ?thesis
    using assms sq.run_spec rd.run_spec
    by (cases be) (simp_all add: lim limiter_defs limiter_run_sqlite limiter_run_redis)
qed

lemma limiter_run_bound:
  assumes "limiter_wf lim t" and "ordered_from (limiter_clock lim) t rs"
    and "t \<le> b" and "\<forall>x\<in>set rs. snd x \<le> b"
  shows "int (admitted k rs (gcra_run limiter_admit lim rs)) * interval_us (limiter_rate lim)
           \<le> (b - t) + tolerance_us (limiter_rate lim) + interval_us (limiter_rate lim)"
proof -
  let ?n = "admitted k rs (gcra_run limiter_admit lim rs)"
  have v: "valid_rate (limiter_rate lim)"
    using assms(1) by (auto simp: limiter_defs sqlite_wf_def redis_wf_def split: backend.splits)
  show ?thesis
  proof (cases "?n = 0")
    case True
    then show ?thesis using v assms(3) by (simp add: valid_rate_def)
  next
    case False
    then have "max (limiter_eff lim k t) t + (int ?n - 1) * interval_us (limiter_rate lim)
        \<le> b + tolerance_us (limiter_rate lim)"
      unfolding limiter_run_spec [OF assms(1,2)]
      by (intro gcra_bound_aux [OF v assms(2,4)]) simp
    then show ?thesis by (simp add: algebra_simps)
  qed
qed

lemma login_rate: "from_config disk alive server (login_rate_limit_config c) = Inr lim \<Longrightarrow>
    limiter_rate lim = \<lparr>interval_us = 1000000, tolerance_us = 4000000\<rparr>"
  by (auto simp: from_config_def login_rate_limit_config_def new_rate_def limiter_rate_def i64_max_def
      split: backend_kind.splits)

text \<open>A configuration and an all-admitting start, for the concrete runs below.\<close>

definition sample_config :: rate_limit_config where
  "sample_config = \<lparr>enabled = True, requests_per_second = 50, burst_size = 100, max_coroutines_per_ip = 8,
     tls_handshake_timeout_secs = 5, connection_timeout_secs = 30, max_tracked_ips = 1000,
     backend_choice = Sqlite, fail_open_cfg = False,
     sqlite_cfg = \<lparr>sqlite_path = lit ''data/rl.db'', busy_timeout_ms = 100, cleanup_interval = 2\<rparr>,
     redis_cfg = \<lparr>redis_host = lit ''redis'', redis_port = 6379, redis_database = 0, redis_tls = True,
       key_prefix_cfg = lit ''kraken:'', connect_timeout_secs = 2, response_timeout_secs = 2,
       redis_retries = 1\<rparr>\<rparr>"

definition login_start :: persistent_limiter where
  "login_start = \<lparr>backend = Sqlite_backend \<lparr>sq_rate = \<lparr>interval_us = 1000000, tolerance_us = 4000000\<rparr>,
     cleanup_interval_requests = 2, requests = 0, rows = (\<lambda>_. None)\<rparr>, fail_open = False\<rparr>"

definition redis_start :: persistent_limiter where
  "redis_start = \<lparr>backend = Redis_backend \<lparr>rd_rate = \<lparr>interval_us = 1000000, tolerance_us = 4000000\<rparr>,
     key_prefix = lit ''kraken:'', px_alive = (\<lambda>s ttl now. now < s + ttl * 1000), entries = (\<lambda>_. None)\<rparr>,
     fail_open = False\<rparr>"

lemma start_wf: "limiter_wf login_start 0" "limiter_wf redis_start 0"
  by (simp_all add: limiter_defs login_start_def redis_start_def sqlite_wf_def redis_wf_def valid_rate_def)

lemma start_rate:
  "limiter_rate login_start = \<lparr>interval_us = 1000000, tolerance_us = 4000000\<rparr>"
  "limiter_rate redis_start = \<lparr>interval_us = 1000000, tolerance_us = 4000000\<rparr>"
  by (simp_all add: limiter_defs login_start_def redis_start_def)

definition six_tries :: "(ustr \<times> int) list" where
  "six_tries = map (\<lambda>n. (lit ''10.0.0.9'', n)) [0, 10, 20, 30, 40, 50]"

lemma six_ordered: "ordered_from (limiter_clock login_start) 0 six_tries"
  "ordered_from (limiter_clock redis_start) 0 six_tries"
  by (simp_all add: limiter_defs six_tries_def login_start_def redis_start_def i64_clock_def
      lua_clock_def i64_max_def)



text \<open>
  Two limiters with the same rate that start from the same arrival times take
  the same decisions on every trace, whichever backend each one has: neither the sweeps of the
  SQLite table nor the server-side expiry of Redis keys ever changes a decision.
\<close>

theorem limiters_agree:
  assumes "limiter_wf lim t" and "limiter_wf lim' t" and "limiter_rate lim = limiter_rate lim'"
    and "\<And>k. limiter_eff lim k t = limiter_eff lim' k t"
    and "ordered_from (limiter_clock lim) t rs" and "ordered_from (limiter_clock lim') t rs"
  shows "gcra_run limiter_admit lim rs = gcra_run limiter_admit lim' rs"
  unfolding limiter_run_spec [OF assms(1,5)] limiter_run_spec [OF assms(2,6)] by (simp add: assms(3,4))

theorem limiters_agree_witness:
  "gcra_run limiter_admit redis_start six_tries = gcra_run limiter_admit login_start six_tries"
proof (rule limiters_agree [where t = 0])
  show "limiter_eff redis_start k 0 = limiter_eff login_start k 0" for k
    by (simp add: limiter_defs redis_start_def login_start_def redis_eff_def sqlite_eff_def)
qed (simp_all add: start_wf start_rate six_ordered)

lemma limiter_run_isolated:
  assumes "limiter_wf lim t" and "ordered_from (limiter_clock lim) t rs"
  shows "map snd (filter (\<lambda>(r, b). fst r = k) (zip rs (gcra_run limiter_admit lim rs))) =
    gcra_run limiter_admit lim (filter (\<lambda>q. fst q = k) rs)"
proof -
  obtain be f where lim: "lim = \<lparr>backend = be, fail_open = f\<rparr>" by (cases lim)
  show ?thesis
    using assms sq.run_isolated rd.run_isolated
    by (cases be) (simp_all add: lim limiter_defs limiter_run_sqlite limiter_run_redis)
qed

text \<open>
  Requests for other keys, allowed or not, never change what a key is granted; one
  client address cannot use up the attempts of another.
\<close>

theorem limiter_keys_isolated:
  assumes "limiter_wf lim t" and "ordered_from (limiter_clock lim) t rs"
    and "ordered_from (limiter_clock lim) t rs'"
    and "filter (\<lambda>q. fst q = k) rs = filter (\<lambda>q. fst q = k) rs'"
  shows "map snd (filter (\<lambda>(r, b). fst r = k) (zip rs (gcra_run limiter_admit lim rs))) =
    map snd (filter (\<lambda>(r, b). fst r = k) (zip rs' (gcra_run limiter_admit lim rs')))"
  unfolding limiter_run_isolated [OF assms(1,2)] limiter_run_isolated [OF assms(1,3)] assms(4) ..

theorem limiter_keys_isolated_witness:
  "map snd (filter (\<lambda>(r, b). fst r = lit ''b'') (zip [(lit ''b'', 60 :: int)] (gcra_run limiter_admit login_start [(lit ''b'', 60)]))) =
   map snd (filter (\<lambda>(r, b). fst r = lit ''b'')
     (zip (six_tries @ [(lit ''b'', 60)]) (gcra_run limiter_admit login_start (six_tries @ [(lit ''b'', 60)]))))"
  by (rule limiter_keys_isolated [OF start_wf(1)])
    (simp_all add: limiter_defs six_tries_def login_start_def i64_clock_def i64_max_def)

text \<open>
  The waiting time reported with a rejection is right. A request that comes when
  it is over is admitted, if no other request came in between; one that comes before it is over (less
  the backend's resolution: one microsecond for SQLite, a millisecond for Redis) is rejected again.
\<close>

theorem retry_after_exact:
  assumes "limiter_wf lim t" and "t \<le> now" and "limiter_clock lim now"
    and "persistent_check lim k now no_faults = (d, lim')" and "\<not> allowed d"
    and "now \<le> later" and "limiter_clock lim later"
  shows "(now + retry_after d \<le> later \<longrightarrow> fst (limiter_admit lim' k later)) \<and>
    (later + (case backend lim of Sqlite_backend _ \<Rightarrow> 1 | Redis_backend _ \<Rightarrow> 1000) \<le> now + retry_after d
      \<longrightarrow> \<not> fst (limiter_admit lim' k later))"
proof -
  obtain be f where lim: "lim = \<lparr>backend = be, fail_open = f\<rparr>" by (cases lim)
  show ?thesis
  proof (cases be)
    case (Sqlite_backend st)
    define st' where "st' = snd (sqlite_decide st k now)"
    have d: "d = fst (sqlite_decide st k now)" and lim': "lim' = \<lparr>backend = Sqlite_backend st', fail_open = f\<rparr>"
      using assms(4) by (auto simp: lim Sqlite_backend persistent_check_def backend_check_def no_faults_def
          sqlite_check_no_fault st'_def)
    have pre: "sqlite_wf st t" "t \<le> now" "i64_clock (sq_rate st) now" "\<not> allowed (fst (sqlite_decide st k now))"
      and later: "i64_clock (sq_rate st) later"
      using assms by (simp_all add: lim Sqlite_backend limiter_defs d)
    show ?thesis
      using sq.wait_is_enough [OF pre _ later assms(6)] sq.wait_is_needed [OF pre _ later assms(6)]
      by (simp add: lim lim' d limiter_admit_sqlite sq.admit_def Sqlite_backend st'_def)
  next
    case (Redis_backend st)
    define st' where "st' = snd (redis_decide st k now)"
    have d: "d = fst (redis_decide st k now)" and lim': "lim' = \<lparr>backend = Redis_backend st', fail_open = f\<rparr>"
      using assms(4) by (auto simp: lim Redis_backend persistent_check_def backend_check_def no_faults_def
          redis_check_no_fault st'_def)
    have pre: "redis_wf st t" "t \<le> now" "lua_clock (rd_rate st) now" "\<not> allowed (fst (redis_decide st k now))"
      and later: "lua_clock (rd_rate st) later"
      using assms by (simp_all add: lim Redis_backend limiter_defs d)
    show ?thesis
      using rd.wait_is_enough [OF pre _ later assms(6)] rd.wait_is_needed [OF pre _ later assms(6)]
      by (simp add: lim lim' d limiter_admit_redis rd.admit_def Redis_backend st'_def)
  qed
qed

definition spent_start :: persistent_limiter where
  "spent_start = \<lparr>backend = Sqlite_backend \<lparr>sq_rate = \<lparr>interval_us = 1000000, tolerance_us = 4000000\<rparr>,
     cleanup_interval_requests = 2, requests = 0,
     rows = [lit ''a'' \<mapsto> \<lparr>tat_us = 5000000, expires_at_us = 9000000\<rparr>]\<rparr>, fail_open = False\<rparr>"

theorem retry_after_exact_witness:
  "fst (limiter_admit (snd (persistent_check spent_start (lit ''a'') 400000 no_faults)) (lit ''a'') 1000000) \<and>
   \<not> fst (limiter_admit (snd (persistent_check spent_start (lit ''a'') 400000 no_faults)) (lit ''a'') 999999)"
proof -
  let ?res = "persistent_check spent_start (lit ''a'') 400000 no_faults"
  have wf: "limiter_wf spent_start 0"
    by (simp add: limiter_defs spent_start_def sqlite_wf_def valid_rate_def)
  have clock: "limiter_clock spent_start t" if "0 \<le> t" "t \<le> 1000000" for t
    using that by (simp add: limiter_defs spent_start_def i64_clock_def i64_max_def)
  have d: "fst ?res = reject 600000" by code_simp
  have sq: "(case backend spent_start of Sqlite_backend _ \<Rightarrow> 1 | Redis_backend _ \<Rightarrow> 1000) = (1 :: int)"
    by (simp add: spent_start_def)
  have res: "?res = (fst ?res, snd ?res)" by simp
  have rejected: "\<not> allowed (fst ?res)" by (simp add: d)
  note exact = retry_after_exact [OF wf _ _ res rejected, unfolded d sq decision_simps]
  show ?thesis
    using exact [of 1000000] exact [of 999999] clock by simp
qed

text \<open>Runs in which the backend may fail at any request.\<close>

fun fault_run :: "persistent_limiter \<Rightarrow> (ustr \<times> int \<times> backend_faults) list \<Rightarrow> bool list" where
  "fault_run lim [] = []"
| "fault_run lim ((k, now, f) # rs) =
     (case persistent_check lim k now f of (d, lim') \<Rightarrow> allowed d # fault_run lim' rs)"

definition untag :: "(ustr \<times> int \<times> backend_faults) list \<Rightarrow> (ustr \<times> int) list" where
  "untag rs = map (\<lambda>(k, now, f). (k, now)) rs"

lemma sqlite_check_fault_cases:
  "sqlite_check st k now f = sqlite_check st k now No_fault \<or>
   (\<exists>e n. sqlite_check st k now f = (Inl e, st\<lparr>requests := n\<rparr>))"
  unfolding sqlite_check_def Let_def by (auto split del: if_split split: if_split_asm)

lemma redis_check_fault_cases:
  "fst (redis_check st k now f) = fst (redis_check st k now Redis_ok) \<and>
     snd (redis_check st k now f) = snd (redis_check st k now Redis_ok) \<or>
   (\<exists>e. fst (redis_check st k now f) = Inl e \<and>
     snd (redis_check st k now f) \<in> {st, snd (redis_check st k now Redis_ok)})"
  by (cases f) (auto simp: redis_check_def split: prod.split)

text \<open>What one call does for the bound, failing or not.\<close>

definition sound_call ::
    "persistent_limiter \<Rightarrow> int \<Rightarrow> ustr \<Rightarrow> int \<Rightarrow> decision \<Rightarrow> persistent_limiter \<Rightarrow> bool" where
  "sound_call lim t k now d lim' \<longleftrightarrow>
     limiter_wf lim' now \<and> limiter_rate lim' = limiter_rate lim \<and>
     limiter_clock lim' = limiter_clock lim \<and> fail_open lim' = fail_open lim \<and>
     (\<forall>j. max (limiter_eff lim j t) now \<le> limiter_eff lim' j now) \<and>
     (allowed d \<longrightarrow> max (limiter_eff lim k t) now \<le> now + tolerance_us (limiter_rate lim) \<and>
        max (limiter_eff lim k t) now + interval_us (limiter_rate lim) \<le> limiter_eff lim' k now)"

lemma sqlite_sound_call:
  assumes "sqlite_wf st t" and "t \<le> now" and "i64_clock (sq_rate st) now"
    and "persistent_check \<lparr>backend = Sqlite_backend st, fail_open = False\<rparr> k now f = (d, lim')"
  shows "sound_call \<lparr>backend = Sqlite_backend st, fail_open = False\<rparr> t k now d lim'"
proof -
  have i: "0 < interval_us (sq_rate st)"
    using assms(1) by (simp add: sqlite_wf_def valid_rate_def)
  have later: "sqlite_eff st j now = max (sqlite_eff st j t) now" for j
    by (rule sq.eff_later [OF assms(1,2)])
  consider (run) "sqlite_check st k now (sq_fault f) = sqlite_check st k now No_fault"
    | (fail) e n where "sqlite_check st k now (sq_fault f) = (Inl e, st\<lparr>requests := n\<rparr>)"
    using sqlite_check_fault_cases by blast
  then show ?thesis
  proof cases
    case run
    then have d: "d = fst (sqlite_decide st k now)"
      and lim': "lim' = \<lparr>backend = Sqlite_backend (snd (sqlite_decide st k now)), fail_open = False\<rparr>"
      using assms(4) by (auto simp: persistent_check_def backend_check_def sqlite_check_no_fault)
    show ?thesis
      using i later sq.check_allowed [OF assms(1-3), of k]
      by (auto simp: sound_call_def limiter_defs d lim' sqlite_law_wf [OF assms(1-3)] sq.rate_kept
          sqlite_law_eff [OF assms(1-3)])
  next
    case fail
    have "sqlite_wf (st\<lparr>requests := n\<rparr>) now"
      using sqlite_wf_upd [OF assms(1,2), of "rows st" n] by simp
    moreover have "sqlite_eff (st\<lparr>requests := n\<rparr>) j now = sqlite_eff st j now" for j
      by (simp add: sqlite_eff_def)
    ultimately show ?thesis
      using assms(4) fail later
      by (auto simp: persistent_check_def backend_check_def sound_call_def limiter_defs)
  qed
qed

lemma redis_sound_call:
  assumes "redis_wf st t" and "t \<le> now" and "lua_clock (rd_rate st) now"
    and "persistent_check \<lparr>backend = Redis_backend st, fail_open = False\<rparr> k now f = (d, lim')"
  shows "sound_call \<lparr>backend = Redis_backend st, fail_open = False\<rparr> t k now d lim'"
proof -
  let ?st' = "snd (redis_decide st k now)"
  have i: "0 < interval_us (rd_rate st)"
    using assms(1) by (simp add: redis_wf_def valid_rate_def)
  have later: "redis_eff st j now = max (redis_eff st j t) now" for j
    by (rule rd.eff_later [OF assms(1,2)])
  have grow: "redis_eff st j now \<le> redis_eff ?st' j now" for j
    using i by (simp add: redis_law_eff [OF assms(1)])
  consider (run) "redis_check st k now (rd_fault f) = redis_check st k now Redis_ok"
    | (lost) e where "redis_check st k now (rd_fault f) = (Inl e, ?st')"
    | (fail) e where "redis_check st k now (rd_fault f) = (Inl e, st)"
    using redis_check_fault_cases [of st k now "rd_fault f"]
    by (auto simp: redis_check_no_fault prod_eq_iff)
  then show ?thesis
  proof cases
    case run
    then have d: "d = fst (redis_decide st k now)"
      and lim': "lim' = \<lparr>backend = Redis_backend ?st', fail_open = False\<rparr>"
      using assms(4) by (auto simp: persistent_check_def backend_check_def redis_check_no_fault)
    show ?thesis
      using i later rd.check_allowed [OF assms(1-3), of k]
      by (auto simp: sound_call_def limiter_defs d lim' redis_law_wf [OF assms(1)] rd.rate_kept
          redis_law_eff [OF assms(1)])
  next
    case lost
    then show ?thesis
      using assms(4) later grow redis_law_wf [OF assms(1)]
      by (auto simp: persistent_check_def backend_check_def sound_call_def limiter_defs rd.rate_kept
          simp flip: later)
  next
    case fail
    then show ?thesis
      using assms(1,4) later
      by (auto simp: persistent_check_def backend_check_def sound_call_def limiter_defs redis_wf_def)
  qed
qed

lemma limiter_sound_call:
  assumes "limiter_wf lim t" and "t \<le> now" and "limiter_clock lim now" and "\<not> fail_open lim"
    and "persistent_check lim k now f = (d, lim')"
  shows "sound_call lim t k now d lim'"
proof -
  obtain be where lim: "lim = \<lparr>backend = be, fail_open = False\<rparr>" using assms(4) by (cases lim) auto
  show ?thesis
    using assms sqlite_sound_call redis_sound_call
    by (cases be) (auto simp: lim limiter_wf_def limiter_clock_def)
qed

text \<open>The counting argument of \<open>gcra_bound_aux\<close>, over calls that are only \<open>sound\<close>.\<close>

lemma fault_bound_aux:
  assumes "limiter_wf lim t" and "ordered_from (limiter_clock lim) t (untag rs)"
    and "\<forall>x\<in>set (untag rs). snd x \<le> b" and "\<not> fail_open lim"
    and "0 < admitted k (untag rs) (fault_run lim rs)"
  shows "limiter_eff lim k t + (int (admitted k (untag rs) (fault_run lim rs)) - 1) *
    interval_us (limiter_rate lim) \<le> b + tolerance_us (limiter_rate lim)"
  using assms
proof (induction rs arbitrary: lim t)
  case (Cons x rs)
  obtain k' now f where x: "x = (k', now, f)" by (cases x) auto
  obtain d lim' where check: "persistent_check lim k' now f = (d, lim')" by fastforce
  have order: "t \<le> now" "limiter_clock lim now" "ordered_from (limiter_clock lim) now (untag rs)" "now \<le> b"
    "\<forall>x\<in>set (untag rs). snd x \<le> b"
    using Cons.prems(2,3) by (auto simp: x untag_def)
  define n where "n = admitted k (untag rs) (fault_run lim' rs)"
  have "sound_call lim t k' now d lim'"
    by (rule limiter_sound_call [OF Cons.prems(1) order(1,2) Cons.prems(4) check])
  then have s: "limiter_wf lim' now" "limiter_rate lim' = limiter_rate lim"
      "limiter_clock lim' = limiter_clock lim" "\<not> fail_open lim'"
      "max (limiter_eff lim k t) now \<le> limiter_eff lim' k now"
      "k' = k \<Longrightarrow> allowed d \<Longrightarrow> max (limiter_eff lim k t) now \<le> now + tolerance_us (limiter_rate lim)"
      "k' = k \<Longrightarrow> allowed d \<Longrightarrow>
        max (limiter_eff lim k t) now + interval_us (limiter_rate lim) \<le> limiter_eff lim' k now"
    using Cons.prems(4) by (auto simp: sound_call_def)
  have IH: "0 < n \<Longrightarrow> limiter_eff lim' k now + (int n - 1) * interval_us (limiter_rate lim)
      \<le> b + tolerance_us (limiter_rate lim)"
    using Cons.IH [of lim' now] s order by (simp add: n_def)
  have total: "admitted k (untag (x # rs)) (fault_run lim (x # rs)) = (if k' = k \<and> allowed d then 1 else 0) + n"
    by (simp add: x check n_def untag_def)
  show ?case
  proof (cases "n = 0")
    case True
    then show ?thesis using Cons.prems(5) s(6) order(4) unfolding total by (auto split: if_splits)
  next
    case False
    then show ?thesis
      using IH s(5,7) unfolding total by (auto simp: algebra_simps)
  qed
qed (simp add: untag_def)

text \<open>
  With \<open>fail_open\<close> off, failures of the backend at any request and any stage (lock,
  transaction, clock, statement, commit; server unreachable, reply lost) never let a key have more
  than the configured rate and burst: a fault costs at most a rejection.
\<close>

theorem fail_closed_bound:
  assumes "limiter_wf lim t" and "ordered_from (limiter_clock lim) t (untag rs)"
    and "t \<le> b" and "\<forall>x\<in>set (untag rs). snd x \<le> b" and "\<not> fail_open lim"
  shows "int (admitted k (untag rs) (fault_run lim rs)) * interval_us (limiter_rate lim)
    \<le> (b - t) + tolerance_us (limiter_rate lim) + interval_us (limiter_rate lim)"
proof (cases "admitted k (untag rs) (fault_run lim rs) = 0")
  case True
  have "valid_rate (limiter_rate lim)"
    using assms(1) by (auto simp: limiter_defs sqlite_wf_def redis_wf_def split: backend.splits)
  then show ?thesis using True assms(3) by (simp add: valid_rate_def)
next
  case False
  have "t \<le> limiter_eff lim k t"
    by (auto simp: limiter_eff_def sqlite_eff_def redis_eff_def split: backend.split option.split)
  moreover have "limiter_eff lim k t + (int (admitted k (untag rs) (fault_run lim rs)) - 1) *
      interval_us (limiter_rate lim) \<le> b + tolerance_us (limiter_rate lim)"
    using fault_bound_aux [OF assms(1,2,4,5)] False by simp
  ultimately show ?thesis by (simp add: algebra_simps)
qed

definition faulty_tries :: "(ustr \<times> int \<times> backend_faults) list" where
  "faulty_tries = [(lit ''a'', 0, no_faults), (lit ''a'', 5, no_faults\<lparr>sq_fault := Commit_failed\<rparr>),
     (lit ''a'', 9, no_faults)]"

theorem fail_closed_bound_witness:
  "int (admitted (lit ''a'') (untag faulty_tries) (fault_run login_start faulty_tries)) *
     interval_us (limiter_rate login_start) \<le>
     (9 - 0) + tolerance_us (limiter_rate login_start) + interval_us (limiter_rate login_start) \<and>
   fault_run login_start faulty_tries = [True, False, True]"
proof
  show "int (admitted (lit ''a'') (untag faulty_tries) (fault_run login_start faulty_tries)) *
     interval_us (limiter_rate login_start) \<le>
     (9 - 0) + tolerance_us (limiter_rate login_start) + interval_us (limiter_rate login_start)"
    by (rule fail_closed_bound [OF start_wf(1)])
      (simp_all add: untag_def faulty_tries_def limiter_clock_def login_start_def i64_clock_def i64_max_def)
  show "fault_run login_start faulty_tries = [True, False, True]"
    by code_simp
qed

end
