(* ===== verification/ClientIp.thy ===== *)
theory ClientIp
  imports Prelude
begin

text \<open>
  \<open>src/security/client_ip.rs\<close>: which address a request is throttled and audited under. The header map
  is a function from lower-case names to the bytes of the first value; \<open>IpAddr::from_str\<close> of the
  standard library is written out as the recursive-descent reader it is. The lemmas show which
  headers are believed, that IPv4 addresses survive every spelling a proxy uses, and that IPv6
  addresses do not.
\<close>

section \<open>IP addresses of the standard library\<close>

datatype ip_addr = V4 "nat list" | V6 "nat list"

text \<open>A reader consumes a prefix of its input or fails.\<close>

type_synonym 'a reader = "ustr \<Rightarrow> ('a \<times> ustr) option"

definition read_char :: "uchar \<Rightarrow> unit reader" where
  "read_char c s = (case s of d # t \<Rightarrow> if c = d then Some ((), t) else None | [] \<Rightarrow> None)"

definition is_radix_digit :: "nat \<Rightarrow> uchar \<Rightarrow> bool" where
  "is_radix_digit radix c \<longleftrightarrow> is_ascii_digit c \<or>
     radix = 16 \<and> ((97 \<le> c \<and> c \<le> 102) \<or> (65 \<le> c \<and> c \<le> 70))"

definition radix_digit :: "uchar \<Rightarrow> nat" where
  "radix_digit c = (if is_ascii_digit c then c - 48 else if 97 \<le> c then c - 87 else c - 55)"

text \<open>\<open>read_number\<close>: all digits that follow; too many, too large or zero-led numbers fail.\<close>

definition read_number :: "nat \<Rightarrow> nat \<Rightarrow> nat \<Rightarrow> bool \<Rightarrow> nat reader" where
  "read_number radix limit max_digits zero_prefix s =
     (let ds = takeWhile (is_radix_digit radix) s;
          v = foldl (\<lambda>a c. a * radix + radix_digit c) 0 ds
      in if ds = [] \<or> max_digits < length ds \<or> limit < v \<or>
            (\<not> zero_prefix \<and> hd ds = 48 \<and> 1 < length ds)
         then None else Some (v, dropWhile (is_radix_digit radix) s))"

definition read_separator :: "uchar \<Rightarrow> nat \<Rightarrow> 'a reader \<Rightarrow> 'a reader" where
  "read_separator sep i r s =
     (if i = 0 then r s else case read_char sep s of None \<Rightarrow> None | Some (_, t) \<Rightarrow> r t)"

definition read_octet :: "nat reader" where
  "read_octet = read_number 10 255 3 False"

definition read_ipv4 :: "nat list reader" where
  "read_ipv4 s =
     (case read_octet s of None \<Rightarrow> None | Some (a, s1) \<Rightarrow>
      case read_separator 46 1 read_octet s1 of None \<Rightarrow> None | Some (b, s2) \<Rightarrow>
      case read_separator 46 2 read_octet s2 of None \<Rightarrow> None | Some (c, s3) \<Rightarrow>
      case read_separator 46 3 read_octet s3 of None \<Rightarrow> None | Some (d, s4) \<Rightarrow> Some ([a, b, c, d], s4))"

text \<open>\<open>read_groups\<close> on \<open>n\<close> remaining slots, the next one having index \<open>i\<close>.\<close>

fun read_groups :: "nat \<Rightarrow> nat \<Rightarrow> ustr \<Rightarrow> nat list \<times> bool \<times> ustr" where
  "read_groups 0 i s = ([], False, s)"
| "read_groups (Suc n) i s =
     (case (if 0 < n then read_separator 58 i read_ipv4 s else None) of
        Some (q, t) \<Rightarrow> ([q ! 0 * 256 + q ! 1, q ! 2 * 256 + q ! 3], True, t)
      | None \<Rightarrow> (case read_separator 58 i (read_number 16 65535 4 True) s of
          None \<Rightarrow> ([], False, s)
        | Some (g, t) \<Rightarrow> (case read_groups n (Suc i) t of (gs, v4, u) \<Rightarrow> (g # gs, v4, u))))"

definition read_ipv6 :: "nat list reader" where
  "read_ipv6 s =
     (case read_groups 8 0 s of (hds, v4, t) \<Rightarrow>
        if length hds = 8 then Some (hds, t)
        else if v4 then None
        else case read_char 58 t of None \<Rightarrow> None | Some (_, t1) \<Rightarrow>
             case read_char 58 t1 of None \<Rightarrow> None | Some (_, t2) \<Rightarrow>
             case read_groups (7 - length hds) 0 t2 of (tls, _, u) \<Rightarrow>
               Some (hds @ replicate (8 - length hds - length tls) 0 @ tls, u))"

definition parse_ip :: "ustr \<Rightarrow> ip_addr option" where
  "parse_ip s =
     (case read_ipv4 s of
        Some (q, t) \<Rightarrow> if t = [] then Some (V4 q) else None
      | None \<Rightarrow> (case read_ipv6 s of
          Some (gs, t) \<Rightarrow> if t = [] then Some (V6 gs) else None
        | None \<Rightarrow> None))"

text \<open>\<open>Display\<close> of \<open>Ipv4Addr\<close>.\<close>

definition show_ipv4 :: "nat \<Rightarrow> nat \<Rightarrow> nat \<Rightarrow> nat \<Rightarrow> ustr" where
  "show_ipv4 a b c d = show_nat a @ 46 # show_nat b @ 46 # show_nat c @ 46 # show_nat d"

text \<open>
  \<open>Display\<close> of \<open>Ipv6Addr\<close>: IPv4-mapped addresses keep the dotted tail, the first longest run of at least
  two zero groups becomes a double colon. \<open>zero_span\<close> is that run (start, length).
\<close>

fun show_hex :: "nat \<Rightarrow> ustr" where
  "show_hex n = (let c = (if n mod 16 < 10 then 48 + n mod 16 else 87 + n mod 16)
     in if n < 16 then [c] else show_hex (n div 16) @ [c])"

declare show_hex.simps [simp del]

fun zero_span :: "nat \<Rightarrow> nat \<times> nat \<Rightarrow> nat \<times> nat \<Rightarrow> nat list \<Rightarrow> nat \<times> nat" where
  "zero_span i cur best [] = best"
| "zero_span i cur best (g # gs) =
     (if g = 0 then
        let cur' = (if snd cur = 0 then (i, 1) else (fst cur, snd cur + 1))
        in zero_span (i + 1) cur' (if snd best < snd cur' then cur' else best) gs
      else zero_span (i + 1) (0, 0) best gs)"

definition show_groups :: "nat list \<Rightarrow> ustr" where
  "show_groups gs = join [58] (map show_hex gs)"

definition show_ip :: "ip_addr \<Rightarrow> ustr" where
  "show_ip ip = (case ip of
     V4 q \<Rightarrow> show_ipv4 (q ! 0) (q ! 1) (q ! 2) (q ! 3)
   | V6 gs \<Rightarrow>
       if take 6 gs = [0, 0, 0, 0, 0, 65535] then
         lit ''::ffff:'' @ show_ipv4 (gs ! 6 div 256) (gs ! 6 mod 256) (gs ! 7 div 256) (gs ! 7 mod 256)
       else let (from, n) = zero_span 0 (0, 0) (0, 0) gs in
         if 1 < n then show_groups (take from gs) @ [58, 58] @ show_groups (drop (from + n) gs)
         else show_groups gs)"

lemma is_radix_digit_10: "is_radix_digit 10 = is_ascii_digit"
  by (rule ext) (simp add: is_radix_digit_def)

lemma foldl_radix: "list_all is_ascii_digit ds \<Longrightarrow>
    foldl (\<lambda>a c. a * 10 + radix_digit c) z ds = foldl (\<lambda>a c. a * 10 + (c - 48)) z ds"
  by (induction ds arbitrary: z) (auto simp: radix_digit_def)

lemma show_nat_lt10: "n < 10 \<Longrightarrow> show_nat n = [48 + n]"
  by (subst show_nat.simps) simp

lemma show_nat_ge10: "10 \<le> n \<Longrightarrow> show_nat n = show_nat (n div 10) @ [48 + n mod 10]"
  by (subst show_nat.simps) simp

lemma show_nat_short:
  assumes "n < 1000"
  shows "length (show_nat n) \<le> 3" and "hd (show_nat n) = 48 \<Longrightarrow> length (show_nat n) = 1"
proof -
  consider "n < 10" | "10 \<le> n" "n < 100" | "100 \<le> n" by linarith
  then have "length (show_nat n) \<le> 3 \<and> (hd (show_nat n) = 48 \<longrightarrow> length (show_nat n) = 1)"
  proof cases
    case 1
    then show ?thesis by (simp add: show_nat_lt10)
  next
    case 2
    then have "n div 10 < 10" "0 < n div 10" by linarith+
    then show ?thesis using 2 by (simp add: show_nat_ge10 [of n] show_nat_lt10 [of "n div 10"])
  next
    case 3
    then have "10 \<le> n div 10" "n div 10 div 10 < 10" "0 < n div 10 div 10" using assms by linarith+
    then show ?thesis using 3 by (simp add: show_nat_ge10 [of n] show_nat_ge10 [of "n div 10"] show_nat_lt10 [of "n div 10 div 10"])
  qed
  then show "length (show_nat n) \<le> 3" and "hd (show_nat n) = 48 \<Longrightarrow> length (show_nat n) = 1" by auto
qed

lemma read_octet_show:
  assumes "n \<le> 255" and "r = [] \<or> \<not> is_ascii_digit (hd r)"
  shows "read_octet (show_nat n @ r) = Some (n, r)"
proof -
  have digits: "\<And>c. c \<in> set (show_nat n) \<Longrightarrow> is_ascii_digit c" by (rule show_nat_set)
  have v: "foldl (\<lambda>a c. a * 10 + radix_digit c) 0 (show_nat n) = n"
    using digits_val_show_nat [of n] by (simp add: foldl_radix show_nat_digits digits_val_def)
  show ?thesis
    using show_nat_short [of n] assms(1) v
      takeWhile_stop [where p = is_ascii_digit and a = "show_nat n" and b = r, OF digits assms(2)]
      dropWhile_stop [where p = is_ascii_digit and a = "show_nat n" and b = r, OF digits assms(2)]
    by (auto simp: read_octet_def read_number_def is_radix_digit_10 Let_def)
qed

lemma read_dot_octet:
  assumes "n \<le> 255" and "r = [] \<or> \<not> is_ascii_digit (hd r)" and "0 < i"
  shows "read_separator 46 i read_octet (46 # show_nat n @ r) = Some (n, r)"
  using assms by (simp add: read_separator_def read_char_def read_octet_show)

lemma read_show_ipv4:
  assumes "a \<le> 255" "b \<le> 255" "c \<le> 255" "d \<le> 255" and "r = [] \<or> \<not> is_ascii_digit (hd r)"
  shows "read_ipv4 (show_ipv4 a b c d @ r) = Some ([a, b, c, d], r)"
  using assms read_dot_octet [of d r 3]
  by (simp add: show_ipv4_def read_ipv4_def read_octet_show read_dot_octet is_ascii_digit_def)

lemma parse_show_ipv4:
  "\<lbrakk>a \<le> 255; b \<le> 255; c \<le> 255; d \<le> 255\<rbrakk> \<Longrightarrow> parse_ip (show_ipv4 a b c d) = Some (V4 [a, b, c, d])"
  using read_show_ipv4 [of a b c d "[]"] by (simp add: parse_ip_def)

lemma show_ipv4_chars: "x \<in> set (show_ipv4 a b c d) \<Longrightarrow> is_ascii_digit x \<or> x = 46"
  by (auto simp: show_ipv4_def dest: show_nat_set)

section \<open>Forwarding headers\<close>

text \<open>
  \<open>HeaderValue::to_str\<close> accepts visible ASCII, spaces and tabs. \<open>headers\<close> gives the first value of a
  name.
\<close>

type_synonym header_map = "ustr \<Rightarrow> ustr option"

definition header_str :: "header_map \<Rightarrow> ustr \<Rightarrow> ustr option" where
  "header_str headers name =
     (case headers name of None \<Rightarrow> None
      | Some v \<Rightarrow> if list_all (\<lambda>b. b = 9 \<or> (32 \<le> b \<and> b < 127)) v then Some v else None)"

definition eq_ignore_ascii_case :: "ustr \<Rightarrow> ustr \<Rightarrow> bool" where
  "eq_ignore_ascii_case s t \<longleftrightarrow> to_ascii_lowercase s = to_ascii_lowercase t"

definition or_else :: "'a option \<Rightarrow> 'a option \<Rightarrow> 'a option" where
  "or_else x y = (case x of None \<Rightarrow> y | Some a \<Rightarrow> Some a)"

definition parse_forwarded_ip :: "ustr \<Rightarrow> ip_addr option" where
  "parse_forwarded_ip value0 =
     (let value1 = trim_matches (\<lambda>c. c = 34) value0;
          value2 = (case strip_prefix [91] value1 of
              None \<Rightarrow> value1
            | Some rest \<Rightarrow> (case split_once 93 rest of None \<Rightarrow> value1 | Some (address, _) \<Rightarrow> address));
          value3 = (case rsplit_once 58 value2 of
              None \<Rightarrow> value2
            | Some (address, port) \<Rightarrow> (case parse_uint u16_max port of None \<Rightarrow> value2 | Some _ \<Rightarrow> address))
      in parse_ip value3)"

fun forwarded_parts :: "ustr list \<Rightarrow> ip_addr option" where
  "forwarded_parts [] = None"
| "forwarded_parts (part # parts) =
     (case split_once 61 part of
        None \<Rightarrow> None
      | Some (name, value) \<Rightarrow>
          if eq_ignore_ascii_case (trim name) (lit ''for'') then parse_forwarded_ip (trim value)
          else forwarded_parts parts)"

definition forwarded_for :: "header_map \<Rightarrow> ip_addr option" where
  "forwarded_for headers =
     (case header_str headers (lit ''forwarded'') of None \<Rightarrow> None
      | Some value \<Rightarrow> forwarded_parts (split_on 59 value))"

fun find_ip :: "ustr list \<Rightarrow> ip_addr option" where
  "find_ip [] = None"
| "find_ip (part # parts) = or_else (parse_forwarded_ip (trim part)) (find_ip parts)"

definition x_forwarded_for :: "header_map \<Rightarrow> ip_addr option" where
  "x_forwarded_for headers =
     (case header_str headers (lit ''x-forwarded-for'') of None \<Rightarrow> None
      | Some value \<Rightarrow> find_ip (split_on 44 value))"

definition x_real_ip :: "header_map \<Rightarrow> ip_addr option" where
  "x_real_ip headers =
     (case header_str headers (lit ''x-real-ip'') of None \<Rightarrow> None
      | Some value \<Rightarrow> parse_forwarded_ip (trim value))"

definition effective_client_ip :: "ip_addr \<Rightarrow> header_map \<Rightarrow> ip_addr list \<Rightarrow> ip_addr" where
  "effective_client_ip peer headers trusted =
     (if peer \<notin> set trusted then peer
      else case or_else (forwarded_for headers) (or_else (x_forwarded_for headers) (x_real_ip headers)) of
             None \<Rightarrow> peer | Some ip \<Rightarrow> ip)"

text \<open>The spellings of an IPv4 address in a forwarding header: bare or quoted, with or without a port.\<close>

definition spellings :: "nat \<Rightarrow> nat \<Rightarrow> nat \<Rightarrow> nat \<Rightarrow> ustr set" where
  "spellings a b c d =
     {q @ show_ipv4 a b c d @ p @ q | q p. q \<in> {[], [34]} \<and>
        (p = [] \<or> (\<exists>n \<le> u16_max. p = 58 # show_nat n))}"

lemma parse_forwarded_v4:
  assumes "a \<le> 255" "b \<le> 255" "c \<le> 255" "d \<le> 255" and "s \<in> spellings a b c d"
  shows "parse_forwarded_ip s = Some (V4 [a, b, c, d])"
proof -
  let ?ip = "show_ipv4 a b c d"
  from assms(5) obtain q p where s: "s = q @ (?ip @ p) @ q" and q: "q = [] \<or> q = [34]"
    and p: "p = [] \<or> (\<exists>n \<le> u16_max. p = 58 # show_nat n)" by (auto simp: spellings_def)
  have chars: "is_ascii_digit x \<or> x = 46 \<or> x = 58" if "x \<in> set (?ip @ p)" for x
    using that p by (auto dest: show_ipv4_chars show_nat_set)
  have not_nil: "?ip \<noteq> []" by (simp add: show_ipv4_def)
  have plain: "x \<noteq> 34" "x \<noteq> 91" if "x \<in> set (?ip @ p)" for x
    using chars [OF that] by (auto simp: is_ascii_digit_def)
  have ends: "hd (?ip @ p) \<in> set (?ip @ p)" "last (?ip @ p) \<in> set (?ip @ p)"
    using not_nil by (auto simp: hd_append last_append)
  have trimmed: "trim_matches (\<lambda>c. c = 34) s = ?ip @ p"
  proof -
    have "trim_matches (\<lambda>c. c = 34) (?ip @ p) = ?ip @ p"
      using plain(1) ends by (intro trim_matches_fixed) auto
    moreover have "dropWhile (\<lambda>c. c = 34) (q @ (?ip @ p) @ q) = (?ip @ p) @ q"
      using q plain(1) [OF ends(1)] not_nil by (cases "?ip") auto
    moreover have "dropWhile (\<lambda>c. c = 34) ((?ip @ p) @ q) = (?ip @ p) @ q"
      "dropWhile (\<lambda>c. c = 34) (?ip @ p) = ?ip @ p"
      using plain(1) [OF ends(1)] not_nil by (cases "?ip"; auto)+
    moreover have "dropWhile (\<lambda>c. c = 34) (rev ((?ip @ p) @ q)) = dropWhile (\<lambda>c. c = 34) (rev (?ip @ p))"
      using q by auto
    ultimately show ?thesis
      unfolding trim_matches_def trim_start_matches_def trim_end_matches_def s by simp
  qed
  have "strip_prefix [91] (?ip @ p) = None"
    using plain(2) [OF ends(1)] not_nil by (cases "?ip") auto
  moreover have "rsplit_once 58 (?ip @ p) = (case p of [] \<Rightarrow> None | _ # t \<Rightarrow> Some (?ip, t))"
  proof -
    have no: "58 \<notin> set ?ip" using show_ipv4_chars by (fastforce simp: is_ascii_digit_def)
    have no': "58 \<notin> set (show_nat n)" for n using show_nat_set by (fastforce simp: is_ascii_digit_def)
    show ?thesis
      using p no no' split_once_append [of 58 "rev (show_nat _)" "rev ?ip"]
      by (auto simp: rsplit_once_def split_once_None_iff)
  qed
  ultimately show ?thesis
    using p assms(1-4) trimmed
    by (auto simp: parse_forwarded_ip_def Let_def parse_show_ipv4 parse_uint_show_nat)
qed

lemma spelling_chars:
  "\<lbrakk>s \<in> spellings a b c d; x \<in> set s\<rbrakk> \<Longrightarrow> is_ascii_digit x \<or> x = 46 \<or> x = 58 \<or> x = 34"
  by (auto simp: spellings_def dest: show_ipv4_chars show_nat_set)

lemma spelling_plain:
  assumes "s \<in> spellings a b c d"
  shows "trim s = s" and "44 \<notin> set s" and "59 \<notin> set s" and "list_all (\<lambda>b. b = 9 \<or> (32 \<le> b \<and> b < 127)) s"
proof -
  show "trim s = s"
    by (rule trim_fixed_if_none) (use spelling_chars [OF assms] in \<open>fastforce simp: char_class_defs\<close>)
  show "44 \<notin> set s" "59 \<notin> set s"
    using spelling_chars [OF assms] by (fastforce simp: char_class_defs)+
  show "list_all (\<lambda>b. b = 9 \<or> (32 \<le> b \<and> b < 127)) s"
    using spelling_chars [OF assms] by (fastforce simp: char_class_defs list_all_iff)
qed

lemma split_on_prefix:
  assumes "d \<notin> set s" and "rest = [] \<or> hd rest = d"
  shows "\<exists>ps. split_on d (s @ rest) = s # ps"
proof (cases rest)
  case Nil
  then show ?thesis using split_on_no_sep [OF assms(1)] by simp
next
  case (Cons x r)
  then show ?thesis using assms(2) split_on_append [OF assms(1)] by auto
qed

lemma client_ip_cases:
  assumes "a \<le> 255" "b \<le> 255" "c \<le> 255" "d \<le> 255" and "s \<in> spellings a b c d"
    and "list_all (\<lambda>b. 32 \<le> b \<and> b < 127) rest"
  shows "peer \<notin> set trusted \<longrightarrow> effective_client_ip peer headers trusted = peer"
    and "peer \<in> set trusted \<longrightarrow> effective_client_ip peer (\<lambda>_. None) trusted = peer"
    and "peer \<in> set trusted \<and> (rest = [] \<or> hd rest = 44) \<longrightarrow>
      effective_client_ip peer [lit ''x-forwarded-for'' \<mapsto> s @ rest] trusted = V4 [a, b, c, d]"
    and "peer \<in> set trusted \<and> (rest = [] \<or> hd rest = 59) \<longrightarrow>
      effective_client_ip peer (headers(lit ''forwarded'' \<mapsto> lit ''for='' @ s @ rest)) trusted = V4 [a, b, c, d]"
proof -
  note plain = spelling_plain [OF assms(5)] and parsed = parse_forwarded_v4 [OF assms(1-5)]
  have printable: "list_all (\<lambda>b. b = 9 \<or> (32 \<le> b \<and> b < 127)) rest"
    using assms(6) by (auto simp: list_all_iff)
  show "peer \<notin> set trusted \<longrightarrow> effective_client_ip peer headers trusted = peer"
    by (simp add: effective_client_ip_def)
  show "peer \<in> set trusted \<longrightarrow> effective_client_ip peer (\<lambda>_. None) trusted = peer"
    by (simp add: effective_client_ip_def forwarded_for_def x_forwarded_for_def x_real_ip_def
        header_str_def or_else_def)
  show "peer \<in> set trusted \<and> (rest = [] \<or> hd rest = 44) \<longrightarrow>
      effective_client_ip peer [lit ''x-forwarded-for'' \<mapsto> s @ rest] trusted = V4 [a, b, c, d]"
  proof (clarify, goal_cases)
    case 1
    obtain ps where "split_on 44 (s @ rest) = s # ps"
      using split_on_prefix [OF plain(2)] 1(2) by blast
    then have "x_forwarded_for [lit ''x-forwarded-for'' \<mapsto> s @ rest] = Some (V4 [a, b, c, d])"
      using plain printable parsed by (simp add: x_forwarded_for_def header_str_def or_else_def)
    moreover have "forwarded_for [lit ''x-forwarded-for'' \<mapsto> s @ rest] = None"
      by (simp add: forwarded_for_def header_str_def)
    ultimately show ?case using 1(1) by (simp add: effective_client_ip_def or_else_def)
  qed
  show "peer \<in> set trusted \<and> (rest = [] \<or> hd rest = 59) \<longrightarrow>
      effective_client_ip peer (headers(lit ''forwarded'' \<mapsto> lit ''for='' @ s @ rest)) trusted = V4 [a, b, c, d]"
  proof (clarify, goal_cases)
    case 1
    have no: "59 \<notin> set (lit ''for='' @ s)" using plain(3) by (simp add: lit_def)
    obtain ps where "split_on 59 ((lit ''for='' @ s) @ rest) = (lit ''for='' @ s) # ps"
      using split_on_prefix [OF no] 1(2) by blast
    moreover have "split_once 61 (lit ''for='' @ s) = Some (lit ''for'', s)"
      by (simp add: lit_def)
    moreover have "eq_ignore_ascii_case (trim (lit ''for'')) (lit ''for'')"
      by code_simp
    moreover have "list_all (\<lambda>b. b = 9 \<or> (32 \<le> b \<and> b < 127)) (lit ''for='')"
      by code_simp
    ultimately have "forwarded_for (headers(lit ''forwarded'' \<mapsto> lit ''for='' @ s @ rest)) = Some (V4 [a, b, c, d])"
      using plain printable parsed by (simp add: forwarded_for_def header_str_def)
    then show ?case using 1(1) by (simp add: effective_client_ip_def or_else_def)
  qed
qed

text \<open>
  Forwarding headers count only behind a trusted proxy. From any other peer they
  are ignored, whatever they say; from a trusted one without them the peer stays; and from a trusted
  one the first IPv4 address of \<open>Forwarded: for=...\<close>, else of \<open>X-Forwarded-For\<close>, is taken in each
  of its spellings (bare, with a port, quoted), whatever follows in the header.
\<close>

theorem client_ip_sources:
  assumes "a \<le> 255" "b \<le> 255" "c \<le> 255" "d \<le> 255" and "s \<in> spellings a b c d"
    and "list_all (\<lambda>b. 32 \<le> b \<and> b < 127) rest"
  shows "(peer \<notin> set trusted \<longrightarrow> effective_client_ip peer headers trusted = peer) \<and>
    (peer \<in> set trusted \<longrightarrow> effective_client_ip peer (\<lambda>_. None) trusted = peer) \<and>
    (peer \<in> set trusted \<and> (rest = [] \<or> hd rest = 44) \<longrightarrow>
      effective_client_ip peer [lit ''x-forwarded-for'' \<mapsto> s @ rest] trusted = V4 [a, b, c, d]) \<and>
    (peer \<in> set trusted \<and> (rest = [] \<or> hd rest = 59) \<longrightarrow>
      effective_client_ip peer (headers(lit ''forwarded'' \<mapsto> lit ''for='' @ s @ rest)) trusted = V4 [a, b, c, d])"
  using client_ip_cases [OF assms] by blast

theorem client_ip_sources_witness:
  "effective_client_ip (V4 [127, 0, 0, 1])
     [lit ''x-forwarded-for'' \<mapsto> lit ''203.0.113.10:4711'' @ lit '', 198.51.100.2''] [V4 [127, 0, 0, 1]] =
   V4 [203, 0, 113, 10]"
proof -
  have "lit ''203.0.113.10:4711'' = [] @ show_ipv4 203 0 113 10 @ (58 # show_nat 4711) @ []"
    by code_simp
  then have "lit ''203.0.113.10:4711'' \<in> spellings 203 0 113 10"
    unfolding spellings_def mem_Collect_eq
    by (intro exI [of _ "[]"] exI [of _ "58 # show_nat 4711"] conjI disjI2 exI [of _ 4711])
      (simp_all add: u16_max_def)
  moreover have "list_all (\<lambda>b. 32 \<le> b \<and> b < 127) (lit '', 198.51.100.2'')" by code_simp
  moreover have "hd (lit '', 198.51.100.2'') = 44" by code_simp
  ultimately show ?thesis
    using client_ip_sources [of 203 0 113 10 "lit ''203.0.113.10:4711''" "lit '', 198.51.100.2''"
        "V4 [127, 0, 0, 1]" "[V4 [127, 0, 0, 1]]" "\<lambda>_. None"] by simp
qed

text \<open>
  IPv6 clients behind a trusted proxy are misread. Of a bare or bracketed address
  the last group is taken for a port when it is a decimal number, so the client is throttled and
  audited under a different address (one an attacker may choose freely in its own network), and an
  address whose rest is no address, such as the bracketed \<open>[2001:db8::1]\<close>, falls back to the proxy,
  which all such clients then share.
\<close>

theorem client_ip_misreads_ipv6:
  "parse_ip (lit ''2001:db8::1:2'') = Some (V6 [8193, 3512, 0, 0, 0, 0, 1, 2]) \<and>
   parse_forwarded_ip (lit ''2001:db8::1:2'') = Some (V6 [8193, 3512, 0, 0, 0, 0, 0, 1]) \<and>
   parse_ip (lit ''2001:db8::1'') = Some (V6 [8193, 3512, 0, 0, 0, 0, 0, 1]) \<and>
   parse_forwarded_ip (lit ''[2001:db8::1]:443'') = None \<and>
   effective_client_ip (V4 [10, 0, 0, 1]) [lit ''x-forwarded-for'' \<mapsto> lit ''2001:db8::1''] [V4 [10, 0, 0, 1]] =
     V4 [10, 0, 0, 1]"
  by (intro conjI) code_simp+

end
