(* ===== verification/Concurrency.thy ===== *)
theory Concurrency
  imports Transitions Gcra ClientIp
begin

text \<open>
  \<open>src/middleware/rate_limit.rs\<close>: the ceiling on concurrent requests per address and the request's way
  through it (\<open>apply\<close>). Semaphores live behind weak pointers: an entry of the map outlives the
  semaphore, and is dropped by a sweep every 1024 calls or replaced when its address returns. The
  requests of the server are a list of threads whose steps interleave freely.
\<close>

definition SWEEP_INTERVAL :: nat where "SWEEP_INTERVAL = 1024"

text \<open>
  \<open>semaphores\<close> maps an address to a weak pointer (an allocation number); \<open>strong\<close> and \<open>permits\<close> give an
  allocation's strong count and free permits. \<open>Semaphore::new\<close> takes the next number.
\<close>

record limiter_state =
  max_per_ip :: nat
  semaphores :: "ip_addr \<Rightarrow> nat option"
  calls_since_sweep :: nat
  next_alloc :: nat
  strong :: "nat \<Rightarrow> nat"
  permits :: "nat \<Rightarrow> nat"

definition new_limiter :: "nat \<Rightarrow> limiter_state" where
  "new_limiter n = \<lparr>max_per_ip = n, semaphores = (\<lambda>_. None), calls_since_sweep = 0, next_alloc = 0,
     strong = (\<lambda>_. 0), permits = (\<lambda>_. 0)\<rparr>"

definition sweep :: "limiter_state \<Rightarrow> limiter_state" where
  "sweep st =
     (let calls = calls_since_sweep st + 1 in
      if SWEEP_INTERVAL \<le> calls
      then st\<lparr>calls_since_sweep := 0,
             semaphores := (\<lambda>ip. case semaphores st ip of
                Some s \<Rightarrow> if 0 < strong st s then Some s else None | None \<Rightarrow> None)\<rparr>
      else st\<lparr>calls_since_sweep := calls\<rparr>)"

text \<open>\<open>IpConcurrencyLimiter::semaphore\<close>: the caller now holds a strong pointer to the result.\<close>

definition semaphore :: "limiter_state \<Rightarrow> ip_addr \<Rightarrow> nat \<times> limiter_state" where
  "semaphore st0 ip =
     (let st = sweep st0 in
      case semaphores st ip of
        Some s \<Rightarrow>
          if 0 < strong st s then (s, st\<lparr>strong := (strong st)(s := strong st s + 1)\<rparr>)
          else (next_alloc st, st\<lparr>next_alloc := next_alloc st + 1, semaphores := (semaphores st)(ip \<mapsto> next_alloc st),
            strong := (strong st)(next_alloc st := 1), permits := (permits st)(next_alloc st := max_per_ip st)\<rparr>)
      | None \<Rightarrow> (next_alloc st, st\<lparr>next_alloc := next_alloc st + 1, semaphores := (semaphores st)(ip \<mapsto> next_alloc st),
            strong := (strong st)(next_alloc st := 1), permits := (permits st)(next_alloc st := max_per_ip st)\<rparr>))"

text \<open>\<open>try_acquire_owned\<close> consumes the pointer: on success it lives on in the permit.\<close>

definition drop_pointer :: "nat \<Rightarrow> limiter_state \<Rightarrow> limiter_state" where
  "drop_pointer s st = st\<lparr>strong := (strong st)(s := strong st s - 1)\<rparr>"

definition try_acquire_owned :: "nat \<Rightarrow> limiter_state \<Rightarrow> bool \<times> limiter_state" where
  "try_acquire_owned s st =
     (if 0 < permits st s then (True, st\<lparr>permits := (permits st)(s := permits st s - 1)\<rparr>)
      else (False, drop_pointer s st))"

definition drop_permit :: "nat \<Rightarrow> limiter_state \<Rightarrow> limiter_state" where
  "drop_permit s st = drop_pointer s (st\<lparr>permits := (permits st)(s := permits st s + 1)\<rparr>)"

section \<open>Requests\<close>

text \<open>Where a request stands in \<open>apply\<close>, and what it answers.\<close>

datatype response =
    Handled
  | Service_unavailable
  | Too_many_requests nat
  | Request_timeout
  | Cancelled

datatype thread =
    Holding ip_addr nat
  | Permitted ip_addr nat
  | Running ip_addr nat
  | Done response

definition rate_limited :: "int \<Rightarrow> response" where
  "rate_limited wait_us = Too_many_requests (max 1 (nat (wait_us div 1000000)))"

record server =
  conc :: limiter_state
  persistent :: "persistent_limiter option"
  trusted_proxies :: "ip_addr list"
  threads :: "thread list"

datatype event =
    Arrive ip_addr header_map bool
  | Acquire nat
  | Check nat int backend_faults
  | Finish nat bool
  | Cancel nat

text \<open>
  \<open>apply\<close>, cut at its awaits. \<open>Arrive\<close> carries the peer, the headers and whether the limiter's mutex is
  poisoned; a request without connection information passes the layer untouched and is not a thread
  here. \<open>Finish\<close> says whether the handler overran the request timeout; \<open>Cancel\<close> is a client that goes away
  while the request waits at an await. The permit is dropped with every exit.
\<close>

definition server_step :: "server \<Rightarrow> event \<Rightarrow> server option" where
  "server_step sv ev = (case ev of
     Arrive peer headers is_poisoned \<Rightarrow>
       if is_poisoned then Some (sv\<lparr>threads := threads sv @ [Done Service_unavailable]\<rparr>)
       else let ip = effective_client_ip peer headers (trusted_proxies sv) in
         (case semaphore (conc sv) ip of
            (s, c) \<Rightarrow> Some (sv\<lparr>conc := c, threads := threads sv @ [Holding ip s]\<rparr>))
   | Acquire i \<Rightarrow>
       if i < length (threads sv) then
         (case threads sv ! i of
            Holding ip s \<Rightarrow> (case try_acquire_owned s (conc sv) of
               (True, c) \<Rightarrow> Some (sv\<lparr>conc := c, threads := (threads sv)[i := Permitted ip s]\<rparr>)
             | (False, c) \<Rightarrow> Some (sv\<lparr>conc := c, threads := (threads sv)[i := Done (rate_limited 1000000)]\<rparr>))
          | _ \<Rightarrow> None)
       else None
   | Check i now faults \<Rightarrow>
       if i < length (threads sv) then
         (case threads sv ! i of
            Permitted ip s \<Rightarrow> (case persistent sv of
               None \<Rightarrow> Some (sv\<lparr>threads := (threads sv)[i := Running ip s]\<rparr>)
             | Some lim \<Rightarrow> (case persistent_check lim (show_ip ip) now faults of
                 (d, lim') \<Rightarrow>
                   if allowed d
                   then Some (sv\<lparr>persistent := Some lim', threads := (threads sv)[i := Running ip s]\<rparr>)
                   else Some (sv\<lparr>persistent := Some lim', conc := drop_permit s (conc sv),
                     threads := (threads sv)[i := Done (rate_limited (retry_after d))]\<rparr>)))
          | _ \<Rightarrow> None)
       else None
   | Finish i overran \<Rightarrow>
       if i < length (threads sv) then
         (case threads sv ! i of
            Running ip s \<Rightarrow> Some (sv\<lparr>conc := drop_permit s (conc sv),
              threads := (threads sv)[i := Done (if overran then Request_timeout else Handled)]\<rparr>)
          | _ \<Rightarrow> None)
       else None
   | Cancel i \<Rightarrow>
       if i < length (threads sv) then
         (case threads sv ! i of
            Permitted ip s \<Rightarrow> Some (sv\<lparr>conc := drop_permit s (conc sv), threads := (threads sv)[i := Done Cancelled]\<rparr>)
          | Running ip s \<Rightarrow> Some (sv\<lparr>conc := drop_permit s (conc sv), threads := (threads sv)[i := Done Cancelled]\<rparr>)
          | _ \<Rightarrow> None)
       else None)"

section \<open>Invariant\<close>

fun refers :: "nat \<Rightarrow> thread \<Rightarrow> bool" where
  "refers a (Holding _ s) \<longleftrightarrow> s = a"
| "refers a (Permitted _ s) \<longleftrightarrow> s = a"
| "refers a (Running _ s) \<longleftrightarrow> s = a"
| "refers a (Done _) \<longleftrightarrow> False"

fun has_permit :: "nat \<Rightarrow> thread \<Rightarrow> bool" where
  "has_permit a (Permitted _ s) \<longleftrightarrow> s = a"
| "has_permit a (Running _ s) \<longleftrightarrow> s = a"
| "has_permit a _ \<longleftrightarrow> False"

fun pointer :: "thread \<Rightarrow> (ip_addr \<times> nat) option" where
  "pointer (Holding ip s) = Some (ip, s)"
| "pointer (Permitted ip s) = Some (ip, s)"
| "pointer (Running ip s) = Some (ip, s)"
| "pointer (Done _) = None"

fun served :: "ip_addr \<Rightarrow> thread \<Rightarrow> bool" where
  "served a (Permitted ip _) \<longleftrightarrow> ip = a"
| "served a (Running ip _) \<longleftrightarrow> ip = a"
| "served a _ \<longleftrightarrow> False"

lemma refers_pointer: "refers a t \<longleftrightarrow> (\<exists>ip. pointer t = Some (ip, a))"
  by (cases t) auto

definition limiter_inv :: "limiter_state \<Rightarrow> thread list \<Rightarrow> bool" where
  "limiter_inv c ts \<longleftrightarrow>
     (\<forall>a. strong c a = count_if (refers a) ts) \<and>
     (\<forall>a < next_alloc c. permits c a + count_if (has_permit a) ts = max_per_ip c) \<and>
     (\<forall>t\<in>set ts. \<forall>ip a. pointer t = Some (ip, a) \<longrightarrow> a < next_alloc c \<and> semaphores c ip = Some a) \<and>
     (\<forall>ip a. semaphores c ip = Some a \<longrightarrow> a < next_alloc c) \<and>
     (\<forall>ip ip' a. semaphores c ip = Some a \<longrightarrow> semaphores c ip' = Some a \<longrightarrow> ip = ip')"

definition server_inv :: "server \<Rightarrow> bool" where
  "server_inv sv \<longleftrightarrow> limiter_inv (conc sv) (threads sv)"

lemma limiter_invD:
  assumes "limiter_inv c ts"
  shows "strong c a = count_if (refers a) ts"
    and "a < next_alloc c \<Longrightarrow> permits c a + count_if (has_permit a) ts = max_per_ip c"
    and "\<lbrakk>t \<in> set ts; pointer t = Some (ip, a)\<rbrakk> \<Longrightarrow> a < next_alloc c \<and> semaphores c ip = Some a"
    and "semaphores c ip = Some a \<Longrightarrow> a < next_alloc c"
    and "\<lbrakk>semaphores c ip = Some a; semaphores c ip' = Some a\<rbrakk> \<Longrightarrow> ip = ip'"
  using assms unfolding limiter_inv_def by blast+

lemma live_pointer:
  assumes "limiter_inv c ts" and "t \<in> set ts" and "pointer t = Some (ip, a)"
  shows "0 < strong c a"
proof -
  have "count_if (refers a) ts \<noteq> 0"
    using assms(2,3) by (auto simp: count_if_0 refers_pointer)
  then show ?thesis by (simp add: limiter_invD(1) [OF assms(1)])
qed

lemma limiter_invI:
  assumes "\<And>a. strong c a = count_if (refers a) ts"
    and "\<And>a. a < next_alloc c \<Longrightarrow> permits c a + count_if (has_permit a) ts = max_per_ip c"
    and "\<And>t ip a. \<lbrakk>t \<in> set ts; pointer t = Some (ip, a)\<rbrakk> \<Longrightarrow> a < next_alloc c \<and> semaphores c ip = Some a"
    and "\<And>ip a. semaphores c ip = Some a \<Longrightarrow> a < next_alloc c"
    and "\<And>ip ip' a. \<lbrakk>semaphores c ip = Some a; semaphores c ip' = Some a\<rbrakk> \<Longrightarrow> ip = ip'"
  shows "limiter_inv c ts"
  using assms unfolding limiter_inv_def by blast

lemma sweep_fields [simp]:
  "strong (sweep c) = strong c" "permits (sweep c) = permits c"
  "next_alloc (sweep c) = next_alloc c" "max_per_ip (sweep c) = max_per_ip c"
  by (simp_all add: sweep_def Let_def)

lemma sweep_sub: "semaphores (sweep c) ip = Some a \<Longrightarrow> semaphores c ip = Some a"
  by (auto simp: sweep_def Let_def split: option.splits if_splits)

lemma sweep_keep: "\<lbrakk>semaphores c ip = Some a; 0 < strong c a\<rbrakk> \<Longrightarrow> semaphores (sweep c) ip = Some a"
  by (simp add: sweep_def Let_def)

lemma sweep_inv:
  assumes "limiter_inv c ts"
  shows "limiter_inv (sweep c) ts"
proof (rule limiter_invI)
  show "a < next_alloc (sweep c) \<and> semaphores (sweep c) ip = Some a"
    if "t \<in> set ts" "pointer t = Some (ip, a)" for t ip a
    using limiter_invD(3) [OF assms that] live_pointer [OF assms that] sweep_keep by simp
  show "ip = ip'" if "semaphores (sweep c) ip = Some a" "semaphores (sweep c) ip' = Some a" for ip ip' a
    by (rule limiter_invD(5) [OF assms sweep_sub sweep_sub]) (rule that)+
qed (use limiter_invD(1,2,4) [OF assms] in \<open>auto dest: sweep_sub\<close>)

lemma has_permit_pointer: "has_permit a t \<Longrightarrow> \<exists>ip. pointer t = Some (ip, a)"
  by (cases t) auto

lemma fresh_counts:
  assumes "limiter_inv c ts"
  shows "count_if (refers (next_alloc c)) ts = 0" and "count_if (has_permit (next_alloc c)) ts = 0"
  using limiter_invD(3) [OF assms]
  by (auto simp: count_if_0 refers_pointer dest!: has_permit_pointer)

lemma no_live_pointer:
  assumes "limiter_inv c ts" and "\<And>a. semaphores c ip = Some a \<Longrightarrow> strong c a = 0"
  shows "\<forall>t\<in>set ts. \<forall>a. pointer t \<noteq> Some (ip, a)"
  using assms(2) limiter_invD(3) [OF assms(1)] live_pointer [OF assms(1)] by force

lemma alloc_inv:
  assumes "limiter_inv c ts" and "\<And>a. semaphores c ip = Some a \<Longrightarrow> strong c a = 0"
  shows "limiter_inv (c\<lparr>next_alloc := next_alloc c + 1, semaphores := (semaphores c)(ip \<mapsto> next_alloc c),
      strong := (strong c)(next_alloc c := 1), permits := (permits c)(next_alloc c := max_per_ip c)\<rparr>)
    (ts @ [Holding ip (next_alloc c)])"
    (is "limiter_inv ?c ?ts")
proof (rule limiter_invI)
  note D = limiter_invD [OF assms(1)]
  show "strong ?c a = count_if (refers a) ?ts" for a
    using D(1) [of a] fresh_counts(1) [OF assms(1)] by simp
  show "permits ?c a + count_if (has_permit a) ?ts = max_per_ip ?c" if "a < next_alloc ?c" for a
    using D(2) [of a] fresh_counts(2) [OF assms(1)] that by (auto simp: less_Suc_eq)
  show "a < next_alloc ?c \<and> semaphores ?c j = Some a" if "t \<in> set ?ts" "pointer t = Some (j, a)" for t j a
  proof (cases "t \<in> set ts")
    case True
    then have "j \<noteq> ip" using no_live_pointer [OF assms] that(2) by blast
    then show ?thesis using D(3) [OF True that(2)] by simp
  next
    case False
    then show ?thesis using that by simp
  qed
  show "a < next_alloc ?c" if "semaphores ?c j = Some a" for j a
    using that D(4) [of j a] by (simp split: if_splits)
  show "j = j'" if "semaphores ?c j = Some a" "semaphores ?c j' = Some a" for j j' a
    using that D(4) [of j a] D(4) [of j' a] D(5) [of j a j'] by (simp split: if_splits)
qed

lemma semaphore_inv:
  assumes "limiter_inv c ts" and "semaphore c ip = (s, c')"
  shows "limiter_inv c' (ts @ [Holding ip s]) \<and> max_per_ip c' = max_per_ip c"
proof -
  have sw: "limiter_inv (sweep c) ts" by (rule sweep_inv [OF assms(1)])
  show ?thesis
  proof (cases "\<exists>a. semaphores (sweep c) ip = Some a \<and> 0 < strong (sweep c) a")
    case True
    then obtain a where a: "semaphores (sweep c) ip = Some a" "0 < strong (sweep c) a" by blast
    then have "s = a" "c' = (sweep c)\<lparr>strong := (strong (sweep c))(a := strong (sweep c) a + 1)\<rparr>"
      using assms(2) by (auto simp: semaphore_def Let_def)
    moreover have "limiter_inv ((sweep c)\<lparr>strong := (strong (sweep c))(a := strong (sweep c) a + 1)\<rparr>) (ts @ [Holding ip a])"
      (is "limiter_inv ?c ?ts")
    proof (rule limiter_invI)
      note D = limiter_invD [OF sw]
      show "strong ?c b = count_if (refers b) ?ts" for b using D(1) [of b] by auto
      show "permits ?c b + count_if (has_permit b) ?ts = max_per_ip ?c" if "b < next_alloc ?c" for b
        using D(2) [of b] that by simp
      show "b < next_alloc ?c \<and> semaphores ?c j = Some b" if "t \<in> set ?ts" "pointer t = Some (j, b)" for t j b
        using that D(3) [of t j b] D(4) a(1) by auto
      show "b < next_alloc ?c" if "semaphores ?c j = Some b" for j b using that D(4) [of j b] by simp
      show "j = j'" if "semaphores ?c j = Some b" "semaphores ?c j' = Some b" for j j' b
        using that D(5) [of j b j'] by simp
    qed
    ultimately show ?thesis by simp
  next
    case False
    then have eq: "s = next_alloc (sweep c)"
      "c' = (sweep c)\<lparr>next_alloc := next_alloc (sweep c) + 1,
        semaphores := (semaphores (sweep c))(ip \<mapsto> next_alloc (sweep c)),
        strong := (strong (sweep c))(next_alloc (sweep c) := 1),
        permits := (permits (sweep c))(next_alloc (sweep c) := max_per_ip (sweep c))\<rparr>"
      using assms(2) by (auto simp: semaphore_def Let_def split: option.splits if_splits)
    have "\<And>a. semaphores (sweep c) ip = Some a \<Longrightarrow> strong (sweep c) a = 0" using False by auto
    from alloc_inv [OF sw this] show ?thesis by (simp add: eq)
  qed
qed

text \<open>A thread that moves on without touching its pointer or permit, or gives them up.\<close>

lemma pointers_update:
  assumes "limiter_inv c ts" and "i < length ts"
    and "\<And>ip a. pointer x = Some (ip, a) \<Longrightarrow> pointer (ts ! i) = Some (ip, a)"
    and "t \<in> set (ts[i := x])" and "pointer t = Some (ip, a)"
  shows "a < next_alloc c \<and> semaphores c ip = Some a"
proof -
  have "t = x \<or> t \<in> set ts" using assms(4) set_update_subset_insert [of ts i x] by blast
  then show ?thesis
    using assms(3,5) limiter_invD(3) [OF assms(1), of "ts ! i"] limiter_invD(3) [OF assms(1), of t]
      nth_mem [OF assms(2)] by blast
qed

lemma update_inv:
  assumes "limiter_inv c ts" and "i < length ts"
    and "\<And>ip a. pointer x = Some (ip, a) \<Longrightarrow> pointer (ts ! i) = Some (ip, a)"
    and "\<And>a. strong c' a + (if refers a (ts ! i) then 1 else 0) = strong c a + (if refers a x then 1 else 0)"
    and "\<And>a. a < next_alloc c \<Longrightarrow> permits c' a + (if has_permit a x then 1 else 0) =
      permits c a + (if has_permit a (ts ! i) then 1 else 0)"
    and "semaphores c' = semaphores c" "next_alloc c' = next_alloc c" "max_per_ip c' = max_per_ip c"
  shows "limiter_inv c' (ts[i := x])"
  unfolding limiter_inv_def assms(6-8)
proof (intro conjI allI impI ballI)
  show "strong c' a = count_if (refers a) (ts[i := x])" for a
    using assms(4) [of a] count_if_update [OF assms(2), of "refers a" x] limiter_invD(1) [OF assms(1), of a]
    by simp
  show "permits c' a + count_if (has_permit a) (ts[i := x]) = max_per_ip c" if "a < next_alloc c" for a
    using assms(5) [OF that] count_if_update [OF assms(2), of "has_permit a" x]
      limiter_invD(2) [OF assms(1) that] by (simp split: if_splits)
qed (use pointers_update [OF assms(1-3)] limiter_invD(4,5) [OF assms(1)] in blast)+

lemma strong_pos:
  assumes "limiter_inv c ts" and "i < length ts" and "pointer (ts ! i) = Some (ip, s)"
  shows "0 < strong c s" and "s < next_alloc c"
  using live_pointer [OF assms(1) nth_mem [OF assms(2)] assms(3)]
    limiter_invD(3) [OF assms(1) nth_mem [OF assms(2)] assms(3)] by auto

lemma acquire_inv:
  assumes "limiter_inv c ts" and "i < length ts" and "ts ! i = Holding ip s"
    and "try_acquire_owned s c = (ok, c')"
  shows "limiter_inv c' (ts[i := if ok then Permitted ip s else Done r])"
  using assms(3,4) strong_pos [OF assms(1,2)]
  by (intro update_inv [OF assms(1,2)])
    (auto simp: try_acquire_owned_def drop_pointer_def split: if_splits)

lemma drop_permit_inv:
  assumes "limiter_inv c ts" and "i < length ts" and "ts ! i = Permitted ip s \<or> ts ! i = Running ip s"
  shows "limiter_inv (drop_permit s c) (ts[i := Done r])"
  using assms(3) strong_pos [OF assms(1,2)]
  by (intro update_inv [OF assms(1,2)]) (auto simp: drop_permit_def drop_pointer_def)

lemma run_inv_move:
  assumes "limiter_inv c ts" and "i < length ts" and "ts ! i = Permitted ip s"
  shows "limiter_inv c (ts[i := Running ip s])"
  using assms(3) by (intro update_inv [OF assms(1,2)]) auto

lemma done_append_inv: "limiter_inv c ts \<Longrightarrow> limiter_inv c (ts @ [Done r])"
  by (rule limiter_invI) (auto dest: limiter_invD)

lemma try_acquire_max: "try_acquire_owned s c = (ok, c') \<Longrightarrow> max_per_ip c' = max_per_ip c"
  by (auto simp: try_acquire_owned_def drop_pointer_def split: if_splits)

lemma drop_permit_max [simp]: "max_per_ip (drop_permit s c) = max_per_ip c"
  by (simp add: drop_permit_def drop_pointer_def)

lemma server_step_inv:
  assumes "server_inv sv" and "server_step sv ev = Some sv'"
  shows "server_inv sv' \<and> max_per_ip (conc sv') = max_per_ip (conc sv)"
proof -
  have inv: "limiter_inv (conc sv) (threads sv)" using assms(1) by (simp add: server_inv_def)
  show ?thesis
  proof (cases ev)
    case (Arrive peer headers p)
    then show ?thesis
      using assms(2) done_append_inv [OF inv] semaphore_inv [OF inv]
      by (auto simp: server_step_def server_inv_def Let_def split: if_splits prod.splits)
  next
    case (Acquire i)
    then obtain ip s where i: "i < length (threads sv)" "threads sv ! i = Holding ip s"
      using assms(2) by (auto simp: server_step_def split: if_splits thread.splits)
    obtain b c where acq: "try_acquire_owned s (conc sv) = (b, c)" by fastforce
    have "sv' = sv\<lparr>conc := c, threads := (threads sv)[i := if b then Permitted ip s
        else Done (rate_limited 1000000)]\<rparr>"
      using assms(2) Acquire i acq by (cases b) (simp_all add: server_step_def)
    then show ?thesis using acquire_inv [OF inv i acq] try_acquire_max [OF acq] by (simp add: server_inv_def)
  next
    case (Check i now f)
    then show ?thesis
      using assms(2) drop_permit_inv [OF inv, of i] run_inv_move [OF inv, of i]
      by (auto simp: server_step_def server_inv_def
          split: if_splits thread.splits prod.splits option.splits)
  next
    case (Finish i b)
    then show ?thesis
      using assms(2) drop_permit_inv [OF inv, of i]
      by (auto simp: server_step_def server_inv_def split: if_splits thread.splits)
  next
    case (Cancel i)
    then show ?thesis
      using assms(2) drop_permit_inv [OF inv, of i]
      by (auto simp: server_step_def server_inv_def split: if_splits thread.splits)
  qed
qed

interpretation ic: invariant_system server_step "\<lambda>sv. server_inv sv \<and> max_per_ip (conc sv) = n" for n
  by unfold_locales (auto dest: server_step_inv)

definition fresh_server :: "nat \<Rightarrow> persistent_limiter option \<Rightarrow> ip_addr list \<Rightarrow> server" where
  "fresh_server n lim proxies =
     \<lparr>conc = new_limiter n, persistent = lim, trusted_proxies = proxies, threads = []\<rparr>"

lemma fresh_server_inv: "server_inv (fresh_server n lim proxies) \<and> max_per_ip (conc (fresh_server n lim proxies)) = n"
  by (simp add: fresh_server_def server_inv_def limiter_inv_def new_limiter_def)

lemma run_server_inv:
  assumes "run_events server_step (fresh_server n lim proxies) es = Some sv"
  shows "limiter_inv (conc sv) (threads sv)" and "max_per_ip (conc sv) = n"
  using ic.run_inv [OF assms fresh_server_inv] by (simp_all add: server_inv_def)

lemma served_pointer: "served ip t \<Longrightarrow> \<exists>a. pointer t = Some (ip, a) \<and> has_permit a t"
  by (cases t) auto

lemma permit_served: "\<lbrakk>has_permit a t; pointer t = Some (ip, a)\<rbrakk> \<Longrightarrow> served ip t"
  by (cases t) auto

lemma served_count:
  assumes "limiter_inv c ts" and "semaphores c ip = Some a"
  shows "count_if (served ip) ts = count_if (has_permit a) ts"
proof (rule antisym)
  show "count_if (served ip) ts \<le> count_if (has_permit a) ts"
    using limiter_invD(3) [OF assms(1)] assms(2) by (intro count_if_mono) (fastforce dest: served_pointer)
  show "count_if (has_permit a) ts \<le> count_if (served ip) ts"
  proof (rule count_if_mono)
    fix t assume t: "t \<in> set ts" "has_permit a t"
    then obtain j where j: "pointer t = Some (j, a)" using has_permit_pointer by blast
    then have "semaphores c j = Some a" using limiter_invD(3) [OF assms(1) t(1)] by blast
    then have "j = ip" by (rule limiter_invD(5) [OF assms(1) _ assms(2)])
    then show "served ip t" using permit_served [OF t(2)] j by simp
  qed
qed

lemma served_bound:
  assumes "limiter_inv c ts"
  shows "count_if (served ip) ts \<le> max_per_ip c"
proof (cases "semaphores c ip")
  case None
  then have "count_if (served ip) ts = 0"
    using limiter_invD(3) [OF assms] by (fastforce simp: count_if_0 dest: served_pointer)
  then show ?thesis by simp
next
  case (Some a)
  then show ?thesis
    using served_count [OF assms Some] limiter_invD(2) [OF assms limiter_invD(4) [OF assms Some]] by simp
qed

text \<open>
  Property C17 (safety): in every interleaving of arrivals, acquisitions, checks, completions,
  timeouts and cancellations, at most \<open>max_per_ip\<close> requests of an address hold a permit, although
  semaphores are dropped and recreated and the map is swept in between.
\<close>

theorem concurrency_ceiling:
  assumes "run_events server_step (fresh_server n lim proxies) es = Some sv"
  shows "count_if (served ip) (threads sv) \<le> n"
  using served_bound [OF run_server_inv(1) [OF assms]] run_server_inv(2) [OF assms] by simp

definition busy_trace :: "event list" where
  "busy_trace = [Arrive (V4 [1, 1, 1, 1]) (\<lambda>_. None) False, Arrive (V4 [1, 1, 1, 1]) (\<lambda>_. None) False,
     Acquire 0, Check 0 5 no_faults, Acquire 1]"

theorem concurrency_ceiling_witness:
  "\<exists>sv. run_events server_step (fresh_server 1 None []) busy_trace = Some sv \<and>
     count_if (served (V4 [1, 1, 1, 1])) (threads sv) \<le> 1 \<and>
     threads sv = [Running (V4 [1, 1, 1, 1]) 0, Done (Too_many_requests 1)]"
proof -
  have "map_option threads (run_events server_step (fresh_server 1 None []) busy_trace) =
      Some [Running (V4 [1, 1, 1, 1]) 0, Done (Too_many_requests 1)]" by code_simp
  then obtain sv where sv: "run_events server_step (fresh_server 1 None []) busy_trace = Some sv"
    "threads sv = [Running (V4 [1, 1, 1, 1]) 0, Done (Too_many_requests 1)]" by auto
  show ?thesis using sv concurrency_ceiling [OF sv(1), of "V4 [1, 1, 1, 1]"] by blast
qed

text \<open>
  No permit leaks. In every reachable state a request waiting for a permit gets
  one exactly when fewer than \<open>max_per_ip\<close> requests of its address hold one; otherwise it is answered
  429 with \<open>Retry-After: 1\<close> at once and never queued.
\<close>

theorem acquire_iff_below_ceiling:
  assumes "run_events server_step (fresh_server n lim proxies) es = Some sv"
    and "i < length (threads sv)" and "threads sv ! i = Holding ip s"
  shows "\<exists>sv'. server_step sv (Acquire i) = Some sv' \<and>
    threads sv' ! i = (if count_if (served ip) (threads sv) < n then Permitted ip s
                       else Done (Too_many_requests 1))"
proof -
  note inv = run_server_inv(1) [OF assms(1)]
  have s: "s < next_alloc (conc sv)" "semaphores (conc sv) ip = Some s"
    using limiter_invD(3) [OF inv nth_mem [OF assms(2)]] assms(3) by auto
  have "permits (conc sv) s + count_if (served ip) (threads sv) = n"
    using limiter_invD(2) [OF inv s(1)] served_count [OF inv s(2)] run_server_inv(2) [OF assms(1)] by simp
  then have free: "0 < permits (conc sv) s \<longleftrightarrow> count_if (served ip) (threads sv) < n" by linarith
  obtain b c where acq: "try_acquire_owned s (conc sv) = (b, c)" by fastforce
  then have "b \<longleftrightarrow> count_if (served ip) (threads sv) < n"
    unfolding free [symmetric] by (auto simp: try_acquire_owned_def split: if_splits)
  moreover have "server_step sv (Acquire i) = Some (sv\<lparr>conc := c, threads := (threads sv)[i :=
      if b then Permitted ip s else Done (rate_limited 1000000)]\<rparr>)"
    using assms(2,3) acq by (cases b) (simp_all add: server_step_def)
  ultimately show ?thesis using assms(2) by (simp add: rate_limited_def)
qed

theorem acquire_iff_below_ceiling_witness:
  "\<exists>sv sv'. run_events server_step (fresh_server 1 None []) (butlast busy_trace) = Some sv \<and>
     server_step sv (Acquire 1) = Some sv' \<and> threads sv' ! 1 = Done (Too_many_requests 1)"
proof -
  have "map_option threads (run_events server_step (fresh_server 1 None []) (butlast busy_trace)) =
      Some [Running (V4 [1, 1, 1, 1]) 0, Holding (V4 [1, 1, 1, 1]) 0]" by code_simp
  then obtain sv where sv: "run_events server_step (fresh_server 1 None []) (butlast busy_trace) = Some sv"
    "threads sv = [Running (V4 [1, 1, 1, 1]) 0, Holding (V4 [1, 1, 1, 1]) 0]" by auto
  show ?thesis using sv acquire_iff_below_ceiling [OF sv(1), of 1 "V4 [1, 1, 1, 1]" 0] by auto
qed

end
