(* ===== verification/PasswordCrypto.thy ===== *)
theory PasswordCrypto
  imports Prelude
begin

text \<open>
  \<open>src/services/password_crypto.rs\<close>: the envelope (key id, nonce, ciphertext, in Base64) in which
  password hashes, TOTP secrets and recovery codes are stored, its additional authenticated data, and
  password verification with rehashing. The cipher, Argon2id and Base64 are crates outside
  \<open>src/\<close> and enter as a record of functions; \<open>primitives_ok\<close> states what their documentation
  promises. Random bytes are indexed by a seed.
\<close>

type_synonym bytes = "nat list"

section \<open>UTF-8\<close>

definition is_scalar :: "uchar \<Rightarrow> bool" where
  "is_scalar c \<longleftrightarrow> c < 55296 \<or> (57344 \<le> c \<and> c < 1114112)"

definition utf8_char :: "uchar \<Rightarrow> bytes" where
  "utf8_char c =
     (if c < 128 then [c]
      else if c < 2048 then [192 + c div 64, 128 + c mod 64]
      else if c < 65536 then [224 + c div 4096, 128 + c div 64 mod 64, 128 + c mod 64]
      else [240 + c div 262144, 128 + c div 4096 mod 64, 128 + c div 64 mod 64, 128 + c mod 64])"

definition as_bytes :: "ustr \<Rightarrow> bytes" where
  "as_bytes s = concat (map utf8_char s)"

definition is_cont :: "nat \<Rightarrow> bool" where
  "is_cont b \<longleftrightarrow> 128 \<le> b \<and> b < 192"

text \<open>\<open>String::from_utf8\<close>: overlong forms, surrogates and stray bytes are errors.\<close>

fun from_utf8 :: "bytes \<Rightarrow> ustr option" where
  "from_utf8 [] = Some []"
| "from_utf8 (a # bs) =
     (if a < 128 then map_option ((#) a) (from_utf8 bs)
      else if 192 \<le> a \<and> a < 224 then
        (case bs of b # bs1 \<Rightarrow>
           let c = (a - 192) * 64 + (b - 128) in
           if is_cont b \<and> 128 \<le> c then map_option ((#) c) (from_utf8 bs1) else None
         | [] \<Rightarrow> None)
      else if 224 \<le> a \<and> a < 240 then
        (case bs of b # d # bs2 \<Rightarrow>
           let c = (a - 224) * 4096 + (b - 128) * 64 + (d - 128) in
           if is_cont b \<and> is_cont d \<and> 2048 \<le> c \<and> is_scalar c
           then map_option ((#) c) (from_utf8 bs2) else None
         | _ \<Rightarrow> None)
      else if 240 \<le> a \<and> a < 248 then
        (case bs of b # d # e # bs3 \<Rightarrow>
           let c = (a - 240) * 262144 + (b - 128) * 4096 + (d - 128) * 64 + (e - 128) in
           if is_cont b \<and> is_cont d \<and> is_cont e \<and> 65536 \<le> c \<and> is_scalar c
           then map_option ((#) c) (from_utf8 bs3) else None
         | _ \<Rightarrow> None)
      else None)"

lemma split_64: "(c :: nat) div 64 * 64 + c mod 64 = c"
  by simp

lemma split_4096: "(c :: nat) div 4096 * 4096 + c div 64 mod 64 * 64 + c mod 64 = c"
proof -
  have "c div 4096 = c div 64 div 64" by (simp add: div_mult2_eq [symmetric])
  then have "c div 4096 * 64 + c div 64 mod 64 = c div 64" using split_64 [of "c div 64"] by simp
  then show ?thesis using split_64 [of c] by linarith
qed

lemma split_262144:
  "(c :: nat) div 262144 * 262144 + c div 4096 mod 64 * 4096 + c div 64 mod 64 * 64 + c mod 64 = c"
proof -
  have "c div 262144 = c div 4096 div 64" by (simp add: div_mult2_eq [symmetric])
  then have "c div 262144 * 64 + c div 4096 mod 64 = c div 4096" using split_64 [of "c div 4096"] by simp
  then show ?thesis using split_4096 [of c] by linarith
qed

lemma from_utf8_2:
  "\<lbrakk>q < 32; r < 64; 128 \<le> q * 64 + r\<rbrakk> \<Longrightarrow>
     from_utf8 ((192 + q) # (128 + r) # bs) = map_option ((#) (q * 64 + r)) (from_utf8 bs)"
  by (simp add: is_cont_def)

lemma from_utf8_3:
  "\<lbrakk>p < 16; q < 64; r < 64; 2048 \<le> p * 4096 + q * 64 + r; is_scalar (p * 4096 + q * 64 + r)\<rbrakk> \<Longrightarrow>
     from_utf8 ((224 + p) # (128 + q) # (128 + r) # bs) =
       map_option ((#) (p * 4096 + q * 64 + r)) (from_utf8 bs)"
  by (simp add: is_cont_def)

lemma from_utf8_4:
  "\<lbrakk>n < 8; p < 64; q < 64; r < 64; 65536 \<le> n * 262144 + p * 4096 + q * 64 + r;
    is_scalar (n * 262144 + p * 4096 + q * 64 + r)\<rbrakk> \<Longrightarrow>
     from_utf8 ((240 + n) # (128 + p) # (128 + q) # (128 + r) # bs) =
       map_option ((#) (n * 262144 + p * 4096 + q * 64 + r)) (from_utf8 bs)"
  by (simp add: is_cont_def)

lemma from_utf8_1: "c < 128 \<Longrightarrow> from_utf8 (c # bs) = map_option ((#) c) (from_utf8 bs)"
  by simp

declare from_utf8.simps(2) [simp del]

lemma from_utf8_char:
  assumes "is_scalar c"
  shows "from_utf8 (utf8_char c @ bs) = map_option ((#) c) (from_utf8 bs)"
proof -
  have "c < 1114112" using assms by (auto simp: is_scalar_def)
  then consider "c < 128" | "128 \<le> c" "c < 2048" | "2048 \<le> c" "c < 65536" | "65536 \<le> c" "c < 1114112"
    by linarith
  then show ?thesis
  proof cases
    case 1
    then show ?thesis by (simp add: utf8_char_def from_utf8_1)
  next
    case 2
    have "c div 64 < 32" using 2 less_mult_imp_div_less [of c 32 64] by simp
    moreover have "utf8_char c @ bs = (192 + c div 64) # (128 + c mod 64) # bs"
      using 2 by (simp add: utf8_char_def)
    ultimately show ?thesis
      using from_utf8_2 [of "c div 64" "c mod 64" bs] 2(1) by (simp only: split_64)
  next
    case 3
    have "c div 4096 < 16" using 3 less_mult_imp_div_less [of c 16 4096] by simp
    moreover have "utf8_char c @ bs = (224 + c div 4096) # (128 + c div 64 mod 64) # (128 + c mod 64) # bs"
      using 3 by (simp add: utf8_char_def)
    ultimately show ?thesis
      using from_utf8_3 [of "c div 4096" "c div 64 mod 64" "c mod 64" bs] 3(1) assms
      by (simp only: split_4096)
  next
    case 4
    have "c div 262144 < 8" using 4 less_mult_imp_div_less [of c 8 262144] by simp
    moreover have "utf8_char c @ bs = (240 + c div 262144) # (128 + c div 4096 mod 64) #
        (128 + c div 64 mod 64) # (128 + c mod 64) # bs"
      using 4 by (simp add: utf8_char_def)
    ultimately show ?thesis
      using from_utf8_4 [of "c div 262144" "c div 4096 mod 64" "c div 64 mod 64" "c mod 64" bs] 4(1) assms
      by (simp only: split_262144)
  qed
qed

lemma from_utf8_as_bytes: "list_all is_scalar s \<Longrightarrow> from_utf8 (as_bytes s) = Some s"
  by (induction s) (simp_all add: as_bytes_def from_utf8_char)

lemma as_bytes_inj: "\<lbrakk>list_all is_scalar s; list_all is_scalar t; as_bytes s = as_bytes t\<rbrakk> \<Longrightarrow> s = t"
  by (metis from_utf8_as_bytes option.inject)

section \<open>Constant-time comparison\<close>

text \<open>\<open>constant_time_eq\<close> of \<open>src/security/mod.rs\<close>: it folds the differences of all bytes together.\<close>

unbundle bit_operations_syntax

fun fold_difference :: "nat \<Rightarrow> bytes \<Rightarrow> bytes \<Rightarrow> nat" where
  "fold_difference d (a # l) (b # r) = fold_difference (d OR (a XOR b)) l r"
| "fold_difference d _ _ = d"

definition constant_time_eq :: "bytes \<Rightarrow> bytes \<Rightarrow> bool" where
  "constant_time_eq l r \<longleftrightarrow> length l = length r \<and> fold_difference 0 l r = 0"

lemma xor_0_iff: "(a :: nat) XOR b = 0 \<longleftrightarrow> a = b"
  by (auto simp: bit_eq_iff bit_simps)

lemma or_0_iff: "(a :: nat) OR b = 0 \<longleftrightarrow> a = 0 \<and> b = 0"
  by (auto simp: bit_eq_iff bit_simps)

lemma fold_difference_0: "length l = length r \<Longrightarrow> fold_difference d l r = 0 \<longleftrightarrow> d = 0 \<and> l = r"
  by (induction d l r rule: fold_difference.induct) (auto simp: or_0_iff xor_0_iff)

lemma constant_time_eq_iff [simp]: "constant_time_eq l r \<longleftrightarrow> l = r"
  by (auto simp: constant_time_eq_def fold_difference_0)

section \<open>Envelope\<close>

text \<open>The crates, and the service's own state: key id, cipher key, precomputed dummy record.\<close>

record primitives =
  aead_encrypt :: "bytes \<Rightarrow> bytes \<Rightarrow> bytes \<Rightarrow> bytes \<Rightarrow> bytes option"
  aead_decrypt :: "bytes \<Rightarrow> bytes \<Rightarrow> bytes \<Rightarrow> bytes \<Rightarrow> bytes option"
  b64_encode :: "bytes \<Rightarrow> ustr"
  b64_decode :: "ustr \<Rightarrow> bytes option"
  pwhash_str :: "nat \<Rightarrow> bytes \<Rightarrow> ustr option"
  pwhash_str_verify :: "ustr \<Rightarrow> bytes \<Rightarrow> bool"
  pwhash_needs_rehash :: "ustr \<Rightarrow> bool option"
  random_nonce :: "nat \<Rightarrow> bytes"

record dryoc_service =
  key_id :: bytes
  cipher_key :: bytes
  dummy_record :: ustr

datatype crypto_error =
    Hash_failed | Encryption_failed | Not_base64 | Truncated | Unavailable_key_id
  | Authentication_failed | Not_utf8 | Rehash_check_failed | Invalid_key_length | Invalid_key_id

definition KEY_BYTES :: nat where "KEY_BYTES = 32"
definition KEY_ID_BYTES :: nat where "KEY_ID_BYTES = 16"
definition NONCE_BYTES :: nat where "NONCE_BYTES = 24"
definition TAG_BYTES :: nat where "TAG_BYTES = 16"

definition AAD_PREFIX :: ustr where
  "AAD_PREFIX = lit ''kraken_ui:v1:user:''"

definition password_aad :: "int \<Rightarrow> ustr" where
  "password_aad user_id = AAD_PREFIX @ show_int user_id @ lit '':password_hash''"

definition secret_aad :: "int \<Rightarrow> ustr \<Rightarrow> ustr" where
  "secret_aad user_id domain = AAD_PREFIX @ show_int user_id @ lit '':secret:'' @ domain"

definition normalize_key_id :: "ustr \<Rightarrow> crypto_error + bytes" where
  "normalize_key_id s =
     (if s = [] \<or> KEY_ID_BYTES < utf8_len s \<or> \<not> list_all is_ascii s then Inl Invalid_key_id
      else Inr (as_bytes s @ replicate (KEY_ID_BYTES - length (as_bytes s)) 0))"

definition encrypt_with_aad ::
    "primitives \<Rightarrow> dryoc_service \<Rightarrow> nat \<Rightarrow> ustr \<Rightarrow> ustr \<Rightarrow> crypto_error + ustr" where
  "encrypt_with_aad P svc seed aad plaintext =
     (let nonce = random_nonce P seed in
      case aead_encrypt P (cipher_key svc) nonce (as_bytes aad) (as_bytes plaintext) of
        None \<Rightarrow> Inl Encryption_failed
      | Some encrypted \<Rightarrow> Inr (b64_encode P (key_id svc @ nonce @ encrypted)))"

definition decrypt_with_aad ::
    "primitives \<Rightarrow> dryoc_service \<Rightarrow> ustr \<Rightarrow> ustr \<Rightarrow> crypto_error + ustr" where
  "decrypt_with_aad P svc aad encrypted_record =
     (case b64_decode P encrypted_record of
        None \<Rightarrow> Inl Not_base64
      | Some envelope \<Rightarrow>
          if length envelope < KEY_ID_BYTES + NONCE_BYTES + TAG_BYTES then Inl Truncated
          else if take KEY_ID_BYTES envelope \<noteq> key_id svc then Inl Unavailable_key_id
          else
            let nonce = take NONCE_BYTES (drop KEY_ID_BYTES envelope);
                ciphertext = drop (KEY_ID_BYTES + NONCE_BYTES) envelope
            in case aead_decrypt P (cipher_key svc) nonce (as_bytes aad) ciphertext of
                 None \<Rightarrow> Inl Authentication_failed
               | Some m \<Rightarrow> (case from_utf8 m of None \<Rightarrow> Inl Not_utf8 | Some s \<Rightarrow> Inr s))"

section \<open>Passwords and secrets\<close>

record password_verification =
  valid :: bool
  replacement_record :: "ustr option"

definition encrypt_password ::
    "primitives \<Rightarrow> dryoc_service \<Rightarrow> nat \<Rightarrow> int \<Rightarrow> ustr \<Rightarrow> crypto_error + ustr" where
  "encrypt_password P svc seed user_id password =
     (case pwhash_str P seed (as_bytes password) of
        None \<Rightarrow> Inl Hash_failed
      | Some hash_record \<Rightarrow> encrypt_with_aad P svc seed (password_aad user_id) hash_record)"

definition verify_password ::
    "primitives \<Rightarrow> dryoc_service \<Rightarrow> nat \<Rightarrow> int \<Rightarrow> ustr \<Rightarrow> ustr \<Rightarrow> crypto_error + password_verification" where
  "verify_password P svc seed user_id encrypted_record password =
     (case decrypt_with_aad P svc (password_aad user_id) encrypted_record of
        Inl e \<Rightarrow> Inl e
      | Inr hash_record \<Rightarrow>
          if \<not> pwhash_str_verify P hash_record (as_bytes password)
          then Inr \<lparr>valid = False, replacement_record = None\<rparr>
          else (case pwhash_needs_rehash P hash_record of
              None \<Rightarrow> Inl Rehash_check_failed
            | Some False \<Rightarrow> Inr \<lparr>valid = True, replacement_record = None\<rparr>
            | Some True \<Rightarrow> (case encrypt_password P svc seed user_id password of
                Inl e \<Rightarrow> Inl e
              | Inr record \<Rightarrow> Inr \<lparr>valid = True, replacement_record = Some record\<rparr>)))"

definition encrypt_secret ::
    "primitives \<Rightarrow> dryoc_service \<Rightarrow> nat \<Rightarrow> int \<Rightarrow> ustr \<Rightarrow> ustr \<Rightarrow> crypto_error + ustr" where
  "encrypt_secret P svc seed user_id domain plaintext =
     encrypt_with_aad P svc seed (secret_aad user_id domain) plaintext"

definition decrypt_secret ::
    "primitives \<Rightarrow> dryoc_service \<Rightarrow> int \<Rightarrow> ustr \<Rightarrow> ustr \<Rightarrow> crypto_error + ustr" where
  "decrypt_secret P svc user_id domain ciphertext =
     decrypt_with_aad P svc (secret_aad user_id domain) ciphertext"

definition DUMMY_PASSWORD :: ustr where
  "DUMMY_PASSWORD = lit ''kraken-ui::timing-equaliser::v1''"

definition from_base64_key ::
    "primitives \<Rightarrow> nat \<Rightarrow> ustr \<Rightarrow> ustr \<Rightarrow> crypto_error + dryoc_service" where
  "from_base64_key P seed kid encoded_key =
     (case b64_decode P encoded_key of
        None \<Rightarrow> Inl Not_base64
      | Some key \<Rightarrow>
          if length key \<noteq> KEY_BYTES then Inl Invalid_key_length
          else (case normalize_key_id kid of
              Inl e \<Rightarrow> Inl e
            | Inr k \<Rightarrow>
                let svc = \<lparr>key_id = k, cipher_key = key, dummy_record = []\<rparr> in
                case encrypt_password P svc seed 0 DUMMY_PASSWORD of
                  Inl e \<Rightarrow> Inl e
                | Inr dummy \<Rightarrow> Inr (svc\<lparr>dummy_record := dummy\<rparr>)))"

text \<open>\<open>run_dummy_verification\<close>: what the timing equaliser computes for an unknown account.\<close>

definition run_dummy_verification ::
    "primitives \<Rightarrow> dryoc_service \<Rightarrow> nat \<Rightarrow> ustr \<Rightarrow> crypto_error + password_verification" where
  "run_dummy_verification P svc seed password = verify_password P svc seed 0 (dummy_record svc) password"

section \<open>What the crates promise\<close>

text \<open>
  Decryption inverts encryption and refuses other associated data; ciphertexts carry the tag; Base64
  decodes what it encoded; nonces have their length; a hash record verifies its own password and no
  other, is valid text, and a record just made needs no rehash.
\<close>

definition primitives_ok :: "primitives \<Rightarrow> bool" where
  "primitives_ok P \<longleftrightarrow>
     (\<forall>k n a m c. aead_encrypt P k n a m = Some c \<longrightarrow>
        aead_decrypt P k n a c = Some m \<and> TAG_BYTES \<le> length c \<and>
        (\<forall>a'. a' \<noteq> a \<longrightarrow> aead_decrypt P k n a' c = None)) \<and>
     (\<forall>b. b64_decode P (b64_encode P b) = Some b) \<and>
     (\<forall>seed. length (random_nonce P seed) = NONCE_BYTES) \<and>
     (\<forall>seed p h. pwhash_str P seed p = Some h \<longrightarrow> list_all is_scalar h \<and>
        pwhash_needs_rehash P h = Some False \<and> (\<forall>p'. pwhash_str_verify P h p' \<longleftrightarrow> p' = p))"

lemma primitives_okD:
  assumes "primitives_ok P"
  shows "aead_encrypt P k n a m = Some c \<Longrightarrow> aead_decrypt P k n a c = Some m"
    and "aead_encrypt P k n a m = Some c \<Longrightarrow> TAG_BYTES \<le> length c"
    and "\<lbrakk>aead_encrypt P k n a m = Some c; a' \<noteq> a\<rbrakk> \<Longrightarrow> aead_decrypt P k n a' c = None"
    and "b64_decode P (b64_encode P b) = Some b"
    and "length (random_nonce P seed) = NONCE_BYTES"
    and "pwhash_str P seed p = Some h \<Longrightarrow> list_all is_scalar h"
    and "pwhash_str P seed p = Some h \<Longrightarrow> pwhash_needs_rehash P h = Some False"
    and "pwhash_str P seed p = Some h \<Longrightarrow> pwhash_str_verify P h p' \<longleftrightarrow> p' = p"
  using assms by (auto simp: primitives_ok_def)

definition service_ok :: "dryoc_service \<Rightarrow> bool" where
  "service_ok svc \<longleftrightarrow> length (key_id svc) = KEY_ID_BYTES"

lemma ascii_bytes: "list_all is_ascii s \<Longrightarrow> as_bytes s = s"
  by (induction s) (auto simp: as_bytes_def utf8_char_def is_ascii_def)

lemma from_base64_key_ok:
  assumes "from_base64_key P seed kid key = Inr svc"
  shows "service_ok svc"
proof -
  have "normalize_key_id kid = Inr (key_id svc)"
    using assms by (auto simp: from_base64_key_def Let_def split: option.splits sum.splits if_splits)
  then have "key_id svc = as_bytes kid @ replicate (KEY_ID_BYTES - length (as_bytes kid)) 0"
    "list_all is_ascii kid" "utf8_len kid \<le> KEY_ID_BYTES"
    by (auto simp: normalize_key_id_def split: if_splits)
  moreover have "length (as_bytes kid) \<le> KEY_ID_BYTES" if "list_all is_ascii kid" "utf8_len kid \<le> KEY_ID_BYTES"
    using that by (simp add: ascii_bytes utf8_len_ascii)
  ultimately show ?thesis by (simp add: service_ok_def)
qed

lemma envelope_roundtrip:
  assumes "primitives_ok P" and "service_ok svc" and "list_all is_scalar m"
    and "list_all is_scalar aad" and "list_all is_scalar aad'"
    and "encrypt_with_aad P svc seed aad m = Inr r"
  shows "decrypt_with_aad P svc aad' r = (if aad' = aad then Inr m else Inl Authentication_failed)"
proof -
  note ok = primitives_okD [OF assms(1)]
  obtain c where c: "aead_encrypt P (cipher_key svc) (random_nonce P seed) (as_bytes aad) (as_bytes m) = Some c"
    and r: "r = b64_encode P (key_id svc @ random_nonce P seed @ c)"
    using assms(6) by (auto simp: encrypt_with_aad_def Let_def split: option.splits)
  have len: "length (key_id svc) = KEY_ID_BYTES" "length (random_nonce P seed) = NONCE_BYTES"
    using assms(2) ok(5) by (simp_all add: service_ok_def)
  have parts: "take KEY_ID_BYTES (key_id svc @ random_nonce P seed @ c) = key_id svc"
    "take NONCE_BYTES (drop KEY_ID_BYTES (key_id svc @ random_nonce P seed @ c)) = random_nonce P seed"
    "drop (KEY_ID_BYTES + NONCE_BYTES) (key_id svc @ random_nonce P seed @ c) = c"
    "\<not> length (key_id svc @ random_nonce P seed @ c) < KEY_ID_BYTES + NONCE_BYTES + TAG_BYTES"
    using len ok(2) [OF c] by simp_all
  have "as_bytes aad' \<noteq> as_bytes aad" if "aad' \<noteq> aad"
    using as_bytes_inj [OF assms(5,4)] that by blast
  then show ?thesis
    unfolding decrypt_with_aad_def r ok(4) option.case Let_def parts if_False
    using ok(1) [OF c] ok(2) [OF c] ok(3) [OF c] from_utf8_as_bytes [OF assms(3)] len by simp
qed

text \<open>Records of different users, domains or purposes have different associated data.\<close>

lemma digits_scalar: "list_all is_scalar (show_int u)"
  using show_int_set [of _ u] by (fastforce simp: list_all_iff is_scalar_def is_ascii_digit_def)

lemma of_char_bound: "(of_char c :: nat) < 256"
  using mod_less_divisor [of 256 "of_char c :: nat"] by (simp add: of_char_mod_256)

lemma lit_scalar: "list_all is_scalar (lit s)"
proof -
  have "is_scalar (of_char c)" for c using of_char_bound [of c] unfolding is_scalar_def by linarith
  then show ?thesis by (simp add: lit_def list_all_iff)
qed

lemma colon_not_in_int: "58 \<notin> set (show_int u)"
  using show_int_set [of 58 u] by (auto simp: is_ascii_digit_def)

lemma aad_scalar:
  "list_all is_scalar (password_aad u)"
  "list_all is_scalar d \<Longrightarrow> list_all is_scalar (secret_aad u d)"
  by (simp_all add: password_aad_def secret_aad_def AAD_PREFIX_def digits_scalar lit_scalar)

lemma lit_colon: "lit (CHR '':'' # s) = 58 # lit s"
  by (simp add: lit_def)

lemma secret_aad_inj: "secret_aad u d = secret_aad u' d' \<longleftrightarrow> u = u' \<and> d = d'"
  using append_sep_eq [OF colon_not_in_int colon_not_in_int]
  by (auto simp: secret_aad_def lit_colon)

lemma password_aad_inj: "password_aad u = password_aad u' \<longleftrightarrow> u = u'"
  using append_sep_eq [OF colon_not_in_int colon_not_in_int]
  by (auto simp: password_aad_def lit_colon)

lemma aad_domains: "password_aad u \<noteq> secret_aad u' d"
  using append_sep_eq [OF colon_not_in_int colon_not_in_int, of u "lit ''password_hash''" u' "lit ''secret:'' @ d"]
  by (auto simp: secret_aad_def password_aad_def lit_colon) (simp add: lit_def)


text \<open>
  Password verification answers yes exactly for the password and the user the
  record was made for; another user's record is an error and not a "no".
\<close>

theorem verify_password_exact:
  assumes "primitives_ok P" and "service_ok svc" and "list_all is_scalar pw" and "list_all is_scalar pw'"
    and "encrypt_password P svc seed u pw = Inr r"
  shows "verify_password P svc seed' u' r pw' =
    (if u' = u then Inr \<lparr>valid = (pw' = pw), replacement_record = None\<rparr> else Inl Authentication_failed)"
proof -
  note ok = primitives_okD [OF assms(1)]
  obtain h where h: "pwhash_str P seed (as_bytes pw) = Some h"
    and r: "encrypt_with_aad P svc seed (password_aad u) h = Inr r"
    using assms(5) by (auto simp: encrypt_password_def split: option.splits)
  have "as_bytes pw' = as_bytes pw \<longleftrightarrow> pw' = pw"
    using as_bytes_inj [OF assms(4,3)] by blast
  then show ?thesis
    using envelope_roundtrip [OF assms(1,2) ok(6) [OF h] aad_scalar(1) aad_scalar(1) r]
      ok(7) [OF h] ok(8) [OF h]
    by (simp add: verify_password_def password_aad_inj)
qed

text \<open>Concrete primitives that keep the promises, for the witnesses.\<close>

definition plain_primitives :: primitives where
  "plain_primitives = \<lparr>
     aead_encrypt = (\<lambda>k n a m. Some (replicate TAG_BYTES 0 @ length a # a @ m)),
     aead_decrypt = (\<lambda>k n a c. case drop TAG_BYTES c of [] \<Rightarrow> None
       | l # t \<Rightarrow> if take l t = a \<and> l = length a then Some (drop l t) else None),
     b64_encode = (\<lambda>b. b), b64_decode = Some,
     pwhash_str = (\<lambda>seed p. if list_all is_scalar p then Some (36 # p) else None),
     pwhash_str_verify = (\<lambda>h p. h = 36 # p),
     pwhash_needs_rehash = (\<lambda>h. Some False), random_nonce = (\<lambda>seed. replicate NONCE_BYTES seed)\<rparr>"

definition plain_service :: dryoc_service where
  "plain_service = \<lparr>key_id = replicate KEY_ID_BYTES 7, cipher_key = replicate KEY_BYTES 1, dummy_record = []\<rparr>"

lemma plain_ok: "primitives_ok plain_primitives" "service_ok plain_service"
  by (auto simp: primitives_ok_def plain_primitives_def service_ok_def plain_service_def is_scalar_def
      split: if_splits)


theorem verify_password_exact_witness:
  "\<exists>r. encrypt_password plain_primitives plain_service 1 7 (lit ''Long&Random#Pass9'') = Inr r \<and>
     verify_password plain_primitives plain_service 2 7 r (lit ''Long&Random#Pass9'') =
       Inr \<lparr>valid = True, replacement_record = None\<rparr> \<and>
     verify_password plain_primitives plain_service 2 8 r (lit ''Long&Random#Pass9'') = Inl Authentication_failed"
proof -
  have "\<exists>r. encrypt_password plain_primitives plain_service 1 7 (lit ''Long&Random#Pass9'') = Inr r"
    by (simp add: encrypt_password_def encrypt_with_aad_def plain_primitives_def) code_simp
  then obtain r where r: "encrypt_password plain_primitives plain_service 1 7 (lit ''Long&Random#Pass9'') = Inr r"
    by blast
  show ?thesis
    using r verify_password_exact [OF plain_ok lit_scalar _ r, where pw' = "lit ''Long&Random#Pass9''" and seed' = 2 and u' = 7]
      verify_password_exact [OF plain_ok lit_scalar _ r, where pw' = "lit ''Long&Random#Pass9''" and seed' = 2 and u' = 8]
    by (auto simp: lit_scalar)
qed

end
