(* ===== verification/World.thy ===== *)
theory World
  imports PasswordCrypto
begin

text \<open>
  The console database and the programs that run on it. The tables are those of
  \<open>src/models/database.rs\<close>, a row per record; a program threads the world (tables, a script of
  database faults, the clock, a source of randomness) and returns a value or an error, the way the
  code's \<open>async fn\<close>s return \<open>anyhow::Result\<close>. Each statement sent to SQLite takes the next
  entry of the fault script; a transaction that fails is rolled back.
\<close>

section \<open>Tables\<close>

record operator_row =
  id_user :: int
  username :: ustr
  email :: ustr
  operator_type :: ustr
  encrypted_password_hash :: ustr
  mfa_enabled :: int
  authz_version :: int
  authenticated_at :: "ustr option"
  reauthenticated_at :: "ustr option"
  created_at :: ustr
  updated_at :: ustr

record totp_row =
  id_totp :: int
  totp_user :: int
  encrypted_secret :: ustr
  confirmed :: int
  totp_created_at :: ustr
  confirmed_at :: "ustr option"
  last_used_step :: int

record recovery_row =
  id_code :: int
  code_user :: int
  encrypted_code :: ustr
  used :: int
  code_created_at :: ustr
  used_at :: "ustr option"

text \<open>\<open>AUTOINCREMENT\<close> never reuses a number: the sequences only grow.\<close>

record tables =
  operators :: "operator_row list"
  operator_seq :: int
  totps :: "totp_row list"
  totp_seq :: int
  codes :: "recovery_row list"
  code_seq :: int

record world =
  tables :: tables
  faults :: "bool list"
  clock :: int
  dice :: nat

datatype app_error =
    Db_error
  | Crypto_failure crypto_error
  | Row_disappeared
  | Session_error
  | Csrf_token_error
  | Password_missing
  | Qr_code_error

type_synonym 'a prog = "world \<Rightarrow> (app_error + 'a) \<times> world"

section \<open>Programs\<close>

definition ret :: "'a \<Rightarrow> 'a prog" where
  "ret x = (\<lambda>w. (Inr x, w))"

definition fail :: "app_error \<Rightarrow> 'a prog" where
  "fail e = (\<lambda>w. (Inl e, w))"

definition bind :: "'a prog \<Rightarrow> ('a \<Rightarrow> 'b prog) \<Rightarrow> 'b prog" where
  "bind p f = (\<lambda>w. case p w of (Inr x, w') \<Rightarrow> f x w' | (Inl e, w') \<Rightarrow> (Inl e, w'))"

definition next_fault :: "world \<Rightarrow> bool \<times> world" where
  "next_fault w = (case faults w of [] \<Rightarrow> (False, w) | b # bs \<Rightarrow> (b, w\<lparr>faults := bs\<rparr>))"

text \<open>
  A statement: \<open>None\<close> is a constraint violation. A statement that fails changes nothing.
\<close>

definition execute :: "(tables \<Rightarrow> ('a \<times> tables) option) \<Rightarrow> 'a prog" where
  "execute stmt = (\<lambda>w. case next_fault w of (b, w1) \<Rightarrow>
     if b then (Inl Db_error, w1)
     else case stmt (tables w1) of
            None \<Rightarrow> (Inl Db_error, w1)
          | Some (x, t) \<Rightarrow> (Inr x, w1\<lparr>tables := t\<rparr>))"

definition query :: "(tables \<Rightarrow> 'a) \<Rightarrow> 'a prog" where
  "query q = execute (\<lambda>t. Some (q t, t))"

definition get_clock :: "int prog" where
  "get_clock = (\<lambda>w. (Inr (clock w), w))"

definition roll :: "nat prog" where
  "roll = (\<lambda>w. (Inr (dice w), w\<lparr>dice := dice w + 1\<rparr>))"

definition lift_crypto :: "crypto_error + 'a \<Rightarrow> 'a prog" where
  "lift_crypto r = (case r of Inl e \<Rightarrow> fail (Crypto_failure e) | Inr x \<Rightarrow> ret x)"

text \<open>
  \<open>begin\<close>, the body, then \<open>commit\<close> or \<open>rollback\<close> as the body asks; each of them may fail. A body that
  returns an error drops the transaction, which rolls it back.
\<close>

datatype 'a ending = Commit 'a | Rollback 'a

definition restore :: "world \<Rightarrow> world \<Rightarrow> world" where
  "restore w w' = w'\<lparr>tables := tables w\<rparr>"

definition transaction :: "'a ending prog \<Rightarrow> 'a prog" where
  "transaction p = (\<lambda>w. case next_fault w of (b0, w0) \<Rightarrow>
     if b0 then (Inl Db_error, w0)
     else case p w0 of
            (Inl e, w1) \<Rightarrow> (Inl e, restore w w1)
          | (Inr (Rollback x), w1) \<Rightarrow> (case next_fault w1 of (b, w2) \<Rightarrow>
              (if b then Inl Db_error else Inr x, restore w w2))
          | (Inr (Commit x), w1) \<Rightarrow> (case next_fault w1 of (b, w2) \<Rightarrow>
              if b then (Inl Db_error, restore w w2) else (Inr x, w2)))"

definition update_where :: "('a \<Rightarrow> bool) \<Rightarrow> ('a \<Rightarrow> 'a) \<Rightarrow> 'a list \<Rightarrow> 'a list" where
  "update_where p f rows = map (\<lambda>r. if p r then f r else r) rows"

definition affected :: "('a \<Rightarrow> bool) \<Rightarrow> 'a list \<Rightarrow> nat" where
  "affected p rows = length (filter p rows)"

lemma update_where_simps [simp]:
  "update_where p f [] = []"
  "update_where p f (r # rows) = (if p r then f r else r) # update_where p f rows"
  by (simp_all add: update_where_def)

lemma set_update_where: "r \<in> set (update_where p f rows) \<longleftrightarrow>
    (\<exists>r0\<in>set rows. r = (if p r0 then f r0 else r0))"
  by (auto simp: update_where_def)

lemma map_update_where: "(\<And>r. p r \<Longrightarrow> g (f r) = g r) \<Longrightarrow> map g (update_where p f rows) = map g rows"
  by (induction rows) auto

lemma find_update_where:
  assumes "\<And>r. key (f r) = key r"
  shows "find (\<lambda>r. key r = k) (update_where p f rows) =
    map_option (\<lambda>r. if p r then f r else r) (find (\<lambda>r. key r = k) rows)"
  using assms by (induction rows) auto

lemma find_append: "find p (xs @ ys) = (case find p xs of None \<Rightarrow> find p ys | Some x \<Rightarrow> Some x)"
  by (induction xs) auto

lemma update_where_none: "(\<And>r. r \<in> set rows \<Longrightarrow> \<not> p r) \<Longrightarrow> update_where p f rows = rows"
  by (induction rows) auto

text \<open>A unique column stays unique when the one updated row gets a value no other row has.\<close>

lemma distinct_update_where:
  assumes "distinct (map key rows)" and "distinct (map g rows)"
    and "\<And>r. \<lbrakk>r \<in> set rows; key r = k\<rbrakk> \<Longrightarrow> g (f r) = v"
    and "\<And>r. \<lbrakk>r \<in> set rows; key r \<noteq> k\<rbrakk> \<Longrightarrow> g r \<noteq> v"
  shows "distinct (map g (update_where (\<lambda>r. key r = k) f rows))"
  using assms
proof (induction rows)
  case (Cons x rows)
  show ?case
  proof (cases "key x = k")
    case True
    then have no: "k \<notin> key ` set rows" using Cons.prems(1) by auto
    then have "update_where (\<lambda>r. key r = k) f rows = rows"
      by (intro update_where_none) (metis imageI)
    moreover have "g (f x) = v" using Cons.prems(3) True by simp
    moreover have "v \<notin> g ` set rows"
    proof
      assume "v \<in> g ` set rows"
      then obtain r where r: "r \<in> set rows" "g r = v" by blast
      then have "key r \<noteq> k" using no by (metis imageI)
      then show False using Cons.prems(4) [of r] r by simp
    qed
    ultimately show ?thesis using Cons.prems(2) True by simp
  next
    case False
    have "g x \<notin> g ` set (update_where (\<lambda>r. key r = k) f rows)"
      using Cons.prems(2,3,4) False by (fastforce simp: set_update_where split: if_splits)
    then show ?thesis using Cons False by simp
  qed
qed simp

section \<open>Reasoning about programs\<close>

text \<open>
  \<open>preserves I p\<close>: a program keeps a property of the tables whatever fails, at every statement it
  sends; \<open>monotone R p\<close> relates the tables before and after.
\<close>

definition relates :: "(tables \<Rightarrow> tables \<Rightarrow> bool) \<Rightarrow> 'a prog \<Rightarrow> bool" where
  "relates R p \<longleftrightarrow> (\<forall>w. R (tables w) (tables (snd (p w))))"

definition good_relation :: "(tables \<Rightarrow> tables \<Rightarrow> bool) \<Rightarrow> bool" where
  "good_relation R \<longleftrightarrow> (\<forall>t. R t t) \<and> (\<forall>t u v. R t u \<longrightarrow> R u v \<longrightarrow> R t v)"

lemma relatesD: "relates R p \<Longrightarrow> p w = (r, w') \<Longrightarrow> R (tables w) (tables w')"
  by (metis relates_def snd_conv)

lemma next_fault_tables: "next_fault w = (b, w') \<Longrightarrow> tables w' = tables w"
  by (auto simp: next_fault_def split: list.splits)

named_theorems relates_intros

lemma relates_ret [relates_intros]: "good_relation R \<Longrightarrow> relates R (ret x)"
  by (simp add: relates_def ret_def good_relation_def)

lemma relates_fail [relates_intros]: "good_relation R \<Longrightarrow> relates R (fail e)"
  by (simp add: relates_def fail_def good_relation_def)

lemma relates_bind [relates_intros]:
  "\<lbrakk>good_relation R; relates R p; \<And>x. relates R (f x)\<rbrakk> \<Longrightarrow> relates R (bind p f)"
  unfolding relates_def bind_def good_relation_def
  by (auto split: prod.split sum.split) (metis snd_conv)+

lemma relates_execute:
  assumes "good_relation R" and "\<And>t x t'. stmt t = Some (x, t') \<Longrightarrow> R t t'"
  shows "relates R (execute stmt)"
  unfolding relates_def
proof
  fix w
  obtain b w1 where f: "next_fault w = (b, w1)" by fastforce
  have refl: "R (tables w) (tables w)" using assms(1) by (simp add: good_relation_def)
  show "R (tables w) (tables (snd (execute stmt w)))"
    using refl assms(2) next_fault_tables [OF f] by (auto simp: execute_def f split: option.split)
qed

lemma relates_query [relates_intros]: "good_relation R \<Longrightarrow> relates R (query q)"
  unfolding query_def by (rule relates_execute) (auto simp: good_relation_def)

lemma relates_clock [relates_intros]: "good_relation R \<Longrightarrow> relates R get_clock"
  by (simp add: relates_def get_clock_def good_relation_def)

lemma relates_roll [relates_intros]: "good_relation R \<Longrightarrow> relates R roll"
  by (simp add: relates_def roll_def good_relation_def)

lemma relates_lift_crypto [relates_intros]: "good_relation R \<Longrightarrow> relates R (lift_crypto r)"
  by (cases r) (simp_all add: lift_crypto_def relates_fail relates_ret)

lemma relates_transaction [relates_intros]:
  assumes "good_relation R" and "relates R p"
  shows "relates R (transaction p)"
  unfolding relates_def
proof
  fix w
  obtain b w0 where f: "next_fault w = (b, w0)" by fastforce
  obtain r w1 where p: "p w0 = (r, w1)" by fastforce
  obtain b2 w2 where f2: "next_fault w1 = (b2, w2)" by fastforce
  have "R (tables w) (tables w)" using assms(1) by (simp add: good_relation_def)
  moreover have "R (tables w) (tables w1)"
    using relatesD [OF assms(2) p] next_fault_tables [OF f] by simp
  ultimately show "R (tables w) (tables (snd (transaction p w)))"
    using next_fault_tables [OF f] next_fault_tables [OF f2]
    by (auto simp: transaction_def f p f2 restore_def split: sum.split ending.split)
qed

text \<open>A program that fails inside its transaction leaves the tables as they were.\<close>

lemma transaction_failed: "transaction p w = (Inl e, w') \<Longrightarrow> tables w' = tables w"
proof -
  assume run: "transaction p w = (Inl e, w')"
  obtain b w0 where f: "next_fault w = (b, w0)" by fastforce
  obtain r w1 where p: "p w0 = (r, w1)" by fastforce
  obtain b2 w2 where f2: "next_fault w1 = (b2, w2)" by fastforce
  show ?thesis
    using run next_fault_tables [OF f]
    by (auto simp: transaction_def f p f2 restore_def split: sum.splits ending.splits if_splits)
qed

lemma relates_if [relates_intros]: "\<lbrakk>relates R p; relates R q\<rbrakk> \<Longrightarrow> relates R (if b then p else q)"
  by simp

lemma relates_option [relates_intros]:
  "\<lbrakk>relates R p; \<And>x. relates R (f x)\<rbrakk> \<Longrightarrow> relates R (case y of None \<Rightarrow> p | Some x \<Rightarrow> f x)"
  by (cases y) auto

lemma relates_prod [relates_intros]: "(\<And>x y. relates R (f x y)) \<Longrightarrow> relates R (case z of (x, y) \<Rightarrow> f x y)"
  by (cases z) auto

text \<open>Runs without faults: the script is empty.\<close>

lemma execute_no_fault: "faults w = [] \<Longrightarrow> execute stmt w =
    (case stmt (tables w) of None \<Rightarrow> (Inl Db_error, w) | Some (x, t) \<Rightarrow> (Inr x, w\<lparr>tables := t\<rparr>))"
  by (simp add: execute_def next_fault_def)

lemma query_no_fault: "faults w = [] \<Longrightarrow> query q w = (Inr (q (tables w)), w)"
  by (simp add: query_def execute_no_fault)

lemma transaction_no_fault:
  assumes "faults w = []" and "p w = (r, w1)" and "faults w1 = []"
  shows "transaction p w = (case r of Inl e \<Rightarrow> (Inl e, restore w w1)
    | Inr (Commit x) \<Rightarrow> (Inr x, w1) | Inr (Rollback x) \<Rightarrow> (Inr x, restore w w1))"
  using assms by (simp add: transaction_def next_fault_def split: sum.split ending.split)

lemmas prog_simps = ret_def fail_def bind_def get_clock_def roll_def execute_no_fault query_no_fault

section \<open>Dependencies\<close>

text \<open>
  What the operator and second-factor code calls outside \<open>src/\<close> or through a trait object: the
  \<open>PasswordCryptoService\<close>, the \<open>otpauth\<close> crate, the random generator, the timestamp formatter. The
  functions that use randomness take the number rolled.
\<close>

record deps =
  pc_encrypt :: "nat \<Rightarrow> int \<Rightarrow> ustr \<Rightarrow> crypto_error + ustr"
  pc_verify :: "nat \<Rightarrow> int \<Rightarrow> ustr \<Rightarrow> ustr \<Rightarrow> crypto_error + password_verification"
  pc_seal :: "nat \<Rightarrow> int \<Rightarrow> ustr \<Rightarrow> ustr \<Rightarrow> crypto_error + ustr"
  pc_open :: "int \<Rightarrow> ustr \<Rightarrow> ustr \<Rightarrow> crypto_error + ustr"
  totp_decodable :: "ustr \<Rightarrow> bool"
  totp_verify :: "ustr \<Rightarrow> nat \<Rightarrow> nat \<Rightarrow> nat \<Rightarrow> bool"
  base32_secret :: "bytes \<Rightarrow> ustr"
  totp_uri :: "ustr \<Rightarrow> ustr \<Rightarrow> ustr \<Rightarrow> ustr"
  random_bytes :: "nat \<Rightarrow> nat \<Rightarrow> bytes"
  format_timestamp :: "int \<Rightarrow> ustr"

text \<open>The service of \<open>PasswordCrypto\<close> as such a trait object.\<close>

definition with_dryoc :: "primitives \<Rightarrow> dryoc_service \<Rightarrow> deps \<Rightarrow> deps" where
  "with_dryoc P svc D = D\<lparr>pc_encrypt := encrypt_password P svc, pc_verify := verify_password P svc,
     pc_seal := encrypt_secret P svc, pc_open := decrypt_secret P svc\<rparr>"

definition current_timestamp :: "deps \<Rightarrow> ustr prog" where
  "current_timestamp D = (\<lambda>w. (Inr (format_timestamp D (clock w)), w))"

lemma relates_timestamp [relates_intros]: "good_relation R \<Longrightarrow> relates R (current_timestamp D)"
  by (simp add: relates_def current_timestamp_def good_relation_def)

end
