(* ===== verification/OperatorStore.thy ===== *)
theory OperatorStore
  imports World
begin

text \<open>
  Operators and their roles: \<open>src/models/operator.rs\<close> and \<open>src/models/operator_repository.rs\<close>. Every
  statement is a function on the tables, with the constraints the schema of
  \<open>src/models/database.rs\<close> declares (unique names and addresses, the check on the role, cascades).
  The lemmas show the table invariant, and that the authorization epoch of an operator only grows and
  grows with every change of privileges, under arbitrary faults.
\<close>

section \<open>Roles\<close>

datatype operator_role = Admin | Operator | Auditor

definition parse_role :: "ustr \<Rightarrow> operator_role option" where
  "parse_role value =
     (if value = lit ''admin'' then Some Admin
      else if value = lit ''operator'' then Some Operator
      else if value = lit ''auditor'' then Some Auditor
      else None)"

fun role_str :: "operator_role \<Rightarrow> ustr" where
  "role_str Admin = lit ''admin''"
| "role_str Operator = lit ''operator''"
| "role_str Auditor = lit ''auditor''"

fun role_label :: "operator_role \<Rightarrow> ustr" where
  "role_label Admin = lit ''Admin''"
| "role_label Operator = lit ''Operator''"
| "role_label Auditor = lit ''Auditor''"

definition can_use_console :: "operator_role \<Rightarrow> bool" where
  "can_use_console r = True"

definition can_administer :: "operator_role \<Rightarrow> bool" where
  "can_administer r \<longleftrightarrow> r = Admin"

definition can_manage_rules :: "operator_role \<Rightarrow> bool" where
  "can_manage_rules r \<longleftrightarrow> r = Admin \<or> r = Operator"

lemma parse_role_str [simp]: "parse_role (role_str r) = Some r"
  by (cases r) (simp_all add: parse_role_def)

lemma parse_role_SomeD: "parse_role v = Some r \<Longrightarrow> v = role_str r"
  by (auto simp: parse_role_def split: if_splits)

text \<open>Privileges are ordered: an auditor reads, an operator also manages rules, an admin everything.\<close>

instantiation operator_role :: linorder
begin

fun privilege :: "operator_role \<Rightarrow> nat" where
  "privilege Auditor = 0" | "privilege Operator = 1" | "privilege Admin = 2"

definition less_eq_operator_role :: "operator_role \<Rightarrow> operator_role \<Rightarrow> bool" where
  "less_eq_operator_role a b \<longleftrightarrow> privilege a \<le> privilege b"

definition less_operator_role :: "operator_role \<Rightarrow> operator_role \<Rightarrow> bool" where
  "less_operator_role a b \<longleftrightarrow> privilege a < privilege b"

instance
proof
  show "a \<le> b \<Longrightarrow> b \<le> a \<Longrightarrow> a = b" for a b :: operator_role
    by (cases a; cases b) (simp_all add: less_eq_operator_role_def)
qed (auto simp: less_eq_operator_role_def less_operator_role_def)

end

section \<open>Statements\<close>

definition role_allowed :: "ustr \<Rightarrow> bool" where
  "role_allowed ty \<longleftrightarrow> parse_role ty \<noteq> None"

definition lookup_operator :: "int \<Rightarrow> tables \<Rightarrow> operator_row option" where
  "lookup_operator u t = find (\<lambda>r. id_user r = u) (operators t)"

text \<open>\<open>insert\<close> of \<open>SeaORM\<close>: the inserted row comes back; defaults as in the schema.\<close>

definition insert_operator :: "operator_row \<Rightarrow> tables \<Rightarrow> (operator_row \<times> tables) option" where
  "insert_operator row t =
     (if username row \<in> username ` set (operators t) \<or> email row \<in> email ` set (operators t) \<or>
         \<not> role_allowed (operator_type row)
      then None
      else let r = row\<lparr>id_user := operator_seq t + 1\<rparr> in
        Some (r, t\<lparr>operators := operators t @ [r], operator_seq := operator_seq t + 1\<rparr>))"

text \<open>
  \<open>UPDATE operators SET ... WHERE id_user = ?\<close>; the result is the number of rows. Uniqueness and the
  role check hold for the updated row as well.
\<close>

definition update_operator_row ::
    "int \<Rightarrow> (operator_row \<Rightarrow> operator_row) \<Rightarrow> tables \<Rightarrow> (nat \<times> tables) option" where
  "update_operator_row u f t =
     (case lookup_operator u t of
        None \<Rightarrow> Some (0, t)
      | Some r \<Rightarrow>
          if (\<exists>o'\<in>set (operators t). id_user o' \<noteq> u \<and>
                (username o' = username (f r) \<or> email o' = email (f r))) \<or> \<not> role_allowed (operator_type (f r))
          then None
          else Some (affected (\<lambda>r. id_user r = u) (operators t),
                 t\<lparr>operators := update_where (\<lambda>r. id_user r = u) f (operators t)\<rparr>))"

text \<open>\<open>DELETE FROM operators\<close>, with the cascades to the second-factor tables.\<close>

definition delete_operator_row :: "int \<Rightarrow> tables \<Rightarrow> (nat \<times> tables) option" where
  "delete_operator_row u t =
     Some (affected (\<lambda>r. id_user r = u) (operators t),
       t\<lparr>operators := filter (\<lambda>r. id_user r \<noteq> u) (operators t),
         totps := filter (\<lambda>r. totp_user r \<noteq> u) (totps t),
         codes := filter (\<lambda>r. code_user r \<noteq> u) (codes t)\<rparr>)"

section \<open>Repository\<close>

definition find_by_username :: "ustr \<Rightarrow> operator_row option prog" where
  "find_by_username name = query (\<lambda>t. find (\<lambda>r. username r = name) (operators t))"

definition find_by_id :: "int \<Rightarrow> operator_row option prog" where
  "find_by_id u = query (lookup_operator u)"

definition find_by_email :: "ustr \<Rightarrow> operator_row option prog" where
  "find_by_email addr = query (\<lambda>t. find (\<lambda>r. email r = addr) (operators t))"

definition count_operators :: "nat prog" where
  "count_operators = query (\<lambda>t. length (operators t))"

definition spawn_encrypt :: "deps \<Rightarrow> int \<Rightarrow> ustr \<Rightarrow> ustr prog" where
  "spawn_encrypt D u password = bind roll (\<lambda>seed. lift_crypto (pc_encrypt D seed u password))"

text \<open>\<open>OperatorRepository::create\<close>: the row is inserted first, because its id binds the password record.\<close>

definition create_operator :: "deps \<Rightarrow> ustr \<Rightarrow> ustr \<Rightarrow> ustr \<Rightarrow> ustr \<Rightarrow> operator_row prog" where
  "create_operator D name addr ty password =
     transaction
       (bind (current_timestamp D) (\<lambda>timestamp.
        bind (execute (insert_operator \<lparr>id_user = 0, username = name, email = addr, operator_type = ty,
          encrypted_password_hash = lit ''transaction-pending'', mfa_enabled = 0, authz_version = 0,
          authenticated_at = None, reauthenticated_at = None, created_at = timestamp,
          updated_at = timestamp\<rparr>)) (\<lambda>pending.
        bind (spawn_encrypt D (id_user pending) password) (\<lambda>hash.
        bind (execute (update_operator_row (id_user pending) (encrypted_password_hash_update (\<lambda>_. hash)))) (\<lambda>n.
        if n = 0 then fail Db_error
        else ret (Commit (pending\<lparr>encrypted_password_hash := hash\<rparr>)))))))"

text \<open>\<open>update\<close>: one statement with the password, one without; both bump the epoch.\<close>

definition load_updated :: "int \<Rightarrow> operator_row ending prog" where
  "load_updated u = bind (find_by_id u) (\<lambda>found.
     case found of None \<Rightarrow> fail Row_disappeared | Some r \<Rightarrow> ret (Commit r))"

definition update_operator ::
    "deps \<Rightarrow> int \<Rightarrow> ustr \<Rightarrow> ustr \<Rightarrow> ustr \<Rightarrow> ustr option \<Rightarrow> operator_row prog" where
  "update_operator D u name addr ty password =
     bind (case password of None \<Rightarrow> ret None
           | Some pw \<Rightarrow> bind (spawn_encrypt D u pw) (\<lambda>h. ret (Some h))) (\<lambda>hash.
     transaction
       (bind (current_timestamp D) (\<lambda>timestamp.
        bind (execute (update_operator_row u (\<lambda>r. r\<lparr>username := name, email := addr, operator_type := ty,
          encrypted_password_hash := (case hash of None \<Rightarrow> encrypted_password_hash r | Some h \<Rightarrow> h),
          updated_at := timestamp, authz_version := authz_version r + 1\<rparr>))) (\<lambda>_.
        load_updated u))))"

definition record_authenticated :: "deps \<Rightarrow> int \<Rightarrow> unit prog" where
  "record_authenticated D u =
     bind (current_timestamp D) (\<lambda>timestamp.
     bind (execute (update_operator_row u (\<lambda>r. r\<lparr>authenticated_at := Some timestamp\<rparr>))) (\<lambda>_. ret ()))"

definition record_reauthenticated :: "deps \<Rightarrow> int \<Rightarrow> unit prog" where
  "record_reauthenticated D u =
     bind (current_timestamp D) (\<lambda>timestamp.
     bind (execute (update_operator_row u (\<lambda>r. r\<lparr>reauthenticated_at := Some timestamp\<rparr>))) (\<lambda>_. ret ()))"

definition update_encrypted_password :: "deps \<Rightarrow> int \<Rightarrow> ustr \<Rightarrow> unit prog" where
  "update_encrypted_password D u hash =
     bind (find_by_id u) (\<lambda>found. case found of
       None \<Rightarrow> ret ()
     | Some _ \<Rightarrow>
         bind (current_timestamp D) (\<lambda>timestamp.
         bind (execute (update_operator_row u
           (\<lambda>r. r\<lparr>encrypted_password_hash := hash, updated_at := timestamp\<rparr>))) (\<lambda>n.
         if n = 0 then fail Db_error else ret ())))"

definition update_password :: "deps \<Rightarrow> int \<Rightarrow> ustr \<Rightarrow> operator_row prog" where
  "update_password D u password =
     bind (spawn_encrypt D u password) (\<lambda>hash.
     transaction
       (bind (current_timestamp D) (\<lambda>timestamp.
        bind (execute (update_operator_row u (\<lambda>r. r\<lparr>encrypted_password_hash := hash,
          updated_at := timestamp, authz_version := authz_version r + 1\<rparr>))) (\<lambda>_.
        load_updated u))))"

definition delete_by_id :: "int \<Rightarrow> nat prog" where
  "delete_by_id u = execute (delete_operator_row u)"

section \<open>Table invariant and evolution\<close>

definition operator_ids :: "tables \<Rightarrow> int set" where
  "operator_ids t = id_user ` set (operators t)"

definition operators_ok :: "tables \<Rightarrow> bool" where
  "operators_ok t \<longleftrightarrow>
     distinct (map id_user (operators t)) \<and> distinct (map username (operators t)) \<and>
     distinct (map email (operators t)) \<and>
     (\<forall>r\<in>set (operators t). role_allowed (operator_type r) \<and> 0 < id_user r \<and> id_user r \<le> operator_seq t)"

definition factors_ok :: "tables \<Rightarrow> bool" where
  "factors_ok t \<longleftrightarrow>
     distinct (map totp_user (totps t)) \<and> distinct (map id_totp (totps t)) \<and>
     (\<forall>r\<in>set (totps t). totp_user r \<in> operator_ids t \<and> id_totp r \<le> totp_seq t) \<and>
     distinct (map id_code (codes t)) \<and>
     (\<forall>r\<in>set (codes t). code_user r \<in> operator_ids t \<and> id_code r \<le> code_seq t)"

definition tables_ok :: "tables \<Rightarrow> bool" where
  "tables_ok t \<longleftrightarrow> operators_ok t \<and> factors_ok t \<and> 0 \<le> operator_seq t"

text \<open>What a session copies besides the id and the epoch, and must not outlive.\<close>

definition privileges :: "operator_row \<Rightarrow> ustr \<times> ustr \<times> ustr \<times> int" where
  "privileges r = (username r, email r, operator_type r, mfa_enabled r)"

text \<open>
  \<open>evolves t t'\<close>: the invariant is kept, a deleted id never comes back, the epoch of an operator never
  falls, and it stays the same only while the privileges do.
\<close>

definition keeps_epochs :: "tables \<Rightarrow> tables \<Rightarrow> bool" where
  "keeps_epochs t t' \<longleftrightarrow>
     operator_seq t \<le> operator_seq t' \<and>
     (\<forall>u. u \<le> operator_seq t \<longrightarrow> lookup_operator u t = None \<longrightarrow> lookup_operator u t' = None) \<and>
     (\<forall>u r r'. lookup_operator u t = Some r \<longrightarrow> lookup_operator u t' = Some r' \<longrightarrow>
        authz_version r \<le> authz_version r' \<and>
        (authz_version r = authz_version r' \<longrightarrow> privileges r = privileges r'))"

definition evolves :: "tables \<Rightarrow> tables \<Rightarrow> bool" where
  "evolves t t' \<longleftrightarrow> (tables_ok t \<longrightarrow> tables_ok t' \<and> keeps_epochs t t')"

lemma lookup_operator_SomeD:
  "lookup_operator u t = Some r \<Longrightarrow> r \<in> set (operators t) \<and> id_user r = u"
  unfolding lookup_operator_def by (auto simp: find_Some_iff)

lemma lookup_operator_None_iff: "lookup_operator u t = None \<longleftrightarrow> u \<notin> operator_ids t"
  by (auto simp: lookup_operator_def find_None_iff operator_ids_def)

lemma lookup_operator_row:
  assumes "operators_ok t" and "r \<in> set (operators t)"
  shows "lookup_operator (id_user r) t = Some r"
proof -
  obtain r' where r': "lookup_operator (id_user r) t = Some r'"
    using assms(2) lookup_operator_None_iff [of "id_user r" t] by (auto simp: operator_ids_def)
  then have "r' \<in> set (operators t)" "id_user r' = id_user r" using lookup_operator_SomeD by blast+
  moreover have "inj_on id_user (set (operators t))"
    using assms(1) by (simp add: operators_ok_def distinct_map)
  ultimately show ?thesis using r' assms(2) by (simp add: inj_on_def)
qed

lemma lookup_operator_bound:
  "\<lbrakk>tables_ok t; lookup_operator u t = Some r\<rbrakk> \<Longrightarrow> 0 < u \<and> u \<le> operator_seq t"
  by (auto simp: tables_ok_def operators_ok_def dest!: lookup_operator_SomeD)

lemma keeps_epochs_refl: "keeps_epochs t t"
  by (simp add: keeps_epochs_def)

lemma keeps_epochs_trans:
  assumes "tables_ok t" and "keeps_epochs t u" and "keeps_epochs u v"
  shows "keeps_epochs t v"
  unfolding keeps_epochs_def
proof (intro conjI allI impI)
  show "operator_seq t \<le> operator_seq v" using assms(2,3) by (simp add: keeps_epochs_def)
  show "lookup_operator x v = None" if "x \<le> operator_seq t" "lookup_operator x t = None" for x
    using that assms(2,3) unfolding keeps_epochs_def by (meson order_trans)
  fix x r r'' assume r: "lookup_operator x t = Some r" and r'': "lookup_operator x v = Some r''"
  have "x \<le> operator_seq u"
    using lookup_operator_bound [OF assms(1) r] assms(2) by (simp add: keeps_epochs_def)
  then have "lookup_operator x u \<noteq> None" using r'' assms(3) by (auto simp: keeps_epochs_def)
  then obtain r' where r': "lookup_operator x u = Some r'" by blast
  have "authz_version r \<le> authz_version r' \<and>
      (authz_version r = authz_version r' \<longrightarrow> privileges r = privileges r')"
    using assms(2) r r' unfolding keeps_epochs_def by blast
  moreover have "authz_version r' \<le> authz_version r'' \<and>
      (authz_version r' = authz_version r'' \<longrightarrow> privileges r' = privileges r'')"
    using assms(3) r' r'' unfolding keeps_epochs_def by blast
  ultimately show "authz_version r \<le> authz_version r''"
    and "authz_version r = authz_version r'' \<Longrightarrow> privileges r = privileges r''" by auto
qed

lemma evolves_good [simp]: "good_relation evolves"
  unfolding good_relation_def evolves_def using keeps_epochs_refl keeps_epochs_trans by blast

subsection \<open>The statements evolve the tables\<close>

lemma lookup_append:
  "lookup_operator u (t\<lparr>operators := operators t @ [r], operator_seq := n\<rparr>) =
     (case lookup_operator u t of Some r' \<Rightarrow> Some r' | None \<Rightarrow> if id_user r = u then Some r else None)"
  by (auto simp: lookup_operator_def find_append split: option.split)

lemma insert_operator_evolves:
  assumes "insert_operator row t = Some (r, t')"
  shows "evolves t t'"
  unfolding evolves_def
proof
  assume ok: "tables_ok t"
  have new: "username row \<notin> username ` set (operators t)" "email row \<notin> email ` set (operators t)"
      "role_allowed (operator_type row)"
    and r: "r = row\<lparr>id_user := operator_seq t + 1\<rparr>"
    and t': "t' = t\<lparr>operators := operators t @ [r], operator_seq := operator_seq t + 1\<rparr>"
    using assms by (auto simp: insert_operator_def Let_def split: if_splits)
  have fresh: "operator_seq t + 1 \<notin> id_user ` set (operators t)"
    using ok by (fastforce simp: tables_ok_def operators_ok_def)
  have "operators_ok t'"
    using ok new fresh by (auto simp: t' r tables_ok_def operators_ok_def)
  moreover have "factors_ok t'" using ok by (auto simp: t' tables_ok_def factors_ok_def operator_ids_def)
  ultimately have "tables_ok t'" using ok by (simp add: tables_ok_def t')
  moreover have "keeps_epochs t t'"
    by (auto simp: keeps_epochs_def t' lookup_append r split: option.splits)
  ultimately show "tables_ok t' \<and> keeps_epochs t t'" ..
qed

lemma lookup_update:
  assumes "\<And>r. id_user (f r) = id_user r"
  shows "lookup_operator v (t\<lparr>operators := update_where (\<lambda>r. id_user r = u) f (operators t)\<rparr>) =
    map_option (\<lambda>r. if v = u then f r else r) (lookup_operator v t)"
proof -
  have "lookup_operator v (t\<lparr>operators := update_where (\<lambda>r. id_user r = u) f (operators t)\<rparr>) =
      map_option (\<lambda>r. if id_user r = u then f r else r) (lookup_operator v t)"
    using find_update_where [of id_user f, OF assms]
    by (simp add: lookup_operator_def)
  then show ?thesis using lookup_operator_SomeD [of v t] by (cases "lookup_operator v t") simp_all
qed

lemma update_operator_row_evolves:
  assumes "update_operator_row u f t = Some (n, t')" and "\<And>r. id_user (f r) = id_user r"
    and "\<And>r. authz_version r \<le> authz_version (f r)"
    and "\<And>r. authz_version r = authz_version (f r) \<Longrightarrow> privileges (f r) = privileges r"
  shows "evolves t t'"
  unfolding evolves_def
proof
  assume ok: "tables_ok t"
  then have rows: "distinct (map id_user (operators t))" "distinct (map username (operators t))"
      "distinct (map email (operators t))"
    and fine: "\<And>r. r \<in> set (operators t) \<Longrightarrow> role_allowed (operator_type r) \<and> 0 < id_user r \<and> id_user r \<le> operator_seq t"
    by (auto simp: tables_ok_def operators_ok_def)
  show "tables_ok t' \<and> keeps_epochs t t'"
  proof (cases "lookup_operator u t")
    case None
    then show ?thesis using assms(1) ok keeps_epochs_refl by (auto simp: update_operator_row_def)
  next
    case (Some r)
    have t': "t' = t\<lparr>operators := update_where (\<lambda>r. id_user r = u) f (operators t)\<rparr>"
      and free: "\<And>o'. \<lbrakk>o' \<in> set (operators t); id_user o' \<noteq> u\<rbrakk> \<Longrightarrow>
          username o' \<noteq> username (f r) \<and> email o' \<noteq> email (f r)"
      and role: "role_allowed (operator_type (f r))"
      using assms(1) Some by (auto simp: update_operator_row_def split: if_splits)
    have only: "o' = r" if "o' \<in> set (operators t)" "id_user o' = u" for o'
      using lookup_operator_row [of t o'] ok that Some by (simp add: tables_ok_def)
    have ids: "map id_user (operators t') = map id_user (operators t)"
      by (simp add: t' map_update_where assms(2))
    have "distinct (map username (operators t'))"
      unfolding t' by (simp, rule distinct_update_where [OF rows(1,2)]) (use only free in blast)+
    moreover have "distinct (map email (operators t'))"
      unfolding t' by (simp, rule distinct_update_where [OF rows(1,3)]) (use only free in blast)+
    moreover have "role_allowed (operator_type x) \<and> 0 < id_user x \<and> id_user x \<le> operator_seq t'"
      if "x \<in> set (operators t')" for x
      using that fine role only assms(2) by (fastforce simp: t' set_update_where split: if_splits)
    ultimately have "operators_ok t'" using rows(1) ids by (simp add: operators_ok_def)
    moreover have "operator_ids t' = operator_ids t"
      unfolding operator_ids_def using ids by (metis set_map)
    then have "factors_ok t'" using ok by (auto simp: t' tables_ok_def factors_ok_def)
    ultimately have "tables_ok t'" using ok by (simp add: tables_ok_def t')
    moreover have "keeps_epochs t t'"
      unfolding keeps_epochs_def t' using assms(3,4) by (auto simp: lookup_update assms(2) split: if_splits)
    ultimately show ?thesis ..
  qed
qed

lemma lookup_filter:
  "lookup_operator v (t\<lparr>operators := filter (\<lambda>r. id_user r \<noteq> u) (operators t), totps := a, codes := b\<rparr>) =
     (if v = u then None else lookup_operator v t)"
proof -
  have "find (\<lambda>r. id_user r = v) (filter (\<lambda>r. id_user r \<noteq> u) rows) =
      (if v = u then None else find (\<lambda>r. id_user r = v) rows)" for rows
    by (induction rows) auto
  moreover have "operators (t\<lparr>operators := rows, totps := a, codes := b\<rparr>) = rows" for rows by simp
  ultimately show ?thesis by (simp only: lookup_operator_def)
qed

lemma distinct_map_filter_key: "distinct (map g rows) \<Longrightarrow> distinct (map g (filter p rows))"
  by (induction rows) auto

lemma delete_operator_row_evolves:
  assumes "delete_operator_row u t = Some (n, t')"
  shows "evolves t t'"
  unfolding evolves_def
proof
  assume ok: "tables_ok t"
  have t': "t' = t\<lparr>operators := filter (\<lambda>r. id_user r \<noteq> u) (operators t),
      totps := filter (\<lambda>r. totp_user r \<noteq> u) (totps t), codes := filter (\<lambda>r. code_user r \<noteq> u) (codes t)\<rparr>"
    using assms by (simp add: delete_operator_row_def)
  have "tables_ok t'"
    using ok by (auto simp: t' tables_ok_def operators_ok_def factors_ok_def operator_ids_def
        distinct_map_filter_key)
  moreover have "keeps_epochs t t'"
    unfolding keeps_epochs_def t' by (auto simp: lookup_filter split: if_splits)
  ultimately show "tables_ok t' \<and> keeps_epochs t t'" ..
qed

end
