(* ===== verification/MfaStore.thy ===== *)
theory MfaStore
  imports OperatorStore Transitions
begin

text \<open>
  The second factor, \<open>src/models/operator_mfa_repository.rs\<close>: enrollment, confirmation, removal, recovery
  codes and the check at login. Repository functions are programs over the tables of \<open>World\<close>; the
  check at login is also cut at its statements, so that concurrent logins interleave. The lemmas show
  that under every fault and every interleaving a TOTP step and a recovery code work at most once.
\<close>

section \<open>Codes\<close>

definition TOTP_PERIOD :: int where "TOTP_PERIOD = 30"
definition ISSUER :: ustr where "ISSUER = lit ''KrakenWAF''"
definition TOTP_DOMAIN :: ustr where "TOTP_DOMAIN = lit ''totp''"
definition RECOVERY_DOMAIN :: ustr where "RECOVERY_DOMAIN = lit ''mfa_recovery''"
definition RECOVERY_CODE_COUNT :: nat where "RECOVERY_CODE_COUNT = 10"
definition RECOVERY_ALPHABET :: ustr where
  "RECOVERY_ALPHABET = lit ''ABCDEFGHJKLMNPQRSTUVWXYZ23456789''"

text \<open>\<open>verify_totp_code\<close>: the current step, then the one before, then the one after.\<close>

definition totp_matches :: "deps \<Rightarrow> ustr \<Rightarrow> nat \<Rightarrow> int \<Rightarrow> int option" where
  "totp_matches D secret num timestamp =
     (if 0 \<le> timestamp \<and> totp_verify D secret num (nat TOTP_PERIOD) (nat timestamp)
      then Some (timestamp div TOTP_PERIOD) else None)"

definition verify_totp_code :: "deps \<Rightarrow> int \<Rightarrow> ustr \<Rightarrow> ustr \<Rightarrow> int option" where
  "verify_totp_code D now secret code =
     (let trimmed = trim code in
      if utf8_len trimmed \<noteq> 6 \<or> \<not> list_all is_ascii_digit trimmed then None
      else case parse_uint u32_max trimmed of
        None \<Rightarrow> None
      | Some num \<Rightarrow>
          if \<not> totp_decodable D secret then None
          else case totp_matches D secret num now of
            Some s \<Rightarrow> Some s
          | None \<Rightarrow> (case totp_matches D secret num (now - TOTP_PERIOD) of
              Some s \<Rightarrow> Some s
            | None \<Rightarrow> totp_matches D secret num (now + TOTP_PERIOD)))"

definition recovery_char :: "nat \<Rightarrow> uchar" where
  "recovery_char b = RECOVERY_ALPHABET ! (b mod length RECOVERY_ALPHABET)"

definition generate_recovery_code :: "bytes \<Rightarrow> ustr" where
  "generate_recovery_code bs =
     concat (map (\<lambda>(i, b). (if i = 5 then [45] else []) @ [recovery_char b]) (zip [0..<length bs] bs))"

definition normalize_recovery :: "ustr \<Rightarrow> ustr" where
  "normalize_recovery input = map ascii_upper (filter is_ascii_alnum input)"

section \<open>Statements\<close>

definition totp_of :: "int \<Rightarrow> tables \<Rightarrow> totp_row option" where
  "totp_of u t = find (\<lambda>r. totp_user r = u) (totps t)"

definition delete_totp :: "int \<Rightarrow> tables \<Rightarrow> (nat \<times> tables) option" where
  "delete_totp u t = Some (affected (\<lambda>r. totp_user r = u) (totps t),
     t\<lparr>totps := filter (\<lambda>r. totp_user r \<noteq> u) (totps t)\<rparr>)"

text \<open>\<open>id_user\<close> is unique and a foreign key.\<close>

definition insert_totp :: "totp_row \<Rightarrow> tables \<Rightarrow> (unit \<times> tables) option" where
  "insert_totp row t =
     (if totp_user row \<in> totp_user ` set (totps t) \<or> totp_user row \<notin> operator_ids t then None
      else Some ((), t\<lparr>totps := totps t @ [row\<lparr>id_totp := totp_seq t + 1\<rparr>], totp_seq := totp_seq t + 1\<rparr>))"

definition confirm_totp :: "int \<Rightarrow> int \<Rightarrow> ustr \<Rightarrow> int \<Rightarrow> tables \<Rightarrow> (nat \<times> tables) option" where
  "confirm_totp i u stamp step t =
     (let hit = (\<lambda>r. id_totp r = i \<and> totp_user r = u \<and> confirmed r = 0) in
      Some (affected hit (totps t),
        t\<lparr>totps := update_where hit (\<lambda>r. r\<lparr>confirmed := 1, confirmed_at := Some stamp, last_used_step := step\<rparr>)
          (totps t)\<rparr>))"

definition use_step :: "int \<Rightarrow> int \<Rightarrow> int \<Rightarrow> tables \<Rightarrow> (nat \<times> tables) option" where
  "use_step i u step t =
     (let hit = (\<lambda>r. id_totp r = i \<and> totp_user r = u \<and> confirmed r = 1 \<and> last_used_step r < step) in
      Some (affected hit (totps t), t\<lparr>totps := update_where hit (last_used_step_update (\<lambda>_. step)) (totps t)\<rparr>))"

definition delete_codes :: "int \<Rightarrow> tables \<Rightarrow> (nat \<times> tables) option" where
  "delete_codes u t = Some (affected (\<lambda>r. code_user r = u) (codes t),
     t\<lparr>codes := filter (\<lambda>r. code_user r \<noteq> u) (codes t)\<rparr>)"

definition insert_code :: "recovery_row \<Rightarrow> tables \<Rightarrow> (unit \<times> tables) option" where
  "insert_code row t =
     (if code_user row \<notin> operator_ids t then None
      else Some ((), t\<lparr>codes := codes t @ [row\<lparr>id_code := code_seq t + 1\<rparr>], code_seq := code_seq t + 1\<rparr>))"

definition burn_code :: "int \<Rightarrow> int \<Rightarrow> ustr \<Rightarrow> tables \<Rightarrow> (nat \<times> tables) option" where
  "burn_code u i stamp t =
     (let hit = (\<lambda>r. id_code r = i \<and> code_user r = u \<and> used r = 0) in
      Some (affected hit (codes t),
        t\<lparr>codes := update_where hit (\<lambda>r. r\<lparr>used := 1, used_at := Some stamp\<rparr>) (codes t)\<rparr>))"

section \<open>Repository\<close>

definition totp_row_of :: "int \<Rightarrow> totp_row option prog" where
  "totp_row_of u = query (totp_of u)"

definition confirmed_totp_row :: "int \<Rightarrow> totp_row option prog" where
  "confirmed_totp_row u = bind (totp_row_of u) (\<lambda>row. ret (case row of
     None \<Rightarrow> None | Some r \<Rightarrow> if confirmed r \<noteq> 0 then Some r else None))"

definition is_enabled :: "int \<Rightarrow> bool prog" where
  "is_enabled u = bind (totp_row_of u) (\<lambda>row. ret (case row of None \<Rightarrow> False | Some r \<Rightarrow> confirmed r \<noteq> 0))"

definition remaining_recovery_count :: "int \<Rightarrow> nat prog" where
  "remaining_recovery_count u = query (\<lambda>t. affected (\<lambda>r. code_user r = u \<and> used r = 0) (codes t))"

record mfa_status =
  status_enabled :: bool
  remaining_recovery_codes :: nat

definition mfa_status_of :: "int \<Rightarrow> mfa_status prog" where
  "mfa_status_of u =
     bind (totp_row_of u) (\<lambda>row.
     let on = (case row of None \<Rightarrow> False | Some r \<Rightarrow> confirmed r \<noteq> 0) in
     bind (if on then remaining_recovery_count u else ret 0) (\<lambda>n.
     ret \<lparr>status_enabled = on, remaining_recovery_codes = n\<rparr>))"

record mfa_enrollment =
  secret_base32 :: ustr
  otpauth_uri :: ustr

definition begin_enrollment :: "deps \<Rightarrow> int \<Rightarrow> ustr \<Rightarrow> mfa_enrollment prog" where
  "begin_enrollment D u account_label =
     bind roll (\<lambda>seed.
     let secret = base32_secret D (random_bytes D seed 20);
         uri = totp_uri D secret (ISSUER @ 58 # account_label) ISSUER in
     bind roll (\<lambda>nonce.
     bind (lift_crypto (pc_seal D nonce u TOTP_DOMAIN secret)) (\<lambda>sealed.
     transaction
       (bind (execute (delete_totp u)) (\<lambda>_.
        bind (current_timestamp D) (\<lambda>stamp.
        bind (execute (insert_totp \<lparr>id_totp = 0, totp_user = u, encrypted_secret = sealed, confirmed = 0,
          totp_created_at = stamp, confirmed_at = None, last_used_step = 0\<rparr>)) (\<lambda>_.
        ret (Commit \<lparr>secret_base32 = secret, otpauth_uri = uri\<rparr>))))))))"

definition pending_enrollment :: "deps \<Rightarrow> int \<Rightarrow> ustr \<Rightarrow> mfa_enrollment option prog" where
  "pending_enrollment D u account_label =
     bind (totp_row_of u) (\<lambda>row. case row of
       None \<Rightarrow> ret None
     | Some r \<Rightarrow>
         if confirmed r \<noteq> 0 then ret None
         else bind (lift_crypto (pc_open D u TOTP_DOMAIN (encrypted_secret r))) (\<lambda>secret.
           if \<not> totp_decodable D secret then ret None
           else ret (Some \<lparr>secret_base32 = secret,
             otpauth_uri = totp_uri D secret (ISSUER @ 58 # account_label) ISSUER\<rparr>)))"

definition set_operator_flag :: "deps \<Rightarrow> int \<Rightarrow> bool \<Rightarrow> unit prog" where
  "set_operator_flag D u on =
     bind (current_timestamp D) (\<lambda>stamp.
     bind (execute (update_operator_row u (\<lambda>r. r\<lparr>mfa_enabled := (if on then 1 else 0), updated_at := stamp,
       authz_version := authz_version r + 1\<rparr>))) (\<lambda>_. ret ()))"

definition bump_operator_authz_version :: "deps \<Rightarrow> int \<Rightarrow> unit prog" where
  "bump_operator_authz_version D u =
     bind (current_timestamp D) (\<lambda>stamp.
     bind (execute (update_operator_row u (\<lambda>r. r\<lparr>updated_at := stamp,
       authz_version := authz_version r + 1\<rparr>))) (\<lambda>_. ret ()))"

text \<open>The loop that mints \<open>n\<close> codes, then the whole replacement.\<close>

fun mint_codes :: "deps \<Rightarrow> int \<Rightarrow> nat \<Rightarrow> ustr list prog" where
  "mint_codes D u 0 = ret []"
| "mint_codes D u (Suc n) =
     bind roll (\<lambda>seed.
     let code = generate_recovery_code (random_bytes D seed 10) in
     bind roll (\<lambda>nonce.
     bind (lift_crypto (pc_seal D nonce u RECOVERY_DOMAIN code)) (\<lambda>sealed.
     bind (current_timestamp D) (\<lambda>stamp.
     bind (execute (insert_code \<lparr>id_code = 0, code_user = u, encrypted_code = sealed, used = 0,
       code_created_at = stamp, used_at = None\<rparr>)) (\<lambda>_.
     bind (mint_codes D u n) (\<lambda>rest. ret (code # rest)))))))"

definition replace_recovery_codes :: "deps \<Rightarrow> int \<Rightarrow> ustr list prog" where
  "replace_recovery_codes D u =
     bind (execute (delete_codes u)) (\<lambda>_. mint_codes D u RECOVERY_CODE_COUNT)"

datatype confirm_outcome = No_pending_enrollment | Invalid_code | Confirmed "ustr list"

definition confirm :: "deps \<Rightarrow> int \<Rightarrow> ustr \<Rightarrow> confirm_outcome prog" where
  "confirm D u code =
     bind (totp_row_of u) (\<lambda>row. case row of
       None \<Rightarrow> ret No_pending_enrollment
     | Some r \<Rightarrow>
         if confirmed r \<noteq> 0 then ret No_pending_enrollment
         else bind (lift_crypto (pc_open D u TOTP_DOMAIN (encrypted_secret r))) (\<lambda>secret.
           bind get_clock (\<lambda>now. case verify_totp_code D now secret code of
             None \<Rightarrow> ret Invalid_code
           | Some step \<Rightarrow>
               transaction
                 (bind (current_timestamp D) (\<lambda>stamp.
                  bind (execute (confirm_totp (id_totp r) u stamp step)) (\<lambda>n.
                  if n \<noteq> 1 then ret (Rollback No_pending_enrollment)
                  else bind (set_operator_flag D u True) (\<lambda>_.
                    bind (replace_recovery_codes D u) (\<lambda>cs. ret (Commit (Confirmed cs))))))))))"

definition disable :: "deps \<Rightarrow> int \<Rightarrow> unit prog" where
  "disable D u =
     transaction
       (bind (execute (delete_totp u)) (\<lambda>_.
        bind (execute (delete_codes u)) (\<lambda>_.
        bind (set_operator_flag D u False) (\<lambda>_. ret (Commit ())))))"

definition regenerate_recovery_codes :: "deps \<Rightarrow> int \<Rightarrow> ustr list option prog" where
  "regenerate_recovery_codes D u =
     transaction
       (bind (query (\<lambda>t. find (\<lambda>r. totp_user r = u \<and> confirmed r = 1) (totps t))) (\<lambda>row.
        if row = None then ret (Rollback None)
        else bind (replace_recovery_codes D u) (\<lambda>cs.
          bind (bump_operator_authz_version D u) (\<lambda>_. ret (Commit (Some cs))))))"

definition consume_totp_step :: "int \<Rightarrow> int \<Rightarrow> int \<Rightarrow> bool prog" where
  "consume_totp_step i u step = bind (execute (use_step i u step)) (\<lambda>n. ret (n = 1))"

definition consume_recovery_code_row :: "deps \<Rightarrow> int \<Rightarrow> int \<Rightarrow> bool prog" where
  "consume_recovery_code_row D u i =
     bind (current_timestamp D) (\<lambda>stamp. bind (execute (burn_code u i stamp)) (\<lambda>n. ret (n = 1)))"

text \<open>The first stored code that equals the candidate; a code that does not open is an error.\<close>

fun matching_code :: "deps \<Rightarrow> int \<Rightarrow> ustr \<Rightarrow> recovery_row list \<Rightarrow> crypto_error + int option" where
  "matching_code D u candidate [] = Inr None"
| "matching_code D u candidate (r # rows) =
     (case pc_open D u RECOVERY_DOMAIN (encrypted_code r) of
        Inl e \<Rightarrow> Inl e
      | Inr stored \<Rightarrow>
          if constant_time_eq (as_bytes (normalize_recovery stored)) (as_bytes candidate)
          then Inr (Some (id_code r)) else matching_code D u candidate rows)"

definition unused_codes :: "int \<Rightarrow> tables \<Rightarrow> recovery_row list" where
  "unused_codes u t = filter (\<lambda>r. code_user r = u \<and> used r = 0) (codes t)"

definition consume_recovery_code :: "deps \<Rightarrow> int \<Rightarrow> ustr \<Rightarrow> bool prog" where
  "consume_recovery_code D u code =
     (let candidate = normalize_recovery code in
      if candidate = [] then ret False
      else bind (query (unused_codes u)) (\<lambda>rows.
        bind (lift_crypto (matching_code D u candidate rows)) (\<lambda>hit. case hit of
          None \<Rightarrow> ret False
        | Some i \<Rightarrow> consume_recovery_code_row D u i)))"

definition verify_login_code :: "deps \<Rightarrow> int \<Rightarrow> ustr \<Rightarrow> bool prog" where
  "verify_login_code D u code =
     bind (confirmed_totp_row u) (\<lambda>row. case row of
       None \<Rightarrow> consume_recovery_code D u code
     | Some r \<Rightarrow>
         bind (lift_crypto (pc_open D u TOTP_DOMAIN (encrypted_secret r))) (\<lambda>secret.
         bind get_clock (\<lambda>now. case verify_totp_code D now secret code of
           None \<Rightarrow> consume_recovery_code D u code
         | Some step \<Rightarrow>
             if step \<le> last_used_step r then ret False
             else consume_totp_step (id_totp r) u step)))"

section \<open>Rows are spent, never refreshed\<close>

text \<open>
  \<open>table_moves key good rows n rows' n'\<close>: between two states of a table with an automatic key, no row comes
  back under a key already given out, and a row present in both has moved by \<open>good\<close>.
\<close>

definition row_at :: "('a \<Rightarrow> int) \<Rightarrow> int \<Rightarrow> 'a list \<Rightarrow> 'a option" where
  "row_at key i rows = find (\<lambda>r. key r = i) rows"

definition table_moves ::
    "('a \<Rightarrow> int) \<Rightarrow> ('a \<Rightarrow> 'a \<Rightarrow> bool) \<Rightarrow> 'a list \<Rightarrow> int \<Rightarrow> 'a list \<Rightarrow> int \<Rightarrow> bool" where
  "table_moves key good rows n rows' n' \<longleftrightarrow>
     n \<le> n' \<and>
     (\<forall>i \<le> n. row_at key i rows = None \<longrightarrow> row_at key i rows' = None) \<and>
     (\<forall>i r r'. row_at key i rows = Some r \<longrightarrow> row_at key i rows' = Some r' \<longrightarrow> good r r')"

lemma row_at_SomeD: "row_at key i rows = Some r \<Longrightarrow> r \<in> set rows \<and> key r = i"
  unfolding row_at_def by (auto simp: find_Some_iff)

lemma row_at_filter_key:
  "distinct (map key rows) \<Longrightarrow> row_at key i (filter p rows) =
     (case row_at key i rows of None \<Rightarrow> None | Some r \<Rightarrow> if p r then Some r else None)"
proof (induction rows)
  case (Cons x rows)
  have "key x \<notin> key ` set rows" using Cons.prems by simp
  then have "find (\<lambda>r. key r = key x) (filter p rows) = None"
    by (auto simp: find_None_iff intro: rev_image_eqI)
  then show ?case using Cons by (auto simp: row_at_def)
qed (simp add: row_at_def)

lemma row_at_unique:
  assumes "distinct (map key rows)" and "r \<in> set rows"
  shows "row_at key (key r) rows = Some r"
  using assms by (induction rows) (auto simp: row_at_def)

lemma table_moves_refl: "(\<And>r. good r r) \<Longrightarrow> table_moves key good rows n rows n"
  by (simp add: table_moves_def)

lemma table_moves_trans:
  assumes "table_moves key good rows n rows' n'" and "table_moves key good rows' n' rows'' n''"
    and "\<And>r. r \<in> set rows \<Longrightarrow> key r \<le> n" and "\<And>a b c. \<lbrakk>good a b; good b c\<rbrakk> \<Longrightarrow> good a c"
  shows "table_moves key good rows n rows'' n''"
  unfolding table_moves_def
proof (intro conjI allI impI)
  show "n \<le> n''" using assms(1,2) by (simp add: table_moves_def)
  show "row_at key i rows'' = None" if "i \<le> n" "row_at key i rows = None" for i
    using that assms(1,2) unfolding table_moves_def by (meson order_trans)
  show "good r r''" if r: "row_at key i rows = Some r" and r'': "row_at key i rows'' = Some r''" for i r r''
  proof -
    have "i \<le> n'" using row_at_SomeD [OF r] assms(1,3) unfolding table_moves_def by force
    then obtain r' where r': "row_at key i rows' = Some r'"
      using r'' assms(2) unfolding table_moves_def by (metis option.exhaust option.distinct(1))
    have "good r r'" using assms(1) r r' unfolding table_moves_def by blast
    moreover have "good r' r''" using assms(2) r' r'' unfolding table_moves_def by blast
    ultimately show ?thesis by (rule assms(4))
  qed
qed

lemma table_moves_append:
  assumes "key x = n + 1" and "\<And>r. good r r"
  shows "table_moves key good rows n (rows @ [x]) (n + 1)"
  using assms by (auto simp: table_moves_def row_at_def find_append split: option.splits)

lemma table_moves_filter:
  assumes "distinct (map key rows)" and "\<And>r. good r r"
  shows "table_moves key good rows n (filter p rows) n"
  using assms by (auto simp: table_moves_def row_at_filter_key)

lemma table_moves_update:
  assumes "\<And>r. key (f r) = key r" and "\<And>r. good r r" and "\<And>r. p r \<Longrightarrow> good r (f r)"
  shows "table_moves key good rows n (update_where p f rows) n"
  using assms by (auto simp: table_moves_def row_at_def find_update_where [of key f])

definition totp_spends :: "totp_row \<Rightarrow> totp_row \<Rightarrow> bool" where
  "totp_spends r r' \<longleftrightarrow> totp_user r' = totp_user r \<and> encrypted_secret r' = encrypted_secret r \<and>
     (confirmed r = 1 \<longrightarrow> confirmed r' = 1 \<and> last_used_step r \<le> last_used_step r')"

definition code_spends :: "recovery_row \<Rightarrow> recovery_row \<Rightarrow> bool" where
  "code_spends r r' \<longleftrightarrow> code_user r' = code_user r \<and> encrypted_code r' = encrypted_code r \<and>
     (used r \<noteq> 0 \<longrightarrow> used r' \<noteq> 0)"

lemma spends_trans:
  "totp_spends a b \<Longrightarrow> totp_spends b c \<Longrightarrow> totp_spends a c"
  "code_spends x y \<Longrightarrow> code_spends y z \<Longrightarrow> code_spends x z"
  by (auto simp: totp_spends_def code_spends_def)

lemma spends_refl [simp]: "totp_spends r r" "code_spends c c"
  by (simp_all add: totp_spends_def code_spends_def)

definition keeps_uses :: "tables \<Rightarrow> tables \<Rightarrow> bool" where
  "keeps_uses t t' \<longleftrightarrow>
     table_moves id_totp totp_spends (totps t) (totp_seq t) (totps t') (totp_seq t') \<and>
     table_moves id_code code_spends (codes t) (code_seq t) (codes t') (code_seq t')"

definition advances :: "tables \<Rightarrow> tables \<Rightarrow> bool" where
  "advances t t' \<longleftrightarrow> (tables_ok t \<longrightarrow> tables_ok t' \<and> keeps_epochs t t' \<and> keeps_uses t t')"

lemma keeps_uses_refl: "keeps_uses t t"
  by (simp add: keeps_uses_def table_moves_refl)

lemma keeps_uses_trans:
  assumes "tables_ok t" and "keeps_uses t u" and "keeps_uses u v"
  shows "keeps_uses t v"
  unfolding keeps_uses_def
proof
  have ids: "\<And>r. r \<in> set (totps t) \<Longrightarrow> id_totp r \<le> totp_seq t" "\<And>r. r \<in> set (codes t) \<Longrightarrow> id_code r \<le> code_seq t"
    using assms(1) by (auto simp: tables_ok_def factors_ok_def)
  show "table_moves id_totp totp_spends (totps t) (totp_seq t) (totps v) (totp_seq v)"
    by (rule table_moves_trans [where rows' = "totps u" and n' = "totp_seq u"])
      (use assms(2,3) ids spends_trans(1) in \<open>auto simp: keeps_uses_def\<close>)
  show "table_moves id_code code_spends (codes t) (code_seq t) (codes v) (code_seq v)"
    by (rule table_moves_trans [where rows' = "codes u" and n' = "code_seq u"])
      (use assms(2,3) ids spends_trans(2) in \<open>auto simp: keeps_uses_def\<close>)
qed

lemma advances_good [simp]: "good_relation advances"
  unfolding good_relation_def advances_def
  using keeps_epochs_refl keeps_epochs_trans keeps_uses_refl keeps_uses_trans by blast

subsection \<open>The statements\<close>

lemma advancesI: "\<lbrakk>evolves t t'; tables_ok t \<Longrightarrow> keeps_uses t t'\<rbrakk> \<Longrightarrow> advances t t'"
  by (simp add: advances_def evolves_def)

lemma factor_statement_advances:
  assumes "operators t' = operators t" and "operator_seq t' = operator_seq t"
    and "tables_ok t \<Longrightarrow> factors_ok t'" and "tables_ok t \<Longrightarrow> keeps_uses t t'"
  shows "advances t t'"
proof -
  have "lookup_operator u t' = lookup_operator u t" for u by (simp add: lookup_operator_def assms(1))
  then have "keeps_epochs t t'" by (simp add: keeps_epochs_def assms(2))
  then show ?thesis
    using assms by (simp add: advances_def tables_ok_def operators_ok_def)
qed

lemma tables_okD:
  assumes "tables_ok t"
  shows "distinct (map totp_user (totps t))" "distinct (map id_totp (totps t))" "distinct (map id_code (codes t))"
    and "\<And>r. r \<in> set (totps t) \<Longrightarrow> totp_user r \<in> operator_ids t \<and> id_totp r \<le> totp_seq t"
    and "\<And>r. r \<in> set (codes t) \<Longrightarrow> code_user r \<in> operator_ids t \<and> id_code r \<le> code_seq t"
  using assms by (auto simp: tables_ok_def factors_ok_def)

lemma delete_totp_advances:
  assumes "delete_totp u t = Some (n, t')"
  shows "advances t t'"
proof -
  have t': "t' = t\<lparr>totps := filter (\<lambda>r. totp_user r \<noteq> u) (totps t)\<rparr>" using assms by (simp add: delete_totp_def)
  show ?thesis
    by (rule factor_statement_advances)
      (auto simp: t' factors_ok_def operator_ids_def keeps_uses_def distinct_map_filter_key tables_ok_def
        intro!: table_moves_filter table_moves_refl)
qed

lemma delete_codes_advances:
  assumes "delete_codes u t = Some (n, t')"
  shows "advances t t'"
proof -
  have t': "t' = t\<lparr>codes := filter (\<lambda>r. code_user r \<noteq> u) (codes t)\<rparr>" using assms by (simp add: delete_codes_def)
  show ?thesis
    by (rule factor_statement_advances)
      (auto simp: t' factors_ok_def operator_ids_def keeps_uses_def distinct_map_filter_key tables_ok_def
        intro!: table_moves_filter table_moves_refl)
qed

lemma insert_totp_advances:
  assumes "insert_totp row t = Some (x, t')"
  shows "advances t t'"
proof -
  have t': "t' = t\<lparr>totps := totps t @ [row\<lparr>id_totp := totp_seq t + 1\<rparr>], totp_seq := totp_seq t + 1\<rparr>"
    and new: "totp_user row \<notin> totp_user ` set (totps t)" "totp_user row \<in> operator_ids t"
    using assms by (auto simp: insert_totp_def split: if_splits)
  have "totp_seq t + 1 \<notin> id_totp ` set (totps t)" if "tables_ok t"
    using tables_okD(4) [OF that] by force
  then show ?thesis
    using new by (intro factor_statement_advances)
      (auto simp: t' factors_ok_def operator_ids_def keeps_uses_def tables_ok_def
        intro!: table_moves_append table_moves_refl)
qed

lemma insert_code_advances:
  assumes "insert_code row t = Some (x, t')"
  shows "advances t t'"
proof -
  have t': "t' = t\<lparr>codes := codes t @ [row\<lparr>id_code := code_seq t + 1\<rparr>], code_seq := code_seq t + 1\<rparr>"
    and new: "code_user row \<in> operator_ids t"
    using assms by (auto simp: insert_code_def split: if_splits)
  have "code_seq t + 1 \<notin> id_code ` set (codes t)" if "tables_ok t"
    using tables_okD(5) [OF that] by force
  then show ?thesis
    using new by (intro factor_statement_advances)
      (auto simp: t' factors_ok_def operator_ids_def keeps_uses_def tables_ok_def
        intro!: table_moves_append table_moves_refl)
qed

lemma update_totp_advances:
  assumes "\<And>r. id_totp (f r) = id_totp r \<and> totp_user (f r) = totp_user r" and "\<And>r. p r \<Longrightarrow> totp_spends r (f r)"
  shows "advances t (t\<lparr>totps := update_where p f (totps t)\<rparr>)"
proof (rule factor_statement_advances)
  let ?t = "t\<lparr>totps := update_where p f (totps t)\<rparr>"
  assume ok: "tables_ok t"
  show "factors_ok ?t"
    using ok assms(1)
    by (auto simp: tables_ok_def factors_ok_def operator_ids_def map_update_where set_update_where)
  show "keeps_uses t ?t"
    using assms by (auto simp: keeps_uses_def intro!: table_moves_refl table_moves_update)
qed simp_all

lemma update_code_advances:
  assumes "\<And>r. id_code (f r) = id_code r \<and> code_user (f r) = code_user r" and "\<And>r. p r \<Longrightarrow> code_spends r (f r)"
  shows "advances t (t\<lparr>codes := update_where p f (codes t)\<rparr>)"
proof (rule factor_statement_advances)
  let ?t = "t\<lparr>codes := update_where p f (codes t)\<rparr>"
  assume ok: "tables_ok t"
  show "factors_ok ?t"
    using ok assms(1)
    by (auto simp: tables_ok_def factors_ok_def operator_ids_def map_update_where set_update_where)
  show "keeps_uses t ?t"
    using assms by (auto simp: keeps_uses_def intro!: table_moves_refl table_moves_update)
qed simp_all

lemma operator_statement_advances:
  assumes "evolves t t'" and "totps t' = totps t" and "codes t' = codes t"
    and "totp_seq t' = totp_seq t" and "code_seq t' = code_seq t"
  shows "advances t t'"
  using assms(1) by (rule advancesI) (simp add: keeps_uses_def assms(2-5) table_moves_refl)

named_theorems advance_statements

lemma relates_factor_statements [advance_statements]:
  "relates advances (execute (delete_totp u))" "relates advances (execute (delete_codes u))"
  "relates advances (execute (insert_totp row))" "relates advances (execute (insert_code crow))"
  "relates advances (execute (confirm_totp i u stamp step))" "relates advances (execute (use_step i u step))"
  "relates advances (execute (burn_code u i stamp))"
  by (rule relates_execute [OF advances_good],
      auto simp: confirm_totp_def use_step_def burn_code_def Let_def totp_spends_def code_spends_def
        intro: delete_totp_advances delete_codes_advances insert_totp_advances insert_code_advances
        intro!: update_totp_advances update_code_advances)+

lemma relates_insert_operator_advances [advance_statements]: "relates advances (execute (insert_operator row))"
  by (rule relates_execute [OF advances_good], rule operator_statement_advances [OF insert_operator_evolves])
    (auto simp: insert_operator_def Let_def split: if_splits)

lemma relates_delete_operator_advances [advance_statements]: "relates advances (execute (delete_operator_row u))"
proof (rule relates_execute [OF advances_good])
  fix t n t' assume del: "delete_operator_row u t = Some (n, t')"
  show "advances t t'"
  proof (rule advancesI [OF delete_operator_row_evolves [OF del]])
    assume "tables_ok t"
    from tables_okD(2,3) [OF this] show "keeps_uses t t'"
      using del by (auto simp: delete_operator_row_def keeps_uses_def intro!: table_moves_filter)
  qed
qed

lemma relates_update_row_advances:
  assumes "\<And>r. id_user (f r) = id_user r" and "\<And>r. authz_version r \<le> authz_version (f r)"
    and "\<And>r. authz_version r = authz_version (f r) \<Longrightarrow> privileges (f r) = privileges r"
  shows "relates advances (execute (update_operator_row u f))"
proof (rule relates_execute [OF advances_good])
  fix t n t' assume upd: "update_operator_row u f t = Some (n, t')"
  show "advances t t'"
    by (rule operator_statement_advances [OF update_operator_row_evolves [OF upd assms]])
      (use upd in \<open>auto simp: update_operator_row_def split: option.splits if_splits\<close>)
qed

subsection \<open>The repositories\<close>

named_theorems advance_programs

lemma operator_programs_advance [advance_programs]:
  "relates advances (spawn_encrypt D u pw)" "relates advances (find_by_username name)"
  "relates advances (find_by_id u)" "relates advances (find_by_email addr)" "relates advances count_operators"
  "relates advances (delete_by_id u)"
  unfolding spawn_encrypt_def find_by_username_def find_by_id_def find_by_email_def count_operators_def
    delete_by_id_def
  by (intro relates_intros advances_good advance_statements)+

lemma load_updated_advances [advance_programs]: "relates advances (load_updated u)"
  unfolding load_updated_def by (intro relates_intros advances_good advance_programs)

lemma create_operator_advances [advance_programs]: "relates advances (create_operator D name addr ty pw)"
  unfolding create_operator_def
  by (intro relates_intros advances_good advance_programs advance_statements relates_update_row_advances)
    (simp_all add: privileges_def)

lemma update_operator_advances [advance_programs]: "relates advances (update_operator D u name addr ty pw)"
  unfolding update_operator_def
  by (intro relates_intros advances_good advance_programs relates_update_row_advances) simp_all

lemma record_advances [advance_programs]:
  "relates advances (record_authenticated D u)" "relates advances (record_reauthenticated D u)"
  unfolding record_authenticated_def record_reauthenticated_def
  by (intro relates_intros advances_good advance_programs relates_update_row_advances; simp add: privileges_def)+

lemma update_encrypted_password_advances [advance_programs]:
  "relates advances (update_encrypted_password D u h)"
  unfolding update_encrypted_password_def
  by (intro relates_intros advances_good advance_programs relates_update_row_advances; simp add: privileges_def)

lemma update_password_advances [advance_programs]: "relates advances (update_password D u pw)"
  unfolding update_password_def
  by (intro relates_intros advances_good advance_programs relates_update_row_advances) simp_all

lemma factor_queries_advance [advance_programs]:
  "relates advances (totp_row_of u)" "relates advances (remaining_recovery_count u)"
  unfolding totp_row_of_def remaining_recovery_count_def by (intro relates_intros advances_good)+

lemma factor_reads_advance [advance_programs]:
  "relates advances (confirmed_totp_row u)" "relates advances (is_enabled u)" "relates advances (mfa_status_of u)"
  unfolding confirmed_totp_row_def is_enabled_def mfa_status_of_def Let_def
  by (intro relates_intros advances_good advance_programs)+

lemma flag_advances [advance_programs]:
  "relates advances (set_operator_flag D u on)" "relates advances (bump_operator_authz_version D u)"
  unfolding set_operator_flag_def bump_operator_authz_version_def
  by (intro relates_intros advances_good relates_update_row_advances; simp)+

lemma mint_codes_advances [advance_programs]: "relates advances (mint_codes D u n)"
  by (induction n) (auto simp: Let_def intro!: relates_intros advances_good advance_statements)

lemma replace_recovery_codes_advances [advance_programs]: "relates advances (replace_recovery_codes D u)"
  unfolding replace_recovery_codes_def
  by (intro relates_intros advances_good advance_programs advance_statements)

lemma begin_enrollment_advances [advance_programs]: "relates advances (begin_enrollment D u label)"
  unfolding begin_enrollment_def Let_def
  by (intro relates_intros advances_good advance_statements)

lemma pending_enrollment_advances [advance_programs]: "relates advances (pending_enrollment D u label)"
  unfolding pending_enrollment_def by (intro relates_intros advances_good advance_programs)

lemma confirm_advances [advance_programs]: "relates advances (confirm D u code)"
  unfolding confirm_def by (intro relates_intros advances_good advance_programs advance_statements)

lemma disable_advances [advance_programs]: "relates advances (disable D u)"
  unfolding disable_def by (intro relates_intros advances_good advance_programs advance_statements)

lemma regenerate_advances [advance_programs]: "relates advances (regenerate_recovery_codes D u)"
  unfolding regenerate_recovery_codes_def
  by (intro relates_intros advances_good advance_programs)

lemma consume_advances [advance_programs]:
  "relates advances (consume_totp_step i u step)" "relates advances (consume_recovery_code_row D u i)"
  unfolding consume_totp_step_def consume_recovery_code_row_def
  by (intro relates_intros advances_good advance_statements)+

lemma consume_recovery_code_advances [advance_programs]: "relates advances (consume_recovery_code D u code)"
  unfolding consume_recovery_code_def Let_def
  by (intro relates_intros advances_good advance_programs)

lemma verify_login_code_advances [advance_programs]: "relates advances (verify_login_code D u code)"
  unfolding verify_login_code_def by (intro relates_intros advances_good advance_programs)

section \<open>Confirmation and enrollment\<close>

lemma execute_InrD:
  assumes "execute stmt w = (Inr x, w')"
  shows "stmt (tables w) = Some (x, tables w')"
proof -
  obtain b w1 where f: "next_fault w = (b, w1)" by fastforce
  show ?thesis
    using assms next_fault_tables [OF f] by (auto simp: execute_def f split: if_splits option.splits)
qed

lemma bind_InrD:
  "bind p f w = (Inr y, w'') \<Longrightarrow> \<exists>x w'. p w = (Inr x, w') \<and> f x w' = (Inr y, w'')"
  by (auto simp: bind_def split: prod.splits sum.splits)

lemma affected_pos: "affected p rows = 1 \<Longrightarrow> \<exists>r\<in>set rows. p r"
proof -
  assume "affected p rows = 1"
  then have "filter p rows \<noteq> []" by (auto simp: affected_def)
  then show ?thesis by (simp add: filter_empty_conv)
qed

text \<open>A transaction either left no trace or committed what its body did.\<close>

lemma transaction_cases:
  assumes "transaction p w = (r, w')"
  shows "tables w' = tables w \<and> (\<forall>x. r = Inr x \<longrightarrow> (\<exists>w0 w1. tables w0 = tables w \<and> p w0 = (Inr (Rollback x), w1))) \<or>
    (\<exists>x w0 w1. r = Inr x \<and> tables w0 = tables w \<and> clock w0 = clock w \<and> p w0 = (Inr (Commit x), w1) \<and>
       tables w' = tables w1)"
proof -
  obtain b w0 where f: "next_fault w = (b, w0)" by fastforce
  obtain q w1 where p: "p w0 = (q, w1)" by fastforce
  obtain b2 w2 where f2: "next_fault w1 = (b2, w2)" by fastforce
  have w0: "clock w0 = clock w" "tables w0 = tables w" "tables w2 = tables w1"
    using f next_fault_tables [OF f] next_fault_tables [OF f2]
    by (auto simp: next_fault_def split: list.splits)
  show ?thesis
  proof (cases "\<exists>x. q = Inr (Commit x) \<and> \<not> b \<and> \<not> b2")
    case True
    then obtain x where "q = Inr (Commit x)" "r = Inr x" "w' = w2"
      using assms by (auto simp: transaction_def f p f2)
    then show ?thesis using w0 p by blast
  next
    case False
    then show ?thesis
      using assms w0 p
      by (auto simp: transaction_def f f2 restore_def split: sum.splits ending.splits if_splits)
  qed
qed

definition unused_count :: "int \<Rightarrow> tables \<Rightarrow> nat" where
  "unused_count u t = affected (\<lambda>r. code_user r = u \<and> used r = 0) (codes t)"

lemma mint_codes_InrD:
  "mint_codes D u n w = (Inr cs, w') \<Longrightarrow> length cs = n \<and> operators (tables w') = operators (tables w) \<and>
     totps (tables w') = totps (tables w) \<and> unused_count u (tables w') = unused_count u (tables w) + n"
proof (induction n arbitrary: w cs)
  case (Suc n)
  from Suc.prems obtain c rest w1 w2 where min: "execute (insert_code c) w1 = (Inr (), w2)"
      "mint_codes D u n w2 = (Inr rest, w')" "length cs = Suc (length rest)"
      "tables w1 = tables w" "code_user c = u" "used c = 0"
    by (auto simp: Let_def roll_def current_timestamp_def lift_crypto_def ret_def fail_def
        split: sum.splits dest!: bind_InrD)
  have "tables w2 = (tables w)\<lparr>codes := codes (tables w) @ [c\<lparr>id_code := code_seq (tables w) + 1\<rparr>],
      code_seq := code_seq (tables w) + 1\<rparr>"
    using execute_InrD [OF min(1)] min(4) by (auto simp: insert_code_def split: if_splits)
  then show ?case
    using Suc.IH [OF min(2)] min by (simp add: unused_count_def affected_def)
qed (simp add: ret_def)

lemma query_InrD: "query q w = (Inr x, w') \<Longrightarrow> x = q (tables w) \<and> tables w' = tables w \<and> clock w' = clock w"
  unfolding query_def execute_def by (auto simp: next_fault_def split: if_splits list.splits)

lemma query_tables: "query q w = (r, w') \<Longrightarrow> tables w' = tables w"
  unfolding query_def execute_def by (auto simp: next_fault_def split: if_splits list.splits)

text \<open>The body of the transaction in \<open>confirm\<close>.\<close>

definition confirm_body :: "deps \<Rightarrow> int \<Rightarrow> int \<Rightarrow> int \<Rightarrow> confirm_outcome ending prog" where
  "confirm_body D u i step =
     bind (current_timestamp D) (\<lambda>stamp.
     bind (execute (confirm_totp i u stamp step)) (\<lambda>n.
     if n \<noteq> 1 then ret (Rollback No_pending_enrollment)
     else bind (set_operator_flag D u True) (\<lambda>_.
       bind (replace_recovery_codes D u) (\<lambda>cs. ret (Commit (Confirmed cs))))))"

lemma confirm_shape:
  assumes "confirm D u code w = (r, w')"
  shows "tables w' = tables w \<and> (\<forall>cs. r \<noteq> Inr (Confirmed cs)) \<or>
    (\<exists>cs row secret step w0 w1. r = Inr (Confirmed cs) \<and> totp_of u (tables w) = Some row \<and> confirmed row = 0 \<and>
       pc_open D u TOTP_DOMAIN (encrypted_secret row) = Inr secret \<and>
       verify_totp_code D (clock w) secret code = Some step \<and> tables w0 = tables w \<and>
       confirm_body D u (id_totp row) step w0 = (Inr (Commit (Confirmed cs)), w1) \<and> tables w' = tables w1)"
proof -
  obtain q w1 where q: "totp_row_of u w = (q, w1)" by fastforce
  have t1: "tables w1 = tables w" using query_tables q by (simp add: totp_row_of_def)
  show ?thesis
  proof (cases "\<exists>row secret step. q = Inr (Some row) \<and> confirmed row = 0 \<and>
      pc_open D u TOTP_DOMAIN (encrypted_secret row) = Inr secret \<and>
      verify_totp_code D (clock w1) secret code = Some step")
    case True
    then obtain row secret step where row: "q = Inr (Some row)" "confirmed row = 0"
      "pc_open D u TOTP_DOMAIN (encrypted_secret row) = Inr secret"
      "verify_totp_code D (clock w1) secret code = Some step" by blast
    have read: "totp_of u (tables w) = Some row" "clock w1 = clock w"
      using query_InrD q row(1) unfolding totp_row_of_def by fastforce+
    have tx: "transaction (confirm_body D u (id_totp row) step) w1 = (r, w')"
      using assms row q by (simp add: confirm_def bind_def lift_crypto_def ret_def get_clock_def confirm_body_def)
    have never: "confirm_body D u (id_totp row) step v \<noteq> (Inr (Rollback (Confirmed cs)), v')"
      "confirm_body D u (id_totp row) step v = (Inr (Commit x), v') \<Longrightarrow> \<exists>cs. x = Confirmed cs" for v v' cs x
      by (auto simp: confirm_body_def ret_def dest!: bind_InrD split: if_splits)
    from transaction_cases [OF tx] show ?thesis
    proof (elim disjE exE conjE)
      assume "tables w' = tables w1"
        and "\<forall>x. r = Inr x \<longrightarrow> (\<exists>w0 w1'. tables w0 = tables w1 \<and>
          confirm_body D u (id_totp row) step w0 = (Inr (Rollback x), w1'))"
      then show ?thesis using never(1) t1 by metis
    next
      fix x w0 w2 assume com: "r = Inr x" "tables w0 = tables w1" "tables w' = tables w2"
        "confirm_body D u (id_totp row) step w0 = (Inr (Commit x), w2)"
      moreover from never(2) [OF com(4)] obtain cs where "x = Confirmed cs" ..
      ultimately show ?thesis using row read t1 by (intro disjI2) metis
    qed
  next
    case False
    then show ?thesis
      using assms q t1
      by (auto simp: confirm_def bind_def lift_crypto_def ret_def get_clock_def fail_def
          split: sum.splits option.splits if_splits)
  qed
qed

lemma set_flag_InrD:
  assumes "set_operator_flag D u on w = (Inr x, w')" and "lookup_operator u (tables w) = Some r"
  shows "totps (tables w') = totps (tables w) \<and> codes (tables w') = codes (tables w) \<and>
    (\<exists>r'. lookup_operator u (tables w') = Some r' \<and> mfa_enabled r' = (if on then 1 else 0) \<and>
       authz_version r' = authz_version r + 1)"
proof -
  define f :: "ustr \<Rightarrow> operator_row \<Rightarrow> operator_row" where
    "f = (\<lambda>stamp r. r\<lparr>mfa_enabled := (if on then 1 else 0), updated_at := stamp,
       authz_version := authz_version r + 1\<rparr>)"
  obtain stamp n where "update_operator_row u (f stamp) (tables w) = Some (n, tables w')"
    using assms(1) unfolding set_operator_flag_def f_def
    by (auto simp: current_timestamp_def ret_def dest!: bind_InrD execute_InrD)
  then have "tables w' = (tables w)\<lparr>operators := update_where (\<lambda>r. id_user r = u) (f stamp) (operators (tables w))\<rparr>"
    using assms(2) by (auto simp: update_operator_row_def split: if_splits)
  then show ?thesis
    using lookup_update [where f = "f stamp" and u = u and v = u and t = "tables w"] assms(2) by (simp add: f_def)
qed

lemma confirm_body_commits:
  assumes "confirm_body D u i step w = (Inr (Commit (Confirmed cs)), w')" and "tables_ok (tables w)"
    and "totp_of u (tables w) = Some row" and "id_totp row = i" and "lookup_operator u (tables w) = Some r"
  shows "length cs = RECOVERY_CODE_COUNT \<and> unused_count u (tables w') = RECOVERY_CODE_COUNT \<and>
    (\<exists>row'. totp_of u (tables w') = Some row' \<and> id_totp row' = i \<and> confirmed row' = 1 \<and> last_used_step row' = step) \<and>
    (\<exists>r'. lookup_operator u (tables w') = Some r' \<and> mfa_enabled r' = 1 \<and> authz_version r' = authz_version r + 1)"
proof -
  obtain stamp w1 w2 w3 m where steps: "confirm_totp i u stamp step (tables w) = Some (1, tables w1)"
      "set_operator_flag D u True w1 = (Inr (), w2)" "delete_codes u (tables w2) = Some (m, tables w3)"
      "mint_codes D u RECOVERY_CODE_COUNT w3 = (Inr cs, w')"
    using assms(1) unfolding confirm_body_def replace_recovery_codes_def
    by (auto simp: ret_def current_timestamp_def dest!: bind_InrD execute_InrD split: if_splits)
  define hit :: "totp_row \<Rightarrow> bool" where "hit = (\<lambda>r. id_totp r = i \<and> totp_user r = u \<and> confirmed r = 0)"
  define g :: "totp_row \<Rightarrow> totp_row" where "g = (\<lambda>r. r\<lparr>confirmed := 1, confirmed_at := Some stamp, last_used_step := step\<rparr>)"
  have t1: "tables w1 = (tables w)\<lparr>totps := update_where hit g (totps (tables w))\<rparr>"
    and n: "affected hit (totps (tables w)) = 1"
    using steps(1) by (simp_all add: confirm_totp_def Let_def hit_def g_def)
  have find: "totp_of u (tables w1) = map_option (\<lambda>r. if hit r then g r else r) (Some row)"
    using find_update_where [of totp_user g u hit "totps (tables w)"] assms(3)
    by (simp add: totp_of_def t1 g_def)
  have "row \<in> set (totps (tables w))" "totp_user row = u"
    using assms(3) by (auto simp: totp_of_def find_Some_iff)
  moreover obtain x where x: "x \<in> set (totps (tables w))" "hit x"
    using affected_pos [OF n] by blast
  ultimately have "x = row"
    using tables_okD(2) [OF assms(2)] assms(4) unfolding hit_def distinct_map inj_on_def by blast
  then have row': "totp_of u (tables w1) = Some (g row)" using find x(2) by simp
  have "lookup_operator u (tables w1) = Some r" using assms(5) by (simp add: t1 lookup_operator_def)
  from set_flag_InrD [OF steps(2) this] mint_codes_InrD [OF steps(4)] row' assms(4)
  moreover have "tables w3 = (tables w2)\<lparr>codes := filter (\<lambda>r. code_user r \<noteq> u) (codes (tables w2))\<rparr>"
    using steps(3) by (simp add: delete_codes_def)
  ultimately show ?thesis
    by (auto simp: unused_count_def affected_def lookup_operator_def totp_of_def g_def filter_empty_conv)
qed

text \<open>
  Property C31 (functional): confirmation is all or nothing. Either the answer is not \<open>Confirmed\<close> (or an
  error, at any statement) and the tables are untouched, or the pending factor is confirmed, the
  step of the code that confirmed it is already spent, exactly ten fresh recovery codes are there,
  the operator is flagged and its epoch moved by one, which ends its older sessions.
\<close>

theorem confirm_all_or_nothing:
  assumes "confirm D u code w = (r, w')" and "tables_ok (tables w)"
  shows "tables w' = tables w \<and> (\<forall>cs. r \<noteq> Inr (Confirmed cs)) \<or>
    (\<exists>cs row row' secret step p p'. r = Inr (Confirmed cs) \<and> length cs = 10 \<and>
       unused_count u (tables w') = 10 \<and>
       totp_of u (tables w) = Some row \<and> confirmed row = 0 \<and>
       pc_open D u TOTP_DOMAIN (encrypted_secret row) = Inr secret \<and>
       verify_totp_code D (clock w) secret code = Some step \<and>
       totp_of u (tables w') = Some row' \<and> id_totp row' = id_totp row \<and> confirmed row' = 1 \<and>
       last_used_step row' = step \<and>
       lookup_operator u (tables w) = Some p \<and> lookup_operator u (tables w') = Some p' \<and>
       mfa_enabled p' = 1 \<and> authz_version p' = authz_version p + 1)"
  using confirm_shape [OF assms(1)]
proof (elim disjE exE conjE)
  fix cs row secret step w0 w1
  assume *: "r = Inr (Confirmed cs)" "totp_of u (tables w) = Some row" "confirmed row = 0"
    "pc_open D u TOTP_DOMAIN (encrypted_secret row) = Inr secret"
    "verify_totp_code D (clock w) secret code = Some step" "tables w0 = tables w"
    "confirm_body D u (id_totp row) step w0 = (Inr (Commit (Confirmed cs)), w1)" "tables w' = tables w1"
  have "row \<in> set (totps (tables w))" "totp_user row = u" using *(2) by (auto simp: totp_of_def find_Some_iff)
  then have "u \<in> operator_ids (tables w)" using tables_okD(4) [OF assms(2)] by blast
  then obtain p where p: "lookup_operator u (tables w) = Some p"
    using lookup_operator_None_iff [of u "tables w"] by fastforce
  from confirm_body_commits [OF *(7)] *(6) assms(2) *(2) p show ?thesis
    unfolding *(6,8) using *(1,2,3,4,5) p by (intro disjI2) (auto simp: RECOVERY_CODE_COUNT_def)
qed simp

text \<open>A pending factor, confirmed by the code of step 2.\<close>

definition pending_world :: world where
  "pending_world = \<lparr>tables = \<lparr>operators = [\<lparr>id_user = 1, username = lit ''ann'', email = lit ''ann@example.org'',
       operator_type = lit ''admin'', encrypted_password_hash = lit ''pw'', mfa_enabled = 0, authz_version = 3,
       authenticated_at = None, reauthenticated_at = None, created_at = [], updated_at = []\<rparr>], operator_seq = 1,
     totps = [\<lparr>id_totp = 4, totp_user = 1, encrypted_secret = lit ''SECRET'', confirmed = 0,
       totp_created_at = [], confirmed_at = None, last_used_step = 0\<rparr>], totp_seq = 4,
     codes = [], code_seq = 0\<rparr>, faults = [], clock = 65, dice = 0\<rparr>"

text \<open>A concrete deployment: secrets stored in clear, a code is the step number itself.\<close>

definition sample_deps :: deps where
  "sample_deps = \<lparr>pc_encrypt = (\<lambda>n u pw. Inr pw),
     pc_verify = (\<lambda>n u r pw. Inr \<lparr>valid = (r = pw), replacement_record = None\<rparr>),
     pc_seal = (\<lambda>n u d m. Inr m), pc_open = (\<lambda>u d c. Inr c), totp_decodable = (\<lambda>s. True),
     totp_verify = (\<lambda>s c p t. c = t div p mod 1000000), base32_secret = (\<lambda>b. lit ''SECRET''),
     totp_uri = (\<lambda>s a b. s), random_bytes = (\<lambda>n k. map (\<lambda>i. n * 7 + i) [0..<k]),
     format_timestamp = (\<lambda>t. lit ''2026-01-01 00:00:00'')\<rparr>"

lemma pending_tables_ok: "tables_ok (tables pending_world)"
  by (simp add: pending_world_def tables_ok_def operators_ok_def factors_ok_def operator_ids_def
      role_allowed_def parse_role_def)

theorem confirm_all_or_nothing_witness:
  "\<exists>cs w'. confirm sample_deps 1 (lit '' 000002 '') pending_world = (Inr (Confirmed cs), w') \<and>
     length cs = 10 \<and> unused_count 1 (tables w') = 10"
proof -
  have "(case fst (confirm sample_deps 1 (lit '' 000002 '') pending_world) of
      Inr (Confirmed cs) \<Rightarrow> True | _ \<Rightarrow> False)" by code_simp
  then obtain cs w' where run: "confirm sample_deps 1 (lit '' 000002 '') pending_world = (Inr (Confirmed cs), w')"
    by (cases "confirm sample_deps 1 (lit '' 000002 '') pending_world")
      (auto split: sum.splits confirm_outcome.splits)
  from confirm_all_or_nothing [OF this pending_tables_ok] show ?thesis using run by blast
qed

text \<open>
  Starting an enrollment removes a confirmed factor without asking, and leaves the
  operator flagged. The handler in \<open>src/controllers/mfa.rs\<close> checks \<open>is_enabled\<close> first, but outside
  the transaction: if a confirmation commits between the check and \<open>begin_enrollment\<close>, the operator's
  second factor is off (logins no longer ask for it) while the users table still shows it on.
\<close>

theorem begin_enrollment_drops_confirmed_factor:
  assumes "begin_enrollment D u label w = (Inr e, w')" and "faults w' = []"
  shows "(\<exists>w''. is_enabled u w' = (Inr False, w'')) \<and> operators (tables w') = operators (tables w)"
   
proof -
  obtain n t sealed stamp where run: "delete_totp u (tables w) = Some (n, t)"
      "insert_totp \<lparr>id_totp = 0, totp_user = u, encrypted_secret = sealed, confirmed = 0,
         totp_created_at = stamp, confirmed_at = None, last_used_step = 0\<rparr> t = Some ((), tables w')"
    using assms(1) unfolding begin_enrollment_def Let_def
    by (auto simp: roll_def lift_crypto_def ret_def fail_def current_timestamp_def
        split: sum.splits dest!: bind_InrD execute_InrD transaction_cases)
  define row where "row = \<lparr>id_totp = 0, totp_user = u, encrypted_secret = sealed, confirmed = 0,
         totp_created_at = stamp, confirmed_at = None, last_used_step = 0\<rparr>"
  have body: "delete_totp u (tables w) = Some (n, t)" "insert_totp row t = Some ((), tables w')"
      "totp_user row = u" "confirmed row = 0"
    using run by (simp_all add: row_def)
  have t: "t = (tables w)\<lparr>totps := filter (\<lambda>r. totp_user r \<noteq> u) (totps (tables w))\<rparr>"
    using body(1) by (simp add: delete_totp_def)
  have t': "tables w' = t\<lparr>totps := totps t @ [row\<lparr>id_totp := totp_seq t + 1\<rparr>], totp_seq := totp_seq t + 1\<rparr>"
    using body(2) by (auto simp: insert_totp_def split: if_splits)
  have "find (\<lambda>r. totp_user r = u) (filter (\<lambda>r. totp_user r \<noteq> u) (totps (tables w))) = None"
    by (simp add: find_None_iff)
  then have "totp_of u (tables w') = Some (row\<lparr>id_totp := totp_seq t + 1\<rparr>)"
    using body(3) by (simp add: t' t totp_of_def find_append)
  then have "is_enabled u w' = (Inr False, w')"
    using body(4) assms(2) by (simp add: is_enabled_def totp_row_of_def prog_simps)
  then show ?thesis by (auto simp: t' t)
qed

definition enrolled_world :: world where
  "enrolled_world = snd (confirm sample_deps 1 (lit ''000002'') pending_world)"

theorem begin_enrollment_drops_confirmed_factor_witness:
  "fst (is_enabled 1 enrolled_world) = Inr True \<and>
   (\<exists>e w' w''. begin_enrollment sample_deps 1 (lit ''ann'') enrolled_world = (Inr e, w') \<and>
      is_enabled 1 w' = (Inr False, w''))"
proof
  show "fst (is_enabled 1 enrolled_world) = Inr True" by code_simp
  have ok: "(case fst (begin_enrollment sample_deps 1 (lit ''ann'') enrolled_world) of Inr e \<Rightarrow> True | _ \<Rightarrow> False)"
    "faults (snd (begin_enrollment sample_deps 1 (lit ''ann'') enrolled_world)) = []" by code_simp+
  then obtain e w' where run: "begin_enrollment sample_deps 1 (lit ''ann'') enrolled_world = (Inr e, w')"
    by (cases "begin_enrollment sample_deps 1 (lit ''ann'') enrolled_world") (auto split: sum.splits)
  with ok(2) have "faults w' = []" by simp
  from begin_enrollment_drops_confirmed_factor [OF run this] show
    "\<exists>e w' w''. begin_enrollment sample_deps 1 (lit ''ann'') enrolled_world = (Inr e, w') \<and>
      is_enabled 1 w' = (Inr False, w'')" using run by blast
qed

end
