(* ===== verification/LoginThrottle.thy ===== *)
theory LoginThrottle
  imports Prelude
begin

text \<open>
  The in-memory throttles of the login form, \<open>src/security/rate_limit.rs\<close>: \<open>LoginThrottle\<close> (failures per
  key, temporary lockout) and \<open>AccountFailureMonitor\<close> (one alert per account and window). Both keep a
  hash map that a later call of any key prunes; the locale \<open>lazy_table\<close> states when such pruning
  cannot be observed, and is interpreted on both. Times are an \<open>Instant\<close> in nanoseconds (\<open>int\<close>);
  \<open>duration_since\<close> saturates at zero.
\<close>

section \<open>Tables pruned by their own operations\<close>

definition forget_stale :: "('a \<Rightarrow> bool) \<Rightarrow> 'a option \<Rightarrow> 'a option" where
  "forget_stale p x = (case x of None \<Rightarrow> None | Some a \<Rightarrow> if p a then None else Some a)"

lemma forget_stale_simps [simp]:
  "forget_stale p None = None"
  "forget_stale p (Some a) = (if p a then None else Some a)"
  by (simp_all add: forget_stale_def)

text \<open>An operation on key \<open>k\<close> of a table: prune (some operations do), then update the key's entry.\<close>

definition table_step ::
    "('a option \<Rightarrow> 'o \<Rightarrow> int \<Rightarrow> 'r \<times> 'a option) \<Rightarrow> (int \<Rightarrow> 'a \<Rightarrow> bool) \<Rightarrow> ('o \<Rightarrow> bool) \<Rightarrow>
     ('k \<Rightarrow> 'a option) \<Rightarrow> 'k \<times> 'o \<times> int \<Rightarrow> 'r \<times> ('k \<Rightarrow> 'a option)" where
  "table_step step stale sweeps T = (\<lambda>(k, oper, now).
     let T1 = (if sweeps oper then (\<lambda>j. forget_stale (stale now) (T j)) else T) in
     case step (T1 k) oper now of (r, a) \<Rightarrow> (r, T1(k := a)))"

fun table_run ::
    "('s \<Rightarrow> 'k \<times> 'o \<times> int \<Rightarrow> 'r \<times> 's) \<Rightarrow> 's \<Rightarrow> ('k \<times> 'o \<times> int) list \<Rightarrow> 'r list" where
  "table_run f T [] = []"
| "table_run f T (e # es) = (case f T e of (r, T') \<Rightarrow> r # table_run f T' es)"

fun key_run :: "('a option \<Rightarrow> 'o \<Rightarrow> int \<Rightarrow> 'r \<times> 'a option) \<Rightarrow> 'a option \<Rightarrow> ('o \<times> int) list \<Rightarrow> 'r list" where
  "key_run step x [] = []"
| "key_run step x ((oper, now) # es) = (case step x oper now of (r, x') \<Rightarrow> r # key_run step x' es)"

fun timed :: "int \<Rightarrow> ('k \<times> 'o \<times> int) list \<Rightarrow> bool" where
  "timed t [] \<longleftrightarrow> True"
| "timed t ((k, oper, now) # es) \<longleftrightarrow> t \<le> now \<and> timed now es"

definition of_key :: "'k \<Rightarrow> ('k \<times> 'o \<times> int) list \<Rightarrow> ('o \<times> int) list" where
  "of_key k es = map snd (filter (\<lambda>e. fst e = k) es)"

lemma of_key_simps [simp]:
  "of_key k [] = []"
  "of_key k ((j, oper, now) # es) = (if j = k then (oper, now) # of_key k es else of_key k es)"
  by (simp_all add: of_key_def)

text \<open>
  The contract: a stale entry stays stale, and an operation treats it like no entry at all, up to
  staleness of what it leaves behind. \<open>ok\<close> are the settings for which the code's pruning respects it.
\<close>

locale lazy_table =
  fixes step :: "'c \<Rightarrow> 'a option \<Rightarrow> 'o \<Rightarrow> int \<Rightarrow> 'r \<times> 'a option"
    and stale :: "'c \<Rightarrow> int \<Rightarrow> 'a \<Rightarrow> bool"
    and sweeps :: "'o \<Rightarrow> bool"
    and ok :: "'c \<Rightarrow> bool"
  assumes stale_later: "\<lbrakk>stale c t a; t \<le> now\<rbrakk> \<Longrightarrow> stale c now a"
    and stale_result: "\<lbrakk>ok c; stale c now a\<rbrakk> \<Longrightarrow> fst (step c (Some a) oper now) = fst (step c None oper now)"
    and stale_entry: "\<lbrakk>ok c; stale c now a\<rbrakk> \<Longrightarrow>
      forget_stale (stale c now) (snd (step c (Some a) oper now)) = forget_stale (stale c now) (snd (step c None oper now))"
begin

lemma forget_later:
  assumes "forget_stale (stale c t) x = forget_stale (stale c t) y" and "t \<le> now"
  shows "forget_stale (stale c now) x = forget_stale (stale c now) y"
  using assms stale_later by (auto simp: forget_stale_def split: option.splits if_splits)

lemma step_forget:
  assumes "ok c" and "forget_stale (stale c now) x = forget_stale (stale c now) y"
  shows "fst (step c x oper now) = fst (step c y oper now)"
    and "forget_stale (stale c now) (snd (step c x oper now)) = forget_stale (stale c now) (snd (step c y oper now))"
  using assms stale_result stale_entry
  by (cases x; cases y; fastforce split: if_splits)+

lemma run_isolated:
  assumes "ok c" and "timed t es" and "forget_stale (stale c t) (T k) = forget_stale (stale c t) x"
  shows "map snd (filter (\<lambda>(e, r). fst e = k) (zip es (table_run (table_step (step c) (stale c) sweeps) T es))) =
     key_run (step c) x (of_key k es)"
  using assms(2,3)
proof (induction es arbitrary: T t x)
  case (Cons e es)
  obtain j oper now where e: "e = (j, oper, now)" by (cases e) auto
  then have now: "t \<le> now" "timed now es" using Cons.prems(1) by auto
  define T1 where "T1 = (if sweeps oper then (\<lambda>j. forget_stale (stale c now) (T j)) else T)"
  define T' where "T' = T1(j := snd (step c (T1 j) oper now))"
  have run: "table_run (table_step (step c) (stale c) sweeps) T (e # es) =
      fst (step c (T1 j) oper now) # table_run (table_step (step c) (stale c) sweeps) T' es"
    by (simp add: e table_step_def T1_def T'_def Let_def case_prod_beta)
  have T1: "forget_stale (stale c now) (T1 k) = forget_stale (stale c now) x"
    using forget_later [OF Cons.prems(2) now(1)] by (auto simp: T1_def forget_stale_def split: option.splits)
  show ?case
  proof (cases "j = k")
    case True
    have "forget_stale (stale c now) (T' k) = forget_stale (stale c now) (snd (step c x oper now))"
      using True step_forget(2) [OF assms(1) T1] by (simp add: T'_def)
    from Cons.IH [where T = T', OF now(2) this] show ?thesis
      using True step_forget(1) [OF assms(1) T1] unfolding run by (simp add: e case_prod_beta)
  next
    case False
    then have "forget_stale (stale c now) (T' k) = forget_stale (stale c now) x"
      using T1 by (simp add: T'_def)
    from Cons.IH [where T = T', OF now(2) this] show ?thesis
      using False unfolding run by (simp add: e)
  qed
qed simp

end

section \<open>LoginThrottle\<close>

record attempt =
  failures :: nat
  window_started :: int
  locked_until :: "int option"

record throttle_settings =
  max_failures :: nat
  window :: int
  lockout :: int

record login_throttle =
  settings :: throttle_settings
  poisoned :: bool
  attempts :: "ustr \<Rightarrow> attempt option"

definition seconds :: "int \<Rightarrow> int" where
  "seconds s = s * 1000000000"

definition duration_since :: "int \<Rightarrow> int \<Rightarrow> int" where
  "duration_since now earlier = max 0 (now - earlier)"

definition throttle_with_defaults :: login_throttle where
  "throttle_with_defaults = \<lparr>settings = \<lparr>max_failures = 5, window = seconds (5 * 60), lockout = seconds (15 * 60)\<rparr>,
     poisoned = False, attempts = (\<lambda>_. None)\<rparr>"

text \<open>\<open>prune\<close> keeps running lockouts, and unlocked entries for one hour whatever the window is.\<close>

definition prunable :: "int \<Rightarrow> attempt \<Rightarrow> bool" where
  "prunable now a = (case locked_until a of
     Some until \<Rightarrow> until \<le> now | None \<Rightarrow> seconds 3600 < duration_since now (window_started a))"

definition prune :: "int \<Rightarrow> (ustr \<Rightarrow> attempt option) \<Rightarrow> ustr \<Rightarrow> attempt option" where
  "prune now T = (\<lambda>k. case T k of None \<Rightarrow> None | Some a \<Rightarrow> if prunable now a then None else Some a)"

definition record_success :: "login_throttle \<Rightarrow> ustr \<Rightarrow> login_throttle" where
  "record_success st key = (if poisoned st then st else st\<lparr>attempts := (attempts st)(key := None)\<rparr>)"

definition locked_for_at :: "login_throttle \<Rightarrow> ustr \<Rightarrow> int \<Rightarrow> int option \<times> login_throttle" where
  "locked_for_at st key now =
     (if poisoned st then (None, st)
      else case attempts st key of
        None \<Rightarrow> (None, st)
      | Some a \<Rightarrow> (case locked_until a of
          Some until \<Rightarrow> if now < until then (Some (until - now), st)
                       else (None, st\<lparr>attempts := (attempts st)(key := None)\<rparr>)
        | None \<Rightarrow> (None, st)))"

text \<open>\<open>record_failure_at\<close>; the first two definitions are the code after the entry is found or inserted.\<close>

definition fresh_attempt :: "int \<Rightarrow> attempt" where
  "fresh_attempt now = \<lparr>failures = 0, window_started = now, locked_until = None\<rparr>"

definition count_failure :: "throttle_settings \<Rightarrow> attempt \<Rightarrow> int \<Rightarrow> int option \<times> attempt" where
  "count_failure c a now =
     (let a1 = (if window c < duration_since now (window_started a)
                then a\<lparr>failures := 0, window_started := now\<rparr> else a);
          a2 = a1\<lparr>failures := failures a1 + 1\<rparr>
      in if max_failures c \<le> failures a2
         then (Some (lockout c), a2\<lparr>locked_until := Some (now + lockout c)\<rparr>)
         else (None, a2))"

definition note_attempt :: "throttle_settings \<Rightarrow> attempt \<Rightarrow> int \<Rightarrow> int option \<times> attempt" where
  "note_attempt c a now =
     (case locked_until a of
        Some until \<Rightarrow>
          if now < until then (Some (until - now), a)
          else count_failure c (a\<lparr>failures := 0, window_started := now, locked_until := None\<rparr>) now
      | None \<Rightarrow> count_failure c a now)"

definition record_failure_at :: "login_throttle \<Rightarrow> ustr \<Rightarrow> int \<Rightarrow> int option \<times> login_throttle" where
  "record_failure_at st key now =
     (if poisoned st then (None, st)
      else
        let T = prune now (attempts st);
            a = (case T key of None \<Rightarrow> fresh_attempt now | Some a \<Rightarrow> a)
        in case note_attempt (settings st) a now of
             (r, a') \<Rightarrow> (r, st\<lparr>attempts := T(key \<mapsto> a')\<rparr>))"

subsection \<open>One key at a time\<close>

datatype throttle_op = Locked_for | Record_failure | Record_success

definition throttle_call :: "login_throttle \<Rightarrow> ustr \<times> throttle_op \<times> int \<Rightarrow> int option \<times> login_throttle" where
  "throttle_call st = (\<lambda>(key, oper, now). case oper of
     Locked_for \<Rightarrow> locked_for_at st key now
   | Record_failure \<Rightarrow> record_failure_at st key now
   | Record_success \<Rightarrow> (None, record_success st key))"

definition attempt_step ::
    "throttle_settings \<Rightarrow> attempt option \<Rightarrow> throttle_op \<Rightarrow> int \<Rightarrow> int option \<times> attempt option" where
  "attempt_step c x oper now = (case oper of
     Locked_for \<Rightarrow> (case x of None \<Rightarrow> (None, None)
       | Some a \<Rightarrow> (case locked_until a of None \<Rightarrow> (None, Some a)
           | Some until \<Rightarrow> if now < until then (Some (until - now), Some a) else (None, None)))
   | Record_failure \<Rightarrow> (case note_attempt c (case x of None \<Rightarrow> fresh_attempt now | Some a \<Rightarrow> a) now of
       (r, a) \<Rightarrow> (r, Some a))
   | Record_success \<Rightarrow> (None, None))"

definition sweeping :: "throttle_op \<Rightarrow> bool" where
  "sweeping oper \<longleftrightarrow> oper = Record_failure"

lemma prune_forget: "prune now T = (\<lambda>k. forget_stale (prunable now) (T k))"
  by (rule ext) (simp add: prune_def forget_stale_def split: option.split)

lemma throttle_call_table:
  assumes "\<not> poisoned st"
  shows "throttle_call st e =
    (case table_step (attempt_step (settings st)) prunable sweeping (attempts st) e of
       (r, T) \<Rightarrow> (r, st\<lparr>attempts := T\<rparr>))"
  using assms
  by (auto simp: throttle_call_def table_step_def attempt_step_def sweeping_def locked_for_at_def
      record_failure_at_def record_success_def prune_forget Let_def fun_upd_idem
      split: prod.split throttle_op.split option.split)

lemma throttle_run_table:
  "\<not> poisoned st \<Longrightarrow> table_run throttle_call st es =
     table_run (table_step (attempt_step (settings st)) prunable sweeping) (attempts st) es"
proof (induction es arbitrary: st)
  case (Cons e es)
  obtain r T where T: "table_step (attempt_step (settings st)) prunable sweeping (attempts st) e = (r, T)"
    by fastforce
  then have "throttle_call st e = (r, st\<lparr>attempts := T\<rparr>)"
    using throttle_call_table [OF Cons.prems] by simp
  then show ?case using Cons.IH [of "st\<lparr>attempts := T\<rparr>"] Cons.prems by (simp add: T)
qed simp

text \<open>Pruning cannot be observed as long as the window is at most the hour the code prunes at.\<close>

definition settings_ok :: "throttle_settings \<Rightarrow> bool" where
  "settings_ok c \<longleftrightarrow> 0 \<le> window c \<and> window c \<le> seconds 3600 \<and> 0 < lockout c \<and> 0 < max_failures c"

interpretation lt: lazy_table attempt_step "\<lambda>_. prunable" sweeping settings_ok
proof
  show "prunable t a \<Longrightarrow> t \<le> now \<Longrightarrow> prunable now a" for t now a
    by (auto simp: prunable_def duration_since_def split: option.splits)
  fix c :: throttle_settings and a :: attempt and now :: int and oper :: throttle_op
  assume "settings_ok c" and stale: "prunable now a"
  then have same: "note_attempt c a now = note_attempt c (fresh_attempt now) now"
    by (cases a) (auto simp: note_attempt_def count_failure_def fresh_attempt_def prunable_def
        settings_ok_def duration_since_def Let_def split: option.splits)
  show "fst (attempt_step c (Some a) oper now) = fst (attempt_step c None oper now)"
    using stale same by (auto simp: attempt_step_def prunable_def split: throttle_op.split option.splits)
  show "forget_stale (prunable now) (snd (attempt_step c (Some a) oper now)) =
      forget_stale (prunable now) (snd (attempt_step c None oper now))"
    using stale same by (auto simp: attempt_step_def prunable_def split: throttle_op.split option.splits prod.split)
qed

lemma timed_of_key:
  "timed t es \<Longrightarrow> sorted (map snd (of_key k es)) \<and> (\<forall>e\<in>set (of_key k es). t \<le> snd e)"
proof (induction es arbitrary: t)
  case (Cons e es)
  obtain j oper now where "e = (j, oper, now)" by (cases e) auto
  moreover from this have "t \<le> now" "timed now es" using Cons.prems by auto
  ultimately show ?case using Cons.IH [of now] by (auto simp: order_trans)
qed simp

lemma fresh_same:
  "key_run (attempt_step c) None (map (Pair Record_failure) (x # xs) @ rest) =
   key_run (attempt_step c) (Some (fresh_attempt x)) (map (Pair Record_failure) (x # xs) @ rest)"
  by (simp add: attempt_step_def)

lemma count_run:
  assumes "\<forall>x\<in>set ts. x - w \<le> window c" and "0 \<le> window c" and "i + length ts < max_failures c"
  shows "key_run (attempt_step c) (Some \<lparr>failures = i, window_started = w, locked_until = None\<rparr>)
      (map (Pair Record_failure) ts @ rest) =
    replicate (length ts) None @
    key_run (attempt_step c) (Some \<lparr>failures = i + length ts, window_started = w, locked_until = None\<rparr>) rest"
  using assms
  by (induction ts arbitrary: i)
    (auto simp: attempt_step_def note_attempt_def count_failure_def duration_since_def Let_def)

lemma locked_run:
  assumes "locked_until a = Some u" and "\<forall>(oper, q)\<in>set qs. oper \<noteq> Record_success \<and> q < u"
  shows "key_run (attempt_step c) (Some a) (qs @ rest) =
    map (\<lambda>(oper, q). Some (u - q)) qs @ key_run (attempt_step c) (Some a) rest"
  using assms
  by (induction qs) (auto simp: attempt_step_def note_attempt_def split: throttle_op.splits)

lemma lock_run:
  assumes "settings_ok c" and "length ts = max_failures c" and "sorted ts" and "last ts - hd ts \<le> window c"
    and "\<forall>(oper, q)\<in>set qs. oper \<noteq> Record_success \<and> q < last ts + lockout c"
  shows "key_run (attempt_step c) None (map (Pair Record_failure) ts @ qs @ rest) =
    replicate (max_failures c - 1) None @ Some (lockout c) #
    map (\<lambda>(oper, q). Some (last ts + lockout c - q)) qs @
    key_run (attempt_step c) (Some \<lparr>failures = max_failures c, window_started = hd ts,
      locked_until = Some (last ts + lockout c)\<rparr>) rest"
proof -
  have pos: "0 < max_failures c" "0 \<le> window c" using assms(1) by (auto simp: settings_ok_def)
  then have "ts \<noteq> []" using assms(2) by auto
  then obtain x xs where ts: "ts = x # xs" by (cases ts) auto
  have split: "ts = butlast ts @ [last ts]" using \<open>ts \<noteq> []\<close> by simp
  have below: "y - x \<le> window c" if "y \<in> set ts" for y
  proof -
    have "y \<le> last ts" using that assms(3) split by (metis in_set_conv_decomp append_butlast_last_id
          last_in_set sorted_append set_append Un_iff empty_iff set_ConsD list.set(1) order_refl list.set_intros(1))
    then show ?thesis using assms(4) ts by simp
  qed
  have few: "length (butlast ts) = max_failures c - 1" using assms(2) by simp
  have "key_run (attempt_step c) None (map (Pair Record_failure) ts @ qs @ rest) =
      key_run (attempt_step c) (Some (fresh_attempt x))
        (map (Pair Record_failure) (butlast ts) @ map (Pair Record_failure) [last ts] @ qs @ rest)"
    using fresh_same [of c x xs "qs @ rest"] split
    by (metis ts append_assoc map_append)
  also have "\<dots> = replicate (max_failures c - 1) None @
      key_run (attempt_step c) (Some \<lparr>failures = max_failures c - 1, window_started = x, locked_until = None\<rparr>)
        (map (Pair Record_failure) [last ts] @ qs @ rest)"
    unfolding fresh_attempt_def
    by (subst count_run) (use few pos below in \<open>auto dest: in_set_butlastD\<close>)
  also have "key_run (attempt_step c) (Some \<lparr>failures = max_failures c - 1, window_started = x, locked_until = None\<rparr>)
        (map (Pair Record_failure) [last ts] @ qs @ rest) =
      Some (lockout c) # key_run (attempt_step c) (Some \<lparr>failures = max_failures c, window_started = x,
        locked_until = Some (last ts + lockout c)\<rparr>) (qs @ rest)"
    using pos below [of "last ts"] \<open>ts \<noteq> []\<close>
    by (auto simp: attempt_step_def note_attempt_def count_failure_def duration_since_def Let_def)
  finally show ?thesis
    using locked_run [OF _ assms(5)] by (simp add: ts)
qed

subsection \<open>Lockout\<close>

definition results_of :: "'k \<Rightarrow> ('k \<times> 'o \<times> int) list \<Rightarrow> 'r list \<Rightarrow> 'r list" where
  "results_of k es rs = map snd (filter (\<lambda>(e, r). fst e = k) (zip es rs))"

lemma throttle_isolated:
  assumes "\<not> poisoned st" and "settings_ok (settings st)" and "timed t es" and "attempts st key = None"
  shows "results_of key es (table_run throttle_call st es) =
    key_run (attempt_step (settings st)) None (of_key key es)"
  unfolding results_of_def throttle_run_table [OF assms(1)]
  by (rule lt.run_isolated [OF assms(2,3)]) (simp add: assms(4))


definition attack :: "(ustr \<times> throttle_op \<times> int) list" where
  "attack = map (\<lambda>s. (lit ''ip'', Record_failure, seconds s)) [0, 1, 2] @
     [(lit ''other'', Record_failure, seconds 3)] @
     map (\<lambda>s. (lit ''ip'', Record_failure, seconds s)) [200, 300] @
     [(lit ''other'', Record_failure, seconds 400), (lit ''ip'', Locked_for, seconds 1000),
      (lit ''ip'', Record_failure, seconds 1199), (lit ''other'', Record_success, seconds 1199),
      (lit ''ip'', Locked_for, seconds 1200)]"


text \<open>
  The window is fixed, not sliding. It starts with the first failure and is
  dropped whole when it has run out, so failures that straddle its end are not counted together:
  the default throttle sees seven failures within five seconds and does not lock the key.
\<close>

theorem throttle_window_not_sliding:
  "table_run throttle_call throttle_with_defaults
     (map (\<lambda>s. (lit ''ip'', Record_failure, seconds s)) [0, 297, 298, 299, 301, 301, 302, 302]) =
   replicate 8 None"
  by code_simp

section \<open>AccountFailureMonitor\<close>

record account_failures =
  count :: nat
  started :: int
  alerted :: bool

record account_monitor =
  accounts :: "ustr \<Rightarrow> account_failures option"
  monitor_window :: int
  alert_threshold :: nat
  monitor_poisoned :: bool

definition monitor_with_defaults :: account_monitor where
  "monitor_with_defaults = \<lparr>accounts = (\<lambda>_. None), monitor_window = seconds (15 * 60), alert_threshold = 50,
     monitor_poisoned = False\<rparr>"

definition fresh_failures :: "int \<Rightarrow> account_failures" where
  "fresh_failures now = \<lparr>count = 0, started = now, alerted = False\<rparr>"

definition elapsed :: "int \<Rightarrow> int \<Rightarrow> account_failures \<Rightarrow> bool" where
  "elapsed w now f \<longleftrightarrow> w < duration_since now (started f)"

definition note_account :: "int \<Rightarrow> nat \<Rightarrow> account_failures \<Rightarrow> int \<Rightarrow> bool \<times> account_failures" where
  "note_account w threshold f now =
     (let f1 = (if elapsed w now f then fresh_failures now else f);
          f2 = f1\<lparr>count := count f1 + 1\<rparr>
      in if threshold \<le> count f2 \<and> \<not> alerted f2 then (True, f2\<lparr>alerted := True\<rparr>) else (False, f2))"

definition note_failure_at :: "account_monitor \<Rightarrow> ustr \<Rightarrow> int \<Rightarrow> bool \<times> account_monitor" where
  "note_failure_at m account now =
     (if monitor_poisoned m then (False, m)
      else
        let T = (\<lambda>k. case accounts m k of None \<Rightarrow> None
                   | Some f \<Rightarrow> if elapsed (monitor_window m) now f then None else Some f);
            f = (case T account of None \<Rightarrow> fresh_failures now | Some f \<Rightarrow> f)
        in case note_account (monitor_window m) (alert_threshold m) f now of
             (alert, f') \<Rightarrow> (alert, m\<lparr>accounts := T(account \<mapsto> f')\<rparr>))"

definition monitor_call :: "account_monitor \<Rightarrow> ustr \<times> unit \<times> int \<Rightarrow> bool \<times> account_monitor" where
  "monitor_call m = (\<lambda>(account, _, now). note_failure_at m account now)"

definition account_step ::
    "int \<times> nat \<Rightarrow> account_failures option \<Rightarrow> unit \<Rightarrow> int \<Rightarrow> bool \<times> account_failures option" where
  "account_step = (\<lambda>(w, threshold) x _ now.
     case note_account w threshold (case x of None \<Rightarrow> fresh_failures now | Some f \<Rightarrow> f) now of
       (alert, f) \<Rightarrow> (alert, Some f))"

definition monitor_ok :: "int \<times> nat \<Rightarrow> bool" where
  "monitor_ok = (\<lambda>(w, threshold). 0 \<le> w \<and> 0 < threshold)"

lemma monitor_run_table:
  "\<not> monitor_poisoned m \<Longrightarrow> table_run monitor_call m es =
     table_run (table_step (account_step (monitor_window m, alert_threshold m)) (elapsed (monitor_window m))
       (\<lambda>_. True)) (accounts m) es"
proof (induction es arbitrary: m)
  case (Cons e es)
  obtain k u now where e: "e = (k, u, now)" by (cases e) auto
  define T where "T = (\<lambda>j. forget_stale (elapsed (monitor_window m) now) (accounts m j))"
  obtain r f where rf: "note_account (monitor_window m) (alert_threshold m)
      (case T k of None \<Rightarrow> fresh_failures now | Some f \<Rightarrow> f) now = (r, f)" by fastforce
  have "monitor_call m e = (r, m\<lparr>accounts := T(k \<mapsto> f)\<rparr>)"
    using Cons.prems rf
    by (simp add: e monitor_call_def note_failure_at_def Let_def T_def forget_stale_def)
  moreover have "table_step (account_step (monitor_window m, alert_threshold m)) (elapsed (monitor_window m))
      (\<lambda>_. True) (accounts m) e = (r, T(k \<mapsto> f))"
    using rf by (simp add: e table_step_def account_step_def Let_def T_def)
  ultimately show ?case
    using Cons.IH [of "m\<lparr>accounts := T(k \<mapsto> f)\<rparr>"] Cons.prems by (simp add: fun_upd_def)
qed simp

interpretation am: lazy_table account_step "\<lambda>c. elapsed (fst c)" "\<lambda>_. True" monitor_ok
proof
  show "elapsed (fst c) t a \<Longrightarrow> t \<le> now \<Longrightarrow> elapsed (fst c) now a" for c :: "int \<times> nat" and t now a
    by (auto simp: elapsed_def duration_since_def)
  fix c :: "int \<times> nat" and a now and u :: unit
  assume "monitor_ok c" and "elapsed (fst c) now a"
  then have "account_step c (Some a) u now = account_step c None u now"
    by (cases c) (auto simp: account_step_def note_account_def elapsed_def monitor_ok_def
        fresh_failures_def duration_since_def Let_def)
  then show "fst (account_step c (Some a) u now) = fst (account_step c None u now)"
    and "forget_stale (elapsed (fst c) now) (snd (account_step c (Some a) u now)) =
      forget_stale (elapsed (fst c) now) (snd (account_step c None u now))" by simp_all
qed

lemma group_run:
  assumes "\<forall>x\<in>set ts. x - s \<le> w" and "0 \<le> w"
  shows "key_run (account_step (w, n)) (Some \<lparr>count = i, started = s, alerted = (n \<le> i)\<rparr>) (map (Pair ()) ts @ rest) =
    map (\<lambda>j. Suc (i + j) = n) [0..<length ts] @
    key_run (account_step (w, n)) (Some \<lparr>count = i + length ts, started = s, alerted = (n \<le> i + length ts)\<rparr>) rest"
  using assms
proof (induction ts arbitrary: i)
  case (Cons x xs)
  have "account_step (w, n) (Some \<lparr>count = i, started = s, alerted = (n \<le> i)\<rparr>) () x =
      (Suc i = n, Some \<lparr>count = Suc i, started = s, alerted = (n \<le> Suc i)\<rparr>)"
    using Cons.prems
    by (auto simp: account_step_def note_account_def elapsed_def duration_since_def Let_def)
  moreover have "map (\<lambda>j. Suc (i + j) = n) [0..<length (x # xs)] =
      (Suc i = n) # map (\<lambda>j. Suc (Suc i + j) = n) [0..<length xs]"
    by (simp only: list.size add_Suc_right add_0_right map_upt_Suc) simp
  ultimately show ?case using Cons.IH [of "Suc i"] Cons.prems by simp
qed simp

text \<open>The failures of an account, cut into the monitor's windows.\<close>

fun in_windows :: "int \<Rightarrow> int list list \<Rightarrow> bool" where
  "in_windows w [] \<longleftrightarrow> True"
| "in_windows w (ts # tss) \<longleftrightarrow> ts \<noteq> [] \<and> (\<forall>x\<in>set ts. x - hd ts \<le> w) \<and>
     (case tss of [] \<Rightarrow> True | us # _ \<Rightarrow> us \<noteq> [] \<and> w < hd us - hd ts) \<and> in_windows w tss"

lemma windows_run:
  assumes "in_windows w tss" and "0 \<le> w" and "0 < n"
    and "\<And>f ts tss'. \<lbrakk>x = Some f; tss = ts # tss'\<rbrakk> \<Longrightarrow> w < hd ts - started f"
  shows "key_run (account_step (w, n)) x (map (Pair ()) (concat tss)) =
    concat (map (\<lambda>ts. map (\<lambda>j. Suc j = n) [0..<length ts]) tss)"
  using assms
proof (induction tss arbitrary: x)
  case (Cons ts tss)
  then obtain t ts' where ts: "ts = t # ts'" by (cases ts) auto
  let ?f = "\<lparr>count = length ts, started = t, alerted = (n \<le> length ts)\<rparr>"
  have late: "elapsed w t f" if "x = Some f" for f
    using Cons.prems(4) [OF that refl] ts by (simp add: elapsed_def duration_since_def)
  have "account_step (w, n) x () t = account_step (w, n) (Some (fresh_failures t)) () t"
    using late Cons.prems(2)
    by (cases x) (simp_all add: account_step_def note_account_def elapsed_def [of w t "fresh_failures t"]
        duration_since_def fresh_failures_def)
  then have "key_run (account_step (w, n)) x (map (Pair ()) (concat (ts # tss))) =
      key_run (account_step (w, n)) (Some (fresh_failures t)) (map (Pair ()) ts @ map (Pair ()) (concat tss))"
    by (simp add: ts)
  also have "\<dots> = map (\<lambda>j. Suc j = n) [0..<length ts] @
      key_run (account_step (w, n)) (Some ?f) (map (Pair ()) (concat tss))"
    using group_run [of ts t w n 0] Cons.prems(1-3) by (simp add: ts fresh_failures_def)
  also have "key_run (account_step (w, n)) (Some ?f) (map (Pair ()) (concat tss)) =
      concat (map (\<lambda>ts. map (\<lambda>j. Suc j = n) [0..<length ts]) tss)"
    using Cons.prems by (intro Cons.IH) (auto simp: ts)
  finally show ?case by simp
qed simp

text \<open>
  The monitor alerts exactly once per window of an account, at the failure
  that reaches the threshold, however failures of other accounts (and the pruning they do) interleave.
  A new window starts with the first failure after the old one has run out.
\<close>

theorem monitor_alerts_once_per_window:
  assumes "\<not> monitor_poisoned m" and "0 \<le> monitor_window m" and "0 < alert_threshold m"
    and "timed t es" and "accounts m account = None"
    and "of_key account es = map (Pair ()) (concat tss)" and "in_windows (monitor_window m) tss"
  shows "results_of account es (table_run monitor_call m es) =
    concat (map (\<lambda>ts. map (\<lambda>i. Suc i = alert_threshold m) [0..<length ts]) tss)"
proof -
  have "results_of account es (table_run monitor_call m es) =
      key_run (account_step (monitor_window m, alert_threshold m)) None (of_key account es)"
    unfolding results_of_def monitor_run_table [OF assms(1)]
    using am.run_isolated [of "(monitor_window m, alert_threshold m)" t es "accounts m" account None] assms
    by (simp add: monitor_ok_def)
  also have "\<dots> = concat (map (\<lambda>ts. map (\<lambda>i. Suc i = alert_threshold m) [0..<length ts]) tss)"
    unfolding assms(6) by (rule windows_run [OF assms(7,2,3)]) simp
  finally show ?thesis .
qed

definition guesses :: "(ustr \<times> unit \<times> int) list" where
  "guesses = [(lit ''a'', (), 0), (lit ''b'', (), 1), (lit ''a'', (), 2), (lit ''a'', (), 3),
     (lit ''a'', (), 20), (lit ''b'', (), 21), (lit ''a'', (), 22)]"

theorem monitor_alerts_once_per_window_witness:
  "results_of (lit ''a'') guesses (table_run monitor_call
     \<lparr>accounts = (\<lambda>_. None), monitor_window = 10, alert_threshold = 2, monitor_poisoned = False\<rparr> guesses) =
   [False, True, False, False, True]"
  by (subst monitor_alerts_once_per_window [where t = 0 and tss = "[[0, 2, 3], [20, 22]]"])
    (simp_all add: guesses_def upt_rec)

end
