(* ===== verification/SessionStore.thy ===== *)
theory SessionStore
  imports Prelude
begin

text \<open>
  The persistent session store, \<open>src/models/session_store.rs\<close>: rows of \<open>kraken_sessions\<close>, with the
  expiry and the signed-in operator mirrored into columns. The JSON codec of the session crate and the
  id generator are parameters; any statement may fail. The lemmas show that the columns never disagree
  with the records, that the store is a map of unexpired records, and that revocation is complete.
\<close>

section \<open>Rows\<close>

text \<open>The values the code keeps in a session.\<close>

datatype session_value = Number int | Text ustr

definition USER_ID_FIELD :: ustr where "USER_ID_FIELD = lit ''authenticated_user_id''"

record srecord =
  rec_id :: nat
  rec_data :: "(ustr \<times> session_value) list"
  expiry_ns :: int

record session_row =
  sid :: nat
  record_text :: ustr
  expiry_utc :: int
  row_user :: int

record store =
  session_rows :: "session_row list"
  store_now :: int
  store_faults :: "bool list"
  drawn :: nat

record codec =
  to_json :: "srecord \<Rightarrow> ustr option"
  from_json :: "ustr \<Rightarrow> srecord option"

datatype store_error = Backend | Encode | Decode

type_synonym 'a store_op = "store \<Rightarrow> (store_error + 'a) \<times> store"

text \<open>Documented behaviour of the codec: what was written reads back as it was.\<close>

definition codec_ok :: "codec \<Rightarrow> bool" where
  "codec_ok C \<longleftrightarrow> (\<forall>r s. to_json C r = Some s \<longrightarrow> from_json C s = Some r)"

definition unix_timestamp :: "srecord \<Rightarrow> int" where
  "unix_timestamp r = expiry_ns r div 1000000000"

definition mirrored_user_id :: "srecord \<Rightarrow> int" where
  "mirrored_user_id r = (case map_of (rec_data r) USER_ID_FIELD of
     Some (Number i) \<Rightarrow> if in_i64 i then i else 0
   | _ \<Rightarrow> 0)"

section \<open>Operations\<close>

definition statement :: "(store \<Rightarrow> 'a \<times> store) \<Rightarrow> 'a store_op" where
  "statement f s = (case store_faults s of
     [] \<Rightarrow> (case f s of (x, s') \<Rightarrow> (Inr x, s'))
   | b # bs \<Rightarrow> (let s1 = s\<lparr>store_faults := bs\<rparr> in if b then (Inl Backend, s1) else (case f s1 of (x, s') \<Rightarrow> (Inr x, s'))))"

definition delete_rows :: "(session_row \<Rightarrow> bool) \<Rightarrow> nat store_op" where
  "delete_rows p = statement (\<lambda>s. (length (filter p (session_rows s)),
     s\<lparr>session_rows := filter (\<lambda>r. \<not> p r) (session_rows s)\<rparr>))"

definition delete_expired_sessions :: "nat store_op" where
  "delete_expired_sessions s = delete_rows (\<lambda>r. expiry_utc r \<le> store_now s) s"

definition row_of :: "nat \<Rightarrow> store \<Rightarrow> session_row option" where
  "row_of i s = find (\<lambda>r. sid r = i) (session_rows s)"

definition id_exists :: "nat \<Rightarrow> bool store_op" where
  "id_exists i = statement (\<lambda>s. (row_of i s \<noteq> None, s))"

text \<open>\<open>INSERT ... ON CONFLICT(id) DO UPDATE\<close>\<close>

definition put_row :: "session_row \<Rightarrow> session_row list \<Rightarrow> session_row list" where
  "put_row row rs = (if sid row \<in> sid ` set rs then map (\<lambda>r. if sid r = sid row then row else r) rs
     else rs @ [row])"

definition upsert :: "codec \<Rightarrow> srecord \<Rightarrow> unit store_op" where
  "upsert C r s = (case to_json C r of
     None \<Rightarrow> (Inl Encode, s)
   | Some text \<Rightarrow> statement (\<lambda>s. ((), s\<lparr>session_rows := put_row
       \<lparr>sid = rec_id r, record_text = text, expiry_utc = unix_timestamp r, row_user = mirrored_user_id r\<rparr>
       (session_rows s)\<rparr>)) s)"

definition delete_by_user_id :: "int \<Rightarrow> nat store_op" where
  "delete_by_user_id u = delete_rows (\<lambda>r. row_user r = u)"

definition delete_by_user_id_except :: "int \<Rightarrow> nat \<Rightarrow> nat store_op" where
  "delete_by_user_id_except u keep = delete_rows (\<lambda>r. row_user r = u \<and> sid r \<noteq> keep)"

text \<open>
  \<open>create\<close>: prune, ignoring the outcome, then draw ids until one is free. The loop need not end, so it
  is a partial function; \<open>src\<close> is the stream of ids drawn.
\<close>

partial_function (option) free_id :: "(nat \<Rightarrow> nat) \<Rightarrow> srecord \<Rightarrow> store \<Rightarrow> ((store_error + srecord) \<times> store) option" where
  "free_id src r s = (case id_exists (rec_id r) s of
     (Inl e, s1) \<Rightarrow> Some (Inl e, s1)
   | (Inr taken, s1) \<Rightarrow>
       if \<not> taken then Some (Inr r, s1)
       else free_id src (r\<lparr>rec_id := src (drawn s1)\<rparr>) (s1\<lparr>drawn := drawn s1 + 1\<rparr>))"

declare free_id.simps [code]

definition create_session :: "codec \<Rightarrow> (nat \<Rightarrow> nat) \<Rightarrow> srecord \<Rightarrow> store \<Rightarrow> ((store_error + srecord) \<times> store) option" where
  "create_session C src r s =
     (case free_id src r (snd (delete_expired_sessions s)) of
        None \<Rightarrow> None
      | Some (Inl e, s1) \<Rightarrow> Some (Inl e, s1)
      | Some (Inr r', s1) \<Rightarrow> (case upsert C r' s1 of
          (Inl e, s2) \<Rightarrow> Some (Inl e, s2) | (Inr _, s2) \<Rightarrow> Some (Inr r', s2)))"

definition save :: "codec \<Rightarrow> srecord \<Rightarrow> unit store_op" where
  "save C r = upsert C r"

definition load :: "codec \<Rightarrow> nat \<Rightarrow> srecord option store_op" where
  "load C i s =
     (case statement (\<lambda>s. (find (\<lambda>r. sid r = i \<and> store_now s < expiry_utc r) (session_rows s), s)) s of
        (Inl e, s1) \<Rightarrow> (Inl e, s1)
      | (Inr None, s1) \<Rightarrow> (Inr None, s1)
      | (Inr (Some row), s1) \<Rightarrow> (case from_json C (record_text row) of
          None \<Rightarrow> (Inl Decode, s1) | Some r \<Rightarrow> (Inr (Some r), s1)))"

definition delete_session :: "nat \<Rightarrow> unit store_op" where
  "delete_session i s = (case delete_rows (\<lambda>r. sid r = i) s of (Inl e, s1) \<Rightarrow> (Inl e, s1) | (Inr _, s1) \<Rightarrow> (Inr (), s1))"

section \<open>Columns agree with records\<close>

definition row_ok :: "codec \<Rightarrow> session_row \<Rightarrow> bool" where
  "row_ok C row \<longleftrightarrow> (\<exists>r. from_json C (record_text row) = Some r \<and> rec_id r = sid row \<and>
     expiry_utc row = unix_timestamp r \<and> row_user row = mirrored_user_id r)"

definition store_ok :: "codec \<Rightarrow> store \<Rightarrow> bool" where
  "store_ok C s \<longleftrightarrow> distinct (map sid (session_rows s)) \<and> (\<forall>row\<in>set (session_rows s). row_ok C row)"

lemma statement_cases:
  assumes "statement f s = (r, s')"
  obtains (fault) bs where "r = Inl Backend" and "s' = s\<lparr>store_faults := bs\<rparr>"
  | (ran) x bs where "r = Inr x" and "f (s\<lparr>store_faults := bs\<rparr>) = (x, s')"
proof (cases "store_faults s")
  case Nil
  have "s\<lparr>store_faults := []\<rparr> = s" using Nil by (cases s) simp
  then have "f (s\<lparr>store_faults := []\<rparr>) = f s" by (rule arg_cong)
  with Nil have "f (s\<lparr>store_faults := []\<rparr>) = (fst (f s), s')" "r = Inr (fst (f s))"
    using assms by (auto simp: statement_def split: prod.splits)
  then show thesis by (intro ran)
next
  case (Cons b bs)
  then show thesis using assms
    by (cases b) (auto simp: statement_def Let_def split: prod.splits intro: fault ran)
qed

lemma put_row_sids: "distinct (map sid rs) \<Longrightarrow> distinct (map sid (put_row row rs))"
proof -
  have "map sid (map (\<lambda>r. if sid r = sid row then row else r) rs) = map sid rs"
    by (induction rs) auto
  then show "distinct (map sid rs) \<Longrightarrow> ?thesis" by (auto simp: put_row_def simp del: map_map)
qed

lemma set_put_row: "r \<in> set (put_row row rs) \<Longrightarrow> r = row \<or> r \<in> set rs"
  by (auto simp: put_row_def split: if_splits)

lemma find_put_row: "find (\<lambda>r. sid r = i) (put_row row rs) =
    (if i = sid row then Some row else find (\<lambda>r. sid r = i) rs)"
proof -
  have a: "find (\<lambda>r. sid r = i) (map (\<lambda>r. if sid r = sid row then row else r) rs) =
      (if i = sid row \<and> i \<in> sid ` set rs then Some row else find (\<lambda>r. sid r = i) rs)" for rs
    by (induction rs) auto
  have b: "i \<notin> sid ` set rs \<Longrightarrow> find (\<lambda>r. sid r = i) (rs @ [row]) =
      (if i = sid row then Some row else None)" for rs
    by (induction rs) auto
  have c: "find (\<lambda>r. sid r = i) (rs @ [row]) =
      (if i = sid row then Some row else find (\<lambda>r. sid r = i) rs)" if "sid row \<notin> sid ` set rs" for rs
    using that by (induction rs) auto
  show ?thesis
    using a [of rs] c [of rs] by (auto simp: put_row_def)
qed

lemma find_filter_sid:
  "find (\<lambda>r. sid r = i) (filter p rs) = (case find (\<lambda>r. sid r = i) rs of
     None \<Rightarrow> None | Some r \<Rightarrow> if p r then Some r else None)"
  if "distinct (map sid rs)"
  using that
proof (induction rs)
  case (Cons x rs)
  have "find (\<lambda>r. sid r = i) rs = None" if "sid x = i"
    using Cons.prems that by (auto simp: find_None_iff image_def)
  then show ?case using Cons by auto
qed simp

lemma find_sid_and:
  assumes "distinct (map sid rs)"
  shows "find (\<lambda>r. sid r = i \<and> p r) rs = (case find (\<lambda>r. sid r = i) rs of
     None \<Rightarrow> None | Some row \<Rightarrow> if p row then Some row else None)"
  using assms
proof (induction rs)
  case (Cons x rs)
  have "find (\<lambda>r. sid r = i \<and> p r) rs = None" if "sid x = i"
    using Cons.prems that by (auto simp: find_None_iff image_def)
  then show ?case using Cons by auto
qed simp

text \<open>What a deletion and an upsert do to the row of an id.\<close>

lemma delete_rows_InrD:
  assumes "delete_rows p s = (Inr n, s')"
  shows "session_rows s' = filter (\<lambda>r. \<not> p r) (session_rows s) \<and> store_now s' = store_now s"
  using assms unfolding delete_rows_def by (auto elim!: statement_cases)

lemma delete_rows_rows:
  "session_rows (snd (delete_rows p s)) = session_rows s \<or>
   session_rows (snd (delete_rows p s)) = filter (\<lambda>r. \<not> p r) (session_rows s)"
proof -
  obtain r s' where run: "delete_rows p s = (r, s')" by fastforce
  then show ?thesis unfolding delete_rows_def by (auto elim!: statement_cases)
qed

lemma delete_rows_now: "store_now (snd (delete_rows p s)) = store_now s"
proof -
  obtain r s' where run: "delete_rows p s = (r, s')" by fastforce
  then show ?thesis unfolding delete_rows_def by (auto elim!: statement_cases)
qed

lemma upsert_cases:
  assumes "upsert C r s = (x, s')"
  obtains (same) "session_rows s' = session_rows s" and "store_now s' = store_now s" and "x \<noteq> Inr ()"
  | (put) js where "x = Inr ()" and "to_json C r = Some js" and "store_now s' = store_now s"
    and "session_rows s' = put_row \<lparr>sid = rec_id r, record_text = js, expiry_utc = unix_timestamp r,
      row_user = mirrored_user_id r\<rparr> (session_rows s)"
  using assms unfolding upsert_def by (auto split: option.splits elim!: statement_cases)

lemma store_ok_filter: "store_ok C s \<Longrightarrow> session_rows s' = filter p (session_rows s) \<Longrightarrow> store_ok C s'"
  by (auto simp: store_ok_def distinct_map_filter)

lemma store_ok_delete: "store_ok C s \<Longrightarrow> store_ok C (snd (delete_rows p s))"
  using delete_rows_rows [of p s] store_ok_filter [of C s] by (auto simp: store_ok_def)

lemma store_ok_upsert:
  assumes "codec_ok C" and "store_ok C s" and "upsert C r s = (x, s')"
  shows "store_ok C s'"
  using assms(3)
proof (cases rule: upsert_cases)
  case (put js)
  have "row_ok C \<lparr>sid = rec_id r, record_text = js, expiry_utc = unix_timestamp r, row_user = mirrored_user_id r\<rparr>"
    using assms(1) put(2) by (auto simp: codec_ok_def row_ok_def)
  then show ?thesis using assms(2) put(4) by (auto simp: store_ok_def put_row_sids dest!: set_put_row)
qed (use assms(2) in \<open>simp_all add: store_ok_def\<close>)

section \<open>The store as a map of unexpired records\<close>

text \<open>\<open>stored\<close>: the record under an id, expired or not; \<open>live\<close>: what a visitor's cookie can still reach.\<close>

definition stored :: "codec \<Rightarrow> store \<Rightarrow> nat \<Rightarrow> srecord option" where
  "stored C s i = (case row_of i s of None \<Rightarrow> None | Some row \<Rightarrow> from_json C (record_text row))"

definition live :: "codec \<Rightarrow> store \<Rightarrow> nat \<Rightarrow> srecord option" where
  "live C s i = (case stored C s i of None \<Rightarrow> None
     | Some r \<Rightarrow> if store_now s < unix_timestamp r then Some r else None)"

text \<open>A map without the entries that satisfy \<open>q\<close>.\<close>

definition without :: "(nat \<Rightarrow> srecord \<Rightarrow> bool) \<Rightarrow> (nat \<Rightarrow> srecord option) \<Rightarrow> nat \<Rightarrow> srecord option" where
  "without q m i = (case m i of None \<Rightarrow> None | Some r \<Rightarrow> if q i r then None else Some r)"

lemma stored_row:
  assumes "store_ok C s" and "row_of i s = Some row"
  shows "\<exists>r. stored C s i = Some r \<and> rec_id r = i \<and> sid row = i \<and> expiry_utc row = unix_timestamp r \<and>
    row_user row = mirrored_user_id r"
proof -
  have "row \<in> set (session_rows s)" "sid row = i" using assms(2) by (auto simp: row_of_def find_Some_iff)
  then have "row_ok C row" "sid row = i" using assms(1) by (auto simp: store_ok_def)
  then show ?thesis using assms(2) by (auto simp: row_ok_def stored_def)
qed

lemma stored_delete:
  assumes "store_ok C s" and "session_rows s' = filter (\<lambda>row. \<not> p row) (session_rows s)"
    and "\<And>i row r. \<lbrakk>row_of i s = Some row; stored C s i = Some r\<rbrakk> \<Longrightarrow> p row \<longleftrightarrow> q i r"
  shows "stored C s' = without q (stored C s)"
proof
  fix i
  show "stored C s' i = without q (stored C s) i"
  proof (cases "row_of i s")
    case None
    then show ?thesis using assms(1,2)
      by (simp add: stored_def row_of_def find_filter_sid store_ok_def without_def)
  next
    case (Some row)
    then obtain r where "stored C s i = Some r" using stored_row [OF assms(1)] by blast
    then show ?thesis using assms(1,2) assms(3) [OF Some] Some
      by (auto simp: stored_def row_of_def find_filter_sid store_ok_def without_def)
  qed
qed

lemma stored_put:
  assumes "codec_ok C" and "to_json C r = Some js"
    and "session_rows s' = put_row \<lparr>sid = rec_id r, record_text = js, expiry_utc = unix_timestamp r,
      row_user = mirrored_user_id r\<rparr> (session_rows s)"
  shows "stored C s' = (stored C s)(rec_id r := Some r)"
  using assms by (auto simp: stored_def row_of_def find_put_row codec_ok_def)

lemma stored_same: "session_rows s' = session_rows s \<Longrightarrow> stored C s' = stored C s"
  by (rule ext) (simp add: stored_def row_of_def)

lemma live_same: "\<lbrakk>session_rows s' = session_rows s; store_now s' = store_now s\<rbrakk> \<Longrightarrow> live C s' = live C s"
  by (rule ext) (simp add: live_def stored_same [of s' s C] cong: option.case_cong)

lemma delete_rows_live:
  assumes "store_ok C s" and "\<And>i row r. \<lbrakk>row_of i s = Some row; stored C s i = Some r\<rbrakk> \<Longrightarrow> p row \<longleftrightarrow> q i r"
  shows "case delete_rows p s of (Inr _, s') \<Rightarrow> live C s' = without q (live C s) | (Inl _, s') \<Rightarrow> live C s' = live C s"
proof -
  obtain x s' where run: "delete_rows p s = (x, s')" by fastforce
  show ?thesis
  proof (cases x)
    case (Inl e)
    then show ?thesis using run unfolding delete_rows_def
      by (auto elim!: statement_cases intro!: live_same)
  next
    case (Inr n)
    note rs = delete_rows_InrD [OF run [unfolded Inr]]
    then have "stored C s' = without q (stored C s)" using stored_delete [where p = p and q = q, OF assms(1) _ assms(2)] by blast
    then show ?thesis using rs run Inr by (auto simp: live_def without_def split: option.split)
  qed
qed

lemma read_rows:
  assumes "statement (\<lambda>s. (f s, s)) s = (Inr x, s')" and "\<And>bs. f (s\<lparr>store_faults := bs\<rparr>) = f s"
  shows "x = f s \<and> session_rows s' = session_rows s \<and> store_now s' = store_now s"
  using assms(1) by (cases rule: statement_cases) (use assms(2) in auto)

lemma load_result:
  assumes "store_ok C s" and "load C i s = (Inr x, s')"
  shows "x = live C s i \<and> live C s' = live C s"
proof -
  define f :: "store \<Rightarrow> session_row option" where "f = (\<lambda>s. find (\<lambda>r. sid r = i \<and> store_now s < expiry_utc r) (session_rows s))"
  obtain y s1 where y: "statement (\<lambda>s. (f s, s)) s = (Inr y, s1)" and
    x: "(case y of None \<Rightarrow> (Inr None, s1) | Some row \<Rightarrow> (case from_json C (record_text row) of
          None \<Rightarrow> (Inl Decode, s1) | Some r \<Rightarrow> (Inr (Some r), s1))) = (Inr x, s')"
    using assms(2) unfolding load_def f_def
    by (auto split: prod.splits sum.splits option.splits)
  have r: "y = f s" "session_rows s1 = session_rows s" "store_now s1 = store_now s"
    using read_rows [OF y] by (simp_all add: f_def)
  have "s1 = s'" using x by (auto split: option.splits)
  moreover have f: "f s = (case row_of i s of None \<Rightarrow> None
      | Some row \<Rightarrow> if store_now s < expiry_utc row then Some row else None)"
    using assms(1) by (simp add: f_def row_of_def store_ok_def find_sid_and)
  have "x = live C s i"
  proof (cases "row_of i s")
    case None
    then show ?thesis using x r(1) f by (simp add: live_def stored_def)
  next
    case (Some row)
    then obtain q where "stored C s i = Some q" "expiry_utc row = unix_timestamp q"
      using stored_row [OF assms(1)] by blast
    then show ?thesis using x r(1) f Some by (auto simp: live_def stored_def split: if_splits)
  qed
  ultimately show ?thesis using r(2,3) live_same [of s' s C] by blast
qed

lemma load_error:
  assumes "store_ok C s" and "load C i s = (Inl e, s')"
  shows "e = Backend \<and> live C s' = live C s"
proof -
  define f :: "store \<Rightarrow> session_row option" where "f = (\<lambda>s. find (\<lambda>r. sid r = i \<and> store_now s < expiry_utc r) (session_rows s))"
  obtain y s1 where y: "statement (\<lambda>s. (f s, s)) s = (y, s1)" by fastforce
  show ?thesis
  proof (cases y)
    case (Inl e1)
    then have "e1 = e" "s1 = s'" using assms(2) y unfolding load_def f_def by auto
    with y Inl show ?thesis by (auto elim!: statement_cases intro!: live_same)
  next
    case (Inr z)
    then have "z = f s" using read_rows [OF y [unfolded Inr]] by (simp add: f_def)
    moreover obtain row where "z = Some row" "from_json C (record_text row) = None"
      using assms(2) y Inr unfolding load_def f_def by (auto split: option.splits)
    ultimately have "find (\<lambda>r. sid r = i \<and> store_now s < expiry_utc r) (session_rows s) = Some row"
      "from_json C (record_text row) = None" by (simp_all add: f_def)
    then have "row \<in> set (session_rows s)" "from_json C (record_text row) = None" by (auto simp: find_Some_iff)
    then show ?thesis using assms(1) by (auto simp: store_ok_def row_ok_def)
  qed
qed

lemma save_live:
  assumes "codec_ok C" and "save C r s = (x, s')"
  shows "live C s' = (if x = Inr () then (live C s)(rec_id r := if store_now s < unix_timestamp r then Some r else None)
    else live C s)"
  using assms(2) unfolding save_def
proof (cases rule: upsert_cases)
  case same
  then show ?thesis using live_same [OF same(1,2)] by simp
next
  case (put js)
  have "live C s' i = ((live C s)(rec_id r := if store_now s < unix_timestamp r then Some r else None)) i" for i
    using stored_put [OF assms(1) put(2,4)] put(3) by (simp add: live_def cong: option.case_cong)
  then have "live C s' = (live C s)(rec_id r := if store_now s < unix_timestamp r then Some r else None)" by (rule ext)
  then show ?thesis using put(1) by simp
qed

lemma pruning_invisible:
  assumes "store_ok C s"
  shows "live C (snd (delete_expired_sessions s)) = live C s"
proof -
  have "case delete_expired_sessions s of
         (Inr _, s') \<Rightarrow> live C s' = without (\<lambda>_ r. unix_timestamp r \<le> store_now s) (live C s)
       | (Inl _, s') \<Rightarrow> live C s' = live C s"
    unfolding delete_expired_sessions_def
    by (rule delete_rows_live [OF assms]) (auto dest: stored_row [OF assms])
  moreover have "without (\<lambda>_ r. unix_timestamp r \<le> store_now s) (live C s) = live C s"
    by (rule ext) (auto simp: without_def live_def split: option.split)
  ultimately show ?thesis by (auto split: prod.splits sum.splits)
qed

text \<open>
  Property C22 (refinement): the store is a map from ids to unexpired records, under every fault that can
  hit a statement. Loading reads the map and never fails to decode; saving writes one entry; deleting
  removes one; revoking an operator removes exactly that operator's records (all, or all but the
  spared id); pruning expired rows changes nothing a visitor can see. A failed operation changes nothing.
\<close>

theorem session_store_is_a_map:
  assumes "codec_ok C" and "store_ok C s"
  shows "(case load C i s of (Inr x, s') \<Rightarrow> x = live C s i \<and> live C s' = live C s
       | (Inl e, s') \<Rightarrow> e = Backend \<and> live C s' = live C s) \<and>
    (case save C r s of
         (Inr _, s') \<Rightarrow> live C s' = (live C s)(rec_id r := if store_now s < unix_timestamp r then Some r else None)
       | (Inl _, s') \<Rightarrow> live C s' = live C s) \<and>
    (case delete_session i s of (Inr _, s') \<Rightarrow> live C s' = (live C s)(i := None) | (Inl _, s') \<Rightarrow> live C s' = live C s) \<and>
    (case delete_by_user_id u s of
         (Inr _, s') \<Rightarrow> live C s' = without (\<lambda>_ r. mirrored_user_id r = u) (live C s)
       | (Inl _, s') \<Rightarrow> live C s' = live C s) \<and>
    (case delete_by_user_id_except u i s of
         (Inr _, s') \<Rightarrow> live C s' = without (\<lambda>j r. mirrored_user_id r = u \<and> j \<noteq> i) (live C s)
       | (Inl _, s') \<Rightarrow> live C s' = live C s) \<and>
    live C (snd (delete_expired_sessions s)) = live C s"
proof (intro conjI)
  show "case load C i s of (Inr x, s') \<Rightarrow> x = live C s i \<and> live C s' = live C s
       | (Inl e, s') \<Rightarrow> e = Backend \<and> live C s' = live C s"
    using load_result [OF assms(2), of i] load_error [OF assms(2), of i]
    by (auto split: prod.split sum.split)
  show "case save C r s of
         (Inr _, s') \<Rightarrow> live C s' = (live C s)(rec_id r := if store_now s < unix_timestamp r then Some r else None)
       | (Inl _, s') \<Rightarrow> live C s' = live C s"
    using save_live [OF assms(1), of r s] by (auto split: prod.split sum.split)
  have "without (\<lambda>j _. j = i) m = m(i := None)" for m
    by (rule ext) (auto simp: without_def split: option.split)
  moreover have "case delete_rows (\<lambda>r. sid r = i) s of (Inr _, s') \<Rightarrow> live C s' = without (\<lambda>j _. j = i) (live C s)
      | (Inl _, s') \<Rightarrow> live C s' = live C s"
    by (rule delete_rows_live [OF assms(2)]) (auto dest: stored_row [OF assms(2)])
  ultimately show "case delete_session i s of (Inr _, s') \<Rightarrow> live C s' = (live C s)(i := None) | (Inl _, s') \<Rightarrow> live C s' = live C s"
    by (auto simp: delete_session_def split: prod.splits sum.splits)
  show "case delete_by_user_id u s of
         (Inr _, s') \<Rightarrow> live C s' = without (\<lambda>_ r. mirrored_user_id r = u) (live C s)
       | (Inl _, s') \<Rightarrow> live C s' = live C s"
    unfolding delete_by_user_id_def by (rule delete_rows_live [OF assms(2)]) (auto dest: stored_row [OF assms(2)])
  show "case delete_by_user_id_except u i s of
         (Inr _, s') \<Rightarrow> live C s' = without (\<lambda>j r. mirrored_user_id r = u \<and> j \<noteq> i) (live C s)
       | (Inl _, s') \<Rightarrow> live C s' = live C s"
    unfolding delete_by_user_id_except_def
    by (rule delete_rows_live [OF assms(2)]) (auto dest: stored_row [OF assms(2)])
  show "live C (snd (delete_expired_sessions s)) = live C s" by (rule pruning_invisible [OF assms(2)])
qed

section \<open>A concrete store\<close>

fun sample_to_json :: "srecord \<Rightarrow> ustr option" where
  "sample_to_json r = (case rec_data r of
     [(k, Number n)] \<Rightarrow> if k = USER_ID_FIELD \<and> 0 \<le> n \<and> 0 \<le> expiry_ns r
       then Some [rec_id r, nat (expiry_ns r), nat n] else None
   | _ \<Rightarrow> None)"

fun sample_from_json :: "ustr \<Rightarrow> srecord option" where
  "sample_from_json [i, e, n] = Some \<lparr>rec_id = i, rec_data = [(USER_ID_FIELD, Number (int n))], expiry_ns = int e\<rparr>"
| "sample_from_json _ = None"

definition sample_codec :: codec where
  "sample_codec = \<lparr>to_json = sample_to_json, from_json = sample_from_json\<rparr>"

lemma sample_codec_ok: "codec_ok sample_codec"
  by (auto simp: codec_ok_def sample_codec_def split: list.splits prod.splits session_value.splits if_splits)

definition user_session :: "nat \<Rightarrow> int \<Rightarrow> srecord" where
  "user_session i u = \<lparr>rec_id = i, rec_data = [(USER_ID_FIELD, Number u)], expiry_ns = 5000000000\<rparr>"

definition session_row_for :: "nat \<Rightarrow> nat \<Rightarrow> session_row" where
  "session_row_for i u = \<lparr>sid = i, record_text = [i, 5000000000, u], expiry_utc = 5, row_user = int u\<rparr>"

definition sample_store :: store where
  "sample_store = \<lparr>session_rows = [session_row_for 1 7, session_row_for 2 8, session_row_for 3 7],
     store_now = 0, store_faults = [], drawn = 0\<rparr>"

lemma sample_store_ok: "store_ok sample_codec sample_store"
  by (simp add: store_ok_def sample_store_def session_row_for_def row_ok_def sample_codec_def unix_timestamp_def
      mirrored_user_id_def in_i64_def i64_min_def i64_max_def)

theorem session_store_is_a_map_witness:
  "live sample_codec (snd (delete_by_user_id 7 sample_store)) 1 = None \<and>
   live sample_codec (snd (delete_by_user_id 7 sample_store)) 2 = Some (user_session 2 8) \<and>
   fst (delete_by_user_id 7 sample_store) = Inr 2"
proof -
  have n: "fst (delete_by_user_id 7 sample_store) = Inr 2" by code_simp
  then obtain s' where run: "delete_by_user_id 7 sample_store = (Inr 2, s')"
    by (cases "delete_by_user_id 7 sample_store") auto
  have "live sample_codec s' = without (\<lambda>_ r. mirrored_user_id r = 7) (live sample_codec sample_store)"
    using session_store_is_a_map [OF sample_codec_ok sample_store_ok, where u = 7] run by auto
  moreover have "live sample_codec sample_store 1 = Some (user_session 1 7)"
    "live sample_codec sample_store 2 = Some (user_session 2 8)"
    "mirrored_user_id (user_session 1 7) = 7" "mirrored_user_id (user_session 2 8) = 8" by code_simp+
  ultimately show ?thesis using run by (simp add: without_def)
qed

section \<open>Creating a session\<close>

lemma id_exists_result:
  assumes "id_exists i s = (x, s')"
  shows "session_rows s' = session_rows s \<and> store_now s' = store_now s \<and> drawn s' = drawn s \<and>
    (x = Inl Backend \<or> x = Inr (row_of i s \<noteq> None))"
  using assms unfolding id_exists_def by (cases rule: statement_cases) (auto simp: row_of_def)

lemma row_of_None: "row_of i s = None \<longleftrightarrow> i \<notin> sid ` set (session_rows s)"
  by (auto simp: row_of_def find_None_iff image_def)

text \<open>What the id search answers, when it answers: the rows are as before and the id is free.\<close>

definition id_found :: "srecord \<Rightarrow> store \<Rightarrow> ((store_error + srecord) \<times> store) option \<Rightarrow> bool" where
  "id_found r s res \<longleftrightarrow> (\<exists>x s'. res = Some (x, s') \<and> session_rows s' = session_rows s \<and> store_now s' = store_now s \<and>
     (case x of Inl e \<Rightarrow> True | Inr r' \<Rightarrow> row_of (rec_id r') s = None \<and> (\<exists>i. r' = r\<lparr>rec_id := i\<rparr>)))"

lemma id_found_mono:
  assumes "id_found (r\<lparr>rec_id := i\<rparr>) s1 res" and "session_rows s1 = session_rows s" and "store_now s1 = store_now s"
  shows "id_found r s res"
proof -
  have "row_of j s1 = row_of j s" for j by (simp add: row_of_def assms(2))
  moreover obtain x s' where "res = Some (x, s')" "session_rows s' = session_rows s1" "store_now s' = store_now s1"
      "case x of Inl e \<Rightarrow> True | Inr r' \<Rightarrow> row_of (rec_id r') s1 = None \<and> (\<exists>j. r' = r\<lparr>rec_id := i\<rparr>\<lparr>rec_id := j\<rparr>)"
    using assms(1) by (auto simp: id_found_def)
  ultimately show ?thesis
    using assms(2,3) unfolding id_found_def by (intro exI [of _ x] exI [of _ s']) (auto split: sum.splits)
qed

lemma free_id_free: "row_of (rec_id r) s = None \<Longrightarrow> id_found r s (free_id src r s)"
proof -
  assume free: "row_of (rec_id r) s = None"
  obtain x s1 where e: "id_exists (rec_id r) s = (x, s1)" by fastforce
  have "r = r\<lparr>rec_id := rec_id r\<rparr>" by simp
  then show ?thesis
    using id_exists_result [OF e] free unfolding free_id.simps [of src r s] e id_found_def
    by (auto intro!: exI [of _ "rec_id r"])
qed

lemma free_id_found:
  "src (drawn s + k) \<notin> sid ` set (session_rows s) \<Longrightarrow> id_found r s (free_id src r s)"
proof (induction k arbitrary: r s)
  case (0 r s)
  obtain x s1 where e: "id_exists (rec_id r) s = (x, s1)" by fastforce
  note r1 = id_exists_result [OF e]
  let ?s2 = "s1\<lparr>drawn := drawn s1 + 1\<rparr>"
  have "row_of (rec_id (r\<lparr>rec_id := src (drawn s1)\<rparr>)) ?s2 = None"
    using 0 r1 by (simp add: row_of_None)
  from id_found_mono [OF free_id_free [OF this]] have next': "id_found r s (free_id src (r\<lparr>rec_id := src (drawn s1)\<rparr>) ?s2)"
    using r1 by simp
  show ?case
  proof (cases "row_of (rec_id r) s")
    case None
    then show ?thesis by (rule free_id_free)
  next
    case (Some row)
    then show ?thesis using r1 next' unfolding free_id.simps [of src r s] e by (auto simp: id_found_def)
  qed
next
  case (Suc k r s)
  obtain x s1 where e: "id_exists (rec_id r) s = (x, s1)" by fastforce
  note r1 = id_exists_result [OF e]
  let ?s2 = "s1\<lparr>drawn := drawn s1 + 1\<rparr>"
  have "src (drawn ?s2 + k) \<notin> sid ` set (session_rows ?s2)" using Suc.prems r1 by simp
  from id_found_mono [OF Suc.IH [OF this]] have next': "id_found r s (free_id src (r\<lparr>rec_id := src (drawn s1)\<rparr>) ?s2)"
    using r1 by simp
  show ?case
  proof (cases "row_of (rec_id r) s")
    case None
    then show ?thesis by (rule free_id_free)
  next
    case (Some row)
    then show ?thesis using r1 next' unfolding free_id.simps [of src r s] e by (auto simp: id_found_def)
  qed
qed



section \<open>Revocation\<close>

text \<open>
  What revocation relies on, for any table of records: a step leaves a record that was there or one it
  writes itself.
\<close>

locale record_table =
  fixes stored_in :: "'s \<Rightarrow> 'i \<Rightarrow> 'r option" and step :: "'o \<Rightarrow> 's \<Rightarrow> 's" and ok :: "'s \<Rightarrow> bool"
    and writes :: "'o \<Rightarrow> 'r \<Rightarrow> bool"
  assumes step_ok: "ok s \<Longrightarrow> ok (step c s)"
    and step_stored: "\<lbrakk>ok s; stored_in (step c s) i = Some r\<rbrakk> \<Longrightarrow> stored_in s i = Some r \<or> writes c r"
begin

lemma run_ok: "ok s \<Longrightarrow> ok (fold step cs s)"
  by (induction cs arbitrary: s) (auto intro: step_ok)

lemma run_keeps:
  assumes "ok s" and "\<And>i r. stored_in s i = Some r \<Longrightarrow> P r" and "\<And>c r. \<lbrakk>c \<in> set cs; writes c r\<rbrakk> \<Longrightarrow> P r"
    and "stored_in (fold step cs s) i = Some r"
  shows "P r"
  using assms
proof (induction cs arbitrary: s)
  case (Cons c cs)
  show ?case
  proof (rule Cons.IH)
    show "ok (step c s)" by (rule step_ok [OF Cons.prems(1)])
    show "P r" if "stored_in (step c s) i = Some r" for i r
      using step_stored [OF Cons.prems(1) that] Cons.prems(2,3) by (metis list.set_intros(1))
  qed (use Cons.prems in auto)
qed auto

end

datatype store_call =
    Call_create srecord | Call_save srecord | Call_load nat | Call_delete nat
  | Call_revoke int | Call_revoke_except int nat | Call_prune | Call_wait int | Call_break "bool list"

fun store_step :: "codec \<Rightarrow> (nat \<Rightarrow> nat) \<Rightarrow> store_call \<Rightarrow> store \<Rightarrow> store" where
  "store_step C src (Call_create r) s = (case create_session C src r s of None \<Rightarrow> s | Some (_, s') \<Rightarrow> s')"
| "store_step C src (Call_save r) s = snd (save C r s)"
| "store_step C src (Call_load i) s = snd (load C i s)"
| "store_step C src (Call_delete i) s = snd (delete_session i s)"
| "store_step C src (Call_revoke u) s = snd (delete_by_user_id u s)"
| "store_step C src (Call_revoke_except u i) s = snd (delete_by_user_id_except u i s)"
| "store_step C src Call_prune s = snd (delete_expired_sessions s)"
| "store_step C src (Call_wait t) s = s\<lparr>store_now := t\<rparr>"
| "store_step C src (Call_break bs) s = s\<lparr>store_faults := bs\<rparr>"

fun call_writes :: "store_call \<Rightarrow> srecord \<Rightarrow> bool" where
  "call_writes (Call_create r) q \<longleftrightarrow> rec_data q = rec_data r"
| "call_writes (Call_save r) q \<longleftrightarrow> q = r"
| "call_writes _ q \<longleftrightarrow> False"

lemma stored_delete_rows: "stored C (snd (delete_rows p s)) i = Some r \<Longrightarrow> store_ok C s \<Longrightarrow> stored C s i = Some r"
proof -
  assume a: "stored C (snd (delete_rows p s)) i = Some r" "store_ok C s"
  then show ?thesis
    using delete_rows_rows [of p s]
    by (auto simp: stored_def row_of_def find_filter_sid store_ok_def split: option.splits if_splits)
qed

lemma stored_upsert: "\<lbrakk>codec_ok C; stored C (snd (upsert C q s)) i = Some r\<rbrakk> \<Longrightarrow> stored C s i = Some r \<or> r = q"
proof -
  assume a: "codec_ok C" "stored C (snd (upsert C q s)) i = Some r"
  obtain x s' where run: "upsert C q s = (x, s')" by fastforce
  then show ?thesis
  proof (cases rule: upsert_cases)
    case same
    then show ?thesis using a(2) run stored_same [OF same(1), of C] by simp
  next
    case (put js)
    then show ?thesis using a(2) run stored_put [OF a(1) put(2,4)] by (auto split: if_splits)
  qed
qed

lemma statement_read_ok: "statement (\<lambda>s. (f s, s)) s = (x, s') \<Longrightarrow> session_rows s' = session_rows s"
  by (cases rule: statement_cases) auto

lemma load_rows: "session_rows (snd (load C i s)) = session_rows s"
proof -
  obtain y s1 where y: "statement (\<lambda>s. (find (\<lambda>r. sid r = i \<and> store_now s < expiry_utc r) (session_rows s), s)) s = (y, s1)"
    by fastforce
  have "session_rows s1 = session_rows s" using y by (cases rule: statement_cases) auto
  then show ?thesis by (auto simp: load_def y split: sum.split option.split)
qed

lemma free_id_SomeD:
  assumes "free_id src r s = Some res"
  shows "session_rows (snd res) = session_rows s \<and> (\<forall>r'. fst res = Inr r' \<longrightarrow> rec_data r' = rec_data r)"
proof (rule free_id.raw_induct [where P = "\<lambda>src r s res. session_rows (snd res) = session_rows s \<and>
    (\<forall>r'. fst res = Inr r' \<longrightarrow> rec_data r' = rec_data r)", OF _ assms])
  fix f :: "(nat \<Rightarrow> nat) \<Rightarrow> srecord \<Rightarrow> store \<Rightarrow> ((store_error + srecord) \<times> store) option"
    and src :: "nat \<Rightarrow> nat" and r :: srecord and s :: store and res
  assume IH: "\<And>src r s res. f src r s = Some res \<Longrightarrow> session_rows (snd res) = session_rows s \<and>
      (\<forall>r'. fst res = Inr r' \<longrightarrow> rec_data r' = rec_data r)"
    and step: "(case id_exists (rec_id r) s of
     (Inl e, s1) \<Rightarrow> Some (Inl e, s1)
   | (Inr taken, s1) \<Rightarrow>
       if \<not> taken then Some (Inr r, s1)
       else f src (r\<lparr>rec_id := src (drawn s1)\<rparr>) (s1\<lparr>drawn := drawn s1 + 1\<rparr>)) = Some res"
  obtain x s1 where e: "id_exists (rec_id r) s = (x, s1)" by fastforce
  note r1 = id_exists_result [OF e]
  show "session_rows (snd res) = session_rows s \<and> (\<forall>r'. fst res = Inr r' \<longrightarrow> rec_data r' = rec_data r)"
    using step r1 unfolding e by (auto split: sum.splits if_splits dest!: IH)
qed

lemma store_ok_rows: "session_rows s' = session_rows s \<Longrightarrow> store_ok C s' \<longleftrightarrow> store_ok C s"
  by (simp add: store_ok_def)

lemma create_session_cases:
  assumes "create_session C src r s = Some (x, s')"
  obtains (nothing) "session_rows s' = session_rows (snd (delete_expired_sessions s))"
  | (wrote) r' s1 where "session_rows s1 = session_rows (snd (delete_expired_sessions s))"
    and "rec_data r' = rec_data r" and "s' = snd (upsert C r' s1)"
proof -
  obtain y s1 where f: "free_id src r (snd (delete_expired_sessions s)) = Some (y, s1)"
    using assms by (auto simp: create_session_def split: option.splits)
  note same = free_id_SomeD [OF f]
  show thesis
  proof (cases y)
    case (Inl e)
    then have "s' = s1" using assms f by (simp add: create_session_def)
    then have "session_rows s' = session_rows (snd (delete_expired_sessions s))" using same by simp
    then show thesis by (rule nothing)
  next
    case (Inr r')
    then show thesis using assms f same wrote [of s1 r'] by (auto simp: create_session_def split: prod.splits sum.splits)
  qed
qed

lemma store_step_ok: "\<lbrakk>codec_ok C; store_ok C s\<rbrakk> \<Longrightarrow> store_ok C (store_step C src c s)"
proof (induction c)
  case (Call_create r)
  show ?case
  proof (cases "create_session C src r s")
    case (Some res)
    obtain x s' where res: "create_session C src r s = Some (x, s')" using Some by (cases res) simp
    have pruned: "store_ok C (snd (delete_expired_sessions s))"
      using store_ok_delete [OF Call_create(2)] by (simp add: delete_expired_sessions_def)
    have "store_ok C s'" using res
    proof (cases rule: create_session_cases)
      case nothing
      then show ?thesis using pruned store_ok_rows [OF nothing, where C = C] by blast
    next
      case (wrote r' s1)
      have "store_ok C s1" using pruned store_ok_rows [OF wrote(1), where C = C] by blast
      then show ?thesis
        using store_ok_upsert [OF Call_create(1), of s1 r' "fst (upsert C r' s1)" s'] wrote(3) by simp
    qed
    then show ?thesis by (simp add: res)
  qed (use Call_create in simp)
next
  case (Call_save r)
  then show ?case using store_ok_upsert [of C s r "fst (upsert C r s)" "snd (upsert C r s)"] by (simp add: save_def)
next
  case (Call_load i)
  then show ?case using store_ok_rows [OF load_rows] by simp
next
  case (Call_delete i)
  then show ?case using store_ok_delete [where p = "\<lambda>r. sid r = i" and C = C and s = s]
    by (auto simp: delete_session_def split: prod.splits sum.splits)
qed (simp_all add: store_ok_delete delete_by_user_id_def delete_by_user_id_except_def delete_expired_sessions_def, simp_all add: store_ok_def)

lemma store_step_stored:
  "\<lbrakk>codec_ok C; store_ok C s; stored C (store_step C src c s) i = Some r\<rbrakk> \<Longrightarrow> stored C s i = Some r \<or> call_writes c r"
proof (induction c)
  case (Call_create q)
  show ?case
  proof (cases "create_session C src q s")
    case (Some res)
    obtain x s' where res: "create_session C src q s = Some (x, s')" using Some by (cases res) simp
    then have here: "stored C s' i = Some r" using Call_create(3) by simp
    have old: "stored C (snd (delete_expired_sessions s)) i = Some r \<Longrightarrow> stored C s i = Some r"
      using stored_delete_rows [OF _ Call_create(2)] by (simp add: delete_expired_sessions_def)
    show ?thesis using res
    proof (cases rule: create_session_cases)
      case nothing
      then have "stored C s' = stored C (snd (delete_expired_sessions s))" by (rule stored_same)
      with here old show ?thesis by metis
    next
      case (wrote r' s1)
      have "stored C s1 i = Some r \<or> r = r'"
        using here stored_upsert [OF Call_create(1), where q = r' and s = s1] unfolding wrote(3) by blast
      then show ?thesis using old wrote(2) unfolding stored_same [OF wrote(1)] by auto
    qed
  qed (use Call_create in simp)
next
  case (Call_save q)
  then show ?case using stored_upsert [where C = C and q = q and s = s] by (simp add: save_def)
next
  case (Call_load j)
  then show ?case using stored_same [OF load_rows, of C] by simp
next
  case (Call_delete j)
  have "snd (delete_session j s) = snd (delete_rows (\<lambda>r. sid r = j) s)"
    by (simp add: delete_session_def split: prod.split sum.split)
  then show ?case using Call_delete stored_delete_rows [where p = "\<lambda>r. sid r = j" and C = C and s = s] by simp
qed (auto simp: delete_by_user_id_def delete_by_user_id_except_def delete_expired_sessions_def
    dest: stored_delete_rows, (simp add: stored_def row_of_def)+)

interpretation st: record_table "stored C" "store_step C src" "\<lambda>s. codec_ok C \<and> store_ok C s" call_writes for C src
  by unfold_locales (auto intro: store_step_ok dest: store_step_stored)

lemma delete_rows_gone:
  assumes "store_ok C s" and "delete_by_user_id u s = (Inr n, s')" and "stored C s' i = Some r"
  shows "mirrored_user_id r \<noteq> u"
proof -
  note rs = delete_rows_InrD [OF assms(2) [unfolded delete_by_user_id_def]]
  have "stored C s' = without (\<lambda>_ r. mirrored_user_id r = u) (stored C s)"
    by (rule stored_delete [OF assms(1)]) (auto simp: rs dest: stored_row [OF assms(1)])
  then show ?thesis using assms(3) by (auto simp: without_def split: option.splits if_splits)
qed

text \<open>
  Property C15 (safety): revocation is complete. Once the sessions of an operator have been deleted, no
  sequence of store calls, clock changes and failures makes one of them visible again, unless a call
  writes a record that names the operator anew.
\<close>

theorem revocation_is_complete:
  assumes "codec_ok C" and "store_ok C s" and "delete_by_user_id u s = (Inr n, s1)"
    and "\<forall>c\<in>set cs. \<forall>r. call_writes c r \<longrightarrow> mirrored_user_id r \<noteq> u"
    and "load C i (fold (store_step C src) cs s1) = (Inr (Some r), s2)"
  shows "mirrored_user_id r \<noteq> u"
proof -
  have ok: "codec_ok C \<and> store_ok C s1"
    using assms(1) store_ok_delete [OF assms(2), of "\<lambda>row. row_user row = u"] assms(3) by (simp add: delete_by_user_id_def)
  have "Some r = live C (fold (store_step C src) cs s1) i"
    using load_result [OF _ assms(5)] st.run_ok [OF ok, of src cs] by blast
  then have "stored C (fold (store_step C src) cs s1) i = Some r"
    by (auto simp: live_def split: option.splits if_splits)
  then show ?thesis
    using st.run_keeps [OF ok, where P = "\<lambda>r. mirrored_user_id r \<noteq> u"] delete_rows_gone [OF assms(2,3)] assms(4) by blast
qed

definition after_revocation :: "store_call list" where
  "after_revocation = [Call_save (user_session 2 8), Call_wait 1, Call_break [True], Call_load 1, Call_prune]"

theorem revocation_is_complete_witness:
  "\<exists>s1 s2. delete_by_user_id 7 sample_store = (Inr 2, s1) \<and>
     load sample_codec 2 (fold (store_step sample_codec (\<lambda>k. k)) after_revocation s1) = (Inr (Some (user_session 2 8)), s2) \<and>
     mirrored_user_id (user_session 2 8) \<noteq> 7"
proof -
  have "fst (delete_by_user_id 7 sample_store) = Inr 2"
    "fst (load sample_codec 2 (fold (store_step sample_codec (\<lambda>k. k)) after_revocation (snd (delete_by_user_id 7 sample_store)))) =
       Inr (Some (user_session 2 8))" by code_simp+
  then obtain s1 s2 where runs: "delete_by_user_id 7 sample_store = (Inr 2, s1)"
    "load sample_codec 2 (fold (store_step sample_codec (\<lambda>k. k)) after_revocation s1) = (Inr (Some (user_session 2 8)), s2)"
    by (metis prod.collapse snd_conv)
  have "mirrored_user_id (user_session 2 8) = 8" by code_simp
  then have "\<forall>c\<in>set after_revocation. \<forall>r. call_writes c r \<longrightarrow> mirrored_user_id r \<noteq> 7"
    by (auto simp: after_revocation_def)
  from revocation_is_complete [OF sample_codec_ok sample_store_ok runs(1) this runs(2)] show ?thesis using runs by blast
qed

end
