(* ===== verification/UpdateStatus.thy ===== *)
theory UpdateStatus
  imports Prelude
begin

text \<open>
  The status of the source updater (\<open>src/services/source_update.rs\<close>): its phases, its bounded log, and
  the writes that the update task makes under the lock of the status, each of them one step.
\<close>

section \<open>Status\<close>

datatype update_phase =
    Idle | Checking | Downloading | Extracting | Compiling | Installing | Restarting | Complete | Failed_update

record update_status =
  phase :: update_phase
  current_version :: ustr
  target_version :: "ustr option"
  update_log :: ustr
  in_progress :: bool
  redirect_after_seconds :: "nat option"

definition MAX_LOG_BYTES :: nat where "MAX_LOG_BYTES = 64 * 1024"

definition UNSIGNED_SOURCE_UPDATE_DISABLED_MESSAGE :: ustr where
  "UNSIGNED_SOURCE_UPDATE_DISABLED_MESSAGE = lit ''Unsigned in-application source updates are disabled. Deploy signed releases externally, or set KRAKEN_UI_ALLOW_UNSIGNED_SOURCE_UPDATE=1 only after an external process verifies the release provenance.''"

definition CARGO_PKG_VERSION :: ustr where "CARGO_PKG_VERSION = lit ''0.20.2''"

definition unsigned_source_update_opt_in :: "ustr option \<Rightarrow> bool" where
  "unsigned_source_update_opt_in v =
     (case v of None \<Rightarrow> False
      | Some s \<Rightarrow> to_ascii_lowercase (trim s) \<in> {lit ''1'', lit ''true'', lit ''yes''})"

definition initial_status :: "bool \<Rightarrow> update_status" where
  "initial_status allowed = \<lparr>phase = Idle, current_version = CARGO_PKG_VERSION, target_version = None,
     update_log = (if allowed then lit ''Ready to check the latest stable Kraken UI release.'' @ [10]
             else UNSIGNED_SOURCE_UPDATE_DISABLED_MESSAGE @ [10]),
     in_progress = False, redirect_after_seconds = None\<rparr>"

section \<open>The log\<close>

text \<open>\<open>char_indices().find_map(index >= keep_from)\<close>: the text from the first character that starts at or
  after that many bytes; without one, the code would cut at \<open>keep_from\<close>, the end.\<close>

fun drop_bytes :: "nat \<Rightarrow> ustr \<Rightarrow> ustr" where
  "drop_bytes k [] = []"
| "drop_bytes k (c # s) = (if k = 0 then c # s else drop_bytes (k - utf8_width c) s)"

definition end_line :: "ustr \<Rightarrow> ustr" where
  "end_line s = (if s \<noteq> [] \<and> last s = 10 then s else s @ [10])"

definition TRUNCATED :: ustr where
  "TRUNCATED = lit ''[earlier update output truncated]'' @ [10]"

definition append_log :: "ustr \<Rightarrow> ustr \<Rightarrow> ustr" where
  "append_log l message =
     (let full = end_line ((if l = [] then [] else end_line l) @ message) in
      if MAX_LOG_BYTES < utf8_len full then TRUNCATED @ drop_bytes (utf8_len full - MAX_LOG_BYTES) full else full)"

section \<open>Writes to the status\<close>

definition reset_for_update :: "update_status \<Rightarrow> update_status" where
  "reset_for_update s = s\<lparr>phase := Checking, target_version := None, update_log := [], in_progress := True,
     redirect_after_seconds := None\<rparr>"

definition set_phase :: "update_phase \<Rightarrow> ustr \<Rightarrow> update_status \<Rightarrow> update_status" where
  "set_phase p message s = s\<lparr>phase := p, update_log := append_log (update_log s) message\<rparr>"

definition set_target :: "ustr \<Rightarrow> update_status \<Rightarrow> update_status" where
  "set_target v s = s\<lparr>target_version := Some v\<rparr>"

definition append_output :: "ustr \<Rightarrow> update_status \<Rightarrow> update_status" where
  "append_output out s = (if trim out = [] then s else s\<lparr>update_log := append_log (update_log s) (trim out)\<rparr>)"

definition append_command_output :: "ustr \<Rightarrow> ustr \<Rightarrow> update_status \<Rightarrow> update_status" where
  "append_command_output stdout stderr s = append_output stderr (append_output stdout s)"

definition finish_complete :: "ustr \<Rightarrow> update_status \<Rightarrow> update_status" where
  "finish_complete message s = s\<lparr>phase := Complete, update_log := append_log (update_log s) message, in_progress := False\<rparr>"

definition finish_failed :: "ustr \<Rightarrow> update_status \<Rightarrow> update_status" where
  "finish_failed message s = s\<lparr>phase := Failed_update, update_log := append_log (update_log s) message, in_progress := False\<rparr>"

definition set_restarting :: "ustr \<Rightarrow> update_status \<Rightarrow> update_status" where
  "set_restarting v s = s\<lparr>phase := Restarting,
     update_log := append_log (update_log s) (lit ''Kraken UI '' @ v @ lit '' installed successfully. Restarting the web UI now. Keep this page open; it will redirect to login in two minutes.''),
     in_progress := True, redirect_after_seconds := Some 120\<rparr>"

text \<open>The writes as data: what the update task does to the status, one after another.\<close>

datatype status_write =
    Reset
  | Phase update_phase ustr
  | Target ustr
  | Command_output ustr ustr
  | Finish_complete ustr
  | Finish_failed ustr
  | Set_restarting ustr

fun write_status :: "status_write \<Rightarrow> update_status \<Rightarrow> update_status" where
  "write_status Reset s = reset_for_update s"
| "write_status (Phase p m) s = set_phase p m s"
| "write_status (Target v) s = set_target v s"
| "write_status (Command_output out err) s = append_command_output out err s"
| "write_status (Finish_complete m) s = finish_complete m s"
| "write_status (Finish_failed m) s = finish_failed m s"
| "write_status (Set_restarting v) s = set_restarting v s"

definition write_all :: "status_write list \<Rightarrow> update_status \<Rightarrow> update_status" where
  "write_all ws s = fold write_status ws s"

lemma write_all_Nil [simp]: "write_all [] s = s"
  by (simp add: write_all_def)

lemma write_all_Cons [simp]: "write_all (w # ws) s = write_all ws (write_status w s)"
  by (simp add: write_all_def)

lemma write_all_append [simp]: "write_all (ws @ vs) s = write_all vs (write_all ws s)"
  by (simp add: write_all_def)

section \<open>The log is bounded and keeps the newest text\<close>

lemma drop_bytes_suffix: "\<exists>a. s = a @ drop_bytes k s"
proof (induction k s rule: drop_bytes.induct)
  case (2 k c s)
  show ?case
  proof (cases "k = 0")
    case False
    then obtain a where "s = a @ drop_bytes (k - utf8_width c) s" using 2 by blast
    then show ?thesis using False by (intro exI [of _ "c # a"]) simp
  qed simp
qed simp

lemma drop_bytes_length:
  "k \<le> utf8_len s \<Longrightarrow> utf8_len (drop_bytes k s) \<le> utf8_len s - k \<and> utf8_len s - k \<le> utf8_len (drop_bytes k s) + 3"
proof (induction k s rule: drop_bytes.induct)
  case (2 k c s)
  show ?case
  proof (cases "k \<le> utf8_width c")
    case True
    then have "k - utf8_width c = 0" by simp
    moreover have "drop_bytes 0 s = s" by (cases s) auto
    ultimately show ?thesis using utf8_width_bounds [of c] True by auto
  next
    case False
    then have "k \<noteq> 0" "k - utf8_width c \<le> utf8_len s" using 2(2) by auto
    from 2(1) [OF this] show ?thesis using False by auto
  qed
qed simp

lemma utf8_len_TRUNCATED: "utf8_len TRUNCATED = 34"
  by code_simp

lemma append_log_bound: "utf8_len (append_log l m) \<le> MAX_LOG_BYTES + 34"
proof -
  let ?full = "end_line ((if l = [] then [] else end_line l) @ m)"
  have "utf8_len (drop_bytes (utf8_len ?full - MAX_LOG_BYTES) ?full) \<le> utf8_len ?full - (utf8_len ?full - MAX_LOG_BYTES)"
    using drop_bytes_length [of "utf8_len ?full - MAX_LOG_BYTES" ?full] by simp
  then have "MAX_LOG_BYTES < utf8_len ?full \<Longrightarrow> utf8_len (drop_bytes (utf8_len ?full - MAX_LOG_BYTES) ?full) \<le> MAX_LOG_BYTES"
    by linarith
  then show ?thesis unfolding append_log_def Let_def by (auto simp: utf8_len_TRUNCATED)
qed

text \<open>What a log shows of the texts appended so far: all of it, or the mark and the end of it.\<close>

definition shows_end_of :: "ustr \<Rightarrow> ustr \<Rightarrow> bool" where
  "shows_end_of l full \<longleftrightarrow>
     l = full \<or> (\<exists>a b. full = a @ b \<and> l = TRUNCATED @ b \<and> MAX_LOG_BYTES \<le> utf8_len b + 3)"

lemma append_log_shows: "shows_end_of (append_log l m) (end_line ((if l = [] then [] else end_line l) @ m))"
proof -
  let ?full = "end_line ((if l = [] then [] else end_line l) @ m)"
  let ?k = "utf8_len ?full - MAX_LOG_BYTES"
  show ?thesis
  proof (cases "MAX_LOG_BYTES < utf8_len ?full")
    case True
    obtain a where "?full = a @ drop_bytes ?k ?full" using drop_bytes_suffix by metis
    moreover have "MAX_LOG_BYTES \<le> utf8_len (drop_bytes ?k ?full) + 3"
      using drop_bytes_length [of ?k ?full] True by simp
    moreover have "append_log l m = TRUNCATED @ drop_bytes ?k ?full"
      using True by (simp only: append_log_def Let_def if_True)
    ultimately show ?thesis unfolding shows_end_of_def by blast
  next
    case False
    then show ?thesis by (simp only: append_log_def Let_def if_False shows_end_of_def simp_thms)
  qed
qed

lemma write_status_bound:
  "utf8_len (update_log s) \<le> MAX_LOG_BYTES + 34 \<Longrightarrow> utf8_len (update_log (write_status w s)) \<le> MAX_LOG_BYTES + 34"
  by (cases w) (simp_all add: reset_for_update_def set_phase_def set_target_def append_command_output_def
      append_output_def finish_complete_def finish_failed_def set_restarting_def append_log_bound)

lemma write_all_bound:
  "utf8_len (update_log s) \<le> MAX_LOG_BYTES + 34 \<Longrightarrow> utf8_len (update_log (write_all ws s)) \<le> MAX_LOG_BYTES + 34"
  by (induction ws arbitrary: s) (simp_all add: write_status_bound)

text \<open>The documented limit of 64 KiB is exceeded by the mark: a long message leaves 64 KiB and 34 bytes.\<close>

lemma utf8_len_replicate: "utf8_len (replicate n c) = n * utf8_width c"
  by (induction n) auto

lemma drop_bytes_replicate: "utf8_width c = 1 \<Longrightarrow> k \<le> n \<Longrightarrow> drop_bytes k (replicate n c @ s) = replicate (n - k) c @ s"
proof (induction k arbitrary: n)
  case 0
  then show ?case by (cases "replicate n c @ s") auto
next
  case (Suc k)
  then obtain m where "n = Suc m" by (cases n) auto
  then show ?case using Suc by simp
qed

lemma update_log_exceeds_documented_limit:
  "utf8_len (append_log [] (replicate 70000 120)) = MAX_LOG_BYTES + 34"
proof -
  have full: "end_line (replicate 70000 120) = replicate 70000 120 @ [10]"
    by (simp add: end_line_def)
  have w: "utf8_width 120 = 1" "utf8_width 10 = 1" by code_simp+
  have len: "utf8_len (replicate 70000 120 @ [10]) = 70001"
    by (simp add: utf8_len_replicate w)
  have "drop_bytes (70001 - MAX_LOG_BYTES) (replicate 70000 120 @ [10]) = replicate (70000 - (70001 - MAX_LOG_BYTES)) 120 @ [10]"
    by (rule drop_bytes_replicate [OF w(1)]) (simp add: MAX_LOG_BYTES_def)
  then have "append_log [] (replicate 70000 120) = TRUNCATED @ replicate (70000 - (70001 - MAX_LOG_BYTES)) 120 @ [10]"
    using len by (simp add: append_log_def Let_def full MAX_LOG_BYTES_def del: replicate.simps utf8_len_append)
  then show ?thesis
    by (simp add: utf8_len_replicate w utf8_len_TRUNCATED MAX_LOG_BYTES_def del: replicate.simps)
qed

text \<open>
  The update log never grows beyond 64 KiB and the 34 bytes of the mark that says it
  was cut, whatever and however much is written; and what a message leaves in it is the newest text: all
  of the log before it and the message, or at least the last 64 KiB less three bytes of them. The bound
  is reached: one long message leaves 34 bytes more than the documented limit of 64 KiB.
\<close>

theorem update_log_is_bounded:
  "utf8_len (update_log (write_all ws (initial_status allowed))) \<le> MAX_LOG_BYTES + 34 \<and>
   shows_end_of (update_log (write_status (Phase p m) (write_all ws (initial_status allowed))))
     (end_line ((if update_log (write_all ws (initial_status allowed)) = [] then []
        else end_line (update_log (write_all ws (initial_status allowed)))) @ m)) \<and>
   utf8_len (append_log [] (replicate 70000 120)) = MAX_LOG_BYTES + 34"
proof -
  have "utf8_len (update_log (initial_status allowed)) \<le> MAX_LOG_BYTES + 34"
  proof (cases allowed)
    case True
    have "utf8_len (update_log (initial_status True)) \<le> MAX_LOG_BYTES + 34" by code_simp
    then show ?thesis using True by simp
  next
    case False
    have "utf8_len (update_log (initial_status False)) \<le> MAX_LOG_BYTES + 34" by code_simp
    then show ?thesis using False by simp
  qed
  moreover have "update_log (write_status (Phase p m) s) = append_log (update_log s) m" for s
    by (simp add: set_phase_def)
  ultimately show ?thesis
    by (metis write_all_bound append_log_shows update_log_exceeds_documented_limit)
qed

end
