(* ===== verification/View.thy ===== *)
theory View
  imports UpdateStatus
begin

text \<open>
  What the handlers answer with: the template structs of \<open>src/view/mod.rs\<close> as records, the JSON rows of
  the table endpoints and the response forms. A template record has the fields the handler fills in;
  the CSRF token and the HTML rendering are the crates', so a rendered page is its template record.
\<close>

section \<open>Navigation and shared fields\<close>

definition DASHBOARD :: ustr where "DASHBOARD = lit ''dashboard''"
definition ACL :: ustr where "ACL = lit ''acl''"
definition MONITOR :: ustr where "MONITOR = lit ''monitor''"
definition UPDATES :: ustr where "UPDATES = lit ''updates''"
definition RULE_MANAGEMENT :: ustr where "RULE_MANAGEMENT = lit ''rule_management''"
definition USER_STATUS :: ustr where "USER_STATUS = lit ''user_status''"

text \<open>The fields every console template has.\<close>

record page_frame =
  active_page :: ustr
  show_acl :: bool
  show_rule_management :: bool

record role_option =
  option_value :: ustr
  option_label :: ustr
  option_selected :: bool

section \<open>Templates\<close>

record add_user_template =
  au_frame :: page_frame
  au_roles :: "role_option list"
  au_show_form :: bool
  au_message :: ustr
  au_message_class :: ustr

record delete_user_template =
  du_frame :: page_frame
  du_identity :: ustr
  du_message :: ustr
  du_message_class :: ustr

record edit_user_template =
  eu_frame :: page_frame
  eu_has_user :: bool
  eu_id_user :: int
  eu_username :: ustr
  eu_email :: ustr
  eu_roles :: "role_option list"
  eu_show_form :: bool
  eu_message :: ustr
  eu_message_class :: ustr

record update_password_template =
  up_frame :: page_frame
  up_id_user :: int
  up_username :: ustr
  up_email :: ustr
  up_show_form :: bool
  up_message :: ustr
  up_message_class :: ustr

record mfa_template =
  mt_frame :: page_frame
  mt_enabled :: bool
  mt_remaining :: nat
  mt_show_enroll :: bool
  mt_secret_base32 :: ustr
  mt_otpauth_uri :: ustr
  mt_qr_data_url :: ustr
  mt_show_recovery :: bool
  mt_recovery_codes :: "ustr list"
  mt_download_url :: ustr
  mt_download_name :: ustr
  mt_message :: ustr
  mt_message_class :: ustr

record show_attacks_template =
  sa_frame :: page_frame
  sa_database_available :: bool

record view_waf_request_template =
  vw_attack_id :: int
  vw_title :: ustr
  vw_severity :: ustr
  vw_severity_class :: ustr
  vw_cwe :: ustr
  vw_description :: ustr
  vw_reference_url :: ustr
  vw_occurred_at :: ustr
  vw_rule_match :: ustr
  vw_rule_line_match :: ustr
  vw_client_ip :: ustr
  vw_request_uri :: ustr
  vw_fullpath_evidence :: ustr
  vw_request_payload :: ustr

record cmc_template =
  ct_frame :: page_frame
  ct_configured :: bool

record regex_select_template =
  rs_frame :: page_frame
  rs_configured :: bool
  rs_rule_lists :: "ustr list"

record regex_edit_template =
  re_frame :: page_frame
  re_rule_name :: ustr
  re_editor_mode :: ustr
  re_content :: ustr
  re_loaded :: bool
  re_error_message :: ustr

record update_page_template =
  uk_frame :: page_frame
  uk_current_version :: ustr

datatype view =
    User_table page_frame
  | Dashboard page_frame
  | Add_user add_user_template
  | Delete_user delete_user_template
  | Edit_user edit_user_template
  | Update_password_form update_password_template
  | Mfa_page mfa_template
  | Show_attacks show_attacks_template
  | View_waf_request view_waf_request_template
  | Rule_management_cmc cmc_template
  | Rule_management_regex_select regex_select_template
  | Rule_management_regex_edit regex_edit_template
  | Update_kraken_ui update_page_template

section \<open>JSON rows and responses\<close>

record operator_json =
  oj_id :: int
  oj_username :: ustr
  oj_email :: ustr
  oj_user_type :: ustr
  oj_status :: ustr
  oj_mfa :: ustr
  oj_created_at :: ustr

record attack_json =
  aj_id :: int
  aj_severity :: ustr
  aj_title :: ustr
  aj_client_ip :: ustr
  aj_request_uri :: ustr
  aj_rule_match :: ustr
  aj_occurred_at :: ustr
  aj_country :: ustr

record 'a page_response =
  draw :: nat
  records_total :: nat
  records_filtered :: nat
  page_data :: "'a list"

text \<open>The small pages with only an error message, the first-time answer, and status-only answers.\<close>

datatype page = Login_page | Mfa_challenge | Csrf_error

datatype response =
    Redirect ustr
  | Page page ustr
  | Rendered view
  | Status nat ustr
  | Status_json nat ustr ustr
  | Error_json nat ustr
  | Operators_json "operator_json page_response"
  | Attacks_json nat "attack_json page_response"
  | Cmc_list_json "(ustr \<times> bool) list"
  | Cmc_updated_json "ustr list" "ustr list"
  | Regex_updated_json ustr nat
  | Update_status_json update_status

end
