(* ===== verification/Listing.thy ===== *)
theory Listing
  imports OperatorStore "HOL-Library.Multiset" "HOL-Library.List_Lexorder"
begin

text \<open>
  The paged tables: query parameters of \<open>src/controllers/pagination.rs\<close>, the escaped search pattern of
  \<open>src/security/sanitize.rs\<close> and \<open>src/models/mod.rs\<close> with SQLite's \<open>LIKE\<close>, the operator list of
  \<open>src/models/operator_repository.rs\<close>, and the lemmas every page has in common. The rows of a query are
  in the order of a stable sort; SQLite leaves the order of equal rows open.
\<close>

section \<open>Query parameters\<close>

type_synonym query_map = "ustr \<Rightarrow> ustr option"

definition parse_query_u64 :: "query_map \<Rightarrow> ustr \<Rightarrow> nat \<Rightarrow> nat" where
  "parse_query_u64 q key fallback =
     (case q key of
        None \<Rightarrow> fallback
      | Some v \<Rightarrow> (case parse_uint u64_max (trim v) of None \<Rightarrow> fallback | Some n \<Rightarrow> n))"

definition clamp :: "nat \<Rightarrow> nat \<Rightarrow> nat \<Rightarrow> nat" where
  "clamp lo hi n = min hi (max lo n)"

definition parse_i32 :: "ustr \<Rightarrow> int option" where
  "parse_i32 s = parse_int i32_max s"

section \<open>Search patterns\<close>

fun escape_like :: "ustr \<Rightarrow> ustr" where
  "escape_like [] = []"
| "escape_like (c # s) = (if c = 92 \<or> c = 37 \<or> c = 95 then 92 # c # escape_like s else c # escape_like s)"

definition like_contains :: "ustr \<Rightarrow> ustr" where
  "like_contains search = [37] @ escape_like search @ [37]"

text \<open>
  \<open>x LIKE pattern ESCAPE '\'\<close> of SQLite: \<open>%\<close> is any text, \<open>_\<close> one character, an escaped character
  stands for itself, and letters compare without ASCII case.
\<close>

fun like_match :: "ustr \<Rightarrow> ustr \<Rightarrow> bool" where
  "like_match [] t = (t = [])"
| "like_match (c # p) [] =
     (if c = 37 then like_match p [] else False)"
| "like_match (c # p) (x # t) =
     (if c = 92 then (case p of [] \<Rightarrow> False | d # p' \<Rightarrow> ascii_lower d = ascii_lower x \<and> like_match p' t)
      else if c = 37 then like_match p (x # t) \<or> like_match (c # p) t
      else if c = 95 then like_match p t
      else ascii_lower c = ascii_lower x \<and> like_match p t)"

lemma like_any [simp]: "like_match [37] t"
  by (induction t) auto

lemma like_escaped: "like_match (escape_like s @ [37]) t \<longleftrightarrow>
    (\<exists>u v. t = u @ v \<and> to_ascii_lowercase u = to_ascii_lowercase s)"
proof (induction s arbitrary: t)
  case Nil
  then show ?case by (simp add: to_ascii_lowercase_def)
next
  case (Cons c s)
  show ?case
  proof (cases t)
    case Nil
    then show ?thesis by (simp add: to_ascii_lowercase_def)
  next
    case (Cons x r)
    have "like_match (escape_like (c # s) @ [37]) (x # r) \<longleftrightarrow>
        ascii_lower c = ascii_lower x \<and> like_match (escape_like s @ [37]) r"
      by auto
    also have "\<dots> \<longleftrightarrow> (\<exists>u v. x # r = u @ v \<and> to_ascii_lowercase u = to_ascii_lowercase (c # s))"
      unfolding Cons.IH to_ascii_lowercase_def
      by (auto simp: map_eq_Cons_conv) (metis append_Cons)+
    finally show ?thesis using Cons by simp
  qed
qed

lemma like_anywhere: "like_match (37 # p) t \<longleftrightarrow> (\<exists>u v. t = u @ v \<and> like_match p v)"
proof (induction t)
  case (Cons x t)
  have "like_match (37 # p) (x # t) \<longleftrightarrow> like_match p (x # t) \<or> (\<exists>u v. t = u @ v \<and> like_match p v)"
    using Cons.IH by simp
  then show ?case by (auto simp: Cons_eq_append_conv)
qed simp

text \<open>
  What a search finds. A column matches the pattern built from a search term,
  whatever percent signs, underscores and backslashes the term has, exactly when the term occurs in it,
  letters compared without ASCII case.
\<close>

theorem search_is_substring:
  "like_match (like_contains search) t \<longleftrightarrow> contains (to_ascii_lowercase search) (to_ascii_lowercase t)"
proof -
  have "like_match (like_contains search) t \<longleftrightarrow>
      (\<exists>a u v. t = a @ u @ v \<and> to_ascii_lowercase u = to_ascii_lowercase search)"
    by (auto simp: like_contains_def like_anywhere like_escaped)
  also have "\<dots> \<longleftrightarrow> (\<exists>a u. to_ascii_lowercase t = a @ to_ascii_lowercase search @ u)"
  proof
    assume "\<exists>a u v. t = a @ u @ v \<and> to_ascii_lowercase u = to_ascii_lowercase search"
    then show "\<exists>a u. to_ascii_lowercase t = a @ to_ascii_lowercase search @ u"
      unfolding to_ascii_lowercase_def by (metis map_append)
  next
    assume "\<exists>a u. to_ascii_lowercase t = a @ to_ascii_lowercase search @ u"
    then show "\<exists>a u v. t = a @ u @ v \<and> to_ascii_lowercase u = to_ascii_lowercase search"
      unfolding to_ascii_lowercase_def by (smt (verit) map_eq_append_conv)
  qed
  also have "\<dots> \<longleftrightarrow> contains (to_ascii_lowercase search) (to_ascii_lowercase t)"
    by (simp add: contains_iff)
  finally show ?thesis .
qed

section \<open>Sorted pages\<close>

definition MAX_OFFSET :: nat where "MAX_OFFSET = 100000"

fun insert_by :: "('a \<Rightarrow> 'a \<Rightarrow> bool) \<Rightarrow> 'a \<Rightarrow> 'a list \<Rightarrow> 'a list" where
  "insert_by le x [] = [x]"
| "insert_by le x (y # ys) = (if le x y then x # y # ys else y # insert_by le x ys)"

definition order_by :: "('a \<Rightarrow> 'a \<Rightarrow> bool) \<Rightarrow> 'a list \<Rightarrow> 'a list" where
  "order_by le rs = foldr (insert_by le) rs []"

definition slice :: "nat \<Rightarrow> nat \<Rightarrow> 'a list \<Rightarrow> 'a list" where
  "slice start len rs = take len (drop (min start MAX_OFFSET) rs)"

definition total_order :: "('a \<Rightarrow> 'a \<Rightarrow> bool) \<Rightarrow> bool" where
  "total_order le \<longleftrightarrow> (\<forall>x y. le x y \<or> le y x) \<and> (\<forall>x y z. le x y \<longrightarrow> le y z \<longrightarrow> le x z)"

lemma mset_insert_by [simp]: "mset (insert_by le x ys) = add_mset x (mset ys)"
  by (induction ys) auto

lemma mset_order_by [simp]: "mset (order_by le rs) = mset rs"
  by (induction rs) (auto simp: order_by_def)

lemma set_order_by [simp]: "set (order_by le rs) = set rs" "length (order_by le rs) = length rs"
  using mset_order_by [of le rs] by (metis set_mset_mset, metis size_mset)

lemma sorted_insert_by: "\<lbrakk>total_order le; sorted_wrt le ys\<rbrakk> \<Longrightarrow> sorted_wrt le (insert_by le x ys)"
proof (induction ys)
  case (Cons y ys)
  have "set (insert_by le x ys) = insert x (set ys)"
    by (metis mset_insert_by set_mset_add_mset_insert set_mset_mset)
  then show ?case using Cons unfolding total_order_def by auto
qed simp

lemma sorted_order_by: "total_order le \<Longrightarrow> sorted_wrt le (order_by le rs)"
  by (induction rs) (auto simp: order_by_def sorted_insert_by)

text \<open>Consecutive pages put the listing together again, as far as offsets are honoured.\<close>

lemma pages_concat:
  assumes "n * len \<le> MAX_OFFSET + len"
  shows "concat (map (\<lambda>i. slice (i * len) len rs) [0..<n]) = take (n * len) rs"
  using assms
proof (induction n)
  case (Suc n)
  have "n * len \<le> MAX_OFFSET" using Suc.prems by simp
  then have "slice (n * len) len rs = take len (drop (n * len) rs)" by (simp add: slice_def)
  moreover have "take (Suc n * len) rs = take (n * len) rs @ take len (drop (n * len) rs)"
    by (metis add.commute mult_Suc take_add)
  ultimately show ?case using Suc by (simp add: add.commute)
qed simp

section \<open>The operator list\<close>

record operator_page =
  op_total :: nat
  op_filtered :: nat
  op_rows :: "operator_row list"

definition operator_matches :: "ustr \<Rightarrow> operator_row \<Rightarrow> bool" where
  "operator_matches search r \<longleftrightarrow> search = [] \<or>
     like_match (like_contains search) (username r) \<or> like_match (like_contains search) (email r) \<or>
     parse_i32 search = Some (id_user r)"

definition page_operators :: "nat \<Rightarrow> nat \<Rightarrow> ustr \<Rightarrow> operator_page prog" where
  "page_operators start len search =
     bind (query (\<lambda>t. length (operators t))) (\<lambda>total.
     bind (query (\<lambda>t. length (filter (operator_matches search) (operators t)))) (\<lambda>filtered.
     bind (query (\<lambda>t. slice start len
       (order_by (\<lambda>a b. id_user a \<le> id_user b) (filter (operator_matches search) (operators t))))) (\<lambda>rs.
     ret \<lparr>op_total = total, op_filtered = filtered, op_rows = rs\<rparr>)))"

end
