(* ===== verification/Vulnerability.thy ===== *)
theory Vulnerability
  imports Listing
begin

text \<open>
  The findings of the firewall, \<open>src/models/vulnerability.rs\<close> and
  \<open>src/models/vulnerability_repository.rs\<close>: the row, the search columns, the sort orders, a page of
  findings and the counts of the dashboard, as functions of the rows of the findings table. The console
  only reads this database.
\<close>

section \<open>Rows and query tokens\<close>

record vulnerability =
  vuln_id :: int
  vuln_title :: ustr
  vuln_severity :: ustr
  vuln_cwe :: ustr
  vuln_description :: ustr
  vuln_reference_url :: ustr
  vuln_occurred_at :: ustr
  vuln_rule_match :: ustr
  vuln_rule_line_match :: ustr
  vuln_client_ip :: ustr
  vuln_country :: ustr
  vuln_continent_name :: ustr
  vuln_http_method :: ustr
  vuln_request_uri :: ustr
  vuln_fullpath_evidence :: ustr
  vuln_engine :: ustr
  vuln_request_payload :: ustr
  vuln_request_id :: ustr

datatype attack_search_field =
    All_fields | Id_field | Title_field | Client_ip_field | Request_uri_field | Rule_match_field
  | Occurred_at_field | Country_field

definition search_field_from_token :: "ustr \<Rightarrow> attack_search_field" where
  "search_field_from_token v =
     (let t = to_ascii_lowercase (trim v) in
      if t = lit ''id'' then Id_field
      else if t = lit ''title'' then Title_field
      else if t = lit ''client_ip'' then Client_ip_field
      else if t = lit ''request_uri'' then Request_uri_field
      else if t = lit ''rule_match'' then Rule_match_field
      else if t = lit ''occurred_at'' then Occurred_at_field
      else if t = lit ''country'' then Country_field
      else All_fields)"

datatype attack_sort = By_severity | By_occurred_at

definition sort_from_token :: "ustr \<Rightarrow> attack_sort" where
  "sort_from_token v =
     (if to_ascii_lowercase (trim v) = lit ''occurred_at'' then By_occurred_at else By_severity)"

section \<open>A page of findings\<close>

text \<open>The columns a search looks at; \<open>LIKE\<close> reads the number of a row as text.\<close>

fun searched_columns :: "attack_search_field \<Rightarrow> vulnerability \<Rightarrow> ustr list" where
  "searched_columns All_fields r = [show_int (vuln_id r), vuln_title r, vuln_client_ip r, vuln_request_uri r, vuln_rule_match r,
     vuln_occurred_at r, vuln_country r, vuln_severity r]"
| "searched_columns Id_field r = [show_int (vuln_id r)]"
| "searched_columns Title_field r = [vuln_title r]"
| "searched_columns Client_ip_field r = [vuln_client_ip r]"
| "searched_columns Request_uri_field r = [vuln_request_uri r]"
| "searched_columns Rule_match_field r = [vuln_rule_match r]"
| "searched_columns Occurred_at_field r = [vuln_occurred_at r]"
| "searched_columns Country_field r = [vuln_country r]"

definition attack_matches :: "ustr \<Rightarrow> attack_search_field \<Rightarrow> vulnerability \<Rightarrow> bool" where
  "attack_matches search fld r \<longleftrightarrow> search = [] \<or>
     list_ex (like_match (like_contains search)) (searched_columns fld r)"

definition severity_rank :: "ustr \<Rightarrow> nat" where
  "severity_rank s =
     (let l = to_ascii_lowercase s in
      if l = lit ''critical'' then 4 else if l = lit ''high'' then 3
      else if l = lit ''medium'' then 2 else if l = lit ''low'' then 1 else 0)"

text \<open>Text columns compare byte by byte, which for UTF-8 is code point by code point.\<close>

definition attack_before :: "attack_sort \<Rightarrow> bool \<Rightarrow> vulnerability \<Rightarrow> vulnerability \<Rightarrow> bool" where
  "attack_before s descending a b = (case s of
     By_severity \<Rightarrow>
       if severity_rank (vuln_severity a) = severity_rank (vuln_severity b) then vuln_occurred_at b \<le> vuln_occurred_at a
       else if descending then severity_rank (vuln_severity b) < severity_rank (vuln_severity a)
       else severity_rank (vuln_severity a) < severity_rank (vuln_severity b)
   | By_occurred_at \<Rightarrow>
       if vuln_occurred_at a = vuln_occurred_at b then vuln_id b \<le> vuln_id a
       else if descending then vuln_occurred_at b < vuln_occurred_at a else vuln_occurred_at a < vuln_occurred_at b)"

record vulnerability_page =
  vp_total :: nat
  vp_filtered :: nat
  vp_rows :: "vulnerability list"

definition page_vulnerabilities :: "vulnerability list \<Rightarrow> nat \<Rightarrow> nat \<Rightarrow> ustr \<Rightarrow> attack_search_field \<Rightarrow>
    attack_sort \<Rightarrow> bool \<Rightarrow> vulnerability_page" where
  "page_vulnerabilities rs start len search fld s descending =
     (let found = filter (attack_matches search fld) rs in
      \<lparr>vp_total = length rs, vp_filtered = length found,
       vp_rows = slice start len (order_by (attack_before s descending) found)\<rparr>)"

definition find_vulnerability :: "vulnerability list \<Rightarrow> int \<Rightarrow> vulnerability option" where
  "find_vulnerability rs i = find (\<lambda>r. vuln_id r = i) rs"

section \<open>Counts\<close>

definition count_labels :: "ustr list \<Rightarrow> (ustr \<times> nat) list" where
  "count_labels ls = map (\<lambda>l. (l, count_list ls l)) (remdups ls)"

text \<open>\<open>aggregate_column\<close>: empty labels are left out; the order of equal counts is the vuln_engine's.\<close>

definition aggregate_column :: "(vulnerability \<Rightarrow> ustr) \<Rightarrow> nat \<Rightarrow> vulnerability list \<Rightarrow> (ustr \<times> nat) list" where
  "aggregate_column column limit rs =
     take limit (order_by (\<lambda>a b. snd b \<le> snd a) (count_labels (filter (\<lambda>l. l \<noteq> []) (map column rs))))"

definition top_countries :: "nat \<Rightarrow> vulnerability list \<Rightarrow> (ustr \<times> nat) list" where
  "top_countries = aggregate_column vuln_country"

definition top_client_ips :: "nat \<Rightarrow> vulnerability list \<Rightarrow> (ustr \<times> nat) list" where
  "top_client_ips = aggregate_column vuln_client_ip"

definition cmc_module :: "ustr \<Rightarrow> ustr" where
  "cmc_module rule = (case strip_prefix (lit ''cmc::'') rule of
     None \<Rightarrow> lit ''unknown''
   | Some v \<Rightarrow> (let m = hd (split_on 58 v) in if m = [] then lit ''unknown'' else m))"

definition module_before :: "ustr \<times> nat \<Rightarrow> ustr \<times> nat \<Rightarrow> bool" where
  "module_before a b \<longleftrightarrow> snd b < snd a \<or> snd b = snd a \<and> fst a \<le> fst b"

definition cmc_module_counts :: "vulnerability list \<Rightarrow> (ustr \<times> nat) list" where
  "cmc_module_counts rs = order_by module_before
     (count_labels (map (\<lambda>r. cmc_module (vuln_rule_match r)) (filter (\<lambda>r. vuln_engine r = lit ''cmc'') rs)))"

section \<open>Paging\<close>

lemma attack_before_total: "total_order (attack_before s descending)"
  unfolding total_order_def
proof (intro conjI allI impI)
  fix a b c
  show "attack_before s descending a b \<or> attack_before s descending b a"
    by (cases s) (auto simp: attack_before_def)
  assume "attack_before s descending a b" "attack_before s descending b c"
  then show "attack_before s descending a c"
    by (cases s) (auto simp: attack_before_def split: if_splits)
qed

text \<open>
  Paging through the findings, in any order and with any search, shows
  exactly the matching findings, each as often as the table has it, in the order asked for; the counts
  are those of the table and of the matches, on every page. As many pages as the offset limit allows.
\<close>

theorem pages_cover_findings:
  assumes "0 < len" and "vp_filtered (page_vulnerabilities rs start len search fld s descending) \<le> n * len"
    and "n * len \<le> MAX_OFFSET + len"
  defines "pages \<equiv> concat (map (\<lambda>i. vp_rows (page_vulnerabilities rs (i * len) len search fld s descending)) [0..<n])"
  shows "mset pages = filter_mset (attack_matches search fld) (mset rs) \<and>
    sorted_wrt (attack_before s descending) pages \<and>
    vp_total (page_vulnerabilities rs start len search fld s descending) = length rs \<and>
    vp_filtered (page_vulnerabilities rs start len search fld s descending) = length pages"
proof -
  let ?sorted = "order_by (attack_before s descending) (filter (attack_matches search fld) rs)"
  have short: "length ?sorted \<le> n * len" using assms(2) by (simp add: page_vulnerabilities_def Let_def)
  have all: "pages = ?sorted"
    unfolding pages_def page_vulnerabilities_def Let_def
    using pages_concat [OF assms(3), of ?sorted] short by simp
  have "sorted_wrt (attack_before s descending) pages" unfolding all by (intro sorted_order_by attack_before_total)
  then show ?thesis by (simp add: all mset_filter page_vulnerabilities_def Let_def)
qed

definition finding :: "int \<Rightarrow> string \<Rightarrow> string \<Rightarrow> vulnerability" where
  "finding i sev at = \<lparr>vuln_id = i, vuln_title = lit ''SQL injection'', vuln_severity = lit sev, vuln_cwe = lit ''CWE-89'',
     vuln_description = [], vuln_reference_url = [], vuln_occurred_at = lit at, vuln_rule_match = lit ''cmc::sqli:1'',
     vuln_rule_line_match = [], vuln_client_ip = lit ''192.0.2.7'', vuln_country = lit ''SE'', vuln_continent_name = [],
     vuln_http_method = lit ''GET'', vuln_request_uri = lit ''/login?password=hunter2'',
     vuln_fullpath_evidence = lit ''/login?password=hunter2'', vuln_engine = lit ''cmc'',
     vuln_request_payload = lit ''password=hunter2'', vuln_request_id = []\<rparr>"

definition sample_findings :: "vulnerability list" where
  "sample_findings = [finding 1 ''low'' ''2024-01-01'', finding 2 ''High'' ''2024-01-02'',
     finding 3 ''critical'' ''2024-01-03'', finding 4 ''high'' ''2024-01-04'']"

theorem pages_cover_findings_witness:
  "let pages = concat (map (\<lambda>i. vp_rows (page_vulnerabilities sample_findings (i * 2) 2 (lit ''HIGH'') All_fields
        By_severity True)) [0..<2])
   in mset pages = {#finding 2 ''High'' ''2024-01-02'', finding 4 ''high'' ''2024-01-04''#} \<and>
      map vuln_id pages = [4, 2]"
proof -
  have pre: "vp_filtered (page_vulnerabilities sample_findings 0 2 (lit ''HIGH'') All_fields By_severity True) \<le> 2 * 2"
    by code_simp
  have ids: "map vuln_id (concat (map (\<lambda>i. vp_rows (page_vulnerabilities sample_findings (i * 2) 2 (lit ''HIGH'')
      All_fields By_severity True)) [0..<2])) = [4, 2]"
    by code_simp
  have "filter (attack_matches (lit ''HIGH'') All_fields) sample_findings =
      [finding 2 ''High'' ''2024-01-02'', finding 4 ''high'' ''2024-01-04'']"
    by code_simp
  then have "filter_mset (attack_matches (lit ''HIGH'') All_fields) (mset sample_findings) =
      {#finding 2 ''High'' ''2024-01-02'', finding 4 ''high'' ''2024-01-04''#}"
    by (metis mset_filter mset.simps)
  with pages_cover_findings [OF _ pre] ids show ?thesis by (simp add: Let_def MAX_OFFSET_def)
qed

end
