(* ===== verification/RegexRules.thy ===== *)
theory RegexRules
  imports Prelude
begin

text \<open>
  \<open>src/services/regex_rules.rs\<close>: the closed list of rule files that can be edited, and the checks that
  turn the text of the editor into the body sent to the firewall. \<open>serde_json\<close> is a crate: its
  \<open>Value\<close> is the datatype below, its parser and printer are parameters (a parser may fail with a
  message, the printer may fail too). Bodies are kept as text; what is sent is its UTF-8 encoding.
\<close>

section \<open>JSON values\<close>

text \<open>An object holds each key once, as \<open>serde_json::Map\<close> does; numbers stay as written.\<close>

datatype json =
    JNull
  | JBool bool
  | JNumber ustr
  | JString ustr
  | JArray "json list"
  | JObject "(ustr \<times> json) list"

definition as_object :: "json \<Rightarrow> (ustr \<rightharpoonup> json) option" where
  "as_object v = (case v of JObject members \<Rightarrow> Some (map_of members) | _ \<Rightarrow> None)"

definition as_array :: "json \<Rightarrow> json list option" where
  "as_array v = (case v of JArray vs \<Rightarrow> Some vs | _ \<Rightarrow> None)"

record json_codec =
  from_str :: "ustr \<Rightarrow> ustr + json"
  to_text :: "json \<Rightarrow> ustr + ustr"

section \<open>Rule lists\<close>

datatype regex_rule_list = BodyRegex | PathRegex | HeaderRegex | VectorscanList | Scanners

definition ALL_LISTS :: "regex_rule_list list" where
  "ALL_LISTS = [BodyRegex, PathRegex, HeaderRegex, VectorscanList, Scanners]"

definition parse_rule_list :: "ustr \<Rightarrow> regex_rule_list option" where
  "parse_rule_list name =
     (if name = lit ''body_regex'' then Some BodyRegex
      else if name = lit ''path_regex'' then Some PathRegex
      else if name = lit ''header_regex'' then Some HeaderRegex
      else if name = lit ''vectorscan_list'' then Some VectorscanList
      else if name = lit ''scanners'' then Some Scanners
      else None)"

fun rule_list_str :: "regex_rule_list \<Rightarrow> ustr" where
  "rule_list_str BodyRegex = lit ''body_regex''"
| "rule_list_str PathRegex = lit ''path_regex''"
| "rule_list_str HeaderRegex = lit ''header_regex''"
| "rule_list_str VectorscanList = lit ''vectorscan_list''"
| "rule_list_str Scanners = lit ''scanners''"

definition editor_mode :: "regex_rule_list \<Rightarrow> ustr" where
  "editor_mode l = (case l of Scanners \<Rightarrow> lit ''ace/mode/text'' | _ \<Rightarrow> lit ''ace/mode/json'')"

lemma parse_rule_list_iff: "parse_rule_list name = Some l \<longleftrightarrow> name = rule_list_str l"
  by (cases l) (auto simp: parse_rule_list_def)

lemma ALL_LISTS_complete: "set ALL_LISTS = UNIV \<and> distinct ALL_LISTS"
proof -
  have "l \<in> set ALL_LISTS" for l by (cases l) (simp_all add: ALL_LISTS_def)
  then show ?thesis by (auto simp: ALL_LISTS_def)
qed

section \<open>Errors\<close>

datatype rule_validation_error =
    Empty
  | InvalidJson ustr
  | NotAnObject
  | MissingRulesArray
  | EmptyRules
  | RuleNotObject nat
  | MissingField nat ustr
  | InvalidField nat ustr

fun show_rule_error :: "rule_validation_error \<Rightarrow> ustr" where
  "show_rule_error Empty = lit ''The rule file cannot be empty.''"
| "show_rule_error (InvalidJson detail) = lit ''The rule content is not valid JSON: '' @ detail @ lit ''.''"
| "show_rule_error NotAnObject = lit ''The rule content must be a JSON object.''"
| "show_rule_error MissingRulesArray =
     lit ''The rule content must contain a '' @ [34] @ lit ''rules'' @ [34] @ lit '' array.''"
| "show_rule_error EmptyRules = lit ''The '' @ [34] @ lit ''rules'' @ [34] @ lit '' array cannot be empty.''"
| "show_rule_error (RuleNotObject i) = lit ''Rule #'' @ show_nat (i + 1) @ lit '' must be a JSON object.''"
| "show_rule_error (MissingField i f) =
     lit ''Rule #'' @ show_nat (i + 1) @ lit '' is missing the required '' @ [34] @ f @ [34] @ lit '' field.''"
| "show_rule_error (InvalidField i f) =
     lit ''Rule #'' @ show_nat (i + 1) @ lit '' has an invalid '' @ [34] @ f @ [34] @ lit '' value.''"

section \<open>Codecs\<close>

definition REQUIRED_RULE_FIELDS :: "ustr list" where
  "REQUIRED_RULE_FIELDS = map lit
     [''enable'', ''http_action'', ''title'', ''severity'', ''cwe'', ''description'', ''url'', ''rule_match'', ''id'', ''score'']"

definition parse_rules_array :: "json_codec \<Rightarrow> ustr \<Rightarrow> rule_validation_error + json \<times> nat" where
  "parse_rules_array J content =
     (let trimmed = trim content in
      if trimmed = [] then Inl Empty
      else case from_str J trimmed of
        Inl e \<Rightarrow> Inl (InvalidJson e)
      | Inr v \<Rightarrow> (case as_object v of
          None \<Rightarrow> Inl NotAnObject
        | Some members \<Rightarrow> (case Option.bind (members (lit ''rules'')) as_array of
            None \<Rightarrow> Inl MissingRulesArray
          | Some rules \<Rightarrow> if rules = [] then Inl EmptyRules else Inr (v, length rules))))"

text \<open>The loop over the required fields of one rule; then its pattern; then the loop over the rules.\<close>

fun check_fields :: "nat \<Rightarrow> (ustr \<rightharpoonup> json) \<Rightarrow> ustr list \<Rightarrow> rule_validation_error option" where
  "check_fields i members [] = None"
| "check_fields i members (f # fs) =
     (case members f of
        None \<Rightarrow> Some (MissingField i f)
      | Some JNull \<Rightarrow> Some (InvalidField i f)
      | Some _ \<Rightarrow> check_fields i members fs)"

definition check_rule :: "nat \<Rightarrow> json \<Rightarrow> rule_validation_error option" where
  "check_rule i rule =
     (case as_object rule of
        None \<Rightarrow> Some (RuleNotObject i)
      | Some members \<Rightarrow> (case check_fields i members REQUIRED_RULE_FIELDS of
          Some e \<Rightarrow> Some e
        | None \<Rightarrow> (case members (lit ''rule_match'') of
            Some (JString pattern) \<Rightarrow> if pattern \<noteq> [] then None else Some (InvalidField i (lit ''rule_match''))
          | _ \<Rightarrow> Some (InvalidField i (lit ''rule_match'')))))"

fun check_rules :: "nat \<Rightarrow> json list \<Rightarrow> rule_validation_error option" where
  "check_rules i [] = None"
| "check_rules i (r # rs) = (case check_rule i r of Some e \<Rightarrow> Some e | None \<Rightarrow> check_rules (i + 1) rs)"

definition regex_bundle_body :: "json_codec \<Rightarrow> ustr \<Rightarrow> rule_validation_error + ustr" where
  "regex_bundle_body J content =
     (case parse_rules_array J content of
        Inl e \<Rightarrow> Inl e
      | Inr (v, _) \<Rightarrow> (case Option.bind (as_object v) (\<lambda>members. Option.bind (members (lit ''rules'')) as_array) of
          None \<Rightarrow> Inl MissingRulesArray
        | Some rules \<Rightarrow> (case check_rules 0 rules of Some e \<Rightarrow> Inl e | None \<Rightarrow> Inr (trim content))))"

definition keyword_bundle_body :: "json_codec \<Rightarrow> ustr \<Rightarrow> rule_validation_error + ustr" where
  "keyword_bundle_body J content =
     (case parse_rules_array J content of Inl e \<Rightarrow> Inl e | Inr _ \<Rightarrow> Inr (trim content))"

definition line_list_body :: "json_codec \<Rightarrow> ustr \<Rightarrow> rule_validation_error + ustr" where
  "line_list_body J content =
     (let kept = filter (\<lambda>l. l \<noteq> []) (map trim (lines content)) in
      if kept = [] then Inl Empty
      else case to_text J (JObject [(lit ''lines'', JArray (map JString kept))]) of
        Inr body \<Rightarrow> Inr body | Inl e \<Rightarrow> Inl (InvalidJson e))"

definition build_update_body :: "json_codec \<Rightarrow> regex_rule_list \<Rightarrow> ustr \<Rightarrow> rule_validation_error + ustr" where
  "build_update_body J l =
     (case l of
        VectorscanList \<Rightarrow> keyword_bundle_body J
      | Scanners \<Rightarrow> line_list_body J
      | _ \<Rightarrow> regex_bundle_body J)"

section \<open>What an accepted body is\<close>

text \<open>
  The documented shapes: a rule has every required field, none of them null, and a pattern that is a
  nonempty string; a bundle is an object with a nonempty array of rules.
\<close>

definition complete_rule :: "json \<Rightarrow> bool" where
  "complete_rule r \<longleftrightarrow>
     (\<exists>members. r = JObject members \<and>
        (\<forall>f \<in> set REQUIRED_RULE_FIELDS. \<exists>v. map_of members f = Some v \<and> v \<noteq> JNull) \<and>
        (\<exists>p. map_of members (lit ''rule_match'') = Some (JString p) \<and> p \<noteq> []))"

definition bundle_rules :: "json \<Rightarrow> json list \<Rightarrow> bool" where
  "bundle_rules v rules \<longleftrightarrow>
     (\<exists>members. v = JObject members \<and> map_of members (lit ''rules'') = Some (JArray rules) \<and> rules \<noteq> [])"

definition documented_shape :: "regex_rule_list \<Rightarrow> json \<Rightarrow> bool" where
  "documented_shape l v \<longleftrightarrow>
     (case l of
        VectorscanList \<Rightarrow> (\<exists>rules. bundle_rules v rules)
      | Scanners \<Rightarrow> (\<exists>ls. v = JObject [(lit ''lines'', JArray (map JString ls))] \<and> ls \<noteq> [] \<and>
            (\<forall>l \<in> set ls. l \<noteq> [] \<and> trim l = l))
      | _ \<Rightarrow> (\<exists>rules. bundle_rules v rules \<and> list_all complete_rule rules))"

lemma check_fields_None_iff:
  "check_fields i members fs = None \<longleftrightarrow> (\<forall>f \<in> set fs. \<exists>v. members f = Some v \<and> v \<noteq> JNull)"
  by (induction fs) (auto split: option.splits json.splits)

lemma check_rule_None_iff: "check_rule i r = None \<longleftrightarrow> complete_rule r"
proof (cases r)
  case (JObject ms)
  show ?thesis
    using JObject check_fields_None_iff [of i "map_of ms" REQUIRED_RULE_FIELDS]
    by (cases "check_fields i (map_of ms) REQUIRED_RULE_FIELDS")
       (auto simp: check_rule_def as_object_def complete_rule_def split: option.splits json.splits)
qed (auto simp: check_rule_def as_object_def complete_rule_def)

lemma check_rules_None_iff: "check_rules i rs = None \<longleftrightarrow> list_all complete_rule rs"
proof (induction rs arbitrary: i)
  case (Cons r rs)
  then show ?case using check_rule_None_iff [of i r] by (cases "check_rule i r") auto
qed simp

lemma as_array_Some [simp]: "as_array v = Some vs \<longleftrightarrow> v = JArray vs"
  by (cases v) (auto simp: as_array_def)

lemma as_array_JArray [simp]: "as_array (JArray vs) = Some vs"
  by simp

lemma bind_as_array: "Option.bind m as_array = Some vs \<longleftrightarrow> m = Some (JArray vs)"
  by (cases m) auto

lemma parse_rules_array_iff:
  "parse_rules_array J content = Inr (v, n) \<longleftrightarrow>
     trim content \<noteq> [] \<and> from_str J (trim content) = Inr v \<and> (\<exists>rules. bundle_rules v rules \<and> n = length rules)"
  by (cases v) (auto simp: parse_rules_array_def Let_def as_object_def bundle_rules_def bind_as_array
      split: sum.splits option.splits if_splits)

lemma bundle_lookup:
  "bundle_rules v rules \<Longrightarrow>
     Option.bind (as_object v) (\<lambda>members. Option.bind (members (lit ''rules'')) as_array) = Some rules"
  by (auto simp: bundle_rules_def as_object_def as_array_def)

lemma bundle_rules_unique: "bundle_rules v rules \<Longrightarrow> bundle_rules v rules' \<Longrightarrow> rules = rules'"
  by (auto simp: bundle_rules_def)

lemma parse_rules_array_cases:
  obtains (refused) e where "parse_rules_array J content = Inl e"
      "\<And>v rules. trim content \<noteq> [] \<Longrightarrow> from_str J (trim content) = Inr v \<Longrightarrow> \<not> bundle_rules v rules"
  | (accepted) v rules where "parse_rules_array J content = Inr (v, length rules)" "trim content \<noteq> []"
      "from_str J (trim content) = Inr v" "bundle_rules v rules"
proof (cases "parse_rules_array J content")
  case (Inl e)
  show ?thesis
    by (rule refused [OF Inl]) (use Inl parse_rules_array_iff [of J content] in fastforce)
next
  case (Inr vn)
  obtain v n where vn: "vn = (v, n)" by (cases vn)
  then obtain rules where "bundle_rules v rules" "n = length rules"
    using Inr by (auto simp: parse_rules_array_iff)
  then show ?thesis using accepted [of v rules] Inr vn by (auto simp: parse_rules_array_iff)
qed

lemma regex_bundle_body_iff:
  "regex_bundle_body J content = Inr body \<longleftrightarrow>
     body = trim content \<and> body \<noteq> [] \<and>
     (\<exists>v rules. from_str J body = Inr v \<and> bundle_rules v rules \<and> list_all complete_rule rules)"
proof (cases rule: parse_rules_array_cases [of J content])
  case (refused e)
  then show ?thesis by (auto simp: regex_bundle_body_def)
next
  case (accepted v rules)
  have "regex_bundle_body J content =
      (case check_rules 0 rules of Some e \<Rightarrow> Inl e | None \<Rightarrow> Inr (trim content))"
    using accepted(1) bundle_lookup [OF accepted(4)] by (simp add: regex_bundle_body_def)
  then show ?thesis
    using accepted(2,3,4) bundle_rules_unique [OF accepted(4)] check_rules_None_iff [of 0 rules]
    by (cases "check_rules 0 rules") (metis sum.inject(1,2) sum.distinct(1) option.simps(4,5))+
qed

lemma keyword_bundle_body_iff:
  "keyword_bundle_body J content = Inr body \<longleftrightarrow>
     body = trim content \<and> body \<noteq> [] \<and> (\<exists>v rules. from_str J body = Inr v \<and> bundle_rules v rules)"
proof (cases rule: parse_rules_array_cases [of J content])
  case (refused e)
  then show ?thesis by (auto simp: keyword_bundle_body_def)
next
  case (accepted v rules)
  then show ?thesis by (auto simp: keyword_bundle_body_def)
qed

definition kept_lines :: "ustr \<Rightarrow> ustr list" where
  "kept_lines content = filter (\<lambda>l. l \<noteq> []) (map trim (lines content))"

lemma line_list_body_iff:
  "line_list_body J content = Inr body \<longleftrightarrow>
     kept_lines content \<noteq> [] \<and> to_text J (JObject [(lit ''lines'', JArray (map JString (kept_lines content)))]) = Inr body"
  by (auto simp: line_list_body_def kept_lines_def Let_def split: sum.splits if_splits)


section \<open>Trimmed lines\<close>

lemma trim_ends: "trim s \<noteq> [] \<Longrightarrow> \<not> is_whitespace (hd (trim s)) \<and> \<not> is_whitespace (last (trim s))"
proof -
  let ?m = "dropWhile is_whitespace s"
  let ?t = "dropWhile is_whitespace (rev ?m)"
  assume ne: "trim s \<noteq> []"
  have eq: "trim s = rev ?t"
    by (simp add: trim_def trim_matches_def trim_start_matches_def trim_end_matches_def)
  with ne obtain c r where c: "?t = c # r" by (cases ?t) auto
  obtain a where "rev ?m = a @ ?t" by (metis takeWhile_dropWhile_id)
  then have m: "?m = rev ?t @ rev a" by (metis rev_append rev_rev_ident)
  have "?m \<noteq> []" using c by (metis dropWhile.simps(1) list.distinct(1) rev.simps(1))
  then have "\<not> is_whitespace (hd ?m)" by (rule hd_dropWhile)
  then have "\<not> is_whitespace (hd (rev ?t))" using m ne eq by (metis hd_append2)
  then show ?thesis using dropWhile_hd [OF c] eq c by (simp add: last_rev)
qed

lemma trim_trim [simp]: "trim (trim s) = trim s"
  using trim_ends [of s] unfolding trim_def by (intro trim_matches_fixed) (auto simp: trim_def)

lemma split_on_no_sep_parts: "p \<in> set (split_on d s) \<Longrightarrow> d \<notin> set p"
  by (induction s arbitrary: p) (auto split: if_splits list.splits)

lemma lines_no_lf: "l \<in> set (lines s) \<Longrightarrow> 10 \<notin> set l"
proof -
  have "l \<in> set (lines_aux ps) \<Longrightarrow> \<exists>p \<in> set ps. set l \<subseteq> set p" for ps
    by (induction ps rule: lines_aux.induct)
       (auto simp: strip_cr_def dest: in_set_butlastD split: if_splits)
  then show "l \<in> set (lines s) \<Longrightarrow> 10 \<notin> set l"
    unfolding lines_def using split_on_no_sep_parts by blast
qed

definition clean_line :: "ustr \<Rightarrow> bool" where
  "clean_line l \<longleftrightarrow> l \<noteq> [] \<and> trim l = l \<and> 10 \<notin> set l"

lemma kept_lines_clean: "l \<in> set (kept_lines content) \<Longrightarrow> clean_line l"
  using lines_no_lf set_trim by (fastforce simp: kept_lines_def clean_line_def)

lemma clean_line_strip_cr: "clean_line l \<Longrightarrow> strip_cr l = l"
  using trim_ends [of l] by (auto simp: clean_line_def strip_cr_def is_whitespace_def)

lemma split_join_lf: "list_all clean_line ls \<Longrightarrow> ls \<noteq> [] \<Longrightarrow> split_on 10 (join [10] ls) = ls"
  by (induction ls rule: induct_list012) (auto simp: clean_line_def split_on_no_sep split_on_append)

lemma split_join_lf_end: "list_all clean_line ls \<Longrightarrow> split_on 10 (join [10] ls @ [10]) = (if ls = [] then [[], []] else ls @ [[]])"
  by (induction ls rule: induct_list012) (auto simp: clean_line_def split_on_append)

lemma lines_aux_clean: "list_all clean_line ls \<Longrightarrow> lines_aux ls = ls \<and> (ls \<noteq> [] \<longrightarrow> lines_aux (ls @ [[]]) = ls)"
  by (induction ls rule: induct_list012) (auto simp: clean_line_strip_cr clean_line_def)

lemma kept_lines_join:
  assumes "list_all clean_line ls" and "ls \<noteq> []" and "s = join [10] ls \<or> s = join [10] ls @ [10]"
  shows "kept_lines s = ls"
proof -
  have "lines s = ls"
    using assms split_join_lf split_join_lf_end lines_aux_clean by (auto simp: lines_def)
  moreover have "map trim ls = ls" "filter (\<lambda>l. l \<noteq> []) ls = ls"
    using assms(1) by (auto simp: list_all_iff clean_line_def intro!: map_idI)
  ultimately show ?thesis by (simp add: kept_lines_def)
qed

section \<open>Properties\<close>

text \<open>What the documentation of \<open>serde_json\<close> says: printed values parse back.\<close>

definition prints_parse :: "json_codec \<Rightarrow> bool" where
  "prints_parse J \<longleftrightarrow> (\<forall>v t. to_text J v = Inr t \<longrightarrow> from_str J t = Inr v)"


definition rule_with :: "string \<Rightarrow> json" where
  "rule_with pattern = JObject (map (\<lambda>f. (f, if f = lit ''rule_match'' then JString (lit pattern) else JBool True)) REQUIRED_RULE_FIELDS)"

text \<open>A codec for the concrete cases: it knows the one text it has printed.\<close>

definition one_text :: "json \<Rightarrow> json_codec" where
  "one_text w = \<lparr>from_str = (\<lambda>s. if s = lit ''{}'' then Inr w else Inl (lit ''syntax error'')),
     to_text = (\<lambda>v. if v = w then Inr (lit ''{}'') else Inl (lit ''no'')) \<rparr>"

lemma one_text_ok: "prints_parse (one_text w)"
  by (simp add: prints_parse_def one_text_def)


text \<open>The message a rule deserves: the first thing that is wrong with it.\<close>

definition fault_of_rule :: "nat \<Rightarrow> json \<Rightarrow> rule_validation_error \<Rightarrow> bool" where
  "fault_of_rule i r e \<longleftrightarrow>
     (case as_object r of
        None \<Rightarrow> e = RuleNotObject i
      | Some members \<Rightarrow>
          (\<exists>before f after. REQUIRED_RULE_FIELDS = before @ f # after \<and>
             (\<forall>g \<in> set before. \<exists>v. members g = Some v \<and> v \<noteq> JNull) \<and>
             (members f = None \<and> e = MissingField i f \<or> members f = Some JNull \<and> e = InvalidField i f)) \<or>
          (\<forall>g \<in> set REQUIRED_RULE_FIELDS. \<exists>v. members g = Some v \<and> v \<noteq> JNull) \<and>
          \<not> (\<exists>p. members (lit ''rule_match'') = Some (JString p) \<and> p \<noteq> []) \<and> e = InvalidField i (lit ''rule_match''))"

lemma check_fields_Some:
  "check_fields i members fs = Some e \<Longrightarrow>
     \<exists>before f after. fs = before @ f # after \<and> (\<forall>g \<in> set before. \<exists>v. members g = Some v \<and> v \<noteq> JNull) \<and>
       (members f = None \<and> e = MissingField i f \<or> members f = Some JNull \<and> e = InvalidField i f)"
proof (induction fs)
  case (Cons f fs)
  show ?case
  proof (cases "\<exists>v. members f = Some v \<and> v \<noteq> JNull")
    case True
    then have "check_fields i members fs = Some e" using Cons.prems by (auto split: json.splits)
    from Cons.IH [OF this] True show ?thesis by (metis append_Cons set_ConsD)
  next
    case False
    then show ?thesis using Cons.prems by (intro exI [of _ "[]"] exI [of _ f] exI [of _ fs]) (auto split: option.splits)
  qed
qed simp

lemma check_rule_Some: "check_rule i r = Some e \<Longrightarrow> fault_of_rule i r e"
  unfolding check_rule_def fault_of_rule_def
  using check_fields_Some check_fields_None_iff
  by (auto split: option.splits json.splits if_splits) 

lemma check_rules_Some:
  "check_rules k rs = Some e \<Longrightarrow>
     \<exists>i < length rs. list_all complete_rule (take i rs) \<and> \<not> complete_rule (rs ! i) \<and> fault_of_rule (k + i) (rs ! i) e"
proof (induction rs arbitrary: k)
  case (Cons r rs)
  show ?case
  proof (cases "check_rule k r")
    case None
    then have "check_rules (k + 1) rs = Some e" using Cons.prems by simp
    from Cons.IH [OF this] obtain i where
      "i < length rs" "list_all complete_rule (take i rs)" "\<not> complete_rule (rs ! i)" "fault_of_rule (k + 1 + i) (rs ! i) e"
      by blast
    then show ?thesis using None check_rule_None_iff [of k r] by (intro exI [of _ "Suc i"]) auto
  next
    case (Some e')
    then show ?thesis using Cons.prems check_rule_Some [OF Some] check_rule_None_iff [of k r]
      by (intro exI [of _ 0]) auto
  qed
qed simp

text \<open>
  Where a regex bundle is refused for a rule, the error names the first broken rule
  and the first thing wrong with it; the rules before it are complete.
\<close>

theorem first_broken_rule_reported:
  assumes "l \<noteq> Scanners" and "l \<noteq> VectorscanList" and "trim content \<noteq> []" and "from_str J (trim content) = Inr v"
    and "bundle_rules v rules" and "build_update_body J l content = Inl e"
  shows "\<exists>i < length rules. list_all complete_rule (take i rules) \<and> \<not> complete_rule (rules ! i) \<and>
    fault_of_rule i (rules ! i) e"
proof -
  have "parse_rules_array J content = Inr (v, length rules)"
    using assms(3-5) by (auto simp: parse_rules_array_iff)
  then have "regex_bundle_body J content = (case check_rules 0 rules of Some e \<Rightarrow> Inl e | None \<Rightarrow> Inr (trim content))"
    using bundle_lookup [OF assms(5)] by (simp add: regex_bundle_body_def)
  moreover have "regex_bundle_body J content = Inl e"
    using assms(1,2,6) by (cases l) (auto simp: build_update_body_def)
  ultimately have "check_rules 0 rules = Some e" by (auto split: option.splits)
  from check_rules_Some [OF this] show ?thesis by simp
qed

definition broken_bundle :: "json list" where
  "broken_bundle = [rule_with ''a+'', JObject [(lit ''enable'', JBool True), (lit ''http_action'', JNull)], JNull]"

theorem first_broken_rule_reported_witness:
  "build_update_body (one_text (JObject [(lit ''rules'', JArray broken_bundle)])) PathRegex (lit ''{}'') =
     Inl (InvalidField 1 (lit ''http_action'')) \<and>
   (\<exists>i < 3. list_all complete_rule (take i broken_bundle) \<and> fault_of_rule i (broken_bundle ! i) (InvalidField 1 (lit ''http_action'')))"
proof -
  let ?J = "one_text (JObject [(lit ''rules'', JArray broken_bundle)])"
  have e: "build_update_body ?J PathRegex (lit ''{}'') = Inl (InvalidField 1 (lit ''http_action''))" by code_simp
  have "trim (lit ''{}'') = lit ''{}''" by code_simp
  then have "\<exists>i < length broken_bundle. list_all complete_rule (take i broken_bundle) \<and> \<not> complete_rule (broken_bundle ! i) \<and>
      fault_of_rule i (broken_bundle ! i) (InvalidField 1 (lit ''http_action''))"
    by (intro first_broken_rule_reported [OF _ _ _ _ _ e])
       (auto simp: one_text_def bundle_rules_def broken_bundle_def)
  moreover have "length broken_bundle = 3" by (simp add: broken_bundle_def)
  ultimately show ?thesis using e by metis
qed

text \<open>
  Saving is stable. What a save has sent, read back (the bundles as they were
  sent, the scanner list one line each, with or without a last line end) and saved again unchanged,
  sends the same body.
\<close>

theorem saved_list_is_stable:
  assumes "build_update_body J l content = Inr body"
    and "if l = Scanners then file = join [10] (kept_lines content) \<or> file = join [10] (kept_lines content) @ [10]
         else file = body"
  shows "build_update_body J l file = Inr body"
proof (cases "l = Scanners")
  case True
  then have "kept_lines content \<noteq> []" using assms(1) by (simp add: build_update_body_def line_list_body_iff)
  moreover have "list_all clean_line (kept_lines content)" using kept_lines_clean by (simp add: list_all_iff)
  ultimately have "kept_lines file = kept_lines content" using assms(2) True by (intro kept_lines_join) auto
  then show ?thesis using assms(1) True by (simp add: build_update_body_def line_list_body_iff)
next
  case False
  then show ?thesis using assms
    by (cases l) (auto simp: build_update_body_def regex_bundle_body_iff keyword_bundle_body_iff)
qed

definition scanner_text :: ustr where
  "scanner_text = lit '' arachni'' @ [10, 13, 10] @ lit ''  sqlmap'' @ [13, 10]"

definition scanner_json :: json where
  "scanner_json = JObject [(lit ''lines'', JArray [JString (lit ''arachni''), JString (lit ''sqlmap'')])]"

theorem saved_list_is_stable_witness:
  "kept_lines scanner_text = [lit ''arachni'', lit ''sqlmap''] \<and>
   build_update_body (one_text scanner_json) Scanners (lit ''arachni'' @ [10] @ lit ''sqlmap'' @ [10]) = Inr (lit ''{}'')"
proof -
  have sent: "build_update_body (one_text scanner_json) Scanners scanner_text = Inr (lit ''{}'')" by code_simp
  have kept: "kept_lines scanner_text = [lit ''arachni'', lit ''sqlmap'']" by code_simp
  then show ?thesis using saved_list_is_stable [OF sent, of "lit ''arachni'' @ [10] @ lit ''sqlmap'' @ [10]"] by simp
qed

end
