(* ===== verification/ControlPlane.thy ===== *)
theory ControlPlane
  imports PasswordCrypto RegexRules
begin

text \<open>
  \<open>src/services/rule_management.rs\<close>: the client of the firewall's control plane and the token that
  authenticates each of its requests. The firewall, BLAKE2b, Base64, the HTTP header check and the
  decoders that \<open>serde\<close> derives for the answers are outside \<open>src/\<close> and enter as a record of functions.
  A call takes the list of requests sent so far, the latest first, and returns it with its own added.
\<close>

section \<open>Requests and answers\<close>

record waf_call =
  call_method :: ustr
  call_url :: ustr
  call_authorization :: ustr
  call_content_type :: "ustr option"
  call_body :: ustr

text \<open>What comes back: no answer at all, with the transport's message, or a status and a body.\<close>

datatype waf_answer = Unreachable ustr | Replied nat ustr

type_synonym 'a wire = "waf_call list \<Rightarrow> (ustr + 'a) \<times> waf_call list"

record cmc_update_outcome =
  outcome_status :: ustr
  outcome_enabled :: "ustr list"
  outcome_disabled :: "ustr list"

record regex_update_outcome =
  regex_status :: ustr
  regex_rule :: ustr
  regex_rules_written :: nat

record outside =
  answer_of :: "waf_call list \<Rightarrow> waf_answer"
  generichash :: "bytes \<Rightarrow> bytes option \<Rightarrow> bytes option"
  url_b64 :: "bytes \<Rightarrow> ustr"
  engines :: "(ustr \<Rightarrow> bytes option) list"
  random_nonce :: "nat \<Rightarrow> bytes"
  header_value_ok :: "ustr \<Rightarrow> bool"
  json_of :: json_codec
  decode_cmc_list :: "ustr \<Rightarrow> ustr + (ustr \<times> bool) list"
  decode_cmc_outcome :: "ustr \<Rightarrow> cmc_update_outcome option"
  decode_regex_view :: "ustr \<Rightarrow> ustr + ustr"
  decode_regex_outcome :: "ustr \<Rightarrow> regex_update_outcome option"

definition default_cmc_outcome :: cmc_update_outcome where
  "default_cmc_outcome = \<lparr>outcome_status = [], outcome_enabled = [], outcome_disabled = []\<rparr>"

definition default_regex_outcome :: regex_update_outcome where
  "default_regex_outcome = \<lparr>regex_status = [], regex_rule = [], regex_rules_written = 0\<rparr>"

section \<open>The service\<close>

definition CANONICAL_DOMAIN :: ustr where "CANONICAL_DOMAIN = lit ''rorschach-v1''"
definition TOKEN_SCHEME :: ustr where "TOKEN_SCHEME = lit ''rch1''"
definition STEP_SECONDS :: int where "STEP_SECONDS = 300"
definition MAC_KEY_BYTES :: nat where "MAC_KEY_BYTES = 64"

definition LIST_PATH :: ustr where "LIST_PATH = lit ''/rule/control/cmc/list''"
definition UPDATE_PATH :: ustr where "UPDATE_PATH = lit ''/rule/control/cmc/update''"
definition REGEX_VIEW_PATH :: ustr where "REGEX_VIEW_PATH = lit ''/rule/control/regex/view''"
definition REGEX_UPDATE_PREFIX :: ustr where "REGEX_UPDATE_PREFIX = lit ''/rule/control/regex/update/''"

record rule_service =
  endpoint :: ustr
  client_id :: ustr
  secret_even :: bytes
  secret_odd :: bytes

definition is_client_id_char :: "uchar \<Rightarrow> bool" where
  "is_client_id_char c \<longleftrightarrow> is_ascii_alnum c \<or> c = 95 \<or> c = 45"

definition validate_client_id :: "ustr \<Rightarrow> ustr option" where
  "validate_client_id s =
     (let trimmed = trim s in
      if trimmed = [] \<or> 64 < utf8_len trimmed \<or> \<not> list_all is_client_id_char trimmed then None else Some trimmed)"

fun first_decoding :: "(ustr \<Rightarrow> bytes option) list \<Rightarrow> ustr \<Rightarrow> bytes option" where
  "first_decoding [] s = None"
| "first_decoding (e # es) s = (case e s of Some b \<Rightarrow> Some b | None \<Rightarrow> first_decoding es s)"

definition decode_secret :: "outside \<Rightarrow> ustr \<Rightarrow> bytes option" where
  "decode_secret X encoded =
     (case first_decoding (engines X) (trim encoded) of
        None \<Rightarrow> None
      | Some decoded \<Rightarrow> if length decoded < MAC_KEY_BYTES then None else Some decoded)"

definition with_client :: "outside \<Rightarrow> ustr \<Rightarrow> ustr \<Rightarrow> ustr \<Rightarrow> ustr \<Rightarrow> rule_service option" where
  "with_client X base cid even_encoded odd_encoded =
     Option.bind (validate_client_id cid) (\<lambda>c.
     Option.bind (decode_secret X even_encoded) (\<lambda>ev.
     Option.bind (decode_secret X odd_encoded) (\<lambda>od.
     Some \<lparr>endpoint = trim_end_matches (\<lambda>c. c = 47) base, client_id = c, secret_even = ev, secret_odd = od\<rparr>)))"

section \<open>Tokens\<close>

definition mac_key_for_step :: "rule_service \<Rightarrow> int \<Rightarrow> bytes" where
  "mac_key_for_step s step = take MAC_KEY_BYTES (if step mod 2 = 0 then secret_even s else secret_odd s)"

definition canonical_message :: "ustr \<Rightarrow> int \<Rightarrow> ustr \<Rightarrow> ustr \<Rightarrow> ustr \<Rightarrow> ustr \<Rightarrow> ustr" where
  "canonical_message cid step nonce_b64 method path body_hash =
     CANONICAL_DOMAIN @ 10 # cid @ 10 # show_int step @ 10 # nonce_b64 @ 10 # method @ 10 # path @ 10 # body_hash"

definition token_header :: "ustr \<Rightarrow> int \<Rightarrow> ustr \<Rightarrow> ustr \<Rightarrow> ustr" where
  "token_header cid step nonce_b64 token_b64 =
     lit ''Bearer '' @ TOKEN_SCHEME @ 46 # cid @ 46 # show_int step @ 46 # nonce_b64 @ 46 # token_b64"

definition rorschach_token :: "outside \<Rightarrow> rule_service \<Rightarrow> int \<Rightarrow> nat \<Rightarrow> ustr \<Rightarrow> ustr \<Rightarrow> ustr \<Rightarrow> ustr + ustr" where
  "rorschach_token X s unix_time seed method path body =
     (let step = unix_time div STEP_SECONDS;
          nonce_b64 = url_b64 X (random_nonce X seed) in
      case generichash X (as_bytes body) None of
        None \<Rightarrow> Inl (lit ''BLAKE2b-256 computation failed'')
      | Some h \<Rightarrow>
          (let canonical = canonical_message (client_id s) step nonce_b64 method path (url_b64 X h) in
           case generichash X (as_bytes canonical) (Some (mac_key_for_step s step)) of
             None \<Rightarrow> Inl (lit ''BLAKE2b-256 computation failed'')
           | Some tag \<Rightarrow>
               (let h = token_header (client_id s) step nonce_b64 (url_b64 X tag) in
                if header_value_ok X h then Inr h
                else Inl (lit ''constructed an invalid Rorschach Authorization header''))))"

section \<open>Calls\<close>

definition wret :: "'a \<Rightarrow> 'a wire" where
  "wret x = (\<lambda>cs. (Inr x, cs))"

definition wfail :: "ustr \<Rightarrow> 'a wire" where
  "wfail e = (\<lambda>cs. (Inl e, cs))"

definition wbind :: "'a wire \<Rightarrow> ('a \<Rightarrow> 'b wire) \<Rightarrow> 'b wire" where
  "wbind p f = (\<lambda>cs. case p cs of (Inr x, cs') \<Rightarrow> f x cs' | (Inl e, cs') \<Rightarrow> (Inl e, cs'))"

definition lift_sum :: "ustr + 'a \<Rightarrow> 'a wire" where
  "lift_sum r = (case r of Inr x \<Rightarrow> wret x | Inl e \<Rightarrow> wfail e)"

definition send :: "outside \<Rightarrow> waf_call \<Rightarrow> waf_answer wire" where
  "send X c = (\<lambda>cs. (Inr (answer_of X (c # cs)), c # cs))"

text \<open>
  A signed request: the token is made first; the answer counts only with a success status. The error
  texts go to the application log only; a status is shown there without its reason phrase.
\<close>

definition signed_call ::
    "outside \<Rightarrow> rule_service \<Rightarrow> int \<Rightarrow> nat \<Rightarrow> ustr \<Rightarrow> ustr \<Rightarrow> ustr option \<Rightarrow> ustr \<Rightarrow> ustr \<Rightarrow> ustr wire" where
  "signed_call X s unix_time seed method path content_type body what =
     wbind (lift_sum (rorschach_token X s unix_time seed method path body)) (\<lambda>authorization.
     wbind (send X \<lparr>call_method = method, call_url = endpoint s @ path, call_authorization = authorization,
         call_content_type = content_type, call_body = body\<rparr>) (\<lambda>answer. case answer of
       Unreachable e \<Rightarrow> wfail (lit ''failed to reach the '' @ what @ lit '' endpoint: '' @ e)
     | Replied status text \<Rightarrow>
         if 200 \<le> status \<and> status < 300 then wret text
         else wfail (what @ lit '' returned HTTP '' @ show_nat status)))"

definition JSON_TYPE :: ustr where "JSON_TYPE = lit ''application/json''"

definition list_cmc :: "outside \<Rightarrow> rule_service \<Rightarrow> int \<Rightarrow> nat \<Rightarrow> (ustr \<times> bool) list wire" where
  "list_cmc X s unix_time seed =
     wbind (signed_call X s unix_time seed (lit ''GET'') LIST_PATH None [] (lit ''WAF rule-management list'')) (\<lambda>text.
     case decode_cmc_list X text of
       Inr modules \<Rightarrow> wret modules
     | Inl e \<Rightarrow> wfail (lit ''invalid JSON from the WAF rule-management list endpoint: '' @ e))"

definition cmc_update_json :: "(ustr \<times> bool) list \<Rightarrow> json" where
  "cmc_update_json desired =
     JObject [(lit ''modules'', JObject [(lit ''CMC-Rules'', JObject (map (\<lambda>(n, b). (n, JBool b)) desired))])]"

definition update_cmc :: "outside \<Rightarrow> rule_service \<Rightarrow> int \<Rightarrow> nat \<Rightarrow> (ustr \<times> bool) list \<Rightarrow> cmc_update_outcome wire" where
  "update_cmc X s unix_time seed desired =
     (case to_text (json_of X) (cmc_update_json desired) of
        Inl e \<Rightarrow> wfail (lit ''failed to encode the CMC update body: '' @ e)
      | Inr body \<Rightarrow>
          wbind (signed_call X s unix_time seed (lit ''POST'') UPDATE_PATH (Some JSON_TYPE) body (lit ''WAF rule-management update'')) (\<lambda>text.
          wret (case decode_cmc_outcome X text of Some out \<Rightarrow> out | None \<Rightarrow> default_cmc_outcome)))"

definition view_regex :: "outside \<Rightarrow> rule_service \<Rightarrow> int \<Rightarrow> nat \<Rightarrow> ustr \<Rightarrow> ustr wire" where
  "view_regex X s unix_time seed rule =
     (case to_text (json_of X) (JObject [(lit ''rule_view'', JString rule)]) of
        Inl e \<Rightarrow> wfail (lit ''failed to encode the regex view body: '' @ e)
      | Inr body \<Rightarrow>
          wbind (signed_call X s unix_time seed (lit ''POST'') REGEX_VIEW_PATH (Some JSON_TYPE) body (lit ''WAF regex view'')) (\<lambda>text.
          case decode_regex_view X text of
            Inr content \<Rightarrow> wret content
          | Inl e \<Rightarrow> wfail (lit ''invalid JSON from the WAF regex view endpoint: '' @ e)))"

definition update_regex :: "outside \<Rightarrow> rule_service \<Rightarrow> int \<Rightarrow> nat \<Rightarrow> ustr \<Rightarrow> ustr \<Rightarrow> regex_update_outcome wire" where
  "update_regex X s unix_time seed rule body =
     wbind (signed_call X s unix_time seed (lit ''POST'') (REGEX_UPDATE_PREFIX @ rule) (Some JSON_TYPE) body (lit ''WAF regex update'')) (\<lambda>text.
     wret (case decode_regex_outcome X text of Some out \<Rightarrow> out | None \<Rightarrow> default_regex_outcome))"


section \<open>Well-formed services\<close>

definition service_wf :: "rule_service \<Rightarrow> bool" where
  "service_wf s \<longleftrightarrow>
     client_id s \<noteq> [] \<and> length (client_id s) \<le> 64 \<and> list_all is_client_id_char (client_id s) \<and>
     MAC_KEY_BYTES \<le> length (secret_even s) \<and> MAC_KEY_BYTES \<le> length (secret_odd s) \<and>
     (endpoint s = [] \<or> last (endpoint s) \<noteq> 47)"

lemma decode_secret_length: "decode_secret X e = Some b \<Longrightarrow> MAC_KEY_BYTES \<le> length b"
  by (auto simp: decode_secret_def split: option.splits if_splits)

lemma validate_client_id_Some:
  "validate_client_id c = Some t \<Longrightarrow> t \<noteq> [] \<and> length t \<le> 64 \<and> list_all is_client_id_char t"
  using length_le_utf8_len [of t] by (auto simp: validate_client_id_def Let_def split: if_splits)

lemma trim_end_matches_last: "trim_end_matches p s \<noteq> [] \<Longrightarrow> \<not> p (last (trim_end_matches p s))"
  by (cases "dropWhile p (rev s)") (auto simp: trim_end_matches_def last_rev dest: dropWhile_hd)

lemma with_client_wf:
  assumes "with_client X base cid even_encoded odd_encoded = Some s"
  shows "service_wf s"
proof -
  obtain c ev od where "validate_client_id cid = Some c" "decode_secret X even_encoded = Some ev"
      "decode_secret X odd_encoded = Some od"
    and s: "s = \<lparr>endpoint = trim_end_matches (\<lambda>c. c = 47) base, client_id = c, secret_even = ev, secret_odd = od\<rparr>"
    using assms by (auto simp: with_client_def split: bind_splits)
  then show ?thesis
    using validate_client_id_Some decode_secret_length trim_end_matches_last [of "\<lambda>c. c = 47" base]
    by (auto simp: service_wf_def s)
qed

text \<open>
  Property C32 (type): a client can only be built well-formed. Its id is a token part without delimiters,
  both secrets cover the key, so the key of every time window has its full 64 bytes (the slice that
  takes it never fails), and joining the endpoint with a path gives no doubled slash.
\<close>

theorem built_service_is_well_formed:
  assumes "with_client X base cid even_encoded odd_encoded = Some s"
  shows "service_wf s \<and> (\<forall>step. length (mac_key_for_step s step) = MAC_KEY_BYTES)"
  using with_client_wf [OF assms] by (auto simp: service_wf_def mac_key_for_step_def)

section \<open>A token fits one request\<close>

text \<open>
  What the primitives are documented to do: one of the accepted decoders undoes Base64, which
  writes only letters, digits, dash and underscore; hashes do not collide (in the idealised reading).
\<close>

definition outside_ok :: "outside \<Rightarrow> bool" where
  "outside_ok X \<longleftrightarrow>
     (\<exists>e \<in> set (engines X). \<forall>b. e (url_b64 X b) = Some b) \<and>
     (\<forall>b. list_all is_client_id_char (url_b64 X b)) \<and>
     (\<forall>k x y d. generichash X x k = Some d \<longrightarrow> generichash X y k = Some d \<longrightarrow> x = y)"

definition request_parts_ok :: "ustr \<Rightarrow> ustr \<Rightarrow> ustr \<Rightarrow> bool" where
  "request_parts_ok method path body \<longleftrightarrow>
     list_all is_scalar method \<and> list_all is_scalar path \<and> list_all is_scalar body \<and> 10 \<notin> set method \<and> 10 \<notin> set path"

lemma client_id_char_plain: "is_client_id_char c \<Longrightarrow> is_scalar c \<and> c \<noteq> 10 \<and> c \<noteq> 46"
  by (auto simp: is_client_id_char_def is_scalar_def char_class_defs)

lemma show_int_plain: "c \<in> set (show_int i) \<Longrightarrow> is_scalar c \<and> c \<noteq> 10 \<and> c \<noteq> 46"
  using show_int_set [of c i] by (auto simp: is_scalar_def is_ascii_digit_def)

lemma token_header_inj:
  assumes "list_all is_client_id_char cid" "list_all is_client_id_char n" "list_all is_client_id_char n'"
    and "token_header cid step n tag = token_header cid step' n' tag'"
  shows "step = step' \<and> n = n' \<and> tag = tag'"
proof -
  have no: "46 \<notin> set (show_int i)" for i using show_int_plain by blast
  have "46 \<notin> set n" "46 \<notin> set n'" using assms(2,3) client_id_char_plain by (auto simp: list_all_iff)
  moreover have "show_int step @ 46 # n @ 46 # tag = show_int step' @ 46 # n' @ 46 # tag'"
    using assms(4) by (simp add: token_header_def)
  ultimately show ?thesis by (simp add: append_sep_eq no)
qed

lemma canonical_message_inj:
  assumes "10 \<notin> set m" "10 \<notin> set m'" "10 \<notin> set p" "10 \<notin> set p'"
    and "canonical_message cid step n m p h = canonical_message cid step n m' p' h'"
  shows "m = m' \<and> p = p' \<and> h = h'"
proof -
  have "m @ 10 # p @ 10 # h = m' @ 10 # p' @ 10 # h'" using assms(5) by (simp add: canonical_message_def)
  then have "m = m' \<and> p @ 10 # h = p' @ 10 # h'" by (simp only: append_sep_eq [OF assms(1,2)])
  then show ?thesis by (simp only: append_sep_eq [OF assms(3,4)])
qed

lemma canonical_message_scalar:
  assumes "list_all is_client_id_char cid" "list_all is_client_id_char n" "list_all is_client_id_char h"
    and "list_all is_scalar m" "list_all is_scalar p"
  shows "list_all is_scalar (canonical_message cid step n m p h)"
proof -
  have "list_all is_scalar CANONICAL_DOMAIN" by code_simp
  moreover have "list_all is_scalar (show_int step)" using show_int_plain by (simp add: list_all_iff)
  moreover have "list_all is_client_id_char x \<Longrightarrow> list_all is_scalar x" for x
    using client_id_char_plain by (auto simp: list_all_iff)
  moreover have "is_scalar 10" by (simp add: is_scalar_def)
  ultimately show ?thesis using assms by (simp add: canonical_message_def)
qed

lemma rorschach_tokenD:
  assumes "rorschach_token X s t seed m p b = Inr h"
  obtains hs tag where "generichash X (as_bytes b) None = Some hs"
    and "generichash X (as_bytes (canonical_message (client_id s) (t div STEP_SECONDS) (url_b64 X (random_nonce X seed)) m p
          (url_b64 X hs))) (Some (mac_key_for_step s (t div STEP_SECONDS))) = Some tag"
    and "h = token_header (client_id s) (t div STEP_SECONDS) (url_b64 X (random_nonce X seed)) (url_b64 X tag)"
  using assms by (auto simp: rorschach_token_def Let_def split: option.splits if_splits)

text \<open>
  Property C13 (safety): an \<open>Authorization\<close> header authenticates one request only. If the same service
  produces the same header for two requests, they have the same method, path and body, and were made in
  the same time window with the same nonce.
\<close>

theorem token_fits_one_request:
  assumes "outside_ok X" and "service_wf s"
    and "request_parts_ok m p b" and "request_parts_ok m' p' b'"
    and "rorschach_token X s t seed m p b = Inr h" and "rorschach_token X s t' seed' m' p' b' = Inr h"
  shows "m = m' \<and> p = p' \<and> b = b' \<and> t div STEP_SECONDS = t' div STEP_SECONDS \<and>
    random_nonce X seed = random_nonce X seed'"
proof -
  obtain e where e: "\<And>x. e (url_b64 X x) = Some x" using assms(1) by (auto simp: outside_ok_def)
  have b64_inj: "url_b64 X x = url_b64 X y \<Longrightarrow> x = y" for x y by (metis e option.inject)
  have b64_plain: "list_all is_client_id_char (url_b64 X x)" for x using assms(1) by (simp add: outside_ok_def)
  have hash_inj: "generichash X x k = Some d \<Longrightarrow> generichash X y k = Some d \<Longrightarrow> x = y" for x y k d
    using assms(1) by (auto simp: outside_ok_def)
  have cid: "list_all is_client_id_char (client_id s)" using assms(2) by (simp add: service_wf_def)
  let ?n = "url_b64 X (random_nonce X seed)" and ?n' = "url_b64 X (random_nonce X seed')"
  obtain hs tag where A: "generichash X (as_bytes b) None = Some hs"
    "generichash X (as_bytes (canonical_message (client_id s) (t div STEP_SECONDS) ?n m p (url_b64 X hs)))
       (Some (mac_key_for_step s (t div STEP_SECONDS))) = Some tag"
    "h = token_header (client_id s) (t div STEP_SECONDS) ?n (url_b64 X tag)"
    using rorschach_tokenD [OF assms(5)] by blast
  obtain hs' tag' where B: "generichash X (as_bytes b') None = Some hs'"
    "generichash X (as_bytes (canonical_message (client_id s) (t' div STEP_SECONDS) ?n' m' p' (url_b64 X hs')))
       (Some (mac_key_for_step s (t' div STEP_SECONDS))) = Some tag'"
    "h = token_header (client_id s) (t' div STEP_SECONDS) ?n' (url_b64 X tag')"
    using rorschach_tokenD [OF assms(6)] by blast
  have same: "t div STEP_SECONDS = t' div STEP_SECONDS" "?n = ?n'" "url_b64 X tag = url_b64 X tag'"
    using token_header_inj [OF cid b64_plain b64_plain] A(3) B(3) by metis+
  have scalar: "list_all is_scalar (canonical_message (client_id s) (t div STEP_SECONDS) ?n m p (url_b64 X hs))"
    "list_all is_scalar (canonical_message (client_id s) (t div STEP_SECONDS) ?n m' p' (url_b64 X hs'))"
    using canonical_message_scalar [OF cid b64_plain b64_plain] assms(3,4) by (simp_all add: request_parts_ok_def)
  have "tag = tag'" using same(3) b64_inj by blast
  then have "as_bytes (canonical_message (client_id s) (t div STEP_SECONDS) ?n m p (url_b64 X hs)) =
      as_bytes (canonical_message (client_id s) (t div STEP_SECONDS) ?n m' p' (url_b64 X hs'))"
    using A(2) B(2) same hash_inj by metis
  then have "canonical_message (client_id s) (t div STEP_SECONDS) ?n m p (url_b64 X hs) =
      canonical_message (client_id s) (t div STEP_SECONDS) ?n m' p' (url_b64 X hs')"
    by (rule as_bytes_inj [OF scalar])
  then have parts: "m = m'" "p = p'" "url_b64 X hs = url_b64 X hs'"
    using canonical_message_inj assms(3,4) unfolding request_parts_ok_def by blast+
  then have "as_bytes b = as_bytes b'" using A(1) B(1) b64_inj hash_inj by metis
  then show ?thesis
    using parts same b64_inj assms(3,4) as_bytes_inj unfolding request_parts_ok_def by blast
qed

section \<open>A concrete outside\<close>

text \<open>A toy Base64 with the documented interface, and a hash that is the identity.\<close>

definition toy_b64 :: "bytes \<Rightarrow> ustr" where
  "toy_b64 bs = concat (map (\<lambda>b. show_nat b @ [45]) bs)"

definition toy_unb64 :: "ustr \<Rightarrow> bytes option" where
  "toy_unb64 s = (if s = [] \<or> last s = 45 then Some (map digits_val (butlast (split_on 45 s))) else None)"

lemma toy_split: "split_on 45 (toy_b64 bs) = map show_nat bs @ [[]]"
proof (induction bs)
  case (Cons b bs)
  have "45 \<notin> set (show_nat b)" using show_nat_set [of 45 b] by (auto simp: is_ascii_digit_def)
  then show ?case using Cons by (simp add: toy_b64_def split_on_append)
qed (simp add: toy_b64_def)

lemma toy_unb64_b64: "toy_unb64 (toy_b64 bs) = Some bs"
proof -
  have "toy_b64 bs = [] \<or> last (toy_b64 bs) = 45"
    by (cases bs rule: rev_cases) (auto simp: toy_b64_def)
  then show ?thesis by (simp add: toy_unb64_def toy_split comp_def)
qed

lemma toy_b64_chars: "c \<in> set (toy_b64 bs) \<Longrightarrow> is_client_id_char c"
  using show_nat_set by (auto simp: toy_b64_def is_client_id_char_def is_ascii_alnum_def split: if_splits)

lemma toy_b64_trim: "trim (toy_b64 bs) = toy_b64 bs"
  by (intro trim_fixed_if_none) (auto dest!: toy_b64_chars simp: is_client_id_char_def char_class_defs)

definition sample_outside :: outside where
  "sample_outside = \<lparr>answer_of = (\<lambda>_. Replied 200 []), generichash = (\<lambda>x _. Some x), url_b64 = toy_b64,
     engines = [toy_unb64], random_nonce = (\<lambda>n. [n]), header_value_ok = (\<lambda>_. True), json_of = one_text JNull,
     decode_cmc_list = (\<lambda>_. Inr []), decode_cmc_outcome = (\<lambda>_. None), decode_regex_view = Inr,
     decode_regex_outcome = (\<lambda>_. None)\<rparr>"

lemma sample_outside_ok: "outside_ok sample_outside"
  by (simp add: outside_ok_def sample_outside_def toy_unb64_b64 list_all_iff toy_b64_chars)

definition sample_service :: rule_service where
  "sample_service = \<lparr>endpoint = lit ''http://127.0.0.1:4342'', client_id = lit ''kraken-ui'',
     secret_even = replicate 72 17, secret_odd = replicate 72 34\<rparr>"

theorem built_service_is_well_formed_witness:
  "service_wf sample_service \<and> length (mac_key_for_step sample_service 7) = 64"
proof -
  have "validate_client_id (lit '' kraken-ui'') = Some (lit ''kraken-ui'')"
    "trim_end_matches (\<lambda>c. c = 47) (lit ''http://127.0.0.1:4342/'') = lit ''http://127.0.0.1:4342''"
    by code_simp+
  then have "with_client sample_outside (lit ''http://127.0.0.1:4342/'') (lit '' kraken-ui'')
      (toy_b64 (replicate 72 17)) (toy_b64 (replicate 72 34)) = Some sample_service"
    by (simp add: with_client_def decode_secret_def sample_outside_def sample_service_def toy_b64_trim toy_unb64_b64
        MAC_KEY_BYTES_def)
  from built_service_is_well_formed [OF this] show ?thesis by (simp add: MAC_KEY_BYTES_def)
qed

theorem token_fits_one_request_witness:
  "rorschach_token sample_outside sample_service 900 5 (lit ''GET'') LIST_PATH [] \<noteq>
   rorschach_token sample_outside sample_service 900 5 (lit ''POST'') LIST_PATH []"
proof
  assume same: "rorschach_token sample_outside sample_service 900 5 (lit ''GET'') LIST_PATH [] =
    rorschach_token sample_outside sample_service 900 5 (lit ''POST'') LIST_PATH []"
  have "\<not> isl (rorschach_token sample_outside sample_service 900 5 (lit ''GET'') LIST_PATH [])" by code_simp
  then obtain h where h: "rorschach_token sample_outside sample_service 900 5 (lit ''GET'') LIST_PATH [] = Inr h"
    by (metis isl_def sum.exhaust)
  have wf: "service_wf sample_service" by code_simp
  have "request_parts_ok (lit ''GET'') LIST_PATH []" "request_parts_ok (lit ''POST'') LIST_PATH []" by code_simp+
  from token_fits_one_request [OF sample_outside_ok wf this h h [unfolded same]] show False by simp
qed

end
