(* ===== verification/Handlers.thy ===== *)
theory Handlers
  imports MfaStore LoginThrottle Gcra ClientIp SessionStore View Vulnerability ControlPlane
begin

text \<open>
  What the request handlers of \<open>src/controllers\<close> share: the application state a request sees (database
  world, its session, throttles, clocks, the audit log), handlers as functions that return a value or
  an error and the new state, the session's key-value interface, and the CSRF and input checks of
  \<open>src/security/csrf.rs\<close> and \<open>src/security/sanitize.rs\<close>. The session is the map its crate documents; any
  access may fail, which the fault script of the world decides.
\<close>

section \<open>State and handlers\<close>

text \<open>\<open>id_known\<close>: \<open>Session::id\<close> answers; a session whose id was cycled gets its id when it is saved.\<close>

record session =
  session_id :: nat
  id_known :: bool
  data :: "ustr \<Rightarrow> session_value option"

record audit_event =
  event_ip :: ustr
  event_user :: ustr
  outcome :: ustr

text \<open>An administration event of the audit log: \<open>operator\<close>, \<open>mfa\<close> or \<open>first_time\<close>.\<close>

record operator_event =
  event :: ustr
  action :: ustr
  event_id_user :: int
  event_username :: ustr

text \<open>The other events of the audit log: changes of firewall rules and started updates.\<close>

datatype console_event =
    Cmc_rules_update ustr "ustr list" "ustr list"
  | Regex_rules_update ustr ustr nat
  | Source_update_started ustr

text \<open>
  \<open>waf_calls\<close> are the requests sent to the firewall's control plane; the updater is its status, its flag
  and the number of tasks it has spawned.
\<close>

record app =
  world :: world
  session :: session
  session_db :: store
  throttle :: login_throttle
  monitor :: account_monitor
  login_persistent :: "persistent_limiter option"
  instant :: int
  clock_us :: int
  limiter_faults :: backend_faults
  audit_log :: "audit_event list"
  operator_log :: "operator_event list"
  waf_database :: "vulnerability list option"
  waf_calls :: "waf_call list"
  console_log :: "console_event list"
  update_state :: update_status
  update_running :: bool
  update_tasks :: nat

record auth_env =
  deps_of :: deps
  ammonia_clean :: "ustr \<Rightarrow> ustr"
  trusted_proxy_ips :: "ip_addr list"
  admin_session_time_limit_seconds :: nat

text \<open>The parts of a request the handlers read; \<open>token_verify\<close> is the CSRF crate's comparison
  and \<open>mints_token\<close> whether it can make a token for a page with a form.\<close>

record request =
  peer :: ip_addr
  headers :: header_map
  token_verify :: "ustr \<Rightarrow> bool"
  mints_token :: bool

type_synonym 'a handler = "app \<Rightarrow> (app_error + 'a) \<times> app"

definition hret :: "'a \<Rightarrow> 'a handler" where
  "hret x = (\<lambda>a. (Inr x, a))"

definition hbind :: "'a handler \<Rightarrow> ('a \<Rightarrow> 'b handler) \<Rightarrow> 'b handler" where
  "hbind p f = (\<lambda>a. case p a of (Inr x, a') \<Rightarrow> f x a' | (Inl e, a') \<Rightarrow> (Inl e, a'))"

definition hfail :: "app_error \<Rightarrow> 'a handler" where
  "hfail e = (\<lambda>a. (Inl e, a))"

definition database :: "'a prog \<Rightarrow> 'a handler" where
  "database p = (\<lambda>a. case p (world a) of (r, w) \<Rightarrow> (r, a\<lparr>world := w\<rparr>))"

text \<open>\<open>match p.await { Ok(x) => ..., Err(e) => ... }\<close>\<close>

definition attempt_db :: "'a prog \<Rightarrow> (app_error + 'a) handler" where
  "attempt_db p = (\<lambda>a. case p (world a) of (r, w) \<Rightarrow> (Inr r, a\<lparr>world := w\<rparr>))"

definition update_app :: "(app \<Rightarrow> app) \<Rightarrow> unit handler" where
  "update_app f = (\<lambda>a. (Inr (), f a))"

definition read_app :: "(app \<Rightarrow> 'a) \<Rightarrow> 'a handler" where
  "read_app f = (\<lambda>a. (Inr (f a), a))"

definition now :: "int handler" where
  "now = read_app (\<lambda>a. clock (world a))"

lemma hbind_hret [simp]: "hbind (hret x) f = f x"
  by (rule ext) (simp add: hbind_def hret_def)

lemma hbind_InrD: "hbind p f a = (Inr y, a'') \<Longrightarrow> \<exists>x a'. p a = (Inr x, a') \<and> f x a' = (Inr y, a'')"
  by (auto simp: hbind_def split: prod.splits sum.splits)

section \<open>Session\<close>

definition session_access :: "'a handler \<Rightarrow> 'a handler" where
  "session_access f = (\<lambda>a. case next_fault (world a) of (b, w) \<Rightarrow>
     if b then (Inl Session_error, a\<lparr>world := w\<rparr>) else f (a\<lparr>world := w\<rparr>))"

definition session_insert :: "ustr \<Rightarrow> session_value \<Rightarrow> unit handler" where
  "session_insert key v = session_access (update_app (\<lambda>a.
     a\<lparr>session := (session a)\<lparr>data := (data (session a))(key \<mapsto> v)\<rparr>\<rparr>))"

definition session_remove :: "ustr \<Rightarrow> unit handler" where
  "session_remove key = session_access (update_app (\<lambda>a.
     a\<lparr>session := (session a)\<lparr>data := (data (session a))(key := None)\<rparr>\<rparr>))"

text \<open>\<open>get::<i32>\<close>, \<open>get::<i64>\<close>, \<open>get::<String>\<close>: a value of another shape is an error.\<close>

definition session_int :: "int \<Rightarrow> int \<Rightarrow> ustr \<Rightarrow> int option handler" where
  "session_int lo hi key = session_access (\<lambda>a. case data (session a) key of
     None \<Rightarrow> (Inr None, a)
   | Some (Number i) \<Rightarrow> if lo \<le> i \<and> i \<le> hi then (Inr (Some i), a) else (Inl Session_error, a)
   | Some (Text _) \<Rightarrow> (Inl Session_error, a))"

definition session_i32 :: "ustr \<Rightarrow> int option handler" where
  "session_i32 = session_int (- int i32_max - 1) (int i32_max)"

definition session_i64 :: "ustr \<Rightarrow> int option handler" where
  "session_i64 = session_int i64_min i64_max"

definition session_string :: "ustr \<Rightarrow> ustr option handler" where
  "session_string key = session_access (\<lambda>a. case data (session a) key of
     None \<Rightarrow> (Inr None, a)
   | Some (Text s) \<Rightarrow> (Inr (Some s), a)
   | Some (Number _) \<Rightarrow> (Inl Session_error, a))"

text \<open>\<open>cycle_id\<close> keeps the data under a fresh id; \<open>flush\<close> empties the session.\<close>

definition cycle_id :: "unit handler" where
  "cycle_id = session_access (\<lambda>a.
     (Inr (), a\<lparr>session := (session a)\<lparr>session_id := dice (world a), id_known := False\<rparr>,
        world := (world a)\<lparr>dice := dice (world a) + 1\<rparr>\<rparr>))"

definition flush :: "unit handler" where
  "flush = session_access (\<lambda>a.
     (Inr (), a\<lparr>session := \<lparr>session_id = dice (world a), id_known = False, data = (\<lambda>_. None)\<rparr>,
        world := (world a)\<lparr>dice := dice (world a) + 1\<rparr>\<rparr>))"

text \<open>An operation of the session store called by a handler: its error is a value.\<close>

definition store_call_of :: "'a store_op \<Rightarrow> (store_error + 'a) handler" where
  "store_call_of op = (\<lambda>a. case op (session_db a) of (r, s) \<Rightarrow> (Inr r, a\<lparr>session_db := s\<rparr>))"

text \<open>A query to the findings database, \<open>None\<close> when none is configured.\<close>

definition waf_query :: "(vulnerability list \<Rightarrow> 'a) \<Rightarrow> vulnerability list \<Rightarrow> 'a handler" where
  "waf_query q rs = (\<lambda>a. case next_fault (world a) of (b, w) \<Rightarrow>
     (if b then Inl Db_error else Inr (q rs), a\<lparr>world := w\<rparr>))"

definition render_with_csrf :: "request \<Rightarrow> view \<Rightarrow> response handler" where
  "render_with_csrf req v = (if mints_token req then hret (Rendered v) else hfail Csrf_token_error)"

definition ignore_error :: "unit handler \<Rightarrow> unit handler" where
  "ignore_error h = (\<lambda>a. (Inr (), snd (h a)))"

section \<open>Input checks\<close>

definition is_token_char :: "uchar \<Rightarrow> bool" where
  "is_token_char c \<longleftrightarrow> is_ascii_alnum c \<or> c \<in> {43, 47, 61, 45, 95}"

definition is_well_formed :: "ustr \<Rightarrow> bool" where
  "is_well_formed submitted \<longleftrightarrow>
     submitted \<noteq> [] \<and> utf8_len submitted \<le> 512 \<and> list_all is_token_char submitted"

definition csrf_verify :: "request \<Rightarrow> ustr \<Rightarrow> bool" where
  "csrf_verify req submitted \<longleftrightarrow> is_well_formed submitted \<and> token_verify req submitted"

definition plain_text :: "auth_env \<Rightarrow> ustr \<Rightarrow> ustr" where
  "plain_text E input = trim (ammonia_clean E input)"

definition secret_has_rejected_markup :: "auth_env \<Rightarrow> ustr \<Rightarrow> bool" where
  "secret_has_rejected_markup E input \<longleftrightarrow>
     (60 \<in> set input \<or> 62 \<in> set input) \<and> plain_text E input \<noteq> input"

section \<open>What handlers keep\<close>

definition keeps :: "(app \<Rightarrow> 'b) \<Rightarrow> 'a handler \<Rightarrow> bool" where
  "keeps f h \<longleftrightarrow> (\<forall>a. f (snd (h a)) = f a)"

named_theorems keeps_intros

lemma keepsD: "keeps f h \<Longrightarrow> h a = (r, a') \<Longrightarrow> f a' = f a"
  by (metis keeps_def snd_conv)

lemma hbind_cases:
  assumes "hbind p f a = (r, a'')"
  obtains (fails) e where "p a = (Inl e, a'')" and "r = Inl e"
  | (goes) x a' where "p a = (Inr x, a')" and "f x a' = (r, a'')"
  using assms by (cases "p a") (auto simp: hbind_def split: sum.splits)

lemma keeps_hret [keeps_intros]: "keeps f (hret x)"
  by (simp add: keeps_def hret_def)

lemma keeps_hfail [keeps_intros]: "keeps f (hfail e)"
  by (simp add: keeps_def hfail_def)

lemma keeps_render [keeps_intros]: "keeps f (render_with_csrf req v)"
  by (simp add: render_with_csrf_def keeps_hret keeps_hfail)

lemma keeps_hbind [keeps_intros]: "\<lbrakk>keeps f p; \<And>x. keeps f (g x)\<rbrakk> \<Longrightarrow> keeps f (hbind p g)"
  unfolding keeps_def hbind_def by (auto split: prod.split sum.split) (metis snd_conv)+

lemma keeps_if [keeps_intros]: "\<lbrakk>keeps f p; keeps f q\<rbrakk> \<Longrightarrow> keeps f (if b then p else q)"
  by simp

lemma keeps_option [keeps_intros]:
  "\<lbrakk>keeps f p; \<And>x. keeps f (g x)\<rbrakk> \<Longrightarrow> keeps f (case y of None \<Rightarrow> p | Some x \<Rightarrow> g x)"
  by (cases y) auto

lemma keeps_read [keeps_intros]: "keeps f (read_app g)" "keeps f now"
  by (simp_all add: keeps_def read_app_def now_def)

lemma keeps_update: "(\<And>a. f (g a) = f a) \<Longrightarrow> keeps f (update_app g)"
  by (simp add: keeps_def update_app_def)

lemma keeps_access:
  "\<lbrakk>\<And>a w. tables w = tables (world a) \<Longrightarrow> f (a\<lparr>world := w\<rparr>) = f a; keeps f h\<rbrakk> \<Longrightarrow> keeps f (session_access h)"
  by (auto simp: keeps_def session_access_def split: prod.split dest!: next_fault_tables)

lemma keeps_ignore [keeps_intros]: "keeps f h \<Longrightarrow> keeps f (ignore_error h)"
  by (simp add: keeps_def ignore_error_def)

text \<open>Database programs do not touch the session; session operations do not touch the tables.\<close>

lemma keeps_session_database [keeps_intros]:
  "keeps (\<lambda>a. g (session a)) (database p)" "keeps (\<lambda>a. g (session a)) (attempt_db p)"
  by (simp_all add: keeps_def database_def attempt_db_def split: prod.split)

lemma keeps_database: "(\<And>w. g (tables (snd (p w))) = g (tables w)) \<Longrightarrow> keeps (\<lambda>a. g (tables (world a))) (database p)"
  by (auto simp: keeps_def database_def split: prod.split) (metis snd_conv)

lemma keeps_tables_session [keeps_intros]:
  "keeps (\<lambda>a. g (tables (world a))) (session_insert k v)" "keeps (\<lambda>a. g (tables (world a))) (session_remove k)"
  "keeps (\<lambda>a. g (tables (world a))) (session_i32 k)" "keeps (\<lambda>a. g (tables (world a))) (session_i64 k)"
  "keeps (\<lambda>a. g (tables (world a))) (session_string k)" "keeps (\<lambda>a. g (tables (world a))) cycle_id"
  "keeps (\<lambda>a. g (tables (world a))) flush"
  unfolding session_insert_def session_remove_def session_i32_def session_i64_def session_int_def
    session_string_def cycle_id_def flush_def
  by (rule keeps_access; simp add: keeps_def update_app_def split: option.split session_value.split)+

lemma keeps_session_reads [keeps_intros]:
  "keeps (\<lambda>a. g (session a)) (session_i32 k)" "keeps (\<lambda>a. g (session a)) (session_i64 k)"
  "keeps (\<lambda>a. g (session a)) (session_string k)"
  unfolding session_i32_def session_i64_def session_int_def session_string_def
  by (rule keeps_access; simp add: keeps_def split: option.split session_value.split)+

lemma session_i32_SomeD: "session_i32 k a = (Inr (Some i), a') \<Longrightarrow> data (session a) k = Some (Number i)"
  by (auto simp: session_i32_def session_int_def session_access_def split: prod.splits if_splits
      option.splits session_value.splits)

lemma session_i64_SomeD: "session_i64 k a = (Inr (Some i), a') \<Longrightarrow> data (session a) k = Some (Number i)"
  by (auto simp: session_i64_def session_int_def session_access_def split: prod.splits if_splits
      option.splits session_value.splits)

lemma session_string_SomeD: "session_string k a = (Inr (Some s), a') \<Longrightarrow> data (session a) k = Some (Text s)"
  by (auto simp: session_string_def session_access_def split: prod.splits if_splits
      option.splits session_value.splits)

lemma database_query_InrD:
  "database (query q) a = (Inr x, a') \<Longrightarrow> x = q (tables (world a)) \<and> tables (world a') = tables (world a) \<and>
     session a' = session a \<and> clock (world a') = clock (world a)"
  by (auto simp: database_def split: prod.splits dest!: query_InrD)

lemma access_clock:
  assumes "\<And>a. clock (world (snd (h a))) = clock (world a)"
  shows "clock (world (snd (session_access h a))) = clock (world a)"
proof -
  obtain b w where f: "next_fault (world a) = (b, w)" by fastforce
  then have "clock w = clock (world a)" by (auto simp: next_fault_def split: list.splits)
  then show ?thesis using assms [of "a\<lparr>world := w\<rparr>"] by (simp add: session_access_def f)
qed

end
