(* ===== verification/MfaInterleaving.thy ===== *)
theory MfaInterleaving
  imports MfaStore
begin

text \<open>
  Concurrent logins with a second factor. \<open>verify_login_code\<close> of
  \<open>src/models/operator_mfa_repository.rs\<close> is cut between its SQL statements (the read of the TOTP row,
  the conditional update of its step, the read of the recovery codes, the conditional burn);
  any number of such checks interleave with each other and with every other repository operation. A
  log records what was accepted; no TOTP step and no recovery code is in it twice.
\<close>

datatype mfa_thread =
    Verifying int ustr
  | Spending int int int
  | Trying_codes int ustr
  | Burning int int
  | Answered bool

definition verify_phase :: "deps \<Rightarrow> int \<Rightarrow> ustr \<Rightarrow> mfa_thread prog" where
  "verify_phase D u code =
     bind (confirmed_totp_row u) (\<lambda>row. case row of
       None \<Rightarrow> ret (Trying_codes u code)
     | Some r \<Rightarrow>
         bind (lift_crypto (pc_open D u TOTP_DOMAIN (encrypted_secret r))) (\<lambda>secret.
         bind get_clock (\<lambda>now. case verify_totp_code D now secret code of
           None \<Rightarrow> ret (Trying_codes u code)
         | Some step \<Rightarrow>
             if step \<le> last_used_step r then ret (Answered False)
             else ret (Spending (id_totp r) u step))))"

definition codes_phase :: "deps \<Rightarrow> int \<Rightarrow> ustr \<Rightarrow> mfa_thread prog" where
  "codes_phase D u code =
     (let candidate = normalize_recovery code in
      if candidate = [] then ret (Answered False)
      else bind (query (unused_codes u)) (\<lambda>rows.
        bind (lift_crypto (matching_code D u candidate rows)) (\<lambda>hit. case hit of
          None \<Rightarrow> ret (Answered False)
        | Some i \<Rightarrow> ret (Burning u i))))"

fun advance :: "deps \<Rightarrow> mfa_thread \<Rightarrow> mfa_thread prog" where
  "advance D (Verifying u code) = verify_phase D u code"
| "advance D (Spending i u step) = bind (consume_totp_step i u step) (\<lambda>b. ret (Answered b))"
| "advance D (Trying_codes u code) = codes_phase D u code"
| "advance D (Burning u i) = bind (consume_recovery_code_row D u i) (\<lambda>b. ret (Answered b))"
| "advance D (Answered b) = ret (Answered b)"

fun finish :: "deps \<Rightarrow> nat \<Rightarrow> mfa_thread \<Rightarrow> bool prog" where
  "finish D n (Answered b) = ret b"
| "finish D 0 th = fail Row_disappeared"
| "finish D (Suc n) th = bind (advance D th) (finish D n)"

lemma bind_assoc: "bind (bind p f) g = bind p (\<lambda>x. bind (f x) g)"
  by (rule ext) (simp add: bind_def split: prod.split sum.split)

lemma bind_ret [simp]: "bind (ret x) f = f x" "bind p ret = p"
  by (rule ext, simp add: bind_def ret_def split: prod.split sum.split)+

lemma bind_cong_fun: "(\<And>x. f x = g x) \<Longrightarrow> bind p f = bind p g"
  by (metis ext)

lemma finish_answered [simp]: "finish D n (Answered b) = ret b"
  by (cases n) simp_all

lemma finish_codes: "bind (codes_phase D u code) (finish D (Suc n)) = consume_recovery_code D u code"
  by (auto simp: codes_phase_def consume_recovery_code_def Let_def bind_assoc
      intro!: bind_cong_fun split: option.split)

text \<open>
  The phases are the code's function. Run one after the other without
  interruption, at most three of them answer, and they compute exactly \<open>verify_login_code\<close>: the same
  answer, the same tables, the same errors under every fault.
\<close>

theorem phases_refine_verify_login_code:
  "finish D 3 (Verifying u code) = verify_login_code D u code"
proof -
  have "finish D 3 (Verifying u code) = bind (verify_phase D u code) (finish D (Suc (Suc 0)))"
    by (simp add: numeral_3_eq_3)
  also have "\<dots> = verify_login_code D u code"
    unfolding verify_phase_def verify_login_code_def bind_assoc
    by (auto intro!: bind_cong_fun simp: bind_assoc finish_codes split: option.split)
  finally show ?thesis .
qed

section \<open>The system\<close>

datatype accepted = Totp_step int int | Recovery_code int

record mfa_system =
  mfa_world :: world
  mfa_threads :: "mfa_thread list"
  accepted_log :: "accepted list"

datatype repo_call =
    Begin_enrollment int ustr
  | Confirm_enrollment int ustr
  | Disable_factor int
  | Regenerate_codes int
  | Create_operator ustr ustr ustr ustr
  | Update_operator int ustr ustr ustr "ustr option"
  | Change_password int ustr
  | Delete_operator int
  | Rehash_password int ustr
  | Record_authenticated int
  | Record_reauthenticated int

fun run_repo :: "deps \<Rightarrow> repo_call \<Rightarrow> world \<Rightarrow> world" where
  "run_repo D (Begin_enrollment u label) w = snd (begin_enrollment D u label w)"
| "run_repo D (Confirm_enrollment u code) w = snd (confirm D u code w)"
| "run_repo D (Disable_factor u) w = snd (disable D u w)"
| "run_repo D (Regenerate_codes u) w = snd (regenerate_recovery_codes D u w)"
| "run_repo D (Create_operator n a ty pw) w = snd (create_operator D n a ty pw w)"
| "run_repo D (Update_operator u n a ty pw) w = snd (update_operator D u n a ty pw w)"
| "run_repo D (Change_password u pw) w = snd (update_password D u pw w)"
| "run_repo D (Delete_operator u) w = snd (delete_by_id u w)"
| "run_repo D (Rehash_password u h) w = snd (update_encrypted_password D u h w)"
| "run_repo D (Record_authenticated u) w = snd (record_authenticated D u w)"
| "run_repo D (Record_reauthenticated u) w = snd (record_reauthenticated D u w)"

datatype mfa_event =
    Log_in int ustr
  | Advance nat
  | Repo repo_call
  | Tick int "bool list"

definition accepts :: "mfa_thread \<Rightarrow> mfa_thread \<Rightarrow> accepted list" where
  "accepts th th' = (case (th, th') of
     (Spending i u step, Answered True) \<Rightarrow> [Totp_step i step]
   | (Burning u i, Answered True) \<Rightarrow> [Recovery_code i]
   | _ \<Rightarrow> [])"

text \<open>\<open>Tick\<close> moves the clock and sets the faults of the statements to come.\<close>

definition mfa_step :: "deps \<Rightarrow> mfa_system \<Rightarrow> mfa_event \<Rightarrow> mfa_system option" where
  "mfa_step D st ev = (case ev of
     Log_in u code \<Rightarrow> Some (st\<lparr>mfa_threads := mfa_threads st @ [Verifying u code]\<rparr>)
   | Advance i \<Rightarrow>
       if i < length (mfa_threads st) then
         (case advance D (mfa_threads st ! i) (mfa_world st) of
            (Inl e, w) \<Rightarrow> Some (st\<lparr>mfa_world := w, mfa_threads := (mfa_threads st)[i := Answered False]\<rparr>)
          | (Inr th, w) \<Rightarrow> Some (st\<lparr>mfa_world := w, mfa_threads := (mfa_threads st)[i := th],
              accepted_log := accepted_log st @ accepts (mfa_threads st ! i) th\<rparr>))
       else None
   | Repo c \<Rightarrow> Some (st\<lparr>mfa_world := run_repo D c (mfa_world st)\<rparr>)
   | Tick now fs \<Rightarrow> Some (st\<lparr>mfa_world := (mfa_world st)\<lparr>clock := now, faults := fs\<rparr>\<rparr>))"

section \<open>Invariant\<close>

text \<open>
  An accepted step is covered by its row (confirmed, with at least that step used) or the row is gone
  for good; an accepted recovery code is marked used or gone.
\<close>

fun covered :: "tables \<Rightarrow> accepted \<Rightarrow> bool" where
  "covered t (Totp_step i step) \<longleftrightarrow> i \<le> totp_seq t \<and>
     (case row_at id_totp i (totps t) of None \<Rightarrow> True | Some r \<Rightarrow> confirmed r = 1 \<and> step \<le> last_used_step r)"
| "covered t (Recovery_code i) \<longleftrightarrow> i \<le> code_seq t \<and>
     (case row_at id_code i (codes t) of None \<Rightarrow> True | Some r \<Rightarrow> used r \<noteq> 0)"

fun after :: "accepted \<Rightarrow> accepted \<Rightarrow> bool" where
  "after (Totp_step i s) (Totp_step j s') \<longleftrightarrow> (i = j \<longrightarrow> s < s')"
| "after (Recovery_code i) (Recovery_code j) \<longleftrightarrow> i \<noteq> j"
| "after _ _ \<longleftrightarrow> True"

definition log_inv :: "mfa_system \<Rightarrow> bool" where
  "log_inv st \<longleftrightarrow> tables_ok (tables (mfa_world st)) \<and> sorted_wrt after (accepted_log st) \<and>
     (\<forall>a\<in>set (accepted_log st). covered (tables (mfa_world st)) a)"

lemma covered_moves:
  assumes "keeps_uses t t'" and "covered t a"
  shows "covered t' a"
proof (cases a)
  case (Totp_step i s)
  note moves = assms(1) [unfolded keeps_uses_def table_moves_def, THEN conjunct1]
  show ?thesis
  proof (cases "row_at id_totp i (totps t')")
    case None
    then show ?thesis using assms(2) moves by (auto simp: Totp_step)
  next
    case (Some r')
    moreover from this obtain r where "row_at id_totp i (totps t) = Some r"
      using assms(2) moves Totp_step by (cases "row_at id_totp i (totps t)") auto
    moreover from calculation have "totp_spends r r'" using moves by blast
    moreover have "i \<le> totp_seq t'" using assms(2) moves by (simp add: Totp_step)
    ultimately show ?thesis using assms(2) by (auto simp: Totp_step totp_spends_def)
  qed
next
  case (Recovery_code i)
  note moves = assms(1) [unfolded keeps_uses_def table_moves_def, THEN conjunct2]
  show ?thesis
  proof (cases "row_at id_code i (codes t')")
    case None
    then show ?thesis using assms(2) moves by (auto simp: Recovery_code)
  next
    case (Some r')
    moreover from this obtain r where "row_at id_code i (codes t) = Some r"
      using assms(2) moves Recovery_code by (cases "row_at id_code i (codes t)") auto
    moreover from calculation have "code_spends r r'" using moves by blast
    moreover have "i \<le> code_seq t'" using assms(2) moves by (simp add: Recovery_code)
    ultimately show ?thesis using assms(2) by (auto simp: Recovery_code code_spends_def)
  qed
qed

lemma run_repo_advances:
  assumes "tables_ok (tables w)"
  shows "tables_ok (tables (run_repo D c w)) \<and> keeps_epochs (tables w) (tables (run_repo D c w)) \<and>
    keeps_uses (tables w) (tables (run_repo D c w))"
  using assms advance_programs unfolding relates_def advances_def by (cases c) simp_all

lemma advance_advances: "relates advances (advance D th)"
  by (cases th) (auto simp: verify_phase_def codes_phase_def Let_def
      intro!: relates_intros advances_good advance_programs)


lemma spending_accepted:
  assumes "advance D (Spending i u step) w = (Inr (Answered True), w')" and "tables_ok (tables w)"
  shows "\<exists>r r'. row_at id_totp i (totps (tables w)) = Some r \<and> confirmed r = 1 \<and> last_used_step r < step \<and>
    row_at id_totp i (totps (tables w')) = Some r' \<and> confirmed r' = 1 \<and> last_used_step r' = step"
proof -
  have "use_step i u step (tables w) = Some (1, tables w')"
    using assms(1) unfolding advance.simps consume_totp_step_def
    by (auto dest!: bind_InrD execute_InrD simp: ret_def)
  then obtain hit where hit: "hit = (\<lambda>r. id_totp r = i \<and> totp_user r = u \<and> confirmed r = 1 \<and> last_used_step r < step)"
    and n: "affected hit (totps (tables w)) = 1"
    and t': "tables w' = (tables w)\<lparr>totps := update_where hit (last_used_step_update (\<lambda>_. step)) (totps (tables w))\<rparr>"
    by (simp add: use_step_def Let_def)
  obtain r where r: "r \<in> set (totps (tables w))" "hit r" using affected_pos [OF n] by blast
  have at: "row_at id_totp i (totps (tables w)) = Some r"
    using row_at_unique [OF tables_okD(2) [OF assms(2)] r(1)] r(2) by (simp add: hit)
  then have "row_at id_totp i (totps (tables w')) = Some (r\<lparr>last_used_step := step\<rparr>)"
    using r(2) find_update_where [of id_totp "last_used_step_update (\<lambda>_. step)" i hit "totps (tables w)"]
    by (simp add: t' row_at_def)
  then show ?thesis using at r(2) by (auto simp: hit)
qed

lemma burning_accepted:
  assumes "advance D (Burning u i) w = (Inr (Answered True), w')" and "tables_ok (tables w)"
  shows "\<exists>r r'. row_at id_code i (codes (tables w)) = Some r \<and> used r = 0 \<and>
    row_at id_code i (codes (tables w')) = Some r' \<and> used r' \<noteq> 0"
proof -
  have "\<exists>stamp. burn_code u i stamp (tables w) = Some (1, tables w')"
    using assms(1) unfolding advance.simps consume_recovery_code_row_def bind_assoc
    by (auto dest!: bind_InrD execute_InrD simp: ret_def current_timestamp_def)
  then obtain stamp where burn: "burn_code u i stamp (tables w) = Some (1, tables w')" by blast
  then obtain hit where hit: "hit = (\<lambda>r. id_code r = i \<and> code_user r = u \<and> used r = 0)"
    and n: "affected hit (codes (tables w)) = 1"
    and t': "tables w' = (tables w)\<lparr>codes := update_where hit (\<lambda>r. r\<lparr>used := 1, used_at := Some stamp\<rparr>) (codes (tables w))\<rparr>"
    by (simp add: burn_code_def Let_def)
  obtain r where r: "r \<in> set (codes (tables w))" "hit r" using affected_pos [OF n] by blast
  have at: "row_at id_code i (codes (tables w)) = Some r"
    using row_at_unique [OF tables_okD(3) [OF assms(2)] r(1)] r(2) by (simp add: hit)
  then have "row_at id_code i (codes (tables w')) = Some (r\<lparr>used := 1, used_at := Some stamp\<rparr>)"
    using r(2) find_update_where [of id_code "\<lambda>r. r\<lparr>used := 1, used_at := Some stamp\<rparr>" i hit "codes (tables w)"]
    by (simp add: t' row_at_def)
  then show ?thesis using at r(2) by (auto simp: hit)
qed

lemma accepted_after:
  assumes "advance D th w = (Inr th', w')" and "tables_ok (tables w)" and "accepts th th' = [a]"
  shows "(\<forall>b. covered (tables w) b \<longrightarrow> after b a) \<and> covered (tables w') a"
proof -
  have ok': "tables_ok (tables w')"
    using relatesD [OF advance_advances assms(1)] assms(2) by (simp add: advances_def)
  consider i u step where "th = Spending i u step" "th' = Answered True" "a = Totp_step i step"
    | u i where "th = Burning u i" "th' = Answered True" "a = Recovery_code i"
    using assms(3) by (auto simp: accepts_def split: mfa_thread.splits bool.splits)
  then show ?thesis
  proof cases
    case (1 i u step)
    obtain r r' where r: "row_at id_totp i (totps (tables w)) = Some r" "last_used_step r < step"
      and r': "row_at id_totp i (totps (tables w')) = Some r'" "confirmed r' = 1" "last_used_step r' = step"
      using spending_accepted assms(1,2) 1 by blast
    have "i \<le> totp_seq (tables w')"
      using row_at_SomeD [OF r'(1)] tables_okD(4) [OF ok'] by auto
    moreover have "after b a" if "covered (tables w) b" for b
      using that r by (cases b) (auto simp: 1)
    ultimately show ?thesis using r' by (simp add: 1)
  next
    case (2 u i)
    obtain r r' where r: "row_at id_code i (codes (tables w)) = Some r" "used r = 0"
      and r': "row_at id_code i (codes (tables w')) = Some r'" "used r' \<noteq> 0"
      using burning_accepted assms(1,2) 2 by blast
    have "i \<le> code_seq (tables w')"
      using row_at_SomeD [OF r'(1)] tables_okD(5) [OF ok'] by auto
    moreover have "after b a" if "covered (tables w) b" for b
      using that r by (cases b) (auto simp: 2)
    ultimately show ?thesis using r' by (simp add: 2)
  qed
qed

lemma accepts_short: "accepts th th' = [] \<or> (\<exists>a. accepts th th' = [a])"
  by (auto simp: accepts_def split: mfa_thread.split bool.split)

lemma mfa_step_inv:
  assumes "log_inv st" and "mfa_step D st ev = Some st'"
  shows "log_inv st'"
proof -
  let ?w = "mfa_world st"
  have ok: "tables_ok (tables ?w)" and sorted: "sorted_wrt after (accepted_log st)"
    and cov: "\<And>a. a \<in> set (accepted_log st) \<Longrightarrow> covered (tables ?w) a"
    using assms(1) by (auto simp: log_inv_def)
  show ?thesis
  proof (cases ev)
    case (Advance i)
    obtain res w' where adv: "advance D (mfa_threads st ! i) ?w = (res, w')" by fastforce
    have ok': "tables_ok (tables w')" and moves: "keeps_uses (tables ?w) (tables w')"
      using relatesD [OF advance_advances adv] ok by (auto simp: advances_def)
    have cov': "covered (tables w') a" if "a \<in> set (accepted_log st)" for a
      by (rule covered_moves [OF moves cov [OF that]])
    show ?thesis
    proof (cases res)
      case (Inl e)
      then show ?thesis using assms(2) Advance adv ok' cov' sorted
        by (auto simp: mfa_step_def log_inv_def split: if_splits)
    next
      case (Inr th')
      then have st': "accepted_log st' = accepted_log st @ accepts (mfa_threads st ! i) th'" "mfa_world st' = w'"
        using assms(2) Advance adv by (auto simp: mfa_step_def split: if_splits)
      show ?thesis
      proof (cases "accepts (mfa_threads st ! i) th' = []")
        case True
        then show ?thesis using st' ok' cov' sorted by (simp add: log_inv_def)
      next
        case False
        then obtain a where a: "accepts (mfa_threads st ! i) th' = [a]" using accepts_short by blast
        from accepted_after [OF adv [unfolded Inr] ok a] show ?thesis
          using st' ok' cov' sorted cov a by (auto simp: log_inv_def sorted_wrt_append)
      qed
    qed
  next
    case (Repo c)
    then have "mfa_world st' = run_repo D c ?w" "accepted_log st' = accepted_log st"
      using assms(2) by (auto simp: mfa_step_def)
    then show ?thesis
      using run_repo_advances [OF ok, of D c] covered_moves cov sorted by (auto simp: log_inv_def)
  qed (use assms in \<open>auto simp: mfa_step_def log_inv_def\<close>)
qed

interpretation mi: invariant_system "mfa_step D" log_inv for D
  by unfold_locales (rule mfa_step_inv)

section \<open>No replay\<close>

definition mfa_start :: "world \<Rightarrow> mfa_system" where
  "mfa_start w = \<lparr>mfa_world = w, mfa_threads = [], accepted_log = []\<rparr>"

lemma run_log_inv:
  assumes "tables_ok (tables w)" and "run_events (mfa_step D) (mfa_start w) es = Some st"
  shows "log_inv st"
  by (rule mi.run_inv [OF assms(2)]) (simp add: mfa_start_def log_inv_def assms(1))

lemma sorted_after_distinct: "sorted_wrt after xs \<Longrightarrow> distinct xs"
proof (induction xs)
  case (Cons a xs)
  have "\<not> after a a" by (cases a) simp_all
  then show ?case using Cons by auto
qed simp

text \<open>
  Property C1 (safety): however logins with a second factor interleave with each other, with
  enrollment, confirmation, removal, code regeneration, account changes and deletion, and whatever
  statements fail, no TOTP step and no recovery code is accepted twice; the accepted steps of one
  enrollment even grow strictly, so an older code of the skew window never works after a newer one.
\<close>

theorem no_second_factor_replay:
  assumes "tables_ok (tables w)" and "run_events (mfa_step D) (mfa_start w) es = Some st"
  shows "distinct (accepted_log st) \<and>
    sorted_wrt (\<lambda>a b. \<forall>i s s'. a = Totp_step i s \<longrightarrow> b = Totp_step i s' \<longrightarrow> s < s') (accepted_log st)"
proof
  have sorted: "sorted_wrt after (accepted_log st)"
    using run_log_inv [OF assms] by (simp add: log_inv_def)
  then show "distinct (accepted_log st)" by (rule sorted_after_distinct)
  show "sorted_wrt (\<lambda>a b. \<forall>i s s'. a = Totp_step i s \<longrightarrow> b = Totp_step i s' \<longrightarrow> s < s') (accepted_log st)"
    by (rule sorted_wrt_mono_rel [OF _ sorted]) auto
qed

definition sample_operator :: operator_row where
  "sample_operator = \<lparr>id_user = 1, username = lit ''ann'', email = lit ''ann@example.org'',
     operator_type = lit ''admin'', encrypted_password_hash = lit ''pw'', mfa_enabled = 1, authz_version = 3,
     authenticated_at = None, reauthenticated_at = None, created_at = [], updated_at = []\<rparr>"

definition sample_totp :: totp_row where
  "sample_totp = \<lparr>id_totp = 4, totp_user = 1, encrypted_secret = lit ''SECRET'', confirmed = 1,
     totp_created_at = [], confirmed_at = None, last_used_step = 1\<rparr>"

definition sample_world :: world where
  "sample_world = \<lparr>tables = \<lparr>operators = [sample_operator], operator_seq = 1, totps = [sample_totp],
     totp_seq = 4, codes = [], code_seq = 0\<rparr>, faults = [], clock = 65, dice = 0\<rparr>"

lemma sample_tables_ok: "tables_ok (tables sample_world)"
  by (simp add: sample_world_def tables_ok_def operators_ok_def factors_ok_def operator_ids_def
      sample_operator_def sample_totp_def role_allowed_def parse_role_def)

definition double_spend :: "mfa_event list" where
  "double_spend = [Log_in 1 (lit ''000002''), Log_in 1 (lit ''000002''), Advance 0, Advance 1, Advance 0, Advance 1]"

theorem no_second_factor_replay_witness:
  "\<exists>st. run_events (mfa_step sample_deps) (mfa_start sample_world) double_spend = Some st \<and>
     distinct (accepted_log st) \<and> accepted_log st = [Totp_step 4 2] \<and>
     mfa_threads st = [Answered True, Answered False]"
proof -
  have "map_option (\<lambda>st. (accepted_log st, mfa_threads st))
      (run_events (mfa_step sample_deps) (mfa_start sample_world) double_spend) =
      Some ([Totp_step 4 2], [Answered True, Answered False])" by code_simp
  then obtain st where st: "run_events (mfa_step sample_deps) (mfa_start sample_world) double_spend = Some st"
    "accepted_log st = [Totp_step 4 2]" "mfa_threads st = [Answered True, Answered False]" by auto
  show ?thesis using st no_second_factor_replay [OF sample_tables_ok st(1)] by blast
qed

end
