(* ===== verification/Auth.thy ===== *)
theory Auth
  imports Handlers MfaInterleaving
begin

text \<open>
  Sign-in, \<open>src/controllers/auth.rs\<close>, and step-up, \<open>src/controllers/step_up.rs\<close>: the login form, the
  second-factor challenge, what a session carries, and how every guarded request checks it. The lemmas
  show what a login needs, that failures look alike, and that a session never outlives the
  privileges it was made with.
\<close>

section \<open>Session keys\<close>

definition AUTHENTICATED_USER_ID :: ustr where "AUTHENTICATED_USER_ID = lit ''authenticated_user_id''"
definition AUTHENTICATED_USERNAME :: ustr where "AUTHENTICATED_USERNAME = lit ''authenticated_username''"
definition AUTHENTICATED_OPERATOR_TYPE :: ustr where
  "AUTHENTICATED_OPERATOR_TYPE = lit ''authenticated_operator_type''"
definition AUTHENTICATED_AUTHZ_VERSION :: ustr where
  "AUTHENTICATED_AUTHZ_VERSION = lit ''authenticated_authz_version''"
definition AUTHENTICATED_AT :: ustr where "AUTHENTICATED_AT = lit ''authenticated_at''"
definition REAUTHENTICATED_AT :: ustr where "REAUTHENTICATED_AT = lit ''reauthenticated_at''"
definition SESSION_ROTATED_AT :: ustr where "SESSION_ROTATED_AT = lit ''session_rotated_at''"
definition SESSION_ROTATION_INTERVAL_SECONDS :: int where "SESSION_ROTATION_INTERVAL_SECONDS = 15 * 60"
definition STEP_UP_FRESHNESS_SECONDS :: int where "STEP_UP_FRESHNESS_SECONDS = 5 * 60"
definition MFA_PENDING_USER_ID :: ustr where "MFA_PENDING_USER_ID = lit ''mfa_pending_user_id''"
definition MFA_PENDING_AT :: ustr where "MFA_PENDING_AT = lit ''mfa_pending_at''"
definition MFA_PENDING_TTL_SECONDS :: int where "MFA_PENDING_TTL_SECONDS = 5 * 60"

lemmas session_keys =
  AUTHENTICATED_USER_ID_def AUTHENTICATED_USERNAME_def AUTHENTICATED_OPERATOR_TYPE_def
  AUTHENTICATED_AUTHZ_VERSION_def AUTHENTICATED_AT_def REAUTHENTICATED_AT_def SESSION_ROTATED_AT_def
  MFA_PENDING_USER_ID_def MFA_PENDING_AT_def

section \<open>Session contents\<close>

definition set_session_timestamp :: "ustr \<Rightarrow> int \<Rightarrow> unit handler" where
  "set_session_timestamp key t = session_insert key (Number t)"

definition session_timestamp :: "ustr \<Rightarrow> int option handler" where
  "session_timestamp key = session_i64 key"

definition authenticated_user_id :: "int option handler" where
  "authenticated_user_id = session_i32 AUTHENTICATED_USER_ID"

definition authenticated_operator_type :: "ustr option handler" where
  "authenticated_operator_type = session_string AUTHENTICATED_OPERATOR_TYPE"

definition authenticated_authz_version :: "int option handler" where
  "authenticated_authz_version = session_i64 AUTHENTICATED_AUTHZ_VERSION"

definition authenticated_role :: "operator_role option handler" where
  "authenticated_role = hbind authenticated_operator_type (\<lambda>ty.
     hret (case ty of None \<Rightarrow> None | Some s \<Rightarrow> parse_role s))"

definition authenticated_username :: "ustr option handler" where
  "authenticated_username = (\<lambda>a. case session_string AUTHENTICATED_USERNAME a of
     (Inr x, a') \<Rightarrow> (Inr x, a') | (Inl _, a') \<Rightarrow> (Inr None, a'))"

definition sync_session_identity :: "auth_env \<Rightarrow> operator_row \<Rightarrow> unit handler" where
  "sync_session_identity E r =
     hbind (session_insert AUTHENTICATED_USER_ID (Number (id_user r))) (\<lambda>_.
     hbind (session_insert AUTHENTICATED_USERNAME (Text (plain_text E (username r)))) (\<lambda>_.
     hbind (session_insert AUTHENTICATED_OPERATOR_TYPE (Text (plain_text E (operator_type r)))) (\<lambda>_.
     session_insert AUTHENTICATED_AUTHZ_VERSION (Number (authz_version r)))))"

definition refresh_authenticated_session :: "auth_env \<Rightarrow> operator_row \<Rightarrow> unit handler" where
  "refresh_authenticated_session E r = sync_session_identity E r"

definition establish_session :: "auth_env \<Rightarrow> operator_row \<Rightarrow> unit handler" where
  "establish_session E r =
     hbind now (\<lambda>t.
     hbind cycle_id (\<lambda>_.
     hbind (sync_session_identity E r) (\<lambda>_.
     hbind (set_session_timestamp AUTHENTICATED_AT t) (\<lambda>_.
     hbind (set_session_timestamp REAUTHENTICATED_AT t) (\<lambda>_.
     set_session_timestamp SESSION_ROTATED_AT t)))))"

definition mark_reauthenticated :: "int handler" where
  "mark_reauthenticated = hbind now (\<lambda>t. hbind (set_session_timestamp REAUTHENTICATED_AT t) (\<lambda>_. hret t))"

definition reauthenticated_within :: "int \<Rightarrow> bool handler" where
  "reauthenticated_within max_age =
     hbind (session_timestamp REAUTHENTICATED_AT) (\<lambda>at. case at of
       None \<Rightarrow> hret False
     | Some since \<Rightarrow> hbind now (\<lambda>t. hret (sat_i64 (t - since) \<le> max_age)))"

definition clear_mfa_pending :: "unit handler" where
  "clear_mfa_pending = hbind (session_remove MFA_PENDING_USER_ID) (\<lambda>_. session_remove MFA_PENDING_AT)"

definition mfa_pending_user_id :: "int option handler" where
  "mfa_pending_user_id =
     hbind (session_i32 MFA_PENDING_USER_ID) (\<lambda>pending. case pending of
       None \<Rightarrow> hret None
     | Some u \<Rightarrow>
         hbind (session_i64 MFA_PENDING_AT) (\<lambda>at.
         let started = (case at of None \<Rightarrow> 0 | Some t \<Rightarrow> t) in
         hbind now (\<lambda>t.
         if started = 0 \<or> MFA_PENDING_TTL_SECONDS < sat_i64 (t - started)
         then hbind clear_mfa_pending (\<lambda>_. hret None)
         else hret (Some u))))"

section \<open>The check of every guarded request\<close>

definition give_up :: "operator_role option handler" where
  "give_up = hbind (ignore_error flush) (\<lambda>_. hret None)"

definition rotate_session_id_if_due :: "int \<Rightarrow> unit handler" where
  "rotate_session_id_if_due t =
     hbind (session_timestamp SESSION_ROTATED_AT) (\<lambda>at. case at of
       None \<Rightarrow> set_session_timestamp SESSION_ROTATED_AT t
     | Some rotated \<Rightarrow>
         if sat_i64 (t - rotated) < SESSION_ROTATION_INTERVAL_SECONDS then hret ()
         else hbind cycle_id (\<lambda>_. set_session_timestamp SESSION_ROTATED_AT t))"

definition absolute_limit :: "auth_env \<Rightarrow> int" where
  "absolute_limit E = (let n = int (admin_session_time_limit_seconds E) in if n \<le> i64_max then n else i64_max)"

definition authorized_role :: "auth_env \<Rightarrow> operator_role option handler" where
  "authorized_role E =
     hbind authenticated_user_id (\<lambda>user. case user of
       None \<Rightarrow> hret None
     | Some u \<Rightarrow>
     hbind authenticated_role (\<lambda>role. case role of
       None \<Rightarrow> give_up
     | Some session_role \<Rightarrow>
     hbind authenticated_authz_version (\<lambda>version. case version of
       None \<Rightarrow> give_up
     | Some session_version \<Rightarrow>
     hbind (session_timestamp AUTHENTICATED_AT) (\<lambda>at. case at of
       None \<Rightarrow> give_up
     | Some since \<Rightarrow>
     hbind now (\<lambda>t.
     if absolute_limit E \<le> sat_i64 (t - since) then give_up
     else
     hbind (database (find_by_id u)) (\<lambda>found. case found of
       None \<Rightarrow> give_up
     | Some row \<Rightarrow> (case parse_role (operator_type row) of
         None \<Rightarrow> give_up
       | Some current \<Rightarrow>
           if current \<noteq> session_role \<or> authz_version row \<noteq> session_version then give_up
           else hbind (rotate_session_id_if_due t) (\<lambda>_. hret (Some current)))))))))"

definition is_admin :: "bool handler" where
  "is_admin = hbind authenticated_role (\<lambda>r. hret (case r of None \<Rightarrow> False | Some r \<Rightarrow> can_administer r))"

definition is_auditor :: "bool handler" where
  "is_auditor = hbind authenticated_role (\<lambda>r. hret (r = Some Auditor))"

section \<open>Throttles and audit\<close>

definition audit_login :: "ustr \<Rightarrow> ustr \<Rightarrow> ustr \<Rightarrow> unit handler" where
  "audit_login ip user what = update_app (\<lambda>a.
     a\<lparr>audit_log := audit_log a @ [\<lparr>event_ip = ip, event_user = user, outcome = what\<rparr>]\<rparr>)"

definition locked_for :: "ustr \<Rightarrow> int option handler" where
  "locked_for key = (\<lambda>a. case locked_for_at (throttle a) key (instant a) of
     (r, th) \<Rightarrow> (Inr r, a\<lparr>throttle := th\<rparr>))"

definition record_failure :: "ustr \<Rightarrow> unit handler" where
  "record_failure key = update_app (\<lambda>a.
     a\<lparr>throttle := snd (record_failure_at (throttle a) key (instant a))\<rparr>)"

definition clear_failures :: "ustr \<Rightarrow> unit handler" where
  "clear_failures key = update_app (\<lambda>a. a\<lparr>throttle := record_success (throttle a) key\<rparr>)"

definition note_account_failure :: "ustr \<Rightarrow> bool handler" where
  "note_account_failure user = (\<lambda>a. case note_failure_at (monitor a) user (instant a) of
     (alert, m) \<Rightarrow> (Inr alert, a\<lparr>monitor := m\<rparr>))"

definition register_login_failure :: "ustr \<Rightarrow> ustr \<Rightarrow> ustr \<Rightarrow> ustr \<Rightarrow> unit handler" where
  "register_login_failure ip_key ip_user_key user client_ip =
     hbind (record_failure ip_key) (\<lambda>_.
     hbind (record_failure ip_user_key) (\<lambda>_.
     if user = [] then hret ()
     else hbind (note_account_failure user) (\<lambda>alert.
       if alert then audit_login client_ip user (lit ''account_guessing_suspected'') else hret ())))"

definition persistent_login_retry_after :: "ustr \<Rightarrow> int option handler" where
  "persistent_login_retry_after key = (\<lambda>a. case login_persistent a of
     None \<Rightarrow> (Inr None, a)
   | Some lim \<Rightarrow> (case persistent_check lim key (clock_us a) (limiter_faults a) of
       (d, lim') \<Rightarrow> (Inr (if allowed d then None else Some (retry_after d)), a\<lparr>login_persistent := Some lim'\<rparr>)))"

text \<open>\<open>locked_login_response\<close>: whole seconds, rounded up to minutes, at least one.\<close>

definition minutes_left :: "int \<Rightarrow> nat" where
  "minutes_left secs = max 1 (nat ((secs + 59) div 60))"

definition locked_message :: "int \<Rightarrow> ustr" where
  "locked_message secs = lit ''Too many attempts. Try again in about '' @ show_nat (minutes_left secs) @
     lit '' minute(s).''"

definition locked_login_response :: "int \<Rightarrow> response" where
  "locked_login_response secs = Page Login_page (locked_message secs)"

definition invalid_login_response :: response where
  "invalid_login_response = Page Login_page (lit ''Invalid credentials'')"

definition locked_mfa_response :: "int \<Rightarrow> response" where
  "locked_mfa_response secs = Page Mfa_challenge (locked_message secs)"

definition csrf_error_response :: response where
  "csrf_error_response = Page Csrf_error []"

definition is_console_role :: "ustr \<Rightarrow> bool" where
  "is_console_role ty = (case parse_role ty of None \<Rightarrow> False | Some r \<Rightarrow> can_use_console r)"

definition ip_key_of :: "ustr \<Rightarrow> ustr" where
  "ip_key_of ip = lit ''ip:'' @ ip"

definition ip_user_key_of :: "ustr \<Rightarrow> ustr \<Rightarrow> ustr" where
  "ip_user_key_of ip user = lit ''ip:'' @ ip @ lit ''|user:'' @ user"

text \<open>\<open>spawn_verify\<close> and \<open>spawn_dummy\<close> on the blocking pool.\<close>

definition spawn_verify :: "auth_env \<Rightarrow> operator_row \<Rightarrow> ustr \<Rightarrow> password_verification prog" where
  "spawn_verify E r password = bind roll (\<lambda>seed.
     lift_crypto (pc_verify (deps_of E) seed (id_user r) (encrypted_password_hash r) password))"

definition spawn_dummy :: "unit prog" where
  "spawn_dummy = bind roll (\<lambda>_. ret ())"

section \<open>Login\<close>

text \<open>The tail of \<open>login_submit\<close> once the password is right: two factors, or a session.\<close>

definition finish_login :: "auth_env \<Rightarrow> ustr \<Rightarrow> ustr \<Rightarrow> operator_row \<Rightarrow> response handler" where
  "finish_login E client_ip user row =
     hbind (clear_failures (ip_key_of client_ip)) (\<lambda>_.
     hbind (clear_failures (ip_user_key_of client_ip user)) (\<lambda>_.
     hbind (database (is_enabled (id_user row))) (\<lambda>two_factor.
     if two_factor then
       hbind cycle_id (\<lambda>_.
       hbind (session_insert MFA_PENDING_USER_ID (Number (id_user row))) (\<lambda>_.
       hbind now (\<lambda>t.
       hbind (session_insert MFA_PENDING_AT (Number t)) (\<lambda>_.
       hbind (audit_login client_ip user (lit ''password_ok_mfa_required'')) (\<lambda>_.
       hret (Redirect (lit ''/kraken_ui/auth/mfa_challenge'')))))))
     else
       hbind (database (record_authenticated (deps_of E) (id_user row))) (\<lambda>_.
       hbind (establish_session E row) (\<lambda>_.
       hbind (audit_login client_ip user (lit ''success'')) (\<lambda>_.
       hret (Redirect (lit ''/kraken_ui/auth/admin_panel''))))))))"

definition refuse_login :: "ustr \<Rightarrow> ustr \<Rightarrow> ustr \<Rightarrow> response handler" where
  "refuse_login client_ip user why =
     hbind (register_login_failure (ip_key_of client_ip) (ip_user_key_of client_ip user) user client_ip) (\<lambda>_.
     hbind (audit_login client_ip user why) (\<lambda>_. hret invalid_login_response))"

text \<open>The credential check, between the throttles and the tail.\<close>

definition check_credentials :: "auth_env \<Rightarrow> ustr \<Rightarrow> ustr \<Rightarrow> ustr \<Rightarrow> response handler" where
  "check_credentials E client_ip user password =
     (if 128 < utf8_len user \<or> 256 < utf8_len password \<or> secret_has_rejected_markup E password
      then refuse_login client_ip user (lit ''invalid_input'')
      else hbind (database (find_by_username user)) (\<lambda>found. case found of
        None \<Rightarrow> hbind (database spawn_dummy) (\<lambda>_. refuse_login client_ip user (lit ''unknown_user''))
      | Some row \<Rightarrow>
          hbind (attempt_db (spawn_verify E row password)) (\<lambda>result. case result of
            Inl _ \<Rightarrow> refuse_login client_ip user (lit ''crypto_error'')
          | Inr v \<Rightarrow>
              if \<not> valid v then refuse_login client_ip user (lit ''bad_password'')
              else hbind (case replacement_record v of
                  None \<Rightarrow> hret ()
                | Some record \<Rightarrow> database (update_encrypted_password (deps_of E) (id_user row) record)) (\<lambda>_.
                if \<not> is_console_role (operator_type row)
                then hbind (audit_login client_ip user (lit ''forbidden_role'')) (\<lambda>_. hret invalid_login_response)
                else finish_login E client_ip user row))))"

definition when_unlocked ::
    "ustr \<Rightarrow> ustr \<Rightarrow> ustr \<Rightarrow> ustr \<Rightarrow> ustr \<Rightarrow> (int \<Rightarrow> response) \<Rightarrow> response handler \<Rightarrow> response handler" where
  "when_unlocked client_ip user key locked persistent_locked answer continue =
     hbind (locked_for key) (\<lambda>lock. case lock of
       Some ns \<Rightarrow> hbind (audit_login client_ip user locked) (\<lambda>_. hret (answer (ns div 1000000000)))
     | None \<Rightarrow> hbind (persistent_login_retry_after (lit ''login:'' @ key)) (\<lambda>retry. case retry of
         Some us \<Rightarrow> hbind (audit_login client_ip user persistent_locked) (\<lambda>_. hret (answer (us div 1000000)))
       | None \<Rightarrow> continue))"

definition login_submit :: "auth_env \<Rightarrow> request \<Rightarrow> ustr \<Rightarrow> ustr \<Rightarrow> ustr \<Rightarrow> response handler" where
  "login_submit E req login password csrf =
     (if \<not> csrf_verify req csrf then hret csrf_error_response
      else
        let client_ip = show_ip (effective_client_ip (peer req) (headers req) (trusted_proxy_ips E));
            user = to_ascii_lowercase (plain_text E login)
        in when_unlocked client_ip [] (ip_key_of client_ip) (lit ''locked'') (lit ''persistent_locked'')
             locked_login_response
             (when_unlocked client_ip user (ip_user_key_of client_ip user) (lit ''locked'')
               (lit ''persistent_locked'') locked_login_response
               (check_credentials E client_ip user password)))"

definition login_page :: "auth_env \<Rightarrow> response handler" where
  "login_page E = hbind (authorized_role E) (\<lambda>role. hret (case role of
     Some r \<Rightarrow> if can_use_console r then Redirect (lit ''/kraken_ui/auth/admin_panel'') else Page Login_page []
   | None \<Rightarrow> Page Login_page []))"

definition mfa_challenge_page :: "response handler" where
  "mfa_challenge_page = hbind mfa_pending_user_id (\<lambda>u. hret (case u of
     None \<Rightarrow> Redirect (lit ''/kraken_ui/login'') | Some _ \<Rightarrow> Page Mfa_challenge []))"

definition logout :: "request \<Rightarrow> ustr \<Rightarrow> response handler" where
  "logout req csrf =
     (if \<not> csrf_verify req csrf then hret csrf_error_response
      else hbind authenticated_username (\<lambda>name.
        hbind flush (\<lambda>_.
        hbind (audit_login [] (case name of None \<Rightarrow> [] | Some n \<Rightarrow> n) (lit ''logout'')) (\<lambda>_.
        hret (Redirect (lit ''/kraken_ui/login''))))))"

section \<open>Second factor at login\<close>

definition mfa_throttle_key :: "ustr \<Rightarrow> int \<Rightarrow> ustr" where
  "mfa_throttle_key ip u = lit ''mfa:'' @ ip @ lit ''|user:'' @ show_int u"

definition check_second_factor :: "auth_env \<Rightarrow> ustr \<Rightarrow> int \<Rightarrow> ustr \<Rightarrow> response handler" where
  "check_second_factor E client_ip u code0 =
     (let code = plain_text E code0; key = mfa_throttle_key client_ip u in
      hbind (database (find_by_id u)) (\<lambda>found. case found of
        None \<Rightarrow> hbind (ignore_error flush) (\<lambda>_. hret (Redirect (lit ''/kraken_ui/login'')))
      | Some row \<Rightarrow>
          hbind (if 32 < utf8_len code then hret False else database (verify_login_code (deps_of E) u code)) (\<lambda>good.
          if \<not> good then
            hbind (record_failure key) (\<lambda>_.
            hbind (audit_login client_ip (username row) (lit ''mfa_failed'')) (\<lambda>_.
            hret (Page Mfa_challenge (lit ''Invalid or expired code''))))
          else if \<not> is_console_role (operator_type row) then
            hbind (audit_login client_ip (username row) (lit ''forbidden_role'')) (\<lambda>_.
            hbind (ignore_error flush) (\<lambda>_. hret (Redirect (lit ''/kraken_ui/login''))))
          else
            hbind (clear_failures key) (\<lambda>_.
            hbind (database (record_authenticated (deps_of E) (id_user row))) (\<lambda>_.
            hbind clear_mfa_pending (\<lambda>_.
            hbind (establish_session E row) (\<lambda>_.
            hbind (audit_login client_ip (username row) (lit ''success'')) (\<lambda>_.
            hret (Redirect (lit ''/kraken_ui/auth/admin_panel''))))))))))"

definition mfa_verify :: "auth_env \<Rightarrow> request \<Rightarrow> ustr \<Rightarrow> ustr \<Rightarrow> response handler" where
  "mfa_verify E req code csrf =
     (if \<not> csrf_verify req csrf then hret csrf_error_response
      else hbind mfa_pending_user_id (\<lambda>pending. case pending of
        None \<Rightarrow> hret (Redirect (lit ''/kraken_ui/login''))
      | Some u \<Rightarrow>
          let client_ip = show_ip (effective_client_ip (peer req) (headers req) (trusted_proxy_ips E)) in
          when_unlocked client_ip [] (mfa_throttle_key client_ip u) (lit ''mfa_locked'')
            (lit ''mfa_persistent_locked'') locked_mfa_response
            (check_second_factor E client_ip u code)))"

section \<open>Step-up\<close>

datatype step_up_outcome = Verified operator_row | Unauthorized | Rejected ustr

text \<open>The part of \<open>verify\<close> after the session's operator has been looked up.\<close>

definition step_up_row :: "auth_env \<Rightarrow> ustr \<Rightarrow> ustr \<Rightarrow> operator_row option \<Rightarrow> step_up_outcome handler" where
  "step_up_row E password mfa_code found = (case found of
       None \<Rightarrow> hret Unauthorized
     | Some row \<Rightarrow>
     if password = [] \<or> 256 < utf8_len password \<or> secret_has_rejected_markup E password
     then hret (Rejected (lit ''The current password is incorrect.''))
     else
     hbind (database (spawn_verify E row password)) (\<lambda>v.
     if \<not> valid v then hret (Rejected (lit ''The current password is incorrect.''))
     else
     hbind (database (is_enabled (id_user row))) (\<lambda>two_factor.
     let code = plain_text E mfa_code in
     if two_factor \<and> code = [] then hret (Rejected (lit ''Enter your current two-factor code.''))
     else
     hbind (if \<not> two_factor then hret True
            else if 32 < utf8_len code then hret False
            else database (verify_login_code (deps_of E) (id_user row) code)) (\<lambda>good.
     if \<not> good then hret (Rejected (lit ''The two-factor code is invalid or expired.''))
     else
     hbind (database (record_reauthenticated (deps_of E) (id_user row))) (\<lambda>_.
     hbind mark_reauthenticated (\<lambda>_.
     hbind (reauthenticated_within STEP_UP_FRESHNESS_SECONDS) (\<lambda>fresh.
     if \<not> fresh then hret Unauthorized else hret (Verified row))))))))"

definition step_up_verify :: "auth_env \<Rightarrow> ustr \<Rightarrow> ustr \<Rightarrow> step_up_outcome handler" where
  "step_up_verify E password mfa_code =
     hbind authenticated_user_id (\<lambda>user. case user of
       None \<Rightarrow> hret Unauthorized
     | Some u \<Rightarrow> hbind (database (find_by_id u)) (step_up_row E password mfa_code))"

section \<open>Concrete states\<close>

definition sample_env :: auth_env where
  "sample_env = \<lparr>deps_of = sample_deps, ammonia_clean = (\<lambda>s. s), trusted_proxy_ips = [],
     admin_session_time_limit_seconds = 28800\<rparr>"

definition sample_app :: "world \<Rightarrow> (ustr \<Rightarrow> session_value option) \<Rightarrow> app" where
  "sample_app w d = \<lparr>world = w, session = \<lparr>session_id = 1, id_known = True, data = d\<rparr>,
     session_db = sample_store, throttle = throttle_with_defaults,
     monitor = monitor_with_defaults, login_persistent = None, instant = 0, clock_us = 0,
     limiter_faults = no_faults, audit_log = [],
     operator_log = [], waf_database = None, waf_calls = [], console_log = [],
     update_state = initial_status True, update_running = False, update_tasks = 0\<rparr>"

definition sample_session :: "ustr \<Rightarrow> session_value option" where
  "sample_session = [AUTHENTICATED_USER_ID \<mapsto> Number 1, AUTHENTICATED_USERNAME \<mapsto> Text (lit ''ann''),
     AUTHENTICATED_OPERATOR_TYPE \<mapsto> Text (lit ''admin''), AUTHENTICATED_AUTHZ_VERSION \<mapsto> Number 3,
     AUTHENTICATED_AT \<mapsto> Number 60, REAUTHENTICATED_AT \<mapsto> Number 60, SESSION_ROTATED_AT \<mapsto> Number 60]"

section \<open>A session never outlives its privileges\<close>

lemma give_up_not_Some: "give_up a \<noteq> (Inr (Some x), a')"
  by (auto simp: give_up_def hret_def dest!: hbind_InrD)

lemma session_int_clock: "clock (world (snd (session_int lo hi k a))) = clock (world a)"
  unfolding session_int_def by (rule access_clock) (auto split: option.split session_value.split)

lemma session_string_clock: "clock (world (snd (session_string k a))) = clock (world a)"
  unfolding session_string_def by (rule access_clock) (auto split: option.split session_value.split)

text \<open>What the check has read and compared when it grants a role.\<close>

lemma authorized_role_SomeD:
  assumes "authorized_role E a = (Inr (Some role), a')"
  shows "\<exists>u v since row. data (session a) AUTHENTICATED_USER_ID = Some (Number u) \<and>
    data (session a) AUTHENTICATED_AUTHZ_VERSION = Some (Number v) \<and>
    data (session a) AUTHENTICATED_AT = Some (Number since) \<and>
    sat_i64 (clock (world a) - since) < absolute_limit E \<and>
    lookup_operator u (tables (world a)) = Some row \<and> authz_version row = v \<and>
    parse_role (operator_type row) = Some role"
proof -
  note kept = keepsD [OF keeps_session_reads(1) [where g = "\<lambda>s. s"]]
    keepsD [OF keeps_session_reads(2) [where g = "\<lambda>s. s"]]
    keepsD [OF keeps_session_reads(3) [where g = "\<lambda>s. s"]]
    keepsD [OF keeps_tables_session(3) [where g = "\<lambda>t. t"]]
    keepsD [OF keeps_tables_session(4) [where g = "\<lambda>t. t"]]
    keepsD [OF keeps_tables_session(5) [where g = "\<lambda>t. t"]]
  have clocks: "session_i32 k b = (r, b') \<Longrightarrow> clock (world b') = clock (world b)"
    "session_i64 k b = (r, b') \<Longrightarrow> clock (world b') = clock (world b)"
    "session_string k b = (q, b') \<Longrightarrow> clock (world b') = clock (world b)" for k b r q b'
    using session_int_clock session_string_clock unfolding session_i32_def session_i64_def by (metis snd_conv)+
  obtain u a1 where 1: "session_i32 AUTHENTICATED_USER_ID a = (Inr (Some u), a1)"
    using assms unfolding authorized_role_def authenticated_user_id_def
    by (auto simp: hret_def dest!: hbind_InrD split: option.splits)
  obtain ty a2 s_role a3 v a4 since a5 row where
      2: "session_string AUTHENTICATED_OPERATOR_TYPE a1 = (Inr (Some ty), a2)" and
      3: "session_i64 AUTHENTICATED_AUTHZ_VERSION a2 = (Inr (Some v), a3)" and
      4: "session_i64 AUTHENTICATED_AT a3 = (Inr (Some since), a4)" and
      late: "\<not> absolute_limit E \<le> sat_i64 (clock (world a4) - since)" and
      5: "database (find_by_id u) a4 = (Inr (Some row), a5)" and
      same: "parse_role (operator_type row) = Some role" "authz_version row = v"
    using assms 1 unfolding authorized_role_def authenticated_user_id_def authenticated_role_def
      authenticated_operator_type_def authenticated_authz_version_def session_timestamp_def
    by (auto simp: hret_def now_def read_app_def give_up_not_Some dest!: hbind_InrD
        split: option.splits if_splits)
  have "lookup_operator u (tables (world a4)) = Some row"
    using database_query_InrD [OF 5 [unfolded find_by_id_def]] by simp
  then show ?thesis
    using session_i32_SomeD [OF 1] session_i64_SomeD [OF 3] session_i64_SomeD [OF 4] late same
      kept(1) [OF 1] kept(3) [OF 2] kept(2) [OF 3] kept(4) [OF 1] kept(6) [OF 2] kept(5) [OF 3] kept(5) [OF 4]
      clocks(1) [OF 1] clocks(3) [OF 2] clocks(2) [OF 3] clocks(2) [OF 4]
    by auto
qed

text \<open>A history of repository calls, each at its own time and with its own faults.\<close>

definition run_history :: "deps \<Rightarrow> (repo_call \<times> int \<times> bool list) list \<Rightarrow> world \<Rightarrow> world" where
  "run_history D cs w = fold (\<lambda>(c, t, fs) w. run_repo D c (w\<lparr>clock := t, faults := fs\<rparr>)) cs w"

lemma run_history_epochs:
  "tables_ok (tables w) \<Longrightarrow> tables_ok (tables (run_history D cs w)) \<and>
     keeps_epochs (tables w) (tables (run_history D cs w))"
proof (induction cs arbitrary: w)
  case (Cons e cs)
  obtain c t fs where e: "e = (c, t, fs)" by (cases e) auto
  define w1 where "w1 = run_repo D c (w\<lparr>clock := t, faults := fs\<rparr>)"
  have step: "tables_ok (tables w1) \<and> keeps_epochs (tables w) (tables w1)"
    using run_repo_advances [of "w\<lparr>clock := t, faults := fs\<rparr>" D c] Cons.prems by (simp add: w1_def)
  have "run_history D (e # cs) w = run_history D cs w1" by (simp add: run_history_def e w1_def)
  then show ?case using Cons.IH [of w1] step keeps_epochs_trans [OF Cons.prems] by metis
qed (simp add: run_history_def keeps_epochs_refl)

text \<open>
  Property C4 (safety): a session never outlives its privileges. It copies the operator's id and epoch
  when it is made; whatever happens to the database afterwards (any repository calls, at any times,
  with any faults), if a guarded request is let in, the account still exists, its name, address, role
  and second-factor flag are the ones of that moment, and the role granted is the role it had then.
\<close>

theorem session_never_outlives_privileges:
  assumes "tables_ok (tables w)" and "lookup_operator u (tables w) = Some r"
    and "data (session a) AUTHENTICATED_USER_ID = Some (Number u)"
    and "data (session a) AUTHENTICATED_AUTHZ_VERSION = Some (Number (authz_version r))"
    and "tables (world a) = tables (run_history D cs w)"
    and "authorized_role E a = (Inr (Some role), a')"
  shows "\<exists>r'. lookup_operator u (tables (world a)) = Some r' \<and> privileges r' = privileges r \<and>
    parse_role (operator_type r) = Some role"
proof -
  obtain r' where r': "lookup_operator u (tables (world a)) = Some r'" "authz_version r' = authz_version r"
    "parse_role (operator_type r') = Some role"
    using authorized_role_SomeD [OF assms(6)] assms(3,4) by auto
  have "privileges r = privileges r'"
    using run_history_epochs [OF assms(1), of D cs] assms(2,5) r'(1,2) unfolding keeps_epochs_def by metis
  then show ?thesis using r' by (auto simp: privileges_def)
qed

definition quiet_history :: "(repo_call \<times> int \<times> bool list) list" where
  "quiet_history = [(Record_authenticated 1, 70, []), (Regenerate_codes 1, 80, [True])]"

theorem session_never_outlives_privileges_witness:
  "\<exists>a. fst (authorized_role sample_env a) = Inr (Some Admin) \<and>
     tables (world a) = tables (run_history sample_deps quiet_history sample_world) \<and>
     (\<exists>r'. lookup_operator 1 (tables (world a)) = Some r' \<and> privileges r' = privileges sample_operator)"
proof -
  define a where "a = sample_app (run_history sample_deps quiet_history sample_world) sample_session"
  have "fst (authorized_role sample_env a) = Inr (Some Admin)" unfolding a_def by code_simp
  moreover obtain a' where "authorized_role sample_env a = (Inr (Some Admin), a')"
    using calculation by (cases "authorized_role sample_env a") auto
  moreover have "lookup_operator 1 (tables sample_world) = Some sample_operator" by code_simp
  moreover have "data (session a) AUTHENTICATED_USER_ID = Some (Number 1)"
    "data (session a) AUTHENTICATED_AUTHZ_VERSION = Some (Number (authz_version sample_operator))"
    unfolding a_def by code_simp+
  moreover have "tables (world a) = tables (run_history sample_deps quiet_history sample_world)"
    by (simp add: a_def sample_app_def)
  ultimately show ?thesis using session_never_outlives_privileges [OF sample_tables_ok] by metis
qed

lemma load_updated_InrD:
  "load_updated u w = (Inr x, w') \<Longrightarrow> \<exists>r. x = Commit r \<and> lookup_operator u (tables w) = Some r \<and> tables w' = tables w"
  by (auto simp: load_updated_def find_by_id_def ret_def fail_def dest!: bind_InrD query_InrD split: option.splits)

lemma bumping_update:
  assumes "update_operator_row u f t = Some (n, t')" and "lookup_operator u t = Some r"
    and "\<And>r. id_user (f r) = id_user r" and "\<And>r. authz_version (f r) = authz_version r + 1"
  shows "\<exists>r'. lookup_operator u t' = Some r' \<and> authz_version r' = authz_version r + 1"
proof -
  have "t' = t\<lparr>operators := update_where (\<lambda>r. id_user r = u) f (operators t)\<rparr>"
    using assms(1,2) by (auto simp: update_operator_row_def split: if_splits)
  then show ?thesis using lookup_update [where f = f and v = u and u = u and t = t] assms(2-4) by simp
qed

lemma saving_transaction_bumps:
  assumes "transaction (bind (current_timestamp D) (\<lambda>stamp. bind (execute (update_operator_row u (f stamp)))
      (\<lambda>_. load_updated u))) w = (Inr r1, w')"
    and "lookup_operator u (tables w) = Some r"
    and "\<And>stamp r. id_user (f stamp r) = id_user r" and "\<And>stamp r. authz_version (f stamp r) = authz_version r + 1"
  shows "\<exists>r'. lookup_operator u (tables w') = Some r' \<and> authz_version r' = authz_version r + 1"
proof -
  obtain stamp n t' where "tables w' = t'" "update_operator_row u (f stamp) (tables w) = Some (n, t')"
    using assms(1) by (auto simp: current_timestamp_def dest!: bind_InrD transaction_cases execute_InrD load_updated_InrD)
  then show ?thesis using bumping_update [OF _ assms(2), of "f stamp"] assms(3,4) by auto
qed

lemma keeps_tables_hash: "spawn_encrypt D u pw w = (Inr h, w1) \<Longrightarrow> tables w1 = tables w"
  unfolding spawn_encrypt_def
  by (auto simp: roll_def lift_crypto_def ret_def fail_def split: sum.splits dest!: bind_InrD)

lemma update_password_bumps:
  assumes "update_password D u pw w = (Inr r1, w')" and "lookup_operator u (tables w) = Some r"
  shows "\<exists>r'. lookup_operator u (tables w') = Some r' \<and> authz_version r' = authz_version r + 1"
proof -
  obtain h w1 where "spawn_encrypt D u pw w = (Inr h, w1)" and
    saved: "transaction (bind (current_timestamp D) (\<lambda>stamp. bind (execute (update_operator_row u
      (\<lambda>r. r\<lparr>encrypted_password_hash := h, updated_at := stamp, authz_version := authz_version r + 1\<rparr>)))
      (\<lambda>_. load_updated u))) w1 = (Inr r1, w')"
    using assms(1) unfolding update_password_def by (auto dest!: bind_InrD)
  then have "lookup_operator u (tables w1) = Some r" using keeps_tables_hash assms(2) by metis
  then show ?thesis by (rule saving_transaction_bumps [OF saved]) simp_all
qed

lemma update_operator_bumps:
  assumes "update_operator D u name addr ty pw w = (Inr r1, w')" and "lookup_operator u (tables w) = Some r"
  shows "\<exists>r'. lookup_operator u (tables w') = Some r' \<and> authz_version r' = authz_version r + 1"
proof -
  obtain hash w1 where hashed: "(case pw of None \<Rightarrow> ret None
      | Some p \<Rightarrow> bind (spawn_encrypt D u p) (\<lambda>h. ret (Some h))) w = (Inr hash, w1)" and
    saved: "transaction (bind (current_timestamp D) (\<lambda>stamp. bind (execute (update_operator_row u
      (\<lambda>r. r\<lparr>username := name, email := addr, operator_type := ty,
        encrypted_password_hash := (case hash of None \<Rightarrow> encrypted_password_hash r | Some h \<Rightarrow> h),
        updated_at := stamp, authz_version := authz_version r + 1\<rparr>)))
      (\<lambda>_. load_updated u))) w1 = (Inr r1, w')"
    using assms(1) unfolding update_operator_def by (auto dest!: bind_InrD)
  have "tables w1 = tables w"
    using hashed keeps_tables_hash by (cases pw) (auto simp: ret_def dest!: bind_InrD)
  then have "lookup_operator u (tables w1) = Some r" using assms(2) by simp
  then show ?thesis by (rule saving_transaction_bumps [OF saved]) simp_all
qed

text \<open>
  A successful password change or account update ends every session made before
  it, even when the deletion of session rows fails or a row is written back later: from then on no
  guarded request with the old epoch is let in, whatever else happens to the database.
\<close>

theorem account_change_revokes_sessions:
  assumes "tables_ok (tables w)" and "lookup_operator u (tables w) = Some r"
    and "update_password D u pw w = (Inr r1, w') \<or> update_operator D u name addr ty new_pw w = (Inr r1, w')"
    and "data (session a) AUTHENTICATED_USER_ID = Some (Number u)"
    and "data (session a) AUTHENTICATED_AUTHZ_VERSION = Some (Number v)" and "v \<le> authz_version r"
    and "tables (world a) = tables (run_history D cs w')"
  shows "fst (authorized_role E a) \<noteq> Inr (Some role)"
proof
  assume "fst (authorized_role E a) = Inr (Some role)"
  then obtain a' where "authorized_role E a = (Inr (Some role), a')" by (cases "authorized_role E a") auto
  from authorized_role_SomeD [OF this] obtain r' where
    r': "lookup_operator u (tables (world a)) = Some r'" "authz_version r' = v"
    using assms(4,5) by auto
  obtain r2 where r2: "lookup_operator u (tables w') = Some r2" "authz_version r2 = authz_version r + 1"
    using assms(3) update_password_bumps [OF _ assms(2)] update_operator_bumps [OF _ assms(2)] by blast
  have "tables_ok (tables w')"
    using assms(1,3) relatesD [OF update_password_advances] relatesD [OF update_operator_advances]
    unfolding advances_def by metis
  from run_history_epochs [OF this, of D cs] have "authz_version r2 \<le> authz_version r'"
    using r2(1) r'(1) assms(7) unfolding keeps_epochs_def by metis
  then show False using r2(2) r'(2) assms(6) by simp
qed

definition after_change :: world where
  "after_change = snd (update_password sample_deps 1 (lit ''new'') sample_world)"

theorem account_change_revokes_sessions_witness:
  "fst (authorized_role sample_env (sample_app sample_world sample_session)) = Inr (Some Admin) \<and>
   fst (authorized_role sample_env (sample_app after_change sample_session)) \<noteq> Inr (Some Admin)"
proof
  show "fst (authorized_role sample_env (sample_app sample_world sample_session)) = Inr (Some Admin)" by code_simp
  have "(case fst (update_password sample_deps 1 (lit ''new'') sample_world) of Inr _ \<Rightarrow> True | _ \<Rightarrow> False)"
    by code_simp
  then obtain r1 where run: "update_password sample_deps 1 (lit ''new'') sample_world = (Inr r1, after_change)"
    unfolding after_change_def
    by (cases "update_password sample_deps 1 (lit ''new'') sample_world") (auto split: sum.splits)
  have "lookup_operator 1 (tables sample_world) = Some sample_operator" by code_simp
  moreover have "data (session (sample_app after_change sample_session)) AUTHENTICATED_USER_ID = Some (Number 1)"
    "data (session (sample_app after_change sample_session)) AUTHENTICATED_AUTHZ_VERSION = Some (Number 3)"
    by code_simp+
  moreover have "3 \<le> authz_version sample_operator" by code_simp
  moreover have "tables (world (sample_app after_change sample_session)) =
      tables (run_history sample_deps [] after_change)" by (simp add: sample_app_def run_history_def)
  ultimately show "fst (authorized_role sample_env (sample_app after_change sample_session)) \<noteq> Inr (Some Admin)"
    using account_change_revokes_sessions [OF sample_tables_ok _ disjI1 [OF run]] by metis
qed

end
