(* ===== verification/LoginFlow.thy ===== *)
theory LoginFlow
  imports Auth
begin

text \<open>
  What a sign-in of \<open>src/controllers/auth.rs\<close> and a step-up of \<open>src/controllers/step_up.rs\<close> go
  through: the two throttle gates, the credential check, the second factor, the session that comes
  out; and that what a failed login shows does not depend on the accounts that exist.
\<close>

section \<open>Gates\<close>

text \<open>The throttles' answer for a key, and the state a request that passes them goes on with.\<close>

definition gate_open :: "ustr \<Rightarrow> app \<Rightarrow> bool" where
  "gate_open key a \<longleftrightarrow> fst (locked_for_at (throttle a) key (instant a)) = None \<and>
     (case login_persistent a of None \<Rightarrow> True
      | Some lim \<Rightarrow> allowed (fst (persistent_check lim (lit ''login:'' @ key) (clock_us a) (limiter_faults a))))"

definition pass_gate :: "ustr \<Rightarrow> app \<Rightarrow> app" where
  "pass_gate key a = a\<lparr>throttle := snd (locked_for_at (throttle a) key (instant a)),
     login_persistent := map_option (\<lambda>lim.
       snd (persistent_check lim (lit ''login:'' @ key) (clock_us a) (limiter_faults a))) (login_persistent a)\<rparr>"

text \<open>What the throttles and the guessing monitor have seen, and the clocks they read.\<close>

definition login_view :: "app \<Rightarrow> login_throttle \<times> account_monitor \<times> persistent_limiter option \<times> int \<times> int \<times> backend_faults" where
  "login_view a = (throttle a, monitor a, login_persistent a, instant a, clock_us a, limiter_faults a)"

lemma pass_gate_simps [simp]:
  "world (pass_gate key a) = world a" "session (pass_gate key a) = session a"
  by (simp_all add: pass_gate_def)

lemma when_unlocked_open:
  "gate_open key a \<Longrightarrow> when_unlocked ip user key l p answer k a = k (pass_gate key a)"
  by (cases a)
    (auto simp: gate_open_def pass_gate_def when_unlocked_def locked_for_def persistent_login_retry_after_def
      hbind_def split: prod.splits option.splits)

definition shut_answer :: "ustr \<Rightarrow> (int \<Rightarrow> response) \<Rightarrow> app \<Rightarrow> response" where
  "shut_answer key answer a = (case fst (locked_for_at (throttle a) key (instant a)) of
     Some ns \<Rightarrow> answer (ns div 1000000000)
   | None \<Rightarrow> (case login_persistent a of None \<Rightarrow> answer 0
     | Some lim \<Rightarrow> answer (retry_after (fst (persistent_check lim (lit ''login:'' @ key) (clock_us a)
         (limiter_faults a))) div 1000000)))"

lemma when_unlocked_shut:
  assumes "\<not> gate_open key a"
  shows "fst (when_unlocked ip user key l p answer k a) = Inr (shut_answer key answer a)"
    and "world (snd (when_unlocked ip user key l p answer k a)) = world a"
    and "session (snd (when_unlocked ip user key l p answer k a)) = session a"
    and "login_view a = login_view b \<Longrightarrow>
      login_view (snd (when_unlocked ip user key l p answer k a)) =
      login_view (snd (when_unlocked ip user key l p answer k b))"
  using assms
  by (auto simp: gate_open_def login_view_def shut_answer_def when_unlocked_def locked_for_def hret_def
      persistent_login_retry_after_def hbind_def audit_login_def update_app_def
      split: prod.splits option.splits if_splits)

lemma view_decides:
  assumes "login_view a = login_view b"
  shows "gate_open key a = gate_open key b" and "login_view (pass_gate key a) = login_view (pass_gate key b)"
    and "shut_answer key answer a = shut_answer key answer b"
  using assms by (auto simp: login_view_def gate_open_def pass_gate_def shut_answer_def cong: option.case_cong)

lemma shut_pages:
  assumes same: "login_view a = login_view b" and shut: "\<not> gate_open key a"
    and "when_unlocked ip user key l p' answer k a = (Inr (Page p m), a')"
    and "when_unlocked ip user key l p' answer k b = (Inr (Page q n), b')"
  shows "(p, m) = (q, n) \<and> login_view a' = login_view b'"
proof -
  have "\<not> gate_open key b" using shut view_decides(1) [OF same] by simp
  then have "Page p m = Page q n \<and> login_view a' = login_view b'"
    using when_unlocked_shut(1) [OF shut, of ip user l p' answer k] when_unlocked_shut(1) [of key b ip user l p' answer k]
      when_unlocked_shut(4) [OF shut same, of ip user l p' answer k] view_decides(3) [OF same, of key answer] assms(3,4)
    by simp
  then show ?thesis by simp
qed

lemma unlocked_Redirect:
  assumes "when_unlocked ip user key l p answer k a = (Inr (Redirect url), a')" and "\<And>n. answer n \<noteq> Redirect url"
  shows "gate_open key a \<and> k (pass_gate key a) = (Inr (Redirect url), a')"
proof (cases "gate_open key a")
  case True
  then show ?thesis using assms(1) by (simp add: when_unlocked_open)
next
  case False
  have "shut_answer key answer a \<noteq> Redirect url"
    using assms(2) by (auto simp: shut_answer_def split: option.split)
  then show ?thesis using when_unlocked_shut(1) [OF False, of ip user l p answer k] assms(1) by simp
qed

section \<open>Failed logins look alike\<close>

lemma keeps_view_database [keeps_intros]: "keeps login_view (database p)" "keeps login_view (attempt_db p)"
  by (simp_all add: keeps_def database_def attempt_db_def login_view_def split: prod.split)

lemma register_view:
  "login_view a = login_view b \<Longrightarrow> login_view (snd (register_login_failure k1 k2 user ip a)) =
     login_view (snd (register_login_failure k1 k2 user ip b))"
  by (auto simp: register_login_failure_def login_view_def hbind_def record_failure_def update_app_def
      note_account_failure_def audit_login_def hret_def split: prod.splits)

lemma refuse_login_result:
  "refuse_login ip user why a = (r, a') \<Longrightarrow> r = Inr invalid_login_response \<and>
     login_view a' = login_view (snd (register_login_failure (ip_key_of ip) (ip_user_key_of ip user) user ip a))"
  by (auto simp: refuse_login_def register_login_failure_def login_view_def hbind_def record_failure_def
      update_app_def note_account_failure_def audit_login_def hret_def split: prod.splits if_splits)

lemma allowed_roles_use_console: "role_allowed ty \<Longrightarrow> is_console_role ty"
  by (auto simp: role_allowed_def is_console_role_def can_use_console_def split: option.splits)

lemma finish_login_Redirect: "finish_login E ip user row a = (Inr resp, a') \<Longrightarrow> \<exists>url. resp = Redirect url"
  by (auto simp: finish_login_def hret_def split: if_splits dest!: hbind_InrD)

lemma found_username:
  assumes "find_by_username user w = (Inr (Some row), w')"
  shows "row \<in> set (operators (tables w)) \<and> username row = user \<and> tables w' = tables w"
  using assms unfolding find_by_username_def
  by (auto dest!: query_InrD sym [of "Some row"] simp: find_Some_iff)

lemma check_credentials_Page:
  assumes run: "check_credentials E ip user pw a = (Inr (Page p m), a')" and "tables_ok (tables (world a))"
  shows "Page p m = invalid_login_response \<and> login_view a' =
    login_view (snd (register_login_failure (ip_key_of ip) (ip_user_key_of ip user) user ip a))"
proof -
  have no_finish: "finish_login E ip user row b \<noteq> (Inr (Page p m), a')" for row b
    using finish_login_Redirect by blast
  have refused: "\<exists>b why. login_view b = login_view a \<and> refuse_login ip user why b = (Inr (Page p m), a')"
  proof (cases "128 < utf8_len user \<or> 256 < utf8_len pw \<or> secret_has_rejected_markup E pw")
    case True
    then show ?thesis using run by (auto simp: check_credentials_def)
  next
    case False
    then obtain found a1 where found: "database (find_by_username user) a = (Inr found, a1)" and
      rest: "(case found of
        None \<Rightarrow> hbind (database spawn_dummy) (\<lambda>_. refuse_login ip user (lit ''unknown_user''))
      | Some row \<Rightarrow>
          hbind (attempt_db (spawn_verify E row pw)) (\<lambda>result. case result of
            Inl _ \<Rightarrow> refuse_login ip user (lit ''crypto_error'')
          | Inr v \<Rightarrow>
              if \<not> valid v then refuse_login ip user (lit ''bad_password'')
              else hbind (case replacement_record v of
                  None \<Rightarrow> hret ()
                | Some record \<Rightarrow> database (update_encrypted_password (deps_of E) (id_user row) record)) (\<lambda>_.
                if \<not> is_console_role (operator_type row)
                then hbind (audit_login ip user (lit ''forbidden_role'')) (\<lambda>_. hret invalid_login_response)
                else finish_login E ip user row))) a1 = (Inr (Page p m), a')"
      using run by (auto simp: check_credentials_def dest!: hbind_InrD)
    have 1: "login_view a1 = login_view a" by (rule keepsD [OF keeps_view_database(1) found])
    show ?thesis
    proof (cases found)
      case None
      then obtain x a2 where "database spawn_dummy a1 = (Inr x, a2)" and
        "refuse_login ip user (lit ''unknown_user'') a2 = (Inr (Page p m), a')"
        using rest by (auto dest!: hbind_InrD)
      then show ?thesis using keepsD [OF keeps_view_database(1)] 1 by metis
    next
      case (Some row)
      obtain w' where "find_by_username user (world a) = (Inr (Some row), w')"
        using found Some by (auto simp: database_def split: prod.splits)
      then have "role_allowed (operator_type row)"
        using found_username assms(2) by (metis tables_ok_def operators_ok_def)
      then have console: "is_console_role (operator_type row)" by (rule allowed_roles_use_console)
      obtain res a2 where 2: "attempt_db (spawn_verify E row pw) a1 = (Inr res, a2)" and
        tail: "(case res of
            Inl _ \<Rightarrow> refuse_login ip user (lit ''crypto_error'')
          | Inr v \<Rightarrow>
              if \<not> valid v then refuse_login ip user (lit ''bad_password'')
              else hbind (case replacement_record v of
                  None \<Rightarrow> hret ()
                | Some record \<Rightarrow> database (update_encrypted_password (deps_of E) (id_user row) record)) (\<lambda>_.
                if \<not> is_console_role (operator_type row)
                then hbind (audit_login ip user (lit ''forbidden_role'')) (\<lambda>_. hret invalid_login_response)
                else finish_login E ip user row)) a2 = (Inr (Page p m), a')"
        using rest Some by (auto dest!: hbind_InrD)
      have "login_view a2 = login_view a" using keepsD [OF keeps_view_database(2) 2] 1 by simp
      then show ?thesis using tail no_finish console
        by (auto dest!: hbind_InrD split: sum.splits if_splits)
    qed
  qed
  then obtain b why where b: "login_view b = login_view a" "refuse_login ip user why b = (Inr (Page p m), a')" by blast
  show ?thesis using refuse_login_result [OF b(2)] register_view [OF b(1)] by auto
qed

text \<open>
  Property C18 (safety): a login that fails says the same and costs the same whoever is behind it. Take
  two states that differ in the accounts, passwords, second factors and sessions, but in which the
  throttles have seen the same: if the same form is answered with a page in both (unknown user, wrong
  password, broken record, invalid input, locked key), it is the same page with the same text, and the
  throttles, the guessing monitor and the persistent limiter end up the same.
\<close>

theorem login_failures_look_alike:
  assumes "login_view a = login_view b" and "tables_ok (tables (world a))" and "tables_ok (tables (world b))"
    and "login_submit E req login pw csrf a = (Inr (Page p m), a')"
    and "login_submit E req login pw csrf b = (Inr (Page q n), b')"
  shows "(p, m) = (q, n) \<and> login_view a' = login_view b'"
proof -
  define ip where "ip = show_ip (effective_client_ip (peer req) (headers req) (trusted_proxy_ips E))"
  define user where "user = to_ascii_lowercase (plain_text E login)"
  define inner where "inner = when_unlocked ip user (ip_user_key_of ip user) (lit ''locked'')
    (lit ''persistent_locked'') locked_login_response (check_credentials E ip user pw)"
  have unfolded: "login_submit E req login pw csrf = (if \<not> csrf_verify req csrf then hret csrf_error_response
      else when_unlocked ip [] (ip_key_of ip) (lit ''locked'') (lit ''persistent_locked'') locked_login_response inner)"
    by (simp add: login_submit_def Let_def ip_def user_def inner_def)
  have second: "(p, m) = (q, n) \<and> login_view a' = login_view b'"
    if same: "login_view c = login_view d" and worlds: "tables_ok (tables (world c))" "tables_ok (tables (world d))"
      and runs: "inner c = (Inr (Page p m), a')" "inner d = (Inr (Page q n), b')" for c d
  proof (cases "gate_open (ip_user_key_of ip user) c")
    case True
    let ?g = "pass_gate (ip_user_key_of ip user)"
    have "check_credentials E ip user pw (?g c) = (Inr (Page p m), a')"
      "check_credentials E ip user pw (?g d) = (Inr (Page q n), b')"
      using runs True view_decides(1) [OF same] by (simp_all add: inner_def when_unlocked_open)
    from check_credentials_Page [OF this(1)] check_credentials_Page [OF this(2)] show ?thesis
      using worlds register_view [OF view_decides(2) [OF same]] by (simp add: invalid_login_response_def)
  next
    case False
    show ?thesis by (rule shut_pages [OF same False runs [unfolded inner_def]])
  qed
  show ?thesis
  proof (cases "csrf_verify req csrf")
    case False
    then show ?thesis using assms(1,4,5) by (simp add: unfolded hret_def csrf_error_response_def)
  next
    case True
    note runs = assms(4,5) [unfolded unfolded if_not_P [OF not_not [THEN iffD2, OF True]]]
    show ?thesis
    proof (cases "gate_open (ip_key_of ip) a")
      case True
      then show ?thesis
        using runs assms(2,3) view_decides [OF assms(1)]
        by (intro second [of "pass_gate (ip_key_of ip) a" "pass_gate (ip_key_of ip) b"])
          (simp_all add: when_unlocked_open)
    next
      case False
      show ?thesis by (rule shut_pages [OF assms(1) False runs])
    qed
  qed
qed

definition no_accounts :: world where
  "no_accounts = \<lparr>tables = \<lparr>operators = [], operator_seq = 0, totps = [], totp_seq = 0, codes = [], code_seq = 0\<rparr>,
     faults = [], clock = 65, dice = 9\<rparr>"

definition sample_request :: request where
  "sample_request = \<lparr>peer = V4 [192, 0, 2, 7], headers = (\<lambda>_. None), token_verify = (\<lambda>t. t = lit ''tok''),
     mints_token = True\<rparr>"

text \<open>The same wrong password for a real administrator and for nobody.\<close>

definition wrong_login :: "app \<Rightarrow> (app_error + response) \<times> app" where
  "wrong_login = login_submit sample_env sample_request (lit ''Ann'') (lit ''guess'') (lit ''tok'')"

theorem login_failures_look_alike_witness:
  "let a = wrong_login (sample_app sample_world (\<lambda>_. None)); b = wrong_login (sample_app no_accounts (\<lambda>_. None))
   in fst a = Inr invalid_login_response \<and> fst b = Inr invalid_login_response \<and>
      map outcome (audit_log (snd a)) = [lit ''bad_password''] \<and>
      map outcome (audit_log (snd b)) = [lit ''unknown_user''] \<and> login_view (snd a) = login_view (snd b)"
proof -
  let ?a = "sample_app sample_world (\<lambda>_. None)" and ?b = "sample_app no_accounts (\<lambda>_. None)"
  have runs: "fst (wrong_login ?a) = Inr invalid_login_response" "fst (wrong_login ?b) = Inr invalid_login_response"
    "map outcome (audit_log (snd (wrong_login ?a))) = [lit ''bad_password'']"
    "map outcome (audit_log (snd (wrong_login ?b))) = [lit ''unknown_user'']" by code_simp+
  have "tables_ok (tables (world ?a))" "tables_ok (tables (world ?b))" "login_view ?a = login_view ?b"
    using sample_tables_ok
    by (simp_all add: sample_app_def login_view_def)
      (simp add: no_accounts_def tables_ok_def operators_ok_def factors_ok_def)
  then have "login_view (snd (wrong_login ?a)) = login_view (snd (wrong_login ?b))"
    using login_failures_look_alike [where a = ?a and b = ?b] runs(1,2)
    unfolding wrong_login_def invalid_login_response_def by (metis prod.collapse)
  with runs show ?thesis by (simp add: Let_def)
qed

section \<open>What a sign-in needs\<close>

text \<open>Within one handler the clock is one reading; random numbers are only drawn, never given back.\<close>

definition steady :: "'a prog \<Rightarrow> bool" where
  "steady p \<longleftrightarrow> (\<forall>w. clock (snd (p w)) = clock w \<and> dice w \<le> dice (snd (p w)))"

named_theorems steady_intros

lemma steadyD: "steady p \<Longrightarrow> p w = (r, w') \<Longrightarrow> clock w' = clock w \<and> dice w \<le> dice w'"
  by (metis steady_def snd_conv)

lemma steady_fault: "next_fault w = (b, w') \<Longrightarrow> tables w' = tables w \<and> clock w' = clock w \<and> dice w' = dice w"
  by (auto simp: next_fault_def split: list.splits)

lemma steady_basic [steady_intros]:
  "steady (ret x)" "steady (fail e)" "steady roll" "steady get_clock" "steady (current_timestamp D)"
  by (simp_all add: steady_def ret_def fail_def roll_def get_clock_def current_timestamp_def)

lemma steady_lift_crypto [steady_intros]: "steady (lift_crypto r)"
  by (cases r) (simp_all add: lift_crypto_def steady_basic)

lemma steady_execute [steady_intros]: "steady (execute s)"
  unfolding steady_def execute_def by (auto split: prod.split option.split dest!: steady_fault)

lemma steady_query [steady_intros]: "steady (query q)"
  by (simp add: query_def steady_execute)

lemma steady_bind [steady_intros]: "\<lbrakk>steady p; \<And>x. steady (f x)\<rbrakk> \<Longrightarrow> steady (bind p f)"
  unfolding steady_def bind_def by (auto split: prod.split sum.split) (metis order.trans snd_conv)+

lemma steady_option [steady_intros]:
  "\<lbrakk>steady p; \<And>x. steady (f x)\<rbrakk> \<Longrightarrow> steady (case y of None \<Rightarrow> p | Some x \<Rightarrow> f x)"
  by (cases y) auto

lemma steady_if [steady_intros]: "\<lbrakk>steady p; steady q\<rbrakk> \<Longrightarrow> steady (if b then p else q)"
  by simp

lemma steady_database: "steady p \<Longrightarrow> database p a = (r, a') \<Longrightarrow>
    clock (world a') = clock (world a) \<and> dice (world a) \<le> dice (world a')"
  by (auto simp: database_def dest: steadyD split: prod.splits)

lemma steady_attempt: "steady p \<Longrightarrow> attempt_db p a = (r, a') \<Longrightarrow>
    clock (world a') = clock (world a) \<and> dice (world a) \<le> dice (world a')"
  by (auto simp: attempt_db_def dest: steadyD split: prod.splits)

lemma steady_login_programs [steady_intros]:
  "steady (find_by_username user)" "steady (find_by_id u)" "steady (spawn_verify E row pw)" "steady (is_enabled u)"
  "steady (record_authenticated D u)" "steady (update_encrypted_password D u h)"
  unfolding find_by_username_def find_by_id_def spawn_verify_def is_enabled_def totp_row_of_def
    record_authenticated_def update_encrypted_password_def
  by (intro steady_intros; simp)+

text \<open>Session writes that succeed, as one map update.\<close>

lemma session_insert_InrD: "session_insert k v a = (Inr x, a') \<Longrightarrow>
    data (session a') = (data (session a))(k \<mapsto> v) \<and> session_id (session a') = session_id (session a) \<and>
    tables (world a') = tables (world a) \<and> clock (world a') = clock (world a) \<and> dice (world a') = dice (world a)"
  by (auto simp: session_insert_def session_access_def update_app_def split: prod.splits if_splits
      dest!: steady_fault)

lemma session_remove_InrD: "session_remove k a = (Inr x, a') \<Longrightarrow>
    data (session a') = (data (session a))(k := None) \<and> session_id (session a') = session_id (session a) \<and>
    tables (world a') = tables (world a) \<and> clock (world a') = clock (world a) \<and> dice (world a') = dice (world a)"
  by (auto simp: session_remove_def session_access_def update_app_def split: prod.splits if_splits
      dest!: steady_fault)

lemma cycle_id_InrD: "cycle_id a = (Inr x, a') \<Longrightarrow>
    data (session a') = data (session a) \<and> session_id (session a') = dice (world a) \<and>
    tables (world a') = tables (world a) \<and> clock (world a') = clock (world a)"
  by (auto simp: cycle_id_def session_access_def split: prod.splits if_splits
      dest!: steady_fault)

text \<open>The keys a full session carries, and those of a sign-in that waits for its second factor.\<close>

definition signed_in :: "auth_env \<Rightarrow> operator_row \<Rightarrow> int \<Rightarrow> (ustr \<Rightarrow> session_value option) \<Rightarrow>
    (ustr \<Rightarrow> session_value option)" where
  "signed_in E r t d = d(AUTHENTICATED_USER_ID \<mapsto> Number (id_user r),
     AUTHENTICATED_USERNAME \<mapsto> Text (plain_text E (username r)),
     AUTHENTICATED_OPERATOR_TYPE \<mapsto> Text (plain_text E (operator_type r)),
     AUTHENTICATED_AUTHZ_VERSION \<mapsto> Number (authz_version r), AUTHENTICATED_AT \<mapsto> Number t,
     REAUTHENTICATED_AT \<mapsto> Number t, SESSION_ROTATED_AT \<mapsto> Number t)"

definition half_signed_in :: "operator_row \<Rightarrow> int \<Rightarrow> (ustr \<Rightarrow> session_value option) \<Rightarrow>
    (ustr \<Rightarrow> session_value option)" where
  "half_signed_in r t d = d(MFA_PENDING_USER_ID \<mapsto> Number (id_user r), MFA_PENDING_AT \<mapsto> Number t)"

lemma now_InrD: "now a = (Inr t, a') \<Longrightarrow> t = clock (world a) \<and> a' = a"
  by (auto simp: now_def read_app_def)

lemma establish_session_InrD:
  assumes "establish_session E r a = (Inr x, a')"
  shows "data (session a') = signed_in E r (clock (world a)) (data (session a)) \<and>
    session_id (session a') = dice (world a) \<and> tables (world a') = tables (world a) \<and>
    clock (world a') = clock (world a)"
  using assms unfolding establish_session_def sync_session_identity_def set_session_timestamp_def signed_in_def
  by (auto dest!: hbind_InrD now_InrD cycle_id_InrD session_insert_InrD)

definition factor_on :: "int \<Rightarrow> tables \<Rightarrow> bool" where
  "factor_on u t \<longleftrightarrow> (case totp_of u t of None \<Rightarrow> False | Some r \<Rightarrow> confirmed r \<noteq> 0)"

lemma is_enabled_InrD:
  "database (is_enabled u) a = (Inr b, a') \<Longrightarrow> b = factor_on u (tables (world a)) \<and> session a' = session a \<and>
     tables (world a') = tables (world a) \<and> clock (world a') = clock (world a) \<and> dice (world a) \<le> dice (world a')"
  using steady_database [OF steady_login_programs(4), of u a "Inr b" a']
  by (auto simp: is_enabled_def database_def factor_on_def totp_row_of_def ret_def split: prod.splits
      dest!: bind_InrD query_InrD)

lemma database_session: "database p a = (r, a') \<Longrightarrow> session a' = session a"
  by (auto simp: database_def split: prod.splits)

lemma clear_failures_InrD: "clear_failures k a = (Inr x, a') \<Longrightarrow> world a' = world a \<and> session a' = session a"
  by (auto simp: clear_failures_def update_app_def)

lemma audit_login_InrD: "audit_login ip user what a = (Inr x, a') \<Longrightarrow> world a' = world a \<and> session a' = session a"
  by (auto simp: audit_login_def update_app_def)

lemma finish_login_InrD:
  assumes "finish_login E ip user row a = (Inr resp, a')"
  shows "dice (world a) \<le> session_id (session a') \<and>
    (if factor_on (id_user row) (tables (world a))
     then resp = Redirect (lit ''/kraken_ui/auth/mfa_challenge'') \<and>
       data (session a') = half_signed_in row (clock (world a)) (data (session a))
     else resp = Redirect (lit ''/kraken_ui/auth/admin_panel'') \<and>
       data (session a') = signed_in E row (clock (world a)) (data (session a)))"
proof -
  obtain a1 two a2 where 1: "world a1 = world a" "session a1 = session a" and
    enabled: "database (is_enabled (id_user row)) a1 = (Inr two, a2)" and
    rest: "(if two then
       hbind cycle_id (\<lambda>_.
       hbind (session_insert MFA_PENDING_USER_ID (Number (id_user row))) (\<lambda>_.
       hbind now (\<lambda>t.
       hbind (session_insert MFA_PENDING_AT (Number t)) (\<lambda>_.
       hbind (audit_login ip user (lit ''password_ok_mfa_required'')) (\<lambda>_.
       hret (Redirect (lit ''/kraken_ui/auth/mfa_challenge'')))))))
     else
       hbind (database (record_authenticated (deps_of E) (id_user row))) (\<lambda>_.
       hbind (establish_session E row) (\<lambda>_.
       hbind (audit_login ip user (lit ''success'')) (\<lambda>_.
       hret (Redirect (lit ''/kraken_ui/auth/admin_panel'')))))) a2 = (Inr resp, a')"
    using assms unfolding finish_login_def by (auto dest!: hbind_InrD clear_failures_InrD)
  note 2 = is_enabled_InrD [OF enabled]
  show ?thesis
  proof (cases two)
    case True
    then show ?thesis using rest 1 2
      by (auto simp: half_signed_in_def hret_def dest!: hbind_InrD now_InrD cycle_id_InrD session_insert_InrD
          audit_login_InrD)
  next
    case False
    then obtain y b1 z b2 where 3: "database (record_authenticated (deps_of E) (id_user row)) a2 = (Inr y, b1)" and
      4: "establish_session E row b1 = (Inr z, b2)" and
      5: "session a' = session b2" "resp = Redirect (lit ''/kraken_ui/auth/admin_panel'')"
      using rest by (auto simp: hret_def dest!: hbind_InrD audit_login_InrD)
    show ?thesis
      using establish_session_InrD [OF 4] 5 database_session [OF 3]
        steady_database [OF steady_login_programs(5) 3] 1 2 False
      by auto
  qed
qed

lemma update_operator_row_totps: "update_operator_row u f t = Some (n, t') \<Longrightarrow> totps t' = totps t"
  by (auto simp: update_operator_row_def split: option.splits if_splits)

lemma totps_rehash: "update_encrypted_password D u h w = (Inr x, w') \<Longrightarrow> totps (tables w') = totps (tables w)"
  unfolding update_encrypted_password_def find_by_id_def
  by (auto simp: ret_def fail_def current_timestamp_def split: option.splits if_splits
      dest!: bind_InrD query_InrD execute_InrD update_operator_row_totps)

lemma spawn_verify_InrD: "spawn_verify E row pw w = (Inr v, w') \<Longrightarrow>
    (\<exists>seed. pc_verify (deps_of E) seed (id_user row) (encrypted_password_hash row) pw = Inr v) \<and>
    tables w' = tables w"
  unfolding spawn_verify_def
  by (auto simp: roll_def lift_crypto_def ret_def fail_def split: sum.splits dest!: bind_InrD)

lemma factor_on_totps: "totps t = totps t' \<Longrightarrow> factor_on u t = factor_on u t'"
  by (simp add: factor_on_def totp_of_def)

text \<open>The account found and checked by a credential check that goes on to the tail.\<close>

definition password_right :: "auth_env \<Rightarrow> operator_row \<Rightarrow> ustr \<Rightarrow> bool" where
  "password_right E row pw \<longleftrightarrow> (\<exists>seed v.
     pc_verify (deps_of E) seed (id_user row) (encrypted_password_hash row) pw = Inr v \<and> valid v)"

lemma rehash_if_needed_InrD:
  assumes "(case rep of None \<Rightarrow> hret () | Some record \<Rightarrow> database (update_encrypted_password D u record)) a = (Inr x, a')"
  shows "totps (tables (world a')) = totps (tables (world a)) \<and> session a' = session a \<and>
    clock (world a') = clock (world a) \<and> dice (world a) \<le> dice (world a')"
proof (cases rep)
  case None
  then show ?thesis using assms by (simp add: hret_def)
next
  case (Some rec)
  then have run: "database (update_encrypted_password D u rec) a = (Inr x, a')" using assms by simp
  then have "update_encrypted_password D u rec (world a) = (Inr x, world a')"
    by (auto simp: database_def split: prod.splits)
  then show ?thesis
    using totps_rehash steady_database [OF steady_login_programs(6) run] database_session [OF run] by blast
qed

lemma check_credentials_Redirect:
  assumes run: "check_credentials E ip user pw a = (Inr (Redirect url), a')"
  shows "\<exists>row b. row \<in> set (operators (tables (world a))) \<and> username row = user \<and>
    is_console_role (operator_type row) \<and> password_right E row pw \<and>
    finish_login E ip user row b = (Inr (Redirect url), a') \<and> session b = session a \<and>
    totps (tables (world b)) = totps (tables (world a)) \<and> clock (world b) = clock (world a) \<and>
    dice (world a) \<le> dice (world b)"
proof -
  have refused: "refuse_login ip user why b \<noteq> (Inr (Redirect url), a')" for why b
    using refuse_login_result [of ip user why b] by (auto simp: invalid_login_response_def)
  obtain row a1 where found: "database (find_by_username user) a = (Inr (Some row), a1)" and
    rest: "hbind (attempt_db (spawn_verify E row pw)) (\<lambda>result. case result of
            Inl _ \<Rightarrow> refuse_login ip user (lit ''crypto_error'')
          | Inr v \<Rightarrow>
              if \<not> valid v then refuse_login ip user (lit ''bad_password'')
              else hbind (case replacement_record v of
                  None \<Rightarrow> hret ()
                | Some record \<Rightarrow> database (update_encrypted_password (deps_of E) (id_user row) record)) (\<lambda>_.
                if \<not> is_console_role (operator_type row)
                then hbind (audit_login ip user (lit ''forbidden_role'')) (\<lambda>_. hret invalid_login_response)
                else finish_login E ip user row)) a1 = (Inr (Redirect url), a')"
    using run refused unfolding check_credentials_def
    by (auto simp: hret_def dest!: hbind_InrD split: if_splits option.splits)
  have 1: "row \<in> set (operators (tables (world a))) \<and> username row = user \<and> tables (world a1) = tables (world a)"
    using found found_username by (fastforce simp: database_def split: prod.splits)
  note 2 = steady_database [OF steady_login_programs(1) found] database_session [OF found]
  obtain res a2 where checked: "attempt_db (spawn_verify E row pw) a1 = (Inr res, a2)" and
    tail: "(case res of
            Inl _ \<Rightarrow> refuse_login ip user (lit ''crypto_error'')
          | Inr v \<Rightarrow>
              if \<not> valid v then refuse_login ip user (lit ''bad_password'')
              else hbind (case replacement_record v of
                  None \<Rightarrow> hret ()
                | Some record \<Rightarrow> database (update_encrypted_password (deps_of E) (id_user row) record)) (\<lambda>_.
                if \<not> is_console_role (operator_type row)
                then hbind (audit_login ip user (lit ''forbidden_role'')) (\<lambda>_. hret invalid_login_response)
                else finish_login E ip user row)) a2 = (Inr (Redirect url), a')"
    using rest by (auto dest!: hbind_InrD)
  obtain v where v: "res = Inr v" "valid v" using tail refused by (cases res) (auto split: if_splits)
  have "spawn_verify E row pw (world a1) = (Inr v, world a2)" and 3: "session a2 = session a1"
    using checked v(1) by (auto simp: attempt_db_def split: prod.splits)
  note 4 = spawn_verify_InrD [OF this(1)] steady_attempt [OF steady_login_programs(3) checked]
  obtain x b where rehash: "(case replacement_record v of None \<Rightarrow> hret ()
      | Some record \<Rightarrow> database (update_encrypted_password (deps_of E) (id_user row) record)) a2 = (Inr x, b)" and
    ending: "(if \<not> is_console_role (operator_type row)
      then hbind (audit_login ip user (lit ''forbidden_role'')) (\<lambda>_. hret invalid_login_response)
      else finish_login E ip user row) b = (Inr (Redirect url), a')"
    using tail v by (auto dest!: hbind_InrD split del: if_split)
  have role: "is_console_role (operator_type row)"
    using ending by (auto simp: hret_def invalid_login_response_def dest!: hbind_InrD split: if_splits)
  note 5 = rehash_if_needed_InrD [OF rehash]
  have "finish_login E ip user row b = (Inr (Redirect url), a')" using ending role by simp
  moreover have "password_right E row pw" using 4(1) v(2) by (auto simp: password_right_def)
  ultimately show ?thesis using 1 2 3 4 5 role by (intro exI [of _ row] exI [of _ b]) auto
qed

text \<open>
  Property C2 (safety): a login form is answered with a redirect only after every check: a CSRF token
  that verifies, both throttle keys open, an account of that name with a console role, and its
  password. The session then has a freshly drawn id; with a confirmed second factor it only carries
  the pending marker, otherwise the identity and epoch of that account.
\<close>

theorem login_needs_credentials:
  assumes "login_submit E req login pw csrf a = (Inr (Redirect url), a')"
  shows "\<exists>ip user row. ip = show_ip (effective_client_ip (peer req) (headers req) (trusted_proxy_ips E)) \<and>
    user = to_ascii_lowercase (plain_text E login) \<and> csrf_verify req csrf \<and>
    gate_open (ip_key_of ip) a \<and> gate_open (ip_user_key_of ip user) (pass_gate (ip_key_of ip) a) \<and>
    row \<in> set (operators (tables (world a))) \<and> username row = user \<and> is_console_role (operator_type row) \<and>
    password_right E row pw \<and> dice (world a) \<le> session_id (session a') \<and>
    (if factor_on (id_user row) (tables (world a))
     then url = lit ''/kraken_ui/auth/mfa_challenge'' \<and>
       data (session a') = half_signed_in row (clock (world a)) (data (session a))
     else url = lit ''/kraken_ui/auth/admin_panel'' \<and>
       data (session a') = signed_in E row (clock (world a)) (data (session a)))"
proof -
  define ip where "ip = show_ip (effective_client_ip (peer req) (headers req) (trusted_proxy_ips E))"
  define user where "user = to_ascii_lowercase (plain_text E login)"
  let ?inner = "when_unlocked ip user (ip_user_key_of ip user) (lit ''locked'')
    (lit ''persistent_locked'') locked_login_response (check_credentials E ip user pw)"
  have csrf: "csrf_verify req csrf"
    using assms by (auto simp: login_submit_def hret_def csrf_error_response_def split: if_splits)
  have outer: "when_unlocked ip [] (ip_key_of ip) (lit ''locked'') (lit ''persistent_locked'')
      locked_login_response ?inner a = (Inr (Redirect url), a')"
    using assms csrf by (simp add: login_submit_def Let_def ip_def user_def)
  have g1: "gate_open (ip_key_of ip) a" and inner: "?inner (pass_gate (ip_key_of ip) a) = (Inr (Redirect url), a')"
    using unlocked_Redirect [OF outer] by (auto simp: locked_login_response_def)
  have g2: "gate_open (ip_user_key_of ip user) (pass_gate (ip_key_of ip) a)" and
    run: "check_credentials E ip user pw (pass_gate (ip_user_key_of ip user) (pass_gate (ip_key_of ip) a)) =
      (Inr (Redirect url), a')"
    using unlocked_Redirect [OF inner] by (auto simp: locked_login_response_def)
  obtain row b where row: "row \<in> set (operators (tables (world a)))" "username row = user"
      "is_console_role (operator_type row)" "password_right E row pw" and
    tail: "finish_login E ip user row b = (Inr (Redirect url), a')" and
    b: "session b = session a" "totps (tables (world b)) = totps (tables (world a))"
      "clock (world b) = clock (world a)" "dice (world a) \<le> dice (world b)"
    using check_credentials_Redirect [OF run] by auto
  show ?thesis
    using finish_login_InrD [OF tail] b csrf g1 g2 row factor_on_totps [OF b(2)]
    by (intro exI [of _ ip] exI [of _ user] exI [of _ row]) (auto simp: ip_def user_def split: if_splits)
qed

definition plain_operator :: operator_row where
  "plain_operator = sample_operator\<lparr>mfa_enabled := 0\<rparr>"

definition plain_world :: world where
  "plain_world = sample_world\<lparr>tables := (tables sample_world)\<lparr>operators := [plain_operator], totps := []\<rparr>\<rparr>"

definition right_login :: "app \<Rightarrow> (app_error + response) \<times> app" where
  "right_login = login_submit sample_env sample_request (lit '' ANN '') (lit ''pw'') (lit ''tok'')"

theorem login_needs_credentials_witness:
  "fst (right_login (sample_app sample_world (\<lambda>_. None))) = Inr (Redirect (lit ''/kraken_ui/auth/mfa_challenge'')) \<and>
   fst (right_login (sample_app plain_world (\<lambda>_. None))) = Inr (Redirect (lit ''/kraken_ui/auth/admin_panel'')) \<and>
   (\<exists>row\<in>set (operators (tables plain_world)). username row = lit ''ann'' \<and> password_right sample_env row (lit ''pw'') \<and>
     data (session (snd (right_login (sample_app plain_world (\<lambda>_. None))))) = signed_in sample_env row 65 (\<lambda>_. None))"
proof (intro conjI)
  let ?a = "sample_app plain_world (\<lambda>_. None)"
  show "fst (right_login (sample_app sample_world (\<lambda>_. None))) = Inr (Redirect (lit ''/kraken_ui/auth/mfa_challenge''))"
    by code_simp
  show ok: "fst (right_login ?a) = Inr (Redirect (lit ''/kraken_ui/auth/admin_panel''))" by code_simp
  have "lit ''/kraken_ui/auth/admin_panel'' \<noteq> lit ''/kraken_ui/auth/mfa_challenge''"
    "clock (world ?a) = 65" "data (session ?a) = (\<lambda>_. None)" "world ?a = plain_world"
    "to_ascii_lowercase (plain_text sample_env (lit '' ANN '')) = lit ''ann''"
    by (code_simp, simp_all add: sample_app_def plain_world_def sample_world_def) code_simp
  with login_needs_credentials [of sample_env sample_request "lit '' ANN ''" "lit ''pw''" "lit ''tok''" ?a
      "lit ''/kraken_ui/auth/admin_panel''" "snd (right_login ?a)"] ok
  show "\<exists>row\<in>set (operators (tables plain_world)). username row = lit ''ann'' \<and> password_right sample_env row (lit ''pw'') \<and>
     data (session (snd (right_login ?a))) = signed_in sample_env row 65 (\<lambda>_. None)"
    unfolding right_login_def by (metis prod.collapse)
qed

end
