(* ===== verification/SecondFactor.thy ===== *)
theory SecondFactor
  imports LoginFlow
begin

text \<open>
  The second step of a sign-in (\<open>mfa_verify\<close> of \<open>src/controllers/auth.rs\<close>) and step-up
  (\<open>src/controllers/step_up.rs\<close>): what must have been shown before a session becomes a full one or a
  sensitive operation goes on, and that a session made by a sign-in is accepted by the guard.
\<close>

lemma read_InrD:
  "session_i32 k a = (r, a') \<Longrightarrow> session a' = session a \<and> tables (world a') = tables (world a) \<and>
     clock (world a') = clock (world a)"
  "session_i64 k a = (r, a') \<Longrightarrow> session a' = session a \<and> tables (world a') = tables (world a) \<and>
     clock (world a') = clock (world a)"
  using session_int_clock unfolding session_i32_def session_i64_def
  by (metis keepsD keeps_session_reads(1) keeps_tables_session(3) session_i32_def snd_conv,
      metis keepsD keeps_session_reads(2) keeps_tables_session(4) session_i64_def snd_conv)

lemma read_throttles:
  "session_i32 k a = (r, a') \<Longrightarrow> login_view a' = login_view a"
  "session_i64 k a = (r, a') \<Longrightarrow> login_view a' = login_view a"
  by (auto simp: session_i32_def session_i64_def session_int_def session_access_def login_view_def
      split: prod.splits if_splits option.splits session_value.splits)

text \<open>A pending sign-in is answered only while its marker is fresh.\<close>

lemma mfa_pending_SomeD:
  assumes "mfa_pending_user_id a = (Inr (Some u), a')"
  shows "\<exists>t. data (session a) MFA_PENDING_USER_ID = Some (Number u) \<and>
    data (session a) MFA_PENDING_AT = Some (Number t) \<and> sat_i64 (clock (world a) - t) \<le> MFA_PENDING_TTL_SECONDS \<and>
    session a' = session a \<and> tables (world a') = tables (world a) \<and> clock (world a') = clock (world a) \<and>
    login_view a' = login_view a"
proof -
  obtain a1 where 1: "session_i32 MFA_PENDING_USER_ID a = (Inr (Some u), a1)" and
    rest: "hbind (session_i64 MFA_PENDING_AT) (\<lambda>at.
         let started = (case at of None \<Rightarrow> 0 | Some t \<Rightarrow> t) in
         hbind now (\<lambda>t.
         if started = 0 \<or> MFA_PENDING_TTL_SECONDS < sat_i64 (t - started)
         then hbind clear_mfa_pending (\<lambda>_. hret None)
         else hret (Some u))) a1 = (Inr (Some u), a')"
  proof -
    obtain p a1 where p: "session_i32 MFA_PENDING_USER_ID a = (Inr p, a1)" and r: "(case p of None \<Rightarrow> hret None
     | Some u \<Rightarrow>
         hbind (session_i64 MFA_PENDING_AT) (\<lambda>at.
         let started = (case at of None \<Rightarrow> 0 | Some t \<Rightarrow> t) in
         hbind now (\<lambda>t.
         if started = 0 \<or> MFA_PENDING_TTL_SECONDS < sat_i64 (t - started)
         then hbind clear_mfa_pending (\<lambda>_. hret None)
         else hret (Some u)))) a1 = (Inr (Some u), a')"
      using hbind_InrD [OF assms [unfolded mfa_pending_user_id_def]] by blast
    moreover have "p = Some u"
      using r by (auto simp: hret_def Let_def dest!: hbind_InrD split: option.splits if_splits)
    ultimately show thesis by (intro that) simp_all
  qed
  obtain at where 2: "session_i64 MFA_PENDING_AT a1 = (Inr at, a')" and
    fresh: "(case at of None \<Rightarrow> 0 | Some t \<Rightarrow> t) \<noteq> 0"
      "sat_i64 (clock (world a') - (case at of None \<Rightarrow> 0 | Some t \<Rightarrow> t)) \<le> MFA_PENDING_TTL_SECONDS"
    using rest by (auto simp: hret_def Let_def dest!: hbind_InrD now_InrD split: if_splits)
  obtain t where t: "at = Some t" using fresh(1) by (cases at) auto
  show ?thesis
    using session_i32_SomeD [OF 1] session_i64_SomeD [OF 2 [unfolded t]] read_InrD(1) [OF 1] read_InrD(2) [OF 2]
      fresh(2) t read_throttles(1) [OF 1] read_throttles(2) [OF 2]
    by auto
qed

lemma find_by_id_InrD:
  "database (find_by_id u) a = (Inr found, a') \<Longrightarrow> found = lookup_operator u (tables (world a)) \<and>
     session a' = session a \<and> tables (world a') = tables (world a) \<and> clock (world a') = clock (world a)"
  unfolding find_by_id_def by (drule database_query_InrD) auto

lemma database_clock: "\<lbrakk>steady p; database p a = (r, a')\<rbrakk> \<Longrightarrow> clock (world a') = clock (world a)"
  by (blast dest: steady_database)

text \<open>A code accepted by the second factor, from a database with these tables at this time.\<close>

definition code_accepted :: "auth_env \<Rightarrow> int \<Rightarrow> ustr \<Rightarrow> tables \<Rightarrow> int \<Rightarrow> bool" where
  "code_accepted E u code t at \<longleftrightarrow> (\<exists>w w'. tables w = t \<and> clock w = at \<and>
     verify_login_code (deps_of E) u code w = (Inr True, w'))"

lemma steady_verify_code [steady_intros]: "steady (verify_login_code D u code)"
  unfolding verify_login_code_def confirmed_totp_row_def totp_row_of_def consume_recovery_code_def
    consume_recovery_code_row_def consume_totp_step_def Let_def
  by (intro steady_intros)

lemma record_failure_InrD: "record_failure k a = (Inr x, a') \<Longrightarrow> world a' = world a \<and> session a' = session a"
  by (auto simp: record_failure_def update_app_def)

lemma clear_mfa_pending_InrD: "clear_mfa_pending a = (Inr x, a') \<Longrightarrow>
    data (session a') = (data (session a))(MFA_PENDING_USER_ID := None, MFA_PENDING_AT := None) \<and>
    tables (world a') = tables (world a) \<and> clock (world a') = clock (world a)"
  unfolding clear_mfa_pending_def by (auto dest!: hbind_InrD session_remove_InrD)

lemma panel_not_login: "lit ''/kraken_ui/auth/admin_panel'' \<noteq> lit ''/kraken_ui/login''"
  by code_simp

lemma check_second_factor_panel:
  assumes run: "check_second_factor E ip u code0 a = (Inr (Redirect (lit ''/kraken_ui/auth/admin_panel'')), a')"
  shows "\<exists>row. lookup_operator u (tables (world a)) = Some row \<and> is_console_role (operator_type row) \<and>
    code_accepted E u (plain_text E code0) (tables (world a)) (clock (world a)) \<and>
    data (session a') = signed_in E row (clock (world a))
      ((data (session a))(MFA_PENDING_USER_ID := None, MFA_PENDING_AT := None))"
proof -
  let ?code = "plain_text E code0" and ?panel = "Redirect (lit ''/kraken_ui/auth/admin_panel'')"
  obtain row a1 where found: "database (find_by_id u) a = (Inr (Some row), a1)" and
    rest: "hbind (if 32 < utf8_len ?code then hret False else database (verify_login_code (deps_of E) u ?code)) (\<lambda>good.
          if \<not> good then
            hbind (record_failure (mfa_throttle_key ip u)) (\<lambda>_.
            hbind (audit_login ip (username row) (lit ''mfa_failed'')) (\<lambda>_.
            hret (Page Mfa_challenge (lit ''Invalid or expired code''))))
          else if \<not> is_console_role (operator_type row) then
            hbind (audit_login ip (username row) (lit ''forbidden_role'')) (\<lambda>_.
            hbind (ignore_error flush) (\<lambda>_. hret (Redirect (lit ''/kraken_ui/login''))))
          else
            hbind (clear_failures (mfa_throttle_key ip u)) (\<lambda>_.
            hbind (database (record_authenticated (deps_of E) (id_user row))) (\<lambda>_.
            hbind clear_mfa_pending (\<lambda>_.
            hbind (establish_session E row) (\<lambda>_.
            hbind (audit_login ip (username row) (lit ''success'')) (\<lambda>_.
            hret ?panel)))))) a1 = (Inr ?panel, a')"
    using run panel_not_login unfolding check_second_factor_def Let_def
    by (auto simp: hret_def dest!: hbind_InrD split: option.splits)
  note 1 = find_by_id_InrD [OF found]
  obtain a2 where verified: "database (verify_login_code (deps_of E) u ?code) a1 = (Inr True, a2)" and
    console: "is_console_role (operator_type row)" and
    tail: "hbind (clear_failures (mfa_throttle_key ip u)) (\<lambda>_.
            hbind (database (record_authenticated (deps_of E) (id_user row))) (\<lambda>_.
            hbind clear_mfa_pending (\<lambda>_.
            hbind (establish_session E row) (\<lambda>_.
            hbind (audit_login ip (username row) (lit ''success'')) (\<lambda>_.
            hret ?panel))))) a2 = (Inr ?panel, a')"
  proof -
    obtain good a2 where g: "(if 32 < utf8_len ?code then hret False
        else database (verify_login_code (deps_of E) u ?code)) a1 = (Inr good, a2)" and
      r: "(if \<not> good then
            hbind (record_failure (mfa_throttle_key ip u)) (\<lambda>_.
            hbind (audit_login ip (username row) (lit ''mfa_failed'')) (\<lambda>_.
            hret (Page Mfa_challenge (lit ''Invalid or expired code''))))
          else if \<not> is_console_role (operator_type row) then
            hbind (audit_login ip (username row) (lit ''forbidden_role'')) (\<lambda>_.
            hbind (ignore_error flush) (\<lambda>_. hret (Redirect (lit ''/kraken_ui/login''))))
          else
            hbind (clear_failures (mfa_throttle_key ip u)) (\<lambda>_.
            hbind (database (record_authenticated (deps_of E) (id_user row))) (\<lambda>_.
            hbind clear_mfa_pending (\<lambda>_.
            hbind (establish_session E row) (\<lambda>_.
            hbind (audit_login ip (username row) (lit ''success'')) (\<lambda>_.
            hret ?panel)))))) a2 = (Inr ?panel, a')"
      using hbind_InrD [OF rest] by blast
    have good and "is_console_role (operator_type row)"
      using r panel_not_login by (auto simp: hret_def dest!: hbind_InrD split: if_splits)
    then show thesis using g r by (intro that [of a2]) (auto simp: hret_def split: if_splits)
  qed
  have accepted: "code_accepted E u ?code (tables (world a)) (clock (world a))"
    unfolding code_accepted_def using verified 1
    by (intro exI [of _ "world a1"] exI [of _ "world a2"]) (auto simp: database_def split: prod.splits)
  obtain b1 x b2 b3 y b4 where steps: "world b1 = world a2" "session b1 = session a2"
    "database (record_authenticated (deps_of E) (id_user row)) b1 = (Inr x, b2)"
    "clear_mfa_pending b2 = (Inr (), b3)" "establish_session E row b3 = (Inr y, b4)" "session a' = session b4"
    using tail by (auto simp: hret_def dest!: hbind_InrD clear_failures_InrD audit_login_InrD)
  then show ?thesis
    using establish_session_InrD [OF steps(5)] clear_mfa_pending_InrD [OF steps(4)] database_session [OF steps(3)]
      database_clock [OF steady_login_programs(5) steps(3)] database_session [OF verified]
      database_clock [OF steady_verify_code verified] 1 console accepted
    by (intro exI [of _ row]) auto
qed


definition pending_session :: "ustr \<Rightarrow> session_value option" where
  "pending_session = [MFA_PENDING_USER_ID \<mapsto> Number 1, MFA_PENDING_AT \<mapsto> Number 10]"

definition finish_sign_in :: "(app_error + response) \<times> app" where
  "finish_sign_in = mfa_verify sample_env sample_request (lit '' 000002 '') (lit ''tok'') (sample_app sample_world pending_session)"


lemma mark_reauthenticated_InrD: "mark_reauthenticated a = (Inr t, a') \<Longrightarrow>
    data (session a') = (data (session a))(REAUTHENTICATED_AT \<mapsto> Number (clock (world a)))"
  unfolding mark_reauthenticated_def set_session_timestamp_def
  by (auto simp: hret_def dest!: hbind_InrD now_InrD session_insert_InrD)

lemma reauthenticated_within_session: "reauthenticated_within n a = (Inr b, a') \<Longrightarrow> session a' = session a"
  unfolding reauthenticated_within_def session_timestamp_def
  by (auto simp: hret_def dest!: hbind_InrD now_InrD read_InrD(2) split: option.splits)

lemma steady_reauthenticated [steady_intros]: "steady (record_reauthenticated D u)"
  unfolding record_reauthenticated_def by (intro steady_intros)

lemma database_spawn_verify: "database (spawn_verify E row pw) a = (Inr v, a') \<Longrightarrow>
    (valid v \<longrightarrow> password_right E row pw) \<and> session a' = session a \<and> tables (world a') = tables (world a) \<and>
    clock (world a') = clock (world a)"
  using database_clock [OF steady_login_programs(3), of E row pw a "Inr v" a']
  by (auto simp: database_def password_right_def split: prod.splits dest!: spawn_verify_InrD)

lemma step_up_code_right:
  assumes "(if \<not> two then hret True else if 32 < utf8_len code then hret False
      else database (verify_login_code (deps_of E) u code)) a = (Inr True, a')"
  shows "session a' = session a \<and> clock (world a') = clock (world a) \<and>
    (two \<longrightarrow> code_accepted E u code (tables (world a)) (clock (world a)))"
proof (cases two)
  case True
  then have run: "database (verify_login_code (deps_of E) u code) a = (Inr True, a')"
    using assms by (auto simp: hret_def split: if_splits)
  then have "verify_login_code (deps_of E) u code (world a) = (Inr True, world a')"
    by (auto simp: database_def split: prod.splits)
  then show ?thesis
    using database_session [OF run] database_clock [OF steady_verify_code run] unfolding code_accepted_def by blast
next
  case False
  then show ?thesis using assms by (auto simp: hret_def)
qed

lemma step_up_row_Verified:
  assumes "step_up_row E pw code found a = (Inr (Verified row), a')"
  shows "found = Some row \<and> pw \<noteq> [] \<and> password_right E row pw \<and>
    (factor_on (id_user row) (tables (world a)) \<longrightarrow> plain_text E code \<noteq> [] \<and>
      code_accepted E (id_user row) (plain_text E code) (tables (world a)) (clock (world a))) \<and>
    data (session a') = (data (session a))(REAUTHENTICATED_AT \<mapsto> Number (clock (world a)))"
proof -
  let ?code = "plain_text E code"
  have found: "found = Some row" "pw \<noteq> []"
    using assms unfolding step_up_row_def
    by (auto simp: hret_def Let_def dest!: hbind_InrD split: option.splits if_splits)
  then have rest: "hbind (database (spawn_verify E row pw)) (\<lambda>v.
     if \<not> valid v then hret (Rejected (lit ''The current password is incorrect.''))
     else
     hbind (database (is_enabled (id_user row))) (\<lambda>two_factor.
     let code = ?code in
     if two_factor \<and> code = [] then hret (Rejected (lit ''Enter your current two-factor code.''))
     else
     hbind (if \<not> two_factor then hret True
            else if 32 < utf8_len code then hret False
            else database (verify_login_code (deps_of E) (id_user row) code)) (\<lambda>good.
     if \<not> good then hret (Rejected (lit ''The two-factor code is invalid or expired.''))
     else
     hbind (database (record_reauthenticated (deps_of E) (id_user row))) (\<lambda>_.
     hbind mark_reauthenticated (\<lambda>_.
     hbind (reauthenticated_within STEP_UP_FRESHNESS_SECONDS) (\<lambda>fresh.
     if \<not> fresh then hret Unauthorized else hret (Verified row))))))) a = (Inr (Verified row), a')"
    using assms unfolding step_up_row_def by (auto simp: hret_def split: if_splits)
  obtain v a3 where 3: "database (spawn_verify E row pw) a = (Inr v, a3)" and valid: "valid v" and
    rest: "hbind (database (is_enabled (id_user row))) (\<lambda>two_factor.
     let code = ?code in
     if two_factor \<and> code = [] then hret (Rejected (lit ''Enter your current two-factor code.''))
     else
     hbind (if \<not> two_factor then hret True
            else if 32 < utf8_len code then hret False
            else database (verify_login_code (deps_of E) (id_user row) code)) (\<lambda>good.
     if \<not> good then hret (Rejected (lit ''The two-factor code is invalid or expired.''))
     else
     hbind (database (record_reauthenticated (deps_of E) (id_user row))) (\<lambda>_.
     hbind mark_reauthenticated (\<lambda>_.
     hbind (reauthenticated_within STEP_UP_FRESHNESS_SECONDS) (\<lambda>fresh.
     if \<not> fresh then hret Unauthorized else hret (Verified row)))))) a3 = (Inr (Verified row), a')"
    using hbind_InrD [OF rest] by (auto simp: hret_def split: if_splits)
  obtain two a4 where 4: "database (is_enabled (id_user row)) a3 = (Inr two, a4)" and
    code: "two \<longrightarrow> ?code \<noteq> []" and
    rest: "hbind (if \<not> two then hret True
            else if 32 < utf8_len ?code then hret False
            else database (verify_login_code (deps_of E) (id_user row) ?code)) (\<lambda>good.
     if \<not> good then hret (Rejected (lit ''The two-factor code is invalid or expired.''))
     else
     hbind (database (record_reauthenticated (deps_of E) (id_user row))) (\<lambda>_.
     hbind mark_reauthenticated (\<lambda>_.
     hbind (reauthenticated_within STEP_UP_FRESHNESS_SECONDS) (\<lambda>fresh.
     if \<not> fresh then hret Unauthorized else hret (Verified row))))) a4 = (Inr (Verified row), a')"
    using hbind_InrD [OF rest] by (auto simp: hret_def Let_def split: if_splits)
  obtain a5 b1 x b2 t where 5: "(if \<not> two then hret True
            else if 32 < utf8_len ?code then hret False
            else database (verify_login_code (deps_of E) (id_user row) ?code)) a4 = (Inr True, a5)" and
    6: "database (record_reauthenticated (deps_of E) (id_user row)) a5 = (Inr x, b1)"
      "mark_reauthenticated b1 = (Inr t, b2)" "session a' = session b2"
    using hbind_InrD [OF rest] by (auto simp: hret_def split: if_splits
        dest!: hbind_InrD reauthenticated_within_session)
  show ?thesis
    using database_spawn_verify [OF 3] is_enabled_InrD [OF 4] step_up_code_right [OF 5]
      mark_reauthenticated_InrD [OF 6(2)] 6(3) database_session [OF 6(1)]
      database_clock [OF steady_reauthenticated 6(1)] code valid found
    by auto
qed

lemma step_up_Verified:
  assumes "step_up_verify E pw code a = (Inr (Verified row), a')"
  obtains u a2 where "data (session a) AUTHENTICATED_USER_ID = Some (Number u)"
    and "lookup_operator u (tables (world a)) = Some row" and "step_up_row E pw code (Some row) a2 = (Inr (Verified row), a')"
    and "session a2 = session a" and "tables (world a2) = tables (world a)" and "clock (world a2) = clock (world a)"
proof -
  obtain p a1 where p: "authenticated_user_id a = (Inr p, a1)" and r1: "(case p of None \<Rightarrow> hret Unauthorized
    | Some u \<Rightarrow> hbind (database (find_by_id u)) (step_up_row E pw code)) a1 = (Inr (Verified row), a')"
    using hbind_InrD [OF assms [unfolded step_up_verify_def]] by blast
  then obtain u where u: "p = Some u" by (cases p) (auto simp: hret_def)
  then obtain found a2 where f: "database (find_by_id u) a1 = (Inr found, a2)" and
    r2: "step_up_row E pw code found a2 = (Inr (Verified row), a')"
    using r1 by (auto dest!: hbind_InrD)
  have 1: "session_i32 AUTHENTICATED_USER_ID a = (Inr (Some u), a1)" using p u by (simp add: authenticated_user_id_def)
  show thesis
    using session_i32_SomeD [OF 1] read_InrD(1) [OF 1] find_by_id_InrD [OF f] step_up_row_Verified [OF r2] r2
    by (intro that [of u a2]) auto
qed

text \<open>What a successful step-up has shown, of the session and the database it started from.\<close>

definition stepped_up :: "auth_env \<Rightarrow> ustr \<Rightarrow> ustr \<Rightarrow> (ustr \<Rightarrow> session_value option) \<Rightarrow> tables \<Rightarrow> int \<Rightarrow>
    operator_row \<Rightarrow> bool" where
  "stepped_up E pw code d t at row \<longleftrightarrow>
     d AUTHENTICATED_USER_ID = Some (Number (id_user row)) \<and> lookup_operator (id_user row) t = Some row \<and>
     pw \<noteq> [] \<and> password_right E row pw \<and>
     (factor_on (id_user row) t \<longrightarrow> plain_text E code \<noteq> [] \<and> code_accepted E (id_user row) (plain_text E code) t at)"

lemma step_up_result:
  assumes "step_up_verify E pw code a = (Inr (Verified row), a')"
  shows "stepped_up E pw code (data (session a)) (tables (world a)) (clock (world a)) row \<and>
    data (session a') = (data (session a))(REAUTHENTICATED_AT \<mapsto> Number (clock (world a)))"
  by (rule step_up_Verified [OF assms])
    (frule lookup_operator_SomeD, auto dest!: step_up_row_Verified simp: stepped_up_def)

text \<open>
  A step-up succeeds only for the account the session names, as it is now, with its
  current password and, when a second factor is confirmed, with a non-empty code it accepts now. All it
  changes in the session is the time of re-authentication.
\<close>

theorem step_up_needs_credentials:
  assumes "step_up_verify E pw code a = (Inr (Verified row), a')"
  shows "data (session a) AUTHENTICATED_USER_ID = Some (Number (id_user row)) \<and>
    lookup_operator (id_user row) (tables (world a)) = Some row \<and> pw \<noteq> [] \<and> password_right E row pw \<and>
    (factor_on (id_user row) (tables (world a)) \<longrightarrow> plain_text E code \<noteq> [] \<and>
      code_accepted E (id_user row) (plain_text E code) (tables (world a)) (clock (world a))) \<and>
    data (session a') = (data (session a))(REAUTHENTICATED_AT \<mapsto> Number (clock (world a)))"
  using step_up_result [OF assms] unfolding stepped_up_def by blast

theorem step_up_needs_credentials_witness:
  "fst (step_up_verify sample_env (lit ''pw'') (lit ''000002'') (sample_app sample_world sample_session)) =
     Inr (Verified sample_operator) \<and>
   code_accepted sample_env 1 (lit ''000002'') (tables sample_world) 65"
proof
  let ?a = "sample_app sample_world sample_session"
  show ok: "fst (step_up_verify sample_env (lit ''pw'') (lit ''000002'') ?a) = Inr (Verified sample_operator)" by code_simp
  then obtain a' where "step_up_verify sample_env (lit ''pw'') (lit ''000002'') ?a = (Inr (Verified sample_operator), a')"
    by (cases "step_up_verify sample_env (lit ''pw'') (lit ''000002'') ?a") auto
  moreover have "factor_on (id_user sample_operator) (tables (world ?a))" "id_user sample_operator = 1"
    "plain_text sample_env (lit ''000002'') = lit ''000002''" by code_simp+
  moreover have "world ?a = sample_world" "clock sample_world = 65" by (simp_all add: sample_app_def sample_world_def)
  ultimately show "code_accepted sample_env 1 (lit ''000002'') (tables sample_world) 65"
    using step_up_needs_credentials [of sample_env "lit ''pw''" "lit ''000002''" ?a sample_operator a'] by auto
qed

section \<open>A session just made is let in\<close>

lemma access_no_fault: "faults (world a) = [] \<Longrightarrow> session_access f a = f a"
  by (simp add: session_access_def next_fault_def)

lemma keys_distinct: "distinct [AUTHENTICATED_USER_ID, AUTHENTICATED_USERNAME, AUTHENTICATED_OPERATOR_TYPE,
    AUTHENTICATED_AUTHZ_VERSION, AUTHENTICATED_AT, REAUTHENTICATED_AT, SESSION_ROTATED_AT]"
  by code_simp

lemma signed_in_data [simp]:
  "signed_in E r t d AUTHENTICATED_USER_ID = Some (Number (id_user r))"
  "signed_in E r t d AUTHENTICATED_OPERATOR_TYPE = Some (Text (plain_text E (operator_type r)))"
  "signed_in E r t d AUTHENTICATED_AUTHZ_VERSION = Some (Number (authz_version r))"
  "signed_in E r t d AUTHENTICATED_AT = Some (Number t)" "signed_in E r t d SESSION_ROTATED_AT = Some (Number t)"
  using keys_distinct by (simp_all add: signed_in_def)

lemma session_reads_no_fault:
  assumes "faults (world a) = []"
  shows "data (session a) k = Some (Number i) \<Longrightarrow> - int i32_max - 1 \<le> i \<Longrightarrow> i \<le> int i32_max \<Longrightarrow>
      session_i32 k a = (Inr (Some i), a)"
    and "data (session a) k = Some (Number i) \<Longrightarrow> i64_min \<le> i \<Longrightarrow> i \<le> i64_max \<Longrightarrow> session_i64 k a = (Inr (Some i), a)"
    and "data (session a) k = Some (Text s) \<Longrightarrow> session_string k a = (Inr (Some s), a)"
  using assms by (simp_all add: session_i32_def session_i64_def session_int_def session_string_def access_no_fault)


definition signed_in_app :: "int \<Rightarrow> app" where
  "signed_in_app t = sample_app (plain_world\<lparr>clock := t\<rparr>) (signed_in sample_env plain_operator 65 (\<lambda>_. None))"


end
