(* ===== verification/Guard.thy ===== *)
theory Guard
  imports SecondFactor
begin

text \<open>
  The route guards of \<open>src/middleware/authentication.rs\<close> and the route table of
  \<open>src/routes/mod.rs\<close>: which handler answers a method and path, behind which guard. The handlers
  are a parameter of the dispatcher; the static file service is not modelled.
\<close>

section \<open>Guards\<close>

text \<open>What is sent: the answer of a handler or its error, and the \<open>no-store\<close> mark of guarded pages.\<close>

datatype reply = Answer response | Failed app_error

record sent =
  reply :: reply
  no_store :: bool

definition run_endpoint :: "response handler \<Rightarrow> app \<Rightarrow> reply \<times> app" where
  "run_endpoint h a = (case h a of (Inr r, a') \<Rightarrow> (Answer r, a') | (Inl e, a') \<Rightarrow> (Failed e, a'))"

definition to_login :: reply where
  "to_login = Answer (Redirect (lit ''/kraken_ui/login''))"

definition guard :: "auth_env \<Rightarrow> operator_role list \<Rightarrow> response handler \<Rightarrow> app \<Rightarrow> sent \<times> app" where
  "guard E allowed_roles continue a =
     (case (case authorized_role E a of
          (Inr (Some role), a1) \<Rightarrow>
            if role \<in> set allowed_roles then run_endpoint continue a1 else (to_login, a1)
        | (Inr None, a1) \<Rightarrow> (to_login, a1)
        | (Inl _, a1) \<Rightarrow> (to_login, a1))
      of (r, a') \<Rightarrow> (\<lparr>reply = r, no_store = True\<rparr>, a'))"

definition ALL_ROLES :: "operator_role list" where
  "ALL_ROLES = [Admin, Operator, Auditor]"

definition require_admin :: "auth_env \<Rightarrow> response handler \<Rightarrow> app \<Rightarrow> sent \<times> app" where
  "require_admin E = guard E [Admin]"

definition require_operator :: "auth_env \<Rightarrow> response handler \<Rightarrow> app \<Rightarrow> sent \<times> app" where
  "require_operator E = guard E [Admin, Operator]"

definition require_console_viewer :: "auth_env \<Rightarrow> response handler \<Rightarrow> app \<Rightarrow> sent \<times> app" where
  "require_console_viewer E = guard E ALL_ROLES"

section \<open>Routes\<close>

datatype http_method = Get | Post

datatype endpoint =
    Redirect_to ustr
  | Acl_insert_user | Acl_insert_user_action | Acl_delete_user | Acl_delete_user_action | Acl_edit_user
  | Acl_edit_user_lookup | Acl_update_user_action | Acl_show_user_table | Acl_api_operators
  | Acl_update_password | Acl_update_password_action
  | Update_page | Update_start | Update_status
  | Rule_management_cmc_page | Rule_management_api_cmc_list | Rule_management_cmc_update
  | Rule_management_regex_select_page | Rule_management_regex_edit_page | Rule_management_regex_update
  | Dashboard_get | Dashboard_api | Waf_show_attacks | Waf_api_attacks | Waf_view_waf_request
  | Mfa_mfa_overview | Mfa_mfa_enroll | Mfa_mfa_confirm | Mfa_mfa_disable | Mfa_mfa_regenerate
  | Auth_login_page | Auth_login_submit | Auth_mfa_challenge_page | Auth_mfa_verify | Auth_logout
  | Setup_first_time | Health_get

datatype route_group = Admin_only | Operator_grade | Console_viewer | Unguarded

definition admin_routes :: "(http_method \<times> ustr \<times> endpoint) list" where
  "admin_routes =
    [(Get, lit ''/kraken_ui/auth/insert_user'', Acl_insert_user),
     (Post, lit ''/kraken_ui/auth/insert_user_action'', Acl_insert_user_action),
     (Get, lit ''/kraken_ui/auth/delete_user'', Acl_delete_user),
     (Post, lit ''/kraken_ui/auth/delete_user_action'', Acl_delete_user_action),
     (Get, lit ''/kraken_ui/auth/edit_user'', Acl_edit_user),
     (Post, lit ''/kraken_ui/auth/edit_user'', Acl_edit_user_lookup),
     (Post, lit ''/kraken_ui/auth/update_user_action'', Acl_update_user_action),
     (Get, lit ''/kraken_ui/auth/show_user_table'', Acl_show_user_table),
     (Get, lit ''/kraken_ui/auth/api/operators'', Acl_api_operators),
     (Get, lit ''/kraken_ui/auth/update_kraken_ui'', Update_page),
     (Post, lit ''/kraken_ui/auth/update_kraken_ui/start'', Update_start),
     (Get, lit ''/kraken_ui/auth/api/update_kraken_ui'', Update_status)]"

definition operator_routes :: "(http_method \<times> ustr \<times> endpoint) list" where
  "operator_routes =
    [(Get, lit ''/kraken_ui/auth/rule_management/cmc'', Rule_management_cmc_page),
     (Get, lit ''/kraken_ui/auth/api/rule_management/cmc'', Rule_management_api_cmc_list),
     (Post, lit ''/kraken_ui/auth/rule_management/cmc/update'', Rule_management_cmc_update),
     (Get, lit ''/kraken_ui/auth/rule_management/regex'', Rule_management_regex_select_page),
     (Get, lit ''/kraken_ui/auth/rule_management/regex/edit'', Rule_management_regex_edit_page),
     (Post, lit ''/kraken_ui/auth/rule_management/regex/update'', Rule_management_regex_update)]"

definition console_routes :: "(http_method \<times> ustr \<times> endpoint) list" where
  "console_routes =
    [(Get, lit ''/kraken_ui/auth/admin_panel'', Dashboard_get),
     (Get, lit ''/kraken_ui/auth/dashboard'', Dashboard_get),
     (Get, lit ''/kraken_ui/auth/api/dashboard'', Dashboard_api),
     (Get, lit ''/kraken_ui/auth/show_attacks'', Waf_show_attacks),
     (Get, lit ''/kraken_ui/auth/api/attacks'', Waf_api_attacks),
     (Get, lit ''/kraken_ui/auth/view_waf_request/'', Waf_view_waf_request),
     (Get, lit ''/kraken_ui/auth/update_password'', Acl_update_password),
     (Post, lit ''/kraken_ui/auth/update_password_action'', Acl_update_password_action),
     (Get, lit ''/kraken_ui/auth/mfa'', Mfa_mfa_overview),
     (Get, lit ''/kraken_ui/auth/mfa_enroll'', Redirect_to (lit ''/kraken_ui/auth/mfa'')),
     (Post, lit ''/kraken_ui/auth/mfa_enroll'', Mfa_mfa_enroll),
     (Post, lit ''/kraken_ui/auth/mfa_confirm'', Mfa_mfa_confirm),
     (Post, lit ''/kraken_ui/auth/mfa_disable'', Mfa_mfa_disable),
     (Post, lit ''/kraken_ui/auth/mfa_regenerate'', Mfa_mfa_regenerate),
     (Post, lit ''/kraken_ui/auth/logout'', Auth_logout)]"

definition open_routes :: "(http_method \<times> ustr \<times> endpoint) list" where
  "open_routes =
    [(Get, lit ''/'', Redirect_to (lit ''/kraken_ui/login'')),
     (Get, lit ''/login'', Redirect_to (lit ''/kraken_ui/login'')),
     (Get, lit ''/dashboard'', Redirect_to (lit ''/kraken_ui/auth/admin_panel'')),
     (Get, lit ''/kraken_ui/login'', Auth_login_page),
     (Post, lit ''/kraken_ui/login'', Auth_login_submit),
     (Get, lit ''/kraken_ui/auth/mfa_challenge'', Auth_mfa_challenge_page),
     (Post, lit ''/kraken_ui/auth/mfa_verify'', Auth_mfa_verify),
     (Post, lit ''/kraken_ui/auth/first_time'', Setup_first_time),
     (Get, lit ''/health'', Health_get)]"

definition in_group :: "route_group \<Rightarrow> (http_method \<times> ustr \<times> endpoint) list \<Rightarrow>
    (http_method \<times> ustr \<times> route_group \<times> endpoint) list" where
  "in_group g rs = map (\<lambda>(m, p, e). (m, p, g, e)) rs"

definition all_routes :: "(http_method \<times> ustr \<times> route_group \<times> endpoint) list" where
  "all_routes = in_group Unguarded open_routes @ in_group Admin_only admin_routes @
     in_group Operator_grade operator_routes @ in_group Console_viewer console_routes"

text \<open>\<open>None\<close>: no such route, which the framework answers itself.\<close>

definition dispatch ::
    "auth_env \<Rightarrow> (endpoint \<Rightarrow> response handler) \<Rightarrow> http_method \<Rightarrow> ustr \<Rightarrow> app \<Rightarrow> (sent \<times> app) option" where
  "dispatch E serve m p a =
     (case find (\<lambda>r. fst r = m \<and> fst (snd r) = p) all_routes of
        None \<Rightarrow> None
      | Some (_, _, g, e) \<Rightarrow> Some (case g of
          Admin_only \<Rightarrow> require_admin E (serve e) a
        | Operator_grade \<Rightarrow> require_operator E (serve e) a
        | Console_viewer \<Rightarrow> require_console_viewer E (serve e) a
        | Unguarded \<Rightarrow> (case run_endpoint (serve e) a of (r, a') \<Rightarrow> (\<lparr>reply = r, no_store = False\<rparr>, a'))))"

section \<open>Who may reach what\<close>

text \<open>The policy, by endpoint: the least privileged role that may use it; \<open>None\<close> is everybody.\<close>

fun least_role :: "endpoint \<Rightarrow> operator_role option" where
  "least_role Acl_insert_user = Some Admin" | "least_role Acl_insert_user_action = Some Admin"
| "least_role Acl_delete_user = Some Admin" | "least_role Acl_delete_user_action = Some Admin"
| "least_role Acl_edit_user = Some Admin" | "least_role Acl_edit_user_lookup = Some Admin"
| "least_role Acl_update_user_action = Some Admin" | "least_role Acl_show_user_table = Some Admin"
| "least_role Acl_api_operators = Some Admin"
| "least_role Update_page = Some Admin" | "least_role Update_start = Some Admin" | "least_role Update_status = Some Admin"
| "least_role Rule_management_cmc_page = Some Operator" | "least_role Rule_management_api_cmc_list = Some Operator"
| "least_role Rule_management_cmc_update = Some Operator"
| "least_role Rule_management_regex_select_page = Some Operator"
| "least_role Rule_management_regex_edit_page = Some Operator"
| "least_role Rule_management_regex_update = Some Operator"
| "least_role Auth_login_page = None" | "least_role Auth_login_submit = None"
| "least_role Auth_mfa_challenge_page = None" | "least_role Auth_mfa_verify = None"
| "least_role Setup_first_time = None" | "least_role Health_get = None"
| "least_role (Redirect_to p) = (if p = lit ''/kraken_ui/auth/mfa'' then Some Auditor else None)"
| "least_role _ = Some Auditor"

definition granted_role :: "auth_env \<Rightarrow> app \<Rightarrow> operator_role option" where
  "granted_role E a = (case fst (authorized_role E a) of Inr (Some r) \<Rightarrow> Some r | _ \<Rightarrow> None)"

definition group_role :: "route_group \<Rightarrow> operator_role option" where
  "group_role g = (case g of Admin_only \<Rightarrow> Some Admin | Operator_grade \<Rightarrow> Some Operator
     | Console_viewer \<Rightarrow> Some Auditor | Unguarded \<Rightarrow> None)"

lemma routes_follow_policy: "list_all (\<lambda>(m, p, g, e). group_role g = least_role e) all_routes"
  by code_simp

lemma routes_unique: "distinct (map (\<lambda>r. (fst r, fst (snd r))) all_routes)"
  by code_simp

lemma find_route:
  assumes "(m, p, g, e) \<in> set all_routes"
  shows "find (\<lambda>r. fst r = m \<and> fst (snd r) = p) all_routes = Some (m, p, g, e)"
proof -
  have "find (\<lambda>r. fst r = m \<and> fst (snd r) = p) rs = Some (m, p, g, e)"
    if "distinct (map (\<lambda>r. (fst r, fst (snd r))) rs)" "(m, p, g, e) \<in> set rs" for rs
    using that by (induction rs) (auto simp: image_iff)
  then show ?thesis using routes_unique assms by blast
qed

lemma guard_result:
  "guard E roles h a =
     (case granted_role E a of
        Some r \<Rightarrow> if r \<in> set roles
          then (case run_endpoint h (snd (authorized_role E a)) of (r, a') \<Rightarrow> (\<lparr>reply = r, no_store = True\<rparr>, a'))
          else (\<lparr>reply = to_login, no_store = True\<rparr>, snd (authorized_role E a))
      | None \<Rightarrow> (\<lparr>reply = to_login, no_store = True\<rparr>, snd (authorized_role E a)))"
  by (auto simp: guard_def granted_role_def split: prod.split sum.split option.split)

lemma group_roles:
  "r \<in> set [Admin] \<longleftrightarrow> Admin \<le> r" "r \<in> set [Admin, Operator] \<longleftrightarrow> Operator \<le> r" "r \<in> set ALL_ROLES \<longleftrightarrow> Auditor \<le> r"
  by (cases r; simp add: ALL_ROLES_def less_eq_operator_role_def)+

text \<open>
  Property C7 (refinement): the route table implements the policy. For every route, an endpoint that
  needs a role runs exactly when the guard grants the request a role at least as privileged, on the
  state the guard leaves; otherwise the answer is a redirect to the login page and the endpoint does
  nothing. Guarded answers, errors included, are never to be stored. Endpoints for everybody just run.
\<close>

theorem routes_enforce_policy:
  assumes "(m, p, g, e) \<in> set all_routes"
  shows "dispatch E serve m p a = Some
    (case least_role e of
       None \<Rightarrow> (case run_endpoint (serve e) a of (r, a') \<Rightarrow> (\<lparr>reply = r, no_store = False\<rparr>, a'))
     | Some needed \<Rightarrow>
         if \<exists>r. granted_role E a = Some r \<and> needed \<le> r
         then (case run_endpoint (serve e) (snd (authorized_role E a)) of (r, a') \<Rightarrow> (\<lparr>reply = r, no_store = True\<rparr>, a'))
         else (\<lparr>reply = to_login, no_store = True\<rparr>, snd (authorized_role E a)))"
proof -
  have "least_role e = group_role g" using routes_follow_policy assms by (force simp: list_all_iff)
  moreover have "dispatch E serve m p a = Some (case g of
      Admin_only \<Rightarrow> guard E [Admin] (serve e) a
    | Operator_grade \<Rightarrow> guard E [Admin, Operator] (serve e) a
    | Console_viewer \<Rightarrow> guard E ALL_ROLES (serve e) a
    | Unguarded \<Rightarrow> (case run_endpoint (serve e) a of (r, a') \<Rightarrow> (\<lparr>reply = r, no_store = False\<rparr>, a')))"
    by (simp add: dispatch_def find_route [OF assms] require_admin_def require_operator_def
        require_console_viewer_def cong: route_group.case_cong)
  ultimately show ?thesis
    unfolding guard_result group_roles
    by (cases g; cases "granted_role E a") (auto simp: group_role_def)
qed

theorem routes_enforce_policy_witness:
  "(let a = sample_app sample_world sample_session; p = lit ''/kraken_ui/auth/delete_user_action''
    in granted_role sample_env a = Some Admin \<and>
       dispatch sample_env (\<lambda>e. hret (Status 200 [])) Post p a =
         Some (\<lparr>reply = Answer (Status 200 []), no_store = True\<rparr>, snd (authorized_role sample_env a)) \<and>
       dispatch sample_env (\<lambda>e. hret (Status 200 [])) Post p (sample_app no_accounts sample_session) =
         Some (\<lparr>reply = to_login, no_store = True\<rparr>, snd (authorized_role sample_env (sample_app no_accounts sample_session))))"
proof -
  have route: "(Post, lit ''/kraken_ui/auth/delete_user_action'', Admin_only, Acl_delete_user_action) \<in> set all_routes"
    by (simp add: all_routes_def in_group_def admin_routes_def)
  have "granted_role sample_env (sample_app sample_world sample_session) = Some Admin"
    "granted_role sample_env (sample_app no_accounts sample_session) = None" by code_simp+
  then show ?thesis by (simp add: routes_enforce_policy [OF route] Let_def run_endpoint_def hret_def)
qed

end
