(* ===== verification/PasswordPolicy.thy ===== *)
theory PasswordPolicy
  imports PasswordCrypto
begin

text \<open>
  The password rules of \<open>src/security/password.rs\<close> and the account-field checks of
  \<open>src/controllers/acl.rs\<close> that the user administration and the first-time setup share.
\<close>

section \<open>Password policy\<close>

definition MINIMUM_PASSWORD_LENGTH :: nat where "MINIMUM_PASSWORD_LENGTH = 14"

definition character_classes :: "ustr \<Rightarrow> nat" where
  "character_classes password = length (filter id
     [list_ex is_ascii_upper password, list_ex is_ascii_lower password,
      list_ex is_ascii_digit password, list_ex (\<lambda>c. \<not> is_ascii_alnum c) password])"

definition validate_password :: "ustr \<Rightarrow> ustr \<Rightarrow> ustr + unit" where
  "validate_password password identity =
     (let contains_identity = contains (to_ascii_lowercase identity) (to_ascii_lowercase password) in
      if length password < MINIMUM_PASSWORD_LENGTH then Inl (lit ''password must contain at least 14 characters'')
      else if character_classes password < 3 then Inl (lit ''password must include at least three character classes'')
      else if 3 \<le> utf8_len identity \<and> contains_identity then Inl (lit ''password cannot contain the login identifier'')
      else Inr ())"

definition email_identity :: "ustr \<Rightarrow> ustr" where
  "email_identity addr = hd (split_on 64 addr)"

definition password_is_acceptable :: "ustr \<Rightarrow> ustr \<Rightarrow> ustr \<Rightarrow> bool" where
  "password_is_acceptable password name addr \<longleftrightarrow>
     validate_password password name = Inr () \<and> validate_password password (email_identity addr) = Inr ()"

definition password_example :: ustr where
  "password_example = lit ''Weak password. Use at least 14 characters with upper- and lower-case letters, a number and a symbol. For example: More-Than-14!Characters9.''"

section \<open>Names and addresses\<close>

definition is_name_char :: "uchar \<Rightarrow> bool" where
  "is_name_char c \<longleftrightarrow> is_ascii_alnum c \<or> c \<in> {95, 46, 45}"

definition valid_username :: "ustr \<Rightarrow> bool" where
  "valid_username name \<longleftrightarrow> 3 \<le> utf8_len name \<and> utf8_len name \<le> 32 \<and> list_all is_name_char (as_bytes name)"

text \<open>\<open>memchr\<close> and \<open>memrchr\<close>: the first and the last place of a byte.\<close>

fun memchr :: "nat \<Rightarrow> bytes \<Rightarrow> nat option" where
  "memchr b [] = None"
| "memchr b (x # xs) = (if x = b then Some 0 else map_option Suc (memchr b xs))"

fun memrchr :: "nat \<Rightarrow> bytes \<Rightarrow> nat option" where
  "memrchr b [] = None"
| "memrchr b (x # xs) = (case memrchr b xs of Some i \<Rightarrow> Some (Suc i) | None \<Rightarrow> if x = b then Some 0 else None)"

definition valid_email :: "ustr \<Rightarrow> bool" where
  "valid_email addr \<longleftrightarrow>
     (if addr = [] \<or> 128 < utf8_len addr \<or> memchr 32 (as_bytes addr) \<noteq> None then False
      else (case (memchr 64 (as_bytes addr), memrchr 64 (as_bytes addr)) of
        (Some first, Some last_at) \<Rightarrow> first = last_at \<and> 0 < first \<and> first + 1 < utf8_len addr
      | _ \<Rightarrow> False))"

section \<open>What the checks accept\<close>

lemma as_bytes_Cons: "as_bytes (c # s) = utf8_char c @ as_bytes s"
  by (simp add: as_bytes_def)

lemma ascii_in_bytes: "b < 128 \<Longrightarrow> b \<in> set (as_bytes s) \<longleftrightarrow> b \<in> set s"
  by (induction s) (auto simp: as_bytes_Cons utf8_char_def as_bytes_def split: if_splits)

lemma memchr_None: "memchr b xs = None \<longleftrightarrow> b \<notin> set xs"
  by (induction xs) auto

lemma valid_email_has_at: "valid_email addr \<Longrightarrow> 64 \<in> set addr"
  using memchr_None [of 64 "as_bytes addr"] ascii_in_bytes [of 64 addr]
  by (auto simp: valid_email_def split: if_splits option.splits)

text \<open>An address is never read as the number of an operator.\<close>

lemma parse_digits_chars: "parse_digits hi s = Some n \<Longrightarrow> 64 \<notin> set s"
  by (auto simp: parse_digits_def is_ascii_digit_def list_all_iff split: if_splits)

lemma parse_int_chars: "parse_int hi s = Some n \<Longrightarrow> 64 \<notin> set s"
  by (auto simp: parse_int_def parse_uint_def strip_plus_def split: list.splits if_splits dest!: parse_digits_chars)

lemma valid_email_not_number: "valid_email addr \<Longrightarrow> parse_int hi addr = None"
  using valid_email_has_at parse_int_chars by (cases "parse_int hi addr") blast+

text \<open>What the rules of a password amount to; the message shown for a weak one asks for more.\<close>

lemma password_is_acceptable_iff:
  "password_is_acceptable password name addr \<longleftrightarrow>
     14 \<le> length password \<and> 3 \<le> character_classes password \<and>
     (\<forall>i\<in>{name, email_identity addr}. 3 \<le> utf8_len i \<longrightarrow>
        \<not> contains (to_ascii_lowercase i) (to_ascii_lowercase password))"
  by (auto simp: password_is_acceptable_def validate_password_def MINIMUM_PASSWORD_LENGTH_def Let_def)

lemma weaker_than_advertised:
  "password_is_acceptable (lit ''long-random-pass9'') (lit ''admin'') (lit ''admin@example.org'') \<and>
   \<not> list_ex is_ascii_upper (lit ''long-random-pass9'')"
  by code_simp

end
