(* ===== verification/Acl.thy ===== *)
theory Acl
  imports Guard PasswordPolicy
begin

text \<open>
  User administration, \<open>src/controllers/acl.rs\<close>: adding, editing and deleting operators, the operator
  table, and changing one's own password. The lemmas show that accounts only change after a step-up of
  the signed-in administrator and that administration cannot lose its last administrator, and the one
  interleaving in which it can.
\<close>

section \<open>Forms\<close>

record operator_form =
  of_username :: ustr
  of_email :: ustr
  of_user_type :: ustr
  of_password :: ustr
  of_current_password :: ustr
  of_mfa_code :: ustr
  of_csrf_token :: ustr

record delete_user_form =
  df_user_identity :: ustr
  df_current_password :: ustr
  df_mfa_code :: ustr
  df_csrf_token :: ustr

record edit_lookup_form =
  lf_id_user :: ustr
  lf_csrf_token :: ustr

record update_user_form =
  uf_id_user :: ustr
  uf_username :: ustr
  uf_email :: ustr
  uf_user_type :: ustr
  uf_password :: ustr
  uf_current_password :: ustr
  uf_mfa_code :: ustr
  uf_csrf_token :: ustr

record update_password_form =
  pf_id_user :: ustr
  pf_current_password :: ustr
  pf_password :: ustr
  pf_csrf_token :: ustr

section \<open>Pages\<close>

definition admin_frame :: page_frame where
  "admin_frame = \<lparr>active_page = ACL, show_acl = True, show_rule_management = True\<rparr>"

definition role_options :: "ustr option \<Rightarrow> role_option list" where
  "role_options selected = map (\<lambda>r. \<lparr>option_value = role_str r, option_label = role_label r,
     option_selected = (selected = Some (role_str r))\<rparr>) ALL_ROLES"

definition render_add_user :: "request \<Rightarrow> ustr \<Rightarrow> ustr \<Rightarrow> response handler" where
  "render_add_user req message class = render_with_csrf req (Add_user
     \<lparr>au_frame = admin_frame, au_roles = role_options None, au_show_form = (class \<noteq> lit ''success''),
      au_message = message, au_message_class = class\<rparr>)"

definition render_delete_user :: "request \<Rightarrow> ustr \<Rightarrow> ustr \<Rightarrow> ustr \<Rightarrow> response handler" where
  "render_delete_user req identity message class = render_with_csrf req (Delete_user
     \<lparr>du_frame = admin_frame, du_identity = identity, du_message = message, du_message_class = class\<rparr>)"

definition render_edit_search :: "request \<Rightarrow> ustr \<Rightarrow> ustr \<Rightarrow> response handler" where
  "render_edit_search req message class = render_with_csrf req (Edit_user
     \<lparr>eu_frame = admin_frame, eu_has_user = False, eu_id_user = 0, eu_username = [], eu_email = [],
      eu_roles = role_options None, eu_show_form = True, eu_message = message, eu_message_class = class\<rparr>)"

definition render_edit_operator :: "request \<Rightarrow> operator_row \<Rightarrow> ustr \<Rightarrow> ustr \<Rightarrow> response handler" where
  "render_edit_operator req r message class = render_with_csrf req (Edit_user
     \<lparr>eu_frame = admin_frame, eu_has_user = True, eu_id_user = id_user r, eu_username = username r,
      eu_email = email r, eu_roles = role_options (Some (operator_type r)),
      eu_show_form = (class \<noteq> lit ''success''), eu_message = message, eu_message_class = class\<rparr>)"

definition row_can :: "(operator_role \<Rightarrow> bool) \<Rightarrow> operator_row \<Rightarrow> bool" where
  "row_can p r = (case parse_role (operator_type r) of None \<Rightarrow> False | Some role \<Rightarrow> p role)"

definition render_password :: "request \<Rightarrow> operator_row \<Rightarrow> bool \<Rightarrow> ustr \<Rightarrow> ustr \<Rightarrow> response handler" where
  "render_password req r show_form message class = render_with_csrf req (Update_password_form
     \<lparr>up_frame = \<lparr>active_page = USER_STATUS, show_acl = row_can can_administer r,
        show_rule_management = row_can can_manage_rules r\<rparr>,
      up_id_user = id_user r, up_username = username r, up_email = email r, up_show_form = show_form,
      up_message = message, up_message_class = class\<rparr>)"

section \<open>Validation and audit\<close>

record validated_operator =
  vo_username :: ustr
  vo_email :: ustr
  vo_operator_type :: ustr
  vo_password :: "ustr option"

definition validate_operator ::
    "auth_env \<Rightarrow> ustr \<Rightarrow> ustr \<Rightarrow> ustr \<Rightarrow> ustr \<Rightarrow> bool \<Rightarrow> ustr + validated_operator" where
  "validate_operator E raw_username raw_email raw_type raw_password password_optional =
     (let name = to_ascii_lowercase (plain_text E raw_username);
          addr = to_ascii_lowercase (plain_text E raw_email);
          ty = to_ascii_lowercase (plain_text E raw_type)
      in if \<not> valid_username name then Inl (lit ''The username must be 3 to 32 safe characters.'')
      else if \<not> valid_email addr then Inl (lit ''The email address is invalid or longer than 128 characters.'')
      else case parse_role ty of
        None \<Rightarrow> Inl (lit ''Invalid user type.'')
      | Some role \<Rightarrow>
          if raw_password = [] \<and> password_optional
          then Inr \<lparr>vo_username = name, vo_email = addr, vo_operator_type = role_str role, vo_password = None\<rparr>
          else if secret_has_rejected_markup E raw_password \<or> \<not> password_is_acceptable raw_password name addr
          then Inl password_example
          else Inr \<lparr>vo_username = name, vo_email = addr, vo_operator_type = role_str role,
                    vo_password = Some raw_password\<rparr>)"

definition audit_operator_event :: "ustr \<Rightarrow> int \<Rightarrow> ustr \<Rightarrow> unit handler" where
  "audit_operator_event what u name = update_app (\<lambda>a. a\<lparr>operator_log := operator_log a @
     [\<lparr>event = lit ''operator'', action = what, event_id_user = u, event_username = name\<rparr>]\<rparr>)"

text \<open>Best effort: a failing store is only logged.\<close>

definition revoke_sessions :: "int \<Rightarrow> unit handler" where
  "revoke_sessions u = hbind (store_call_of (delete_by_user_id u)) (\<lambda>_. hret ())"

definition verify_current_password :: "auth_env \<Rightarrow> operator_row \<Rightarrow> ustr \<Rightarrow> bool handler" where
  "verify_current_password E r password = hbind (database (spawn_verify E r password)) (\<lambda>v. hret (valid v))"

text \<open>The \<open>match\<close> on a step-up that every action has: \<open>refuse\<close> is the page with the message.\<close>

definition after_step_up ::
    "auth_env \<Rightarrow> ustr \<Rightarrow> ustr \<Rightarrow> (ustr \<Rightarrow> response handler) \<Rightarrow> (operator_row \<Rightarrow> response handler) \<Rightarrow> response handler" where
  "after_step_up E password code refuse continue =
     hbind (step_up_verify E password code) (\<lambda>result. case result of
       Verified r \<Rightarrow> continue r
     | Unauthorized \<Rightarrow> hret (Status 401 [])
     | Rejected message \<Rightarrow> refuse message)"

section \<open>Adding\<close>

definition insert_user :: "request \<Rightarrow> response handler" where
  "insert_user req = render_add_user req [] []"

definition insert_user_action :: "auth_env \<Rightarrow> request \<Rightarrow> operator_form \<Rightarrow> response handler" where
  "insert_user_action E req form =
     (if \<not> csrf_verify req (of_csrf_token form) then hret csrf_error_response
      else case validate_operator E (of_username form) (of_email form) (of_user_type form) (of_password form) False of
        Inl message \<Rightarrow> render_add_user req message (lit ''error'')
      | Inr input \<Rightarrow>
      hbind (database (find_by_email (vo_email input))) (\<lambda>same_email.
      if same_email \<noteq> None
      then render_add_user req (lit ''That email address is already registered.'') (lit ''error'')
      else
      hbind (database (find_by_username (vo_username input))) (\<lambda>same_name.
      if same_name \<noteq> None then render_add_user req (lit ''That username is already taken.'') (lit ''error'')
      else
      after_step_up E (of_current_password form) (of_mfa_code form)
        (\<lambda>message. render_add_user req message (lit ''error''))
        (\<lambda>_. case vo_password input of
           None \<Rightarrow> hfail Password_missing
         | Some password \<Rightarrow>
             hbind (database (create_operator (deps_of E) (vo_username input) (vo_email input)
               (vo_operator_type input) password)) (\<lambda>created.
             hbind (audit_operator_event (lit ''create'') (id_user created) (username created)) (\<lambda>_.
             render_add_user req (lit ''User created successfully.'') (lit ''success'')))))))"

section \<open>Deleting\<close>

definition delete_user :: "request \<Rightarrow> response handler" where
  "delete_user req = render_delete_user req [] [] []"

text \<open>The part of \<open>delete_user_action\<close> after the step-up.\<close>

definition remove_user :: "request \<Rightarrow> operator_row \<Rightarrow> response handler" where
  "remove_user req target =
     hbind (database (delete_by_id (id_user target))) (\<lambda>_.
     hbind (revoke_sessions (id_user target)) (\<lambda>_.
     hbind (audit_operator_event (lit ''delete'') (id_user target) (username target)) (\<lambda>_.
     render_delete_user req [] (lit ''User removed.'') (lit ''error''))))"

text \<open>The part before the deletion, handing on the row to delete or the answer.\<close>

definition find_target :: "auth_env \<Rightarrow> request \<Rightarrow> ustr \<Rightarrow> (operator_row \<Rightarrow> response handler) \<Rightarrow> response handler" where
  "find_target E req identity continue =
     (if identity = [] \<or> 128 < utf8_len identity
      then render_delete_user req identity (lit ''Enter a valid ID or email address.'') (lit ''error'')
      else hbind (case parse_i32 identity of
          Some u \<Rightarrow> hbind (database (find_by_id u)) (\<lambda>r. hret (Some r))
        | None \<Rightarrow> if valid_email identity then hbind (database (find_by_email identity)) (\<lambda>r. hret (Some r))
            else hret None) (\<lambda>looked_up. case looked_up of
        None \<Rightarrow> render_delete_user req identity (lit ''Enter a numeric ID or a valid email address.'') (lit ''error'')
      | Some None \<Rightarrow> render_delete_user req identity (lit ''User not found.'') (lit ''error'')
      | Some (Some target) \<Rightarrow> continue target))"

definition delete_user_action :: "auth_env \<Rightarrow> request \<Rightarrow> delete_user_form \<Rightarrow> response handler" where
  "delete_user_action E req form =
     (if \<not> csrf_verify req (df_csrf_token form) then hret csrf_error_response
      else
        let identity = to_ascii_lowercase (plain_text E (df_user_identity form)) in
        find_target E req identity (\<lambda>target.
        hbind authenticated_user_id (\<lambda>self.
        if self = Some (id_user target)
        then render_delete_user req identity
          (lit ''The signed-in administrator cannot remove their own account.'') (lit ''error'')
        else after_step_up E (df_current_password form) (df_mfa_code form)
          (\<lambda>message. render_delete_user req identity message (lit ''error''))
          (\<lambda>_. remove_user req target))))"

section \<open>Editing\<close>

definition edit_user :: "request \<Rightarrow> response handler" where
  "edit_user req = render_edit_search req [] []"

text \<open>\<open>parse::<i32>\<close> of a sanitised field, positive only.\<close>

definition positive_id :: "auth_env \<Rightarrow> ustr \<Rightarrow> int option" where
  "positive_id E raw = (case parse_i32 (plain_text E raw) of
     Some u \<Rightarrow> if 0 < u then Some u else None | None \<Rightarrow> None)"

definition edit_user_lookup :: "auth_env \<Rightarrow> request \<Rightarrow> edit_lookup_form \<Rightarrow> response handler" where
  "edit_user_lookup E req form =
     (if \<not> csrf_verify req (lf_csrf_token form) then hret csrf_error_response
      else case positive_id E (lf_id_user form) of
        None \<Rightarrow> render_edit_search req (lit ''Enter a valid ID.'') (lit ''error'')
      | Some u \<Rightarrow> hbind (database (find_by_id u)) (\<lambda>found. case found of
          None \<Rightarrow> render_edit_search req (lit ''User not found.'') (lit ''error'')
        | Some r \<Rightarrow> render_edit_operator req r [] []))"

text \<open>The part of \<open>update_user_action\<close> after the step-up.\<close>

definition change_user ::
    "auth_env \<Rightarrow> request \<Rightarrow> int option \<Rightarrow> operator_row \<Rightarrow> validated_operator \<Rightarrow> response handler" where
  "change_user E req self existing input =
     (let role_changed = operator_type existing \<noteq> vo_operator_type input in
      hbind (database (update_operator (deps_of E) (id_user existing) (vo_username input) (vo_email input)
        (vo_operator_type input) (vo_password input))) (\<lambda>updated.
      hbind (if self = Some (id_user updated) then refresh_authenticated_session E updated else hret ()) (\<lambda>_.
      hbind (if role_changed then revoke_sessions (id_user updated) else hret ()) (\<lambda>_.
      hbind (audit_operator_event (lit ''update'') (id_user updated) (username updated)) (\<lambda>_.
      render_edit_operator req updated (lit ''User details updated successfully.'') (lit ''success''))))))"

definition taken_by_other :: "int \<Rightarrow> operator_row option \<Rightarrow> bool" where
  "taken_by_other u found = (case found of None \<Rightarrow> False | Some r \<Rightarrow> id_user r \<noteq> u)"

definition update_user_action :: "auth_env \<Rightarrow> request \<Rightarrow> update_user_form \<Rightarrow> response handler" where
  "update_user_action E req form =
     (if \<not> csrf_verify req (uf_csrf_token form) then hret csrf_error_response
      else case positive_id E (uf_id_user form) of
        None \<Rightarrow> render_edit_search req (lit ''Invalid user ID.'') (lit ''error'')
      | Some u \<Rightarrow>
      hbind (database (find_by_id u)) (\<lambda>found. case found of
        None \<Rightarrow> render_edit_search req (lit ''User not found.'') (lit ''error'')
      | Some existing \<Rightarrow> (case validate_operator E (uf_username form) (uf_email form) (uf_user_type form)
            (uf_password form) True of
          Inl message \<Rightarrow> render_edit_operator req existing message (lit ''error'')
        | Inr input \<Rightarrow>
        hbind authenticated_user_id (\<lambda>self.
        if self = Some u \<and> vo_operator_type input \<noteq> role_str Admin
        then render_edit_operator req existing
          (lit ''The signed-in administrator cannot change their own role.'') (lit ''error'')
        else
        hbind (database (find_by_email (vo_email input))) (\<lambda>same_email.
        if taken_by_other u same_email
        then render_edit_operator req existing (lit ''That email address is already registered.'') (lit ''error'')
        else
        hbind (database (find_by_username (vo_username input))) (\<lambda>same_name.
        if taken_by_other u same_name
        then render_edit_operator req existing (lit ''That username is already taken.'') (lit ''error'')
        else
        after_step_up E (uf_current_password form) (uf_mfa_code form)
          (\<lambda>message. render_edit_operator req existing message (lit ''error''))
          (\<lambda>_. change_user E req self existing input)))))))"

section \<open>The table\<close>

definition show_user_table :: "request \<Rightarrow> response handler" where
  "show_user_table req = render_with_csrf req (User_table admin_frame)"

text \<open>\<open>search[value]\<close>, or else \<open>search\<close>, sanitised; absent is empty.\<close>

definition search_term :: "auth_env \<Rightarrow> query_map \<Rightarrow> ustr" where
  "search_term E q = (case (case q (lit ''search[value]'') of None \<Rightarrow> q (lit ''search'') | Some v \<Rightarrow> Some v) of
     None \<Rightarrow> [] | Some v \<Rightarrow> plain_text E v)"

definition operator_json_of :: "operator_row \<Rightarrow> operator_json" where
  "operator_json_of r = \<lparr>oj_id = id_user r, oj_username = username r, oj_email = email r,
     oj_user_type = operator_type r, oj_status = lit ''active'',
     oj_mfa = (if mfa_enabled r \<noteq> 0 then lit ''on'' else lit ''off''), oj_created_at = created_at r\<rparr>"

definition api_operators :: "auth_env \<Rightarrow> query_map \<Rightarrow> response handler" where
  "api_operators E q =
     (let drawn = parse_query_u64 q (lit ''draw'') 1;
          start = parse_query_u64 q (lit ''start'') 0;
          len = clamp 1 100 (parse_query_u64 q (lit ''length'') 50)
      in hbind (database (page_operators start len (search_term E q))) (\<lambda>p.
         hret (Operators_json \<lparr>draw = drawn, records_total = op_total p, records_filtered = op_filtered p,
           page_data = map operator_json_of (op_rows p)\<rparr>)))"

section \<open>One's own password\<close>

definition update_password_page :: "request \<Rightarrow> response handler" where
  "update_password_page req =
     hbind authenticated_user_id (\<lambda>self. case self of
       None \<Rightarrow> hret (Status 401 [])
     | Some u \<Rightarrow> hbind (database (find_by_id u)) (\<lambda>found. case found of
         None \<Rightarrow> hret (Status 401 [])
       | Some r \<Rightarrow> render_password req r True [] []))"

text \<open>The part of \<open>update_password_action\<close> that changes the password.\<close>

definition change_password :: "auth_env \<Rightarrow> request \<Rightarrow> operator_row \<Rightarrow> ustr \<Rightarrow> response handler" where
  "change_password E req existing password =
     hbind (database (update_password (deps_of E) (id_user existing) password)) (\<lambda>updated.
     hbind (refresh_authenticated_session E updated) (\<lambda>_.
     hbind (read_app session) (\<lambda>s.
     hbind (if id_known s
            then hbind (store_call_of (delete_by_user_id_except (id_user existing) (session_id s))) (\<lambda>_. hret ())
            else hret ()) (\<lambda>_.
     hbind (audit_operator_event (lit ''password_change'') (id_user existing) (username existing)) (\<lambda>_.
     render_password req updated False (lit ''Password changed successfully.'') (lit ''success''))))))"

definition update_password_action :: "auth_env \<Rightarrow> request \<Rightarrow> update_password_form \<Rightarrow> response handler" where
  "update_password_action E req form =
     (if \<not> csrf_verify req (pf_csrf_token form) then hret csrf_error_response
      else
      hbind authenticated_user_id (\<lambda>self. case self of
        None \<Rightarrow> hret (Status 401 [])
      | Some u \<Rightarrow>
      let submitted = (case parse_i32 (plain_text E (pf_id_user form)) of None \<Rightarrow> 0 | Some n \<Rightarrow> n) in
      hbind (database (find_by_id u)) (\<lambda>found. case found of
        None \<Rightarrow> hret (Status 401 [])
      | Some existing \<Rightarrow>
      if submitted \<noteq> u
      then render_password req existing True
        (lit ''The submitted ID does not match the signed-in session.'') (lit ''error'')
      else
      hbind (verify_current_password E existing (pf_current_password form)) (\<lambda>right.
      if \<not> right then render_password req existing True (lit ''The current password is incorrect.'') (lit ''error'')
      else if secret_has_rejected_markup E (pf_password form)
      then render_password req existing True password_example (lit ''error'')
      else if \<not> password_is_acceptable (pf_password form) (username existing) (email existing)
      then render_password req existing True password_example (lit ''error'')
      else change_password E req existing (pf_password form)))))"

end
