(* ===== verification/StepUpEffects.thy ===== *)
theory StepUpEffects
  imports Acl
begin

text \<open>
  What the actions behind a step-up (\<open>src/controllers/step_up.rs\<close>, called by
  \<open>src/controllers/acl.rs\<close> and \<open>src/controllers/mfa.rs\<close>) can do to the tables: how handlers relate the
  tables before and after, and the contract of an action: it leaves something unchanged unless the
  operator of the session has stepped up, and then it does only what is permitted.
\<close>

section \<open>Effects of handlers on the tables\<close>

text \<open>A handler relates the tables before and after, whatever it answers.\<close>

definition hrelates :: "(tables \<Rightarrow> tables \<Rightarrow> bool) \<Rightarrow> 'a handler \<Rightarrow> bool" where
  "hrelates R h \<longleftrightarrow> (\<forall>a. R (tables (world a)) (tables (world (snd (h a)))))"

text \<open>A handler that neither touches the tables nor the session's data and takes no time.\<close>

definition view_of :: "app \<Rightarrow> tables \<times> (ustr \<Rightarrow> session_value option) \<times> int" where
  "view_of a = (tables (world a), data (session a), clock (world a))"

named_theorems hrelates_intros

lemma hrelatesD: "hrelates R h \<Longrightarrow> h a = (r, a') \<Longrightarrow> R (tables (world a)) (tables (world a'))"
  by (metis hrelates_def snd_conv)

lemma hrelates_keeps: "\<lbrakk>good_relation R; keeps (\<lambda>a. tables (world a)) h\<rbrakk> \<Longrightarrow> hrelates R h"
  by (simp add: hrelates_def keeps_def good_relation_def)

lemma hrelates_database [hrelates_intros]: "relates R p \<Longrightarrow> hrelates R (database p)"
  by (auto simp: hrelates_def database_def dest: relatesD split: prod.split)

lemma hrelates_hbind [hrelates_intros]:
  "\<lbrakk>good_relation R; hrelates R p; \<And>x. hrelates R (f x)\<rbrakk> \<Longrightarrow> hrelates R (hbind p f)"
  unfolding hrelates_def hbind_def good_relation_def
  by (auto split: prod.split sum.split) (metis snd_conv)+

lemma hrelates_if [hrelates_intros]: "\<lbrakk>hrelates R p; hrelates R q\<rbrakk> \<Longrightarrow> hrelates R (if b then p else q)"
  by simp

lemma hrelates_option [hrelates_intros]:
  "\<lbrakk>hrelates R p; \<And>x. hrelates R (f x)\<rbrakk> \<Longrightarrow> hrelates R (case y of None \<Rightarrow> p | Some x \<Rightarrow> f x)"
  by (cases y) auto

lemma keeps_tables_plain [keeps_intros]:
  "keeps (\<lambda>a. g (tables (world a))) (update_app (\<lambda>a. a\<lparr>operator_log := L a\<rparr>))"
  "keeps (\<lambda>a. g (tables (world a))) (store_call_of op)"
  by (simp_all add: keeps_def update_app_def store_call_of_def split: prod.split)

lemma hrelates_plain [hrelates_intros]:
  assumes "good_relation R"
  shows "hrelates R (hret x)" "hrelates R (hfail e)" "hrelates R (render_with_csrf req v)" "hrelates R now"
    "hrelates R (read_app g)"
    "hrelates R (session_insert k sv)" "hrelates R (session_i32 k)" "hrelates R (session_i64 k)"
    "hrelates R (audit_operator_event what u name)" "hrelates R (revoke_sessions u)"
  unfolding audit_operator_event_def revoke_sessions_def
  by (rule hrelates_keeps [OF assms], intro keeps_intros)+

lemma hrelates_session_timestamp [hrelates_intros]:
  "good_relation R \<Longrightarrow> hrelates R (session_timestamp k)" "good_relation R \<Longrightarrow> hrelates R (set_session_timestamp k t)"
  "good_relation R \<Longrightarrow> hrelates R authenticated_user_id" "good_relation R \<Longrightarrow> hrelates R (refresh_authenticated_session E r)"
  unfolding session_timestamp_def set_session_timestamp_def authenticated_user_id_def
    refresh_authenticated_session_def sync_session_identity_def
  by (intro hrelates_intros; assumption)+

lemma keepsI: "(\<And>r a a'. h a = (r, a') \<Longrightarrow> f a' = f a) \<Longrightarrow> keeps f h"
  unfolding keeps_def by (metis prod.collapse)

lemma keeps_view_reads [keeps_intros]: "keeps view_of (session_i32 k)" "keeps view_of authenticated_user_id"
  unfolding authenticated_user_id_def by (rule keepsI, drule read_InrD(1), simp add: view_of_def)+

lemma keeps_view_query [keeps_intros]: "keeps view_of (database (query q))"
proof (rule keepsI)
  fix r a a' assume "database (query q) a = (r, a')"
  then have "query q (world a) = (r, world a')" "session a' = session a"
    by (auto simp: database_def split: prod.splits)
  then show "view_of a' = view_of a"
    using query_tables [of q "world a"] steadyD [OF steady_query] by (auto simp: view_of_def)
qed

section \<open>The contract of an action\<close>

text \<open>
  From a session with data \<open>d\<close>: either nothing of concern has changed, or the operator of the session
  has stepped up and the change is one permitted to it.
\<close>

definition acts :: "(tables \<Rightarrow> tables \<Rightarrow> bool) \<Rightarrow> (int \<Rightarrow> tables \<Rightarrow> tables \<Rightarrow> bool) \<Rightarrow> auth_env \<Rightarrow> ustr \<Rightarrow> ustr \<Rightarrow>
    (ustr \<Rightarrow> session_value option) \<Rightarrow> 'a handler \<Rightarrow> bool" where
  "acts unchanged permitted E pw code d h \<longleftrightarrow> (\<forall>a. data (session a) = d \<longrightarrow>
     unchanged (tables (world a)) (tables (world (snd (h a)))) \<or>
     (\<exists>row. stepped_up E pw code d (tables (world a)) (clock (world a)) row \<and>
        permitted (id_user row) (tables (world a)) (tables (world (snd (h a))))))"

locale step_up_contract =
  fixes unchanged :: "tables \<Rightarrow> tables \<Rightarrow> bool"
    and permitted :: "int \<Rightarrow> tables \<Rightarrow> tables \<Rightarrow> bool"
  assumes unchanged_good: "good_relation unchanged"
    and permitted_good: "good_relation (permitted u)"
    and unchanged_permitted: "unchanged t t' \<Longrightarrow> permitted u t t'"
    and step_up_unchanged: "hrelates unchanged (step_up_verify E pw code)"
begin

lemma acts_keeps: "keeps view_of h \<Longrightarrow> acts unchanged permitted E pw code d h"
  using unchanged_good by (simp add: acts_def keeps_def view_of_def good_relation_def)

lemma acts_unchanged: "hrelates unchanged h \<Longrightarrow> acts unchanged permitted E pw code d h"
  by (simp add: acts_def hrelates_def)

lemma acts_hbind:
  assumes "keeps view_of p"
    and "\<And>x a a'. \<lbrakk>data (session a) = d; p a = (Inr x, a')\<rbrakk> \<Longrightarrow> acts unchanged permitted E pw code d (f x)"
  shows "acts unchanged permitted E pw code d (hbind p f)"
  unfolding acts_def
proof (intro allI impI)
  fix a :: app assume d: "data (session a) = d"
  obtain r a1 where p: "p a = (r, a1)" by fastforce
  have "view_of a1 = view_of a" using keepsD [OF assms(1) p] .
  then have same: "tables (world a1) = tables (world a)" "data (session a1) = d" "clock (world a1) = clock (world a)"
    using d by (auto simp: view_of_def)
  show "unchanged (tables (world a)) (tables (world (snd (hbind p f a)))) \<or>
     (\<exists>row. stepped_up E pw code d (tables (world a)) (clock (world a)) row \<and>
        permitted (id_user row) (tables (world a)) (tables (world (snd (hbind p f a)))))"
  proof (cases r)
    case (Inl e)
    then show ?thesis using unchanged_good by (simp add: hbind_def p same good_relation_def)
  next
    case (Inr x)
    then show ?thesis
      using assms(2) [OF d p [unfolded Inr], unfolded acts_def] same by (auto simp: hbind_def p)
  qed
qed

lemma acts_if:
  "\<lbrakk>b \<Longrightarrow> acts unchanged permitted E pw code d p; \<not> b \<Longrightarrow> acts unchanged permitted E pw code d q\<rbrakk> \<Longrightarrow> acts unchanged permitted E pw code d (if b then p else q)"
  by simp

lemma acts_option:
  "\<lbrakk>y = None \<Longrightarrow> acts unchanged permitted E pw code d p; \<And>x. y = Some x \<Longrightarrow> acts unchanged permitted E pw code d (f x)\<rbrakk> \<Longrightarrow>
     acts unchanged permitted E pw code d (case y of None \<Rightarrow> p | Some x \<Rightarrow> f x)"
  by (cases y) auto

lemma acts_sum:
  "\<lbrakk>\<And>m. acts unchanged permitted E pw code d (g m); \<And>x. y = Inr x \<Longrightarrow> acts unchanged permitted E pw code d (f x)\<rbrakk> \<Longrightarrow>
     acts unchanged permitted E pw code d (case y of Inl m \<Rightarrow> g m | Inr x \<Rightarrow> f x)"
  by (cases y) auto

lemma acts_find:
  "(\<And>found. (\<And>r. found = Some r \<Longrightarrow> id_user r = u) \<Longrightarrow> acts unchanged permitted E pw code d (f found)) \<Longrightarrow>
     acts unchanged permitted E pw code d (hbind (database (find_by_id u)) f)"
  by (rule acts_hbind, simp add: find_by_id_def keeps_view_query)
    (metis find_by_id_InrD lookup_operator_SomeD)

lemma acts_query:
  "(\<And>x. acts unchanged permitted E pw code d (f x)) \<Longrightarrow> acts unchanged permitted E pw code d (hbind (database (find_by_email addr)) f)"
  "(\<And>x. acts unchanged permitted E pw code d (f x)) \<Longrightarrow> acts unchanged permitted E pw code d (hbind (database (find_by_username name)) f)"
  by (rule acts_hbind; simp add: find_by_email_def find_by_username_def keeps_view_query)+

lemma acts_self:
  assumes "\<And>self. (\<And>u. d AUTHENTICATED_USER_ID = Some (Number u) \<Longrightarrow> self = Some u) \<Longrightarrow> acts unchanged permitted E pw code d (f self)"
  shows "acts unchanged permitted E pw code d (hbind authenticated_user_id f)"
proof (rule acts_hbind)
  fix x a a' assume d: "data (session a) = d" and run: "authenticated_user_id a = (Inr x, a')"
  have "x = Some u" if "d AUTHENTICATED_USER_ID = Some (Number u)" for u
    using run that d by (auto simp: authenticated_user_id_def session_i32_def session_int_def session_access_def
        next_fault_def split: prod.splits if_splits list.splits)
  then show "acts unchanged permitted E pw code d (f x)" by (rule assms)
qed (rule keeps_view_reads)

lemma acts_step_up:
  assumes "\<And>m. hrelates unchanged (refuse m)"
    and "\<And>r. d AUTHENTICATED_USER_ID = Some (Number (id_user r)) \<Longrightarrow> hrelates (permitted (id_user r)) (continue r)"
  shows "acts unchanged permitted E pw code d (after_step_up E pw code refuse continue)"
  unfolding acts_def
proof (intro allI impI)
  fix a :: app assume d: "data (session a) = d"
  obtain r a1 where s: "step_up_verify E pw code a = (r, a1)" by fastforce
  have same: "unchanged (tables (world a)) (tables (world a1))"
    using hrelatesD [OF step_up_unchanged s] .
  show "unchanged (tables (world a)) (tables (world (snd (after_step_up E pw code refuse continue a)))) \<or>
     (\<exists>row. stepped_up E pw code d (tables (world a)) (clock (world a)) row \<and>
        permitted (id_user row) (tables (world a)) (tables (world (snd (after_step_up E pw code refuse continue a)))))"
  proof (cases r)
    case (Inl e)
    then show ?thesis using same by (simp add: after_step_up_def hbind_def s)
  next
    case (Inr res)
    show ?thesis
    proof (cases res)
      case (Verified row)
      have up: "stepped_up E pw code d (tables (world a)) (clock (world a)) row"
        using step_up_result [OF s [unfolded Inr Verified]] d by simp
      then have "hrelates (permitted (id_user row)) (continue row)" by (intro assms(2)) (simp add: stepped_up_def)
      then have "permitted (id_user row) (tables (world a1)) (tables (world (snd (continue row a1))))"
        by (simp add: hrelates_def)
      then show ?thesis
        using up unchanged_permitted [OF same, of "id_user row"] permitted_good [of "id_user row"]
        by (auto simp: after_step_up_def hbind_def s Inr Verified good_relation_def)
    next
      case (Rejected m)
      have "unchanged (tables (world a1)) (tables (world (snd (refuse m a1))))"
        using assms(1) [of m] by (simp add: hrelates_def)
      then show ?thesis
        using same unchanged_good by (auto simp: after_step_up_def hbind_def s Inr Rejected good_relation_def)
    qed (use same in \<open>simp add: after_step_up_def hbind_def s Inr hret_def\<close>)
  qed
qed

lemmas acts_intros = acts_keeps acts_if acts_option acts_sum acts_find acts_query acts_self

end

end
