(* ===== verification/Administration.thy ===== *)
theory Administration
  imports StepUpEffects
begin

text \<open>
  What user administration (\<open>src/controllers/acl.rs\<close>, theory \<open>Acl\<close>) can do to the accounts: they only
  change after a step-up of the session's operator, and the signed-in administrator always stays one.
\<close>

section \<open>Accounts\<close>

text \<open>What administration is about: everything of an account except its timestamps, flag and epoch.\<close>

definition account :: "operator_row \<Rightarrow> int \<times> ustr \<times> ustr \<times> ustr \<times> ustr" where
  "account r = (id_user r, username r, email r, operator_type r, encrypted_password_hash r)"

definition accounts :: "tables \<Rightarrow> (int \<times> ustr \<times> ustr \<times> ustr \<times> ustr) list" where
  "accounts t = map account (operators t)"

definition role_of :: "int \<Rightarrow> tables \<Rightarrow> ustr option" where
  "role_of u t = map_option operator_type (lookup_operator u t)"

definition same_accounts :: "tables \<Rightarrow> tables \<Rightarrow> bool" where
  "same_accounts t t' \<longleftrightarrow> accounts t = accounts t'"

definition stays_admin :: "int \<Rightarrow> tables \<Rightarrow> tables \<Rightarrow> bool" where
  "stays_admin u t t' \<longleftrightarrow> (role_of u t = Some (role_str Admin) \<longrightarrow> role_of u t' = Some (role_str Admin))"

lemma account_relations [simp]: "good_relation same_accounts" "good_relation (stays_admin u)"
  by (auto simp: good_relation_def same_accounts_def stays_admin_def)

lemma role_of_accounts: "role_of u t = map_option (\<lambda>p. fst (snd (snd (snd p)))) (find (\<lambda>p. fst p = u) (accounts t))"
proof -
  have "map_option operator_type (find (\<lambda>r. id_user r = u) rs) =
      map_option (\<lambda>p. fst (snd (snd (snd p)))) (find (\<lambda>p. fst p = u) (map account rs))" for rs
    by (induction rs) (auto simp: account_def)
  then show ?thesis by (simp add: role_of_def lookup_operator_def accounts_def)
qed

lemma same_accounts_stays_admin: "same_accounts t t' \<Longrightarrow> stays_admin u t t'"
  by (simp add: same_accounts_def stays_admin_def role_of_accounts)

text \<open>A step-up leaves the accounts alone.\<close>

lemma same_accounts_update:
  "(\<And>r. account (f r) = account r) \<Longrightarrow> relates same_accounts (execute (update_operator_row u f))"
  by (rule relates_execute)
    (auto simp: update_operator_row_def same_accounts_def accounts_def map_update_where split: option.splits if_splits)

lemma same_accounts_factor_statements:
  "relates same_accounts (execute (use_step i u s))" "relates same_accounts (execute (burn_code i u stamp))"
  by (rule relates_execute; auto simp: use_step_def burn_code_def Let_def same_accounts_def accounts_def)+

lemma same_accounts_step_up_programs:
  "relates same_accounts (spawn_verify E r pw)" "relates same_accounts (is_enabled u)"
  "relates same_accounts (verify_login_code D u code)" "relates same_accounts (record_reauthenticated D u)"
  "relates same_accounts (find_by_id u)"
  unfolding spawn_verify_def is_enabled_def totp_row_of_def verify_login_code_def confirmed_totp_row_def
    consume_totp_step_def consume_recovery_code_def consume_recovery_code_row_def record_reauthenticated_def
    find_by_id_def Let_def
  by (intro relates_intros relates_timestamp same_accounts_update same_accounts_factor_statements
      account_relations; simp add: account_def)+

lemma step_up_same_accounts: "hrelates same_accounts (step_up_verify E pw code)"
proof -
  have row: "hrelates same_accounts (step_up_row E pw code found)" for found
    unfolding step_up_row_def mark_reauthenticated_def reauthenticated_within_def Let_def
    by (intro hrelates_intros same_accounts_step_up_programs account_relations)
  show ?thesis unfolding step_up_verify_def
    by (intro hrelates_intros row same_accounts_step_up_programs account_relations)
qed

text \<open>The statements of the repository that change accounts, seen from an administrator they spare.\<close>

lemma role_of_append: "role_of u t = Some ty \<Longrightarrow> role_of u (t\<lparr>operators := operators t @ rs, operator_seq := n\<rparr>) = Some ty"
  by (auto simp: role_of_def lookup_operator_def find_append split: option.splits)

lemma stays_admin_insert: "relates (stays_admin u) (execute (insert_operator r))"
  by (rule relates_execute)
    (auto simp: insert_operator_def stays_admin_def role_of_append Let_def split: if_splits)

lemma stays_admin_delete: "v \<noteq> u \<Longrightarrow> relates (stays_admin u) (execute (delete_operator_row v))"
proof (rule relates_execute)
  fix t n t' assume "v \<noteq> u" "delete_operator_row v t = Some (n, t')"
  moreover have "find (\<lambda>r. id_user r = u) (filter (\<lambda>r. id_user r \<noteq> v) rs) = find (\<lambda>r. id_user r = u) rs"
    if "v \<noteq> u" for rs :: "operator_row list" using that by (induction rs) auto
  ultimately show "stays_admin u t t'"
    by (auto simp: delete_operator_row_def stays_admin_def role_of_def lookup_operator_def)
qed simp

lemma stays_admin_update:
  assumes "\<And>r. id_user (f r) = id_user r"
    and "\<And>r. v \<noteq> u \<or> operator_type (f r) = role_str Admin \<or> operator_type (f r) = operator_type r"
  shows "relates (stays_admin u) (execute (update_operator_row v f))"
proof (rule relates_execute)
  fix t n t' assume "update_operator_row v f t = Some (n, t')"
  then consider "t' = t" | "t' = t\<lparr>operators := update_where (\<lambda>r. id_user r = v) f (operators t)\<rparr>"
    by (auto simp: update_operator_row_def split: option.splits if_splits)
  then show "stays_admin u t t'"
  proof cases
    case 2
    show ?thesis
      using assms(2) lookup_operator_SomeD [of u t]
      by (auto simp: 2 stays_admin_def role_of_def lookup_operator_def find_update_where [of id_user, OF assms(1)])
        metis
  qed (simp add: stays_admin_def)
qed simp

lemma stays_admin_programs:
  "relates (stays_admin u) (spawn_encrypt D v pw)"
  "relates (stays_admin u) (create_operator D name addr ty pw)"
  "v \<noteq> u \<Longrightarrow> relates (stays_admin u) (delete_by_id v)"
  unfolding spawn_encrypt_def create_operator_def delete_by_id_def
  by (intro relates_intros stays_admin_insert stays_admin_update stays_admin_delete account_relations; simp)+

lemma stays_admin_update_operator:
  "v \<noteq> u \<or> ty = role_str Admin \<Longrightarrow> relates (stays_admin u) (update_operator D v name addr ty pw)"
  unfolding update_operator_def load_updated_def find_by_id_def
  by (intro relates_intros stays_admin_update stays_admin_programs(1) account_relations; auto)

section \<open>The actions\<close>

datatype acl_request =
    Insert_action operator_form
  | Delete_action delete_user_form
  | Update_action update_user_form

fun serve_acl :: "auth_env \<Rightarrow> request \<Rightarrow> acl_request \<Rightarrow> response handler" where
  "serve_acl E req (Insert_action f) = insert_user_action E req f"
| "serve_acl E req (Delete_action f) = delete_user_action E req f"
| "serve_acl E req (Update_action f) = update_user_action E req f"

fun csrf_of :: "acl_request \<Rightarrow> ustr" where
  "csrf_of (Insert_action f) = of_csrf_token f"
| "csrf_of (Delete_action f) = df_csrf_token f"
| "csrf_of (Update_action f) = uf_csrf_token f"

fun password_of :: "acl_request \<Rightarrow> ustr" where
  "password_of (Insert_action f) = of_current_password f"
| "password_of (Delete_action f) = df_current_password f"
| "password_of (Update_action f) = uf_current_password f"

fun code_of :: "acl_request \<Rightarrow> ustr" where
  "code_of (Insert_action f) = of_mfa_code f"
| "code_of (Delete_action f) = df_mfa_code f"
| "code_of (Update_action f) = uf_mfa_code f"

lemma keeps_pages [keeps_intros]:
  "keeps f (render_add_user req m c)" "keeps f (render_delete_user req i m c)"
  "keeps f (render_edit_search req m c)" "keeps f (render_edit_operator req r m c)"
  unfolding render_add_user_def render_delete_user_def render_edit_search_def render_edit_operator_def
  by (rule keeps_render)+

lemma hrelates_pages [hrelates_intros]:
  assumes "good_relation R"
  shows "hrelates R (render_add_user req m c)" "hrelates R (render_delete_user req i m c)"
    "hrelates R (render_edit_operator req r m c)"
  by (rule hrelates_keeps [OF assms], rule keeps_pages)+

interpretation acc: step_up_contract same_accounts stays_admin
  by unfold_locales (simp_all add: account_relations same_accounts_stays_admin step_up_same_accounts)

lemma insert_acts: "acts same_accounts stays_admin E (of_current_password f) (of_mfa_code f) d (insert_user_action E req f)"
  unfolding insert_user_action_def
  by (intro acc.acts_intros acc.acts_step_up keeps_intros hrelates_intros stays_admin_programs account_relations)

lemma delete_acts: "acts same_accounts stays_admin E (df_current_password f) (df_mfa_code f) d (delete_user_action E req f)"
proof -
  have found: "acts same_accounts stays_admin E pw code d (find_target E req identity continue)"
    if "\<And>r. acts same_accounts stays_admin E pw code d (continue r)" for pw code identity continue
    unfolding find_target_def find_by_id_def find_by_email_def
    by (intro acc.acts_intros acc.acts_hbind keeps_intros that; simp split: option.split)
  show ?thesis
    unfolding delete_user_action_def Let_def remove_user_def
    by (intro acc.acts_intros found acc.acts_step_up keeps_intros hrelates_intros account_relations
        stays_admin_programs) auto
qed

lemma update_acts: "acts same_accounts stays_admin E (uf_current_password f) (uf_mfa_code f) d (update_user_action E req f)"
  unfolding update_user_action_def change_user_def Let_def
  by (intro acc.acts_intros acc.acts_step_up keeps_intros hrelates_intros account_relations
      stays_admin_update_operator) auto

lemma serve_acl_acts: "acts same_accounts stays_admin E (password_of q) (code_of q) d (serve_acl E req q)"
  by (cases q) (simp_all add: insert_acts delete_acts update_acts)

text \<open>
  Accounts only change under step-up. If a request to add, edit or delete a user
  changes any account (its name, address, role or password record, or which accounts there are), then its
  CSRF token was right and the operator of the session had just given its current password and, with a
  second factor, an accepted code.
\<close>

theorem account_changes_need_step_up:
  assumes "accounts (tables (world (snd (serve_acl E req q a)))) \<noteq> accounts (tables (world a))"
  shows "csrf_verify req (csrf_of q) \<and>
    (\<exists>row. stepped_up E (password_of q) (code_of q) (data (session a)) (tables (world a)) (clock (world a)) row)"
proof
  show "csrf_verify req (csrf_of q)"
  proof (rule ccontr)
    assume "\<not> csrf_verify req (csrf_of q)"
    then have "serve_acl E req q = hret csrf_error_response"
      by (cases q) (simp_all add: insert_user_action_def delete_user_action_def update_user_action_def)
    then show False using assms by (simp add: hret_def)
  qed
  show "\<exists>row. stepped_up E (password_of q) (code_of q) (data (session a)) (tables (world a)) (clock (world a)) row"
    using serve_acl_acts [of E q "data (session a)" req] assms unfolding acts_def same_accounts_def by auto
qed

definition colleague :: operator_row where
  "colleague = sample_operator\<lparr>id_user := 2, username := lit ''bob'', email := lit ''bob@example.org''\<rparr>"

definition two_admins :: world where
  "two_admins = sample_world\<lparr>tables := (tables sample_world)\<lparr>
     operators := operators (tables sample_world) @ [colleague], operator_seq := 2\<rparr>\<rparr>"

definition delete_bob :: acl_request where
  "delete_bob = Delete_action \<lparr>df_user_identity = lit ''BOB@example.org'', df_current_password = lit ''pw'',
     df_mfa_code = lit ''000002'', df_csrf_token = lit ''tok''\<rparr>"

theorem account_changes_need_step_up_witness:
  "let a = sample_app two_admins sample_session in
   map fst (accounts (tables (world (snd (serve_acl sample_env sample_request delete_bob a))))) = [1] \<and>
   (\<exists>row. stepped_up sample_env (lit ''pw'') (lit ''000002'') sample_session (tables two_admins) 65 row)"
proof -
  let ?a = "sample_app two_admins sample_session"
  have ids: "map fst (accounts (tables (world (snd (serve_acl sample_env sample_request delete_bob ?a))))) = [1]"
    "map fst (accounts (tables (world ?a))) = [1, 2]" by code_simp+
  then have "accounts (tables (world (snd (serve_acl sample_env sample_request delete_bob ?a)))) \<noteq>
      accounts (tables (world ?a))" by (metis not_Cons_self2 list.sel(3) list.distinct(1))
  from account_changes_need_step_up [OF this] ids(1) show ?thesis
    by (simp add: Let_def delete_bob_def sample_app_def two_admins_def sample_world_def)
qed

section \<open>Administration keeps an administrator\<close>

definition has_admin :: "tables \<Rightarrow> bool" where
  "has_admin t \<longleftrightarrow> (\<exists>r\<in>set (operators t). operator_type r = role_str Admin)"

lemma role_of_has_admin: "role_of u t = Some (role_str Admin) \<Longrightarrow> has_admin t"
  by (auto simp: role_of_def has_admin_def dest: lookup_operator_SomeD)

lemma same_accounts_has_admin: "\<lbrakk>same_accounts t t'; has_admin t\<rbrakk> \<Longrightarrow> has_admin t'"
proof -
  have "has_admin t \<longleftrightarrow> role_str Admin \<in> (\<lambda>p. fst (snd (snd (snd p)))) ` set (accounts t)" for t
    by (force simp: has_admin_def accounts_def account_def image_iff)
  then show "\<lbrakk>same_accounts t t'; has_admin t\<rbrakk> \<Longrightarrow> has_admin t'" by (simp add: same_accounts_def)
qed

text \<open>The guard does not touch the tables, and a session it lets in keeps its operator.\<close>

lemma keeps_tables_authorized: "keeps (\<lambda>a. tables (world a)) (authorized_role E)"
  unfolding authorized_role_def authenticated_user_id_def authenticated_role_def authenticated_operator_type_def
    authenticated_authz_version_def session_timestamp_def give_up_def rotate_session_id_if_due_def
    set_session_timestamp_def find_by_id_def
  by (intro keeps_intros keeps_database; metis query_tables prod.collapse)

lemma rotate_data: "rotate_session_id_if_due t a = (Inr x, a') \<Longrightarrow>
    data (session a') AUTHENTICATED_USER_ID = data (session a) AUTHENTICATED_USER_ID"
  unfolding rotate_session_id_if_due_def set_session_timestamp_def session_timestamp_def
  by (auto simp: hret_def session_keys dest!: hbind_InrD session_insert_InrD cycle_id_InrD read_InrD(2)
      split: option.splits if_splits)

lemma authorized_keeps_user:
  assumes "authorized_role E a = (Inr (Some role), a')"
  shows "data (session a') AUTHENTICATED_USER_ID = data (session a) AUTHENTICATED_USER_ID"
proof -
  have strings: "session_string k b = (r, b') \<Longrightarrow> session b' = session b" for k b r b'
    using keepsD [OF keeps_session_reads(3) [where g = "\<lambda>s. s"]] .
  show ?thesis
    using assms unfolding authorized_role_def authenticated_user_id_def authenticated_role_def
      authenticated_operator_type_def authenticated_authz_version_def session_timestamp_def
    by (auto simp: hret_def give_up_not_Some dest!: hbind_InrD now_InrD find_by_id_InrD read_InrD strings rotate_data
        split: option.splits if_splits)
qed

text \<open>
  Requests to add, edit and delete users, sent through the guard, never leave
  the console without an administrator, whoever sends them, whatever they ask for and whatever fails.
\<close>

theorem administration_keeps_an_admin:
  assumes "has_admin (tables (world a))"
  shows "has_admin (tables (world (snd (require_admin E (serve_acl E req q) a))))"
proof -
  obtain r a1 where auth: "authorized_role E a = (r, a1)" by fastforce
  have same: "tables (world a1) = tables (world a)"
    using keepsD [OF keeps_tables_authorized auth] .
  show ?thesis
  proof (cases "r = Inr (Some Admin)")
    case True
    let ?t' = "tables (world (snd (serve_acl E req q a1)))"
    obtain u row where u: "data (session a) AUTHENTICATED_USER_ID = Some (Number u)"
        "lookup_operator u (tables (world a)) = Some row" "parse_role (operator_type row) = Some Admin"
      using authorized_role_SomeD [OF auth [unfolded True]] by blast
    have admin: "role_of u (tables (world a)) = Some (role_str Admin)"
      using u(2) parse_role_SomeD [OF u(3)] by (simp add: role_of_def)
    have user: "data (session a1) AUTHENTICATED_USER_ID = Some (Number u)"
      using authorized_keeps_user [OF auth [unfolded True]] u(1) by simp
    have "same_accounts (tables (world a1)) ?t' \<or>
      (\<exists>row. stepped_up E (password_of q) (code_of q) (data (session a1)) (tables (world a1)) (clock (world a1)) row \<and>
        stays_admin (id_user row) (tables (world a1)) ?t')"
      using serve_acl_acts [of E q "data (session a1)" req] unfolding acts_def by blast
    then have "has_admin ?t'"
      using same_accounts_has_admin assms role_of_has_admin [of u] admin user same
      by (auto simp: stepped_up_def stays_admin_def)
    then show ?thesis
      by (cases "serve_acl E req q a1")
        (auto simp: require_admin_def guard_def auth True run_endpoint_def split: sum.split)
  next
    case False
    then show ?thesis using same assms
      by (auto simp: require_admin_def guard_def auth split: sum.split option.split)
  qed
qed

theorem administration_keeps_an_admin_witness:
  "let a = sample_app two_admins sample_session; a' = snd (require_admin sample_env (serve_acl sample_env sample_request delete_bob) a)
   in has_admin (tables (world a')) \<and> length (operators (tables (world a'))) = 1"
proof -
  let ?a = "sample_app two_admins sample_session"
  have "has_admin (tables (world ?a))" by code_simp
  moreover have "length (operators (tables (world (snd (require_admin sample_env
      (serve_acl sample_env sample_request delete_bob) ?a))))) = 1" by code_simp
  ultimately show ?thesis using administration_keeps_an_admin by (simp add: Let_def)
qed

end
