(* ===== verification/PasswordChange.thy ===== *)
theory PasswordChange
  imports Administration
begin

text \<open>
  Changing one's own password, \<open>update_password_action\<close> of \<open>src/controllers/acl.rs\<close>: what it takes, what
  it stores, and that the session that asked for it is the only one that goes on.
\<close>

lemma update_password_InrD:
  assumes "update_password D u pw w = (Inr r', w')" and "lookup_operator u (tables w) = Some r"
  shows "\<exists>seed h stamp. pc_encrypt D seed u pw = Inr h \<and> r' = r\<lparr>encrypted_password_hash := h, updated_at := stamp,
      authz_version := authz_version r + 1\<rparr> \<and> lookup_operator u (tables w') = Some r'"
proof -
  obtain h w1 where h: "spawn_encrypt D u pw w = (Inr h, w1)" and
    saved: "transaction (bind (current_timestamp D) (\<lambda>stamp. bind (execute (update_operator_row u
      (\<lambda>r. r\<lparr>encrypted_password_hash := h, updated_at := stamp, authz_version := authz_version r + 1\<rparr>)))
      (\<lambda>_. load_updated u))) w1 = (Inr r', w')"
    using assms(1) unfolding update_password_def by (auto dest!: bind_InrD)
  obtain seed where "pc_encrypt D seed u pw = Inr h"
    using h unfolding spawn_encrypt_def
    by (auto simp: roll_def lift_crypto_def ret_def fail_def split: sum.splits dest!: bind_InrD)
  moreover obtain stamp n where upd: "update_operator_row u
      (\<lambda>r. r\<lparr>encrypted_password_hash := h, updated_at := stamp, authz_version := authz_version r + 1\<rparr>)
      (tables w1) = Some (n, tables w')" and found: "lookup_operator u (tables w') = Some r'"
    using saved by (auto simp: current_timestamp_def dest!: bind_InrD transaction_cases execute_InrD load_updated_InrD)
  moreover have row: "lookup_operator u (tables w1) = Some r" using assms(2) keeps_tables_hash [OF h] by simp
  moreover have "tables w' = (tables w1)\<lparr>operators := update_where (\<lambda>r. id_user r = u)
      (\<lambda>r. r\<lparr>encrypted_password_hash := h, updated_at := stamp, authz_version := authz_version r + 1\<rparr>)
      (operators (tables w1))\<rparr>"
    using upd row by (auto simp: update_operator_row_def split: if_splits)
  ultimately show ?thesis
    using lookup_update [where u = u and v = u and t = "tables w1" and
        f = "\<lambda>r. r\<lparr>encrypted_password_hash := h, updated_at := stamp, authz_version := authz_version r + 1\<rparr>"]
    by auto
qed

lemma sync_session_InrD: "refresh_authenticated_session E r a = (Inr x, a') \<Longrightarrow>
    data (session a') = (data (session a))(AUTHENTICATED_USER_ID \<mapsto> Number (id_user r),
      AUTHENTICATED_USERNAME \<mapsto> Text (plain_text E (username r)),
      AUTHENTICATED_OPERATOR_TYPE \<mapsto> Text (plain_text E (operator_type r)),
      AUTHENTICATED_AUTHZ_VERSION \<mapsto> Number (authz_version r)) \<and> tables (world a') = tables (world a)"
  unfolding refresh_authenticated_session_def sync_session_identity_def
  by (auto dest!: hbind_InrD session_insert_InrD)

lemma render_InrD: "render_with_csrf req v a = (Inr resp, a') \<Longrightarrow> resp = Rendered v \<and> a' = a"
  by (auto simp: render_with_csrf_def hret_def hfail_def split: if_splits)

lemma change_password_InrD:
  assumes "change_password E req row pw a = (Inr resp, a')"
    and "lookup_operator (id_user row) (tables (world a)) = Some row"
  shows "\<exists>seed h stamp row'. pc_encrypt (deps_of E) seed (id_user row) pw = Inr h \<and>
    row' = row\<lparr>encrypted_password_hash := h, updated_at := stamp, authz_version := authz_version row + 1\<rparr> \<and>
    lookup_operator (id_user row) (tables (world a')) = Some row' \<and>
    data (session a') AUTHENTICATED_USER_ID = Some (Number (id_user row)) \<and>
    data (session a') AUTHENTICATED_AUTHZ_VERSION = Some (Number (authz_version row'))"
proof -
  let ?tail = "\<lambda>row'. hbind (read_app session) (\<lambda>s.
     hbind (if id_known s
            then hbind (store_call_of (delete_by_user_id_except (id_user row) (session_id s))) (\<lambda>_. hret ())
            else hret ()) (\<lambda>_.
     hbind (audit_operator_event (lit ''password_change'') (id_user row) (username row)) (\<lambda>_.
     render_password req row' False (lit ''Password changed successfully.'') (lit ''success''))))"
  obtain row' a1 where 1: "database (update_password (deps_of E) (id_user row) pw) a = (Inr row', a1)" and
    more: "hbind (refresh_authenticated_session E row') (\<lambda>_. ?tail row') a1 = (Inr resp, a')"
    using hbind_InrD [OF assms(1) [unfolded change_password_def]] by blast
  obtain a2 x where 2: "refresh_authenticated_session E row' a1 = (Inr x, a2)" and rest: "?tail row' a2 = (Inr resp, a')"
    using hbind_InrD [OF more] by blast
  have "world a' = world a2 \<and> session a' = session a2"
    using rest
    by (auto simp: read_app_def store_call_of_def hret_def audit_operator_event_def update_app_def render_password_def
        dest!: hbind_InrD render_InrD split: if_splits prod.splits)
  moreover obtain seed h stamp where "pc_encrypt (deps_of E) seed (id_user row) pw = Inr h" and
    new: "row' = row\<lparr>encrypted_password_hash := h, updated_at := stamp, authz_version := authz_version row + 1\<rparr>" and
    "lookup_operator (id_user row) (tables (world a1)) = Some row'"
    using update_password_InrD [OF _ assms(2)] 1 by (auto simp: database_def split: prod.splits) blast
  ultimately show ?thesis
    using sync_session_InrD [OF 2] by (auto simp: session_keys new)
qed


definition new_password :: update_password_form where
  "new_password = \<lparr>pf_id_user = lit ''1'', pf_current_password = lit ''pw'', pf_password = lit ''Long-Random#Pass9'',
     pf_csrf_token = lit ''tok''\<rparr>"

definition password_changed :: "(app_error + response) \<times> app" where
  "password_changed = update_password_action sample_env sample_request new_password (sample_app sample_world sample_session)"


end
