(* ===== verification/MfaPages.thy ===== *)
theory MfaPages
  imports StepUpEffects
begin

text \<open>
  Two-factor self-service, \<open>src/controllers/mfa.rs\<close>: the overview, enrolment, confirmation, removal and
  new recovery codes, and that a confirmed factor is only lost under a step-up that the factor took part
  in. The QR and Base64 encoders are crates and parameters.
\<close>

section \<open>Forms and pages\<close>

record step_up_form =
  sf_csrf_token :: ustr
  sf_current_password :: ustr
  sf_mfa_code :: ustr

record confirm_form =
  cf_code :: ustr
  cf_csrf_token :: ustr

record disable_form =
  xf_current_password :: ustr
  xf_mfa_code :: ustr
  xf_csrf_token :: ustr

text \<open>\<open>qr_svg\<close>: the SVG image of a text as a QR code, \<open>None\<close> when it does not fit.\<close>

record encoders =
  qr_svg :: "ustr \<Rightarrow> ustr option"
  base64 :: "bytes \<Rightarrow> ustr"

definition qr_code_data_url :: "encoders \<Rightarrow> ustr \<Rightarrow> ustr option" where
  "qr_code_data_url C uri =
     map_option (\<lambda>svg. lit ''data:image/svg+xml;base64,'' @ base64 C (as_bytes svg)) (qr_svg C uri)"

definition recovery_codes_download_data_url :: "encoders \<Rightarrow> ustr list \<Rightarrow> ustr" where
  "recovery_codes_download_data_url C cs =
     lit ''data:text/plain;charset=utf-8;base64,'' @
       base64 C (as_bytes (lit ''KrakenWAF recovery codes'' @ [10, 10] @ join [10] cs @ [10]))"

definition mfa_frame :: "operator_row \<Rightarrow> page_frame" where
  "mfa_frame r = \<lparr>active_page = USER_STATUS, show_acl = row_can can_administer r,
     show_rule_management = row_can can_manage_rules r\<rparr>"

definition render_overview :: "request \<Rightarrow> operator_row \<Rightarrow> ustr \<Rightarrow> ustr \<Rightarrow> response handler" where
  "render_overview req r message class =
     hbind (database (mfa_status_of (id_user r))) (\<lambda>status.
     render_with_csrf req (Mfa_page \<lparr>mt_frame = mfa_frame r, mt_enabled = status_enabled status,
       mt_remaining = remaining_recovery_codes status, mt_show_enroll = False, mt_secret_base32 = [],
       mt_otpauth_uri = [], mt_qr_data_url = [], mt_show_recovery = False, mt_recovery_codes = [],
       mt_download_url = [], mt_download_name = [], mt_message = message, mt_message_class = class\<rparr>))"

definition render_enroll ::
    "encoders \<Rightarrow> request \<Rightarrow> operator_row \<Rightarrow> mfa_enrollment \<Rightarrow> ustr \<Rightarrow> ustr \<Rightarrow> response handler" where
  "render_enroll C req r enrollment message class =
     (case qr_code_data_url C (otpauth_uri enrollment) of
        None \<Rightarrow> hfail Qr_code_error
      | Some url \<Rightarrow> render_with_csrf req (Mfa_page \<lparr>mt_frame = mfa_frame r, mt_enabled = False,
          mt_remaining = 0, mt_show_enroll = True, mt_secret_base32 = secret_base32 enrollment,
          mt_otpauth_uri = otpauth_uri enrollment, mt_qr_data_url = url, mt_show_recovery = False,
          mt_recovery_codes = [], mt_download_url = [], mt_download_name = [], mt_message = message,
          mt_message_class = class\<rparr>))"

definition render_recovery :: "encoders \<Rightarrow> request \<Rightarrow> operator_row \<Rightarrow> ustr list \<Rightarrow> ustr \<Rightarrow> response handler" where
  "render_recovery C req r cs message =
     render_with_csrf req (Mfa_page \<lparr>mt_frame = mfa_frame r, mt_enabled = True, mt_remaining = length cs,
       mt_show_enroll = False, mt_secret_base32 = [], mt_otpauth_uri = [], mt_qr_data_url = [],
       mt_show_recovery = True, mt_recovery_codes = cs,
       mt_download_url = recovery_codes_download_data_url C cs,
       mt_download_name = lit ''krakenwaf-recovery-codes-'' @ username r @ lit ''.txt'',
       mt_message = message, mt_message_class = lit ''success''\<rparr>)"

section \<open>Handlers\<close>

definition current_operator :: "operator_row option handler" where
  "current_operator = hbind authenticated_user_id (\<lambda>self. case self of
     None \<Rightarrow> hret None
   | Some u \<Rightarrow> database (find_by_id u))"

definition refresh_current_session :: "auth_env \<Rightarrow> int \<Rightarrow> operator_row handler" where
  "refresh_current_session E u =
     hbind (database (find_by_id u)) (\<lambda>found. case found of
       None \<Rightarrow> hfail Row_disappeared
     | Some r \<Rightarrow> hbind (refresh_authenticated_session E r) (\<lambda>_. hret r))"

definition audit_mfa_event :: "ustr \<Rightarrow> int \<Rightarrow> ustr \<Rightarrow> unit handler" where
  "audit_mfa_event what u name = update_app (\<lambda>a. a\<lparr>operator_log := operator_log a @
     [\<lparr>event = lit ''mfa'', action = what, event_id_user = u, event_username = name\<rparr>]\<rparr>)"

text \<open>The page after a rejected step-up, for the operator of the session.\<close>

definition overview_or_401 :: "request \<Rightarrow> ustr \<Rightarrow> response handler" where
  "overview_or_401 req message = hbind current_operator (\<lambda>found. case found of
     None \<Rightarrow> hret (Status 401 [])
   | Some r \<Rightarrow> render_overview req r message (lit ''error''))"

definition mfa_overview :: "auth_env \<Rightarrow> encoders \<Rightarrow> request \<Rightarrow> response handler" where
  "mfa_overview E C req =
     hbind current_operator (\<lambda>found. case found of
       None \<Rightarrow> hret (Status 401 [])
     | Some r \<Rightarrow>
       hbind (database (pending_enrollment (deps_of E) (id_user r) (username r))) (\<lambda>pending. case pending of
         Some enrollment \<Rightarrow> render_enroll C req r enrollment
           (lit ''Finish confirming the current authenticator code to enable two-factor.'') []
       | None \<Rightarrow> render_overview req r [] []))"

definition mfa_enroll :: "auth_env \<Rightarrow> encoders \<Rightarrow> request \<Rightarrow> step_up_form \<Rightarrow> response handler" where
  "mfa_enroll E C req form =
     (if \<not> csrf_verify req (sf_csrf_token form) then hret csrf_error_response
      else after_step_up E (sf_current_password form) (sf_mfa_code form) (overview_or_401 req) (\<lambda>r.
        hbind (database (is_enabled (id_user r))) (\<lambda>on.
        if on then render_overview req r (lit ''Two-factor authentication is already enabled.'') (lit ''error'')
        else
        hbind (database (begin_enrollment (deps_of E) (id_user r) (username r))) (\<lambda>enrollment.
        render_enroll C req r enrollment
          (lit ''Add the account to your authenticator, then enter the current code.'') []))))"

definition mfa_confirm :: "auth_env \<Rightarrow> encoders \<Rightarrow> request \<Rightarrow> confirm_form \<Rightarrow> response handler" where
  "mfa_confirm E C req form =
     (if \<not> csrf_verify req (cf_csrf_token form) then hret csrf_error_response
      else
      hbind current_operator (\<lambda>found. case found of
        None \<Rightarrow> hret (Status 401 [])
      | Some r \<Rightarrow>
      hbind (database (confirm (deps_of E) (id_user r) (plain_text E (cf_code form)))) (\<lambda>result. case result of
        Confirmed cs \<Rightarrow>
          hbind (refresh_current_session E (id_user r)) (\<lambda>r'.
          hbind (audit_mfa_event (lit ''enable'') (id_user r') (username r')) (\<lambda>_.
          render_recovery C req r' cs (lit ''Two-factor authentication enabled.'')))
      | Invalid_code \<Rightarrow>
          hbind (database (pending_enrollment (deps_of E) (id_user r) (username r))) (\<lambda>pending. case pending of
            Some enrollment \<Rightarrow> render_enroll C req r enrollment
              (lit ''That code was not correct. Check the time on your device and try again.'') (lit ''error'')
          | None \<Rightarrow> render_overview req r (lit ''Enrollment expired. Start again.'') (lit ''error''))
      | No_pending_enrollment \<Rightarrow>
          render_overview req r (lit ''Start enrollment before confirming a code.'') (lit ''error''))))"

definition mfa_disable :: "auth_env \<Rightarrow> request \<Rightarrow> disable_form \<Rightarrow> response handler" where
  "mfa_disable E req form =
     (if \<not> csrf_verify req (xf_csrf_token form) then hret csrf_error_response
      else after_step_up E (xf_current_password form) (xf_mfa_code form) (overview_or_401 req) (\<lambda>r.
        hbind (database (disable (deps_of E) (id_user r))) (\<lambda>_.
        hbind (refresh_current_session E (id_user r)) (\<lambda>r'.
        hbind (audit_mfa_event (lit ''disable'') (id_user r') (username r')) (\<lambda>_.
        render_overview req r' (lit ''Two-factor authentication disabled.'') (lit ''success''))))))"

definition mfa_regenerate :: "auth_env \<Rightarrow> encoders \<Rightarrow> request \<Rightarrow> step_up_form \<Rightarrow> response handler" where
  "mfa_regenerate E C req form =
     (if \<not> csrf_verify req (sf_csrf_token form) then hret csrf_error_response
      else after_step_up E (sf_current_password form) (sf_mfa_code form) (overview_or_401 req) (\<lambda>r.
        hbind (database (regenerate_recovery_codes (deps_of E) (id_user r))) (\<lambda>result. case result of
          Some cs \<Rightarrow>
            hbind (refresh_current_session E (id_user r)) (\<lambda>r'.
            hbind (audit_mfa_event (lit ''regenerate_recovery'') (id_user r') (username r')) (\<lambda>_.
            render_recovery C req r' cs (lit ''New recovery codes generated. The previous codes no longer work.'')))
        | None \<Rightarrow> render_overview req r (lit ''Enable two-factor authentication first.'') (lit ''error''))))"

section \<open>Losing a factor\<close>

definition factors_stay :: "tables \<Rightarrow> tables \<Rightarrow> bool" where
  "factors_stay t t' \<longleftrightarrow> (\<forall>v. factor_on v t \<longrightarrow> factor_on v t')"

definition others_stay :: "int \<Rightarrow> tables \<Rightarrow> tables \<Rightarrow> bool" where
  "others_stay u t t' \<longleftrightarrow> (\<forall>v. v \<noteq> u \<longrightarrow> factor_on v t \<longrightarrow> factor_on v t')"

lemma factor_relations [simp]: "good_relation factors_stay" "good_relation (others_stay u)"
  by (auto simp: good_relation_def factors_stay_def others_stay_def)

lemma factors_others: "factors_stay t t' \<Longrightarrow> others_stay u t t'"
  by (simp add: factors_stay_def others_stay_def)

lemma relates_others: "relates factors_stay p \<Longrightarrow> relates (others_stay u) p"
  by (simp add: relates_def factors_others)

lemma factors_stay_totps: "totps t' = totps t \<Longrightarrow> factors_stay t t'"
  by (simp add: factors_stay_def factor_on_def totp_of_def)

text \<open>A factor is on when its row is; an update that confirms or spends a step keeps it on.\<close>

lemma factors_stay_update:
  assumes "\<And>r. totp_user (f r) = totp_user r" and "\<And>r. confirmed r \<noteq> 0 \<Longrightarrow> confirmed (f r) \<noteq> 0"
  shows "factors_stay t (t\<lparr>totps := update_where p f (totps t)\<rparr>)"
  using assms by (auto simp: factors_stay_def factor_on_def totp_of_def
      find_update_where [of totp_user f, OF assms(1)] split: option.splits)

lemma factors_stay_statements:
  "relates factors_stay (execute (update_operator_row u g))" "relates factors_stay (execute (delete_codes u))"
  "relates factors_stay (execute (insert_code c))" "relates factors_stay (execute (burn_code u i stamp))"
  by (rule relates_execute,
      auto simp: update_operator_row_def delete_codes_def insert_code_def burn_code_def
        Let_def intro!: factors_stay_totps split: option.splits if_splits)+

lemma factors_stay_totp_statements:
  "relates factors_stay (execute (use_step i u st))" "relates factors_stay (execute (confirm_totp i u stamp st))"
  by (rule relates_execute, simp, auto simp: use_step_def confirm_totp_def Let_def intro!: factors_stay_update)+

lemma others_stay_statements:
  "relates (others_stay u) (execute (delete_totp u))"
  "totp_user r = u \<Longrightarrow> relates (others_stay u) (execute (insert_totp r))"
proof -
  have "find (\<lambda>r. totp_user r = v) (filter (\<lambda>r. totp_user r \<noteq> u) rs) = find (\<lambda>r. totp_user r = v) rs"
    if "v \<noteq> u" for v and rs :: "totp_row list" using that by (induction rs) auto
  then show "relates (others_stay u) (execute (delete_totp u))"
    by (intro relates_execute) (auto simp: delete_totp_def others_stay_def factor_on_def totp_of_def)
  show "totp_user r = u \<Longrightarrow> relates (others_stay u) (execute (insert_totp r))"
    by (rule relates_execute)
      (auto simp: insert_totp_def others_stay_def factor_on_def totp_of_def find_append Let_def
        split: if_splits option.splits)
qed

lemma mint_codes_factors_stay: "relates factors_stay (mint_codes D u n)"
  by (induction n) (auto simp: Let_def intro!: relates_intros factors_stay_statements factor_relations)

lemma factors_stay_programs:
  "relates factors_stay (spawn_verify E r pw)" "relates factors_stay (is_enabled u)"
  "relates factors_stay (verify_login_code D u code)" "relates factors_stay (record_reauthenticated D u)"
  "relates factors_stay (find_by_id u)" "relates factors_stay (mfa_status_of u)"
  "relates factors_stay (pending_enrollment D u l)" "relates factors_stay (confirm D u code)"
  "relates factors_stay (regenerate_recovery_codes D u)"
  unfolding spawn_verify_def is_enabled_def totp_row_of_def verify_login_code_def confirmed_totp_row_def
    consume_totp_step_def consume_recovery_code_def consume_recovery_code_row_def record_reauthenticated_def
    find_by_id_def mfa_status_of_def remaining_recovery_count_def pending_enrollment_def confirm_def
    regenerate_recovery_codes_def replace_recovery_codes_def set_operator_flag_def
    bump_operator_authz_version_def Let_def
  by (intro relates_intros factors_stay_statements factors_stay_totp_statements mint_codes_factors_stay factor_relations)+

lemma others_stay_programs:
  "relates (others_stay u) (begin_enrollment D u l)" "relates (others_stay u) (disable D u)"
  unfolding begin_enrollment_def disable_def set_operator_flag_def Let_def
  by (intro relates_intros others_stay_statements relates_others [OF factors_stay_statements(1)]
      relates_others [OF factors_stay_statements(2)] factor_relations; simp)+

lemma step_up_factors_stay: "hrelates factors_stay (step_up_verify E pw code)"
proof -
  have row: "hrelates factors_stay (step_up_row E pw code found)" for found
    unfolding step_up_row_def mark_reauthenticated_def reauthenticated_within_def Let_def
    by (intro hrelates_intros factors_stay_programs factor_relations)
  show ?thesis unfolding step_up_verify_def
    by (intro hrelates_intros row factors_stay_programs factor_relations)
qed

interpretation fac: step_up_contract factors_stay others_stay
  by unfold_locales (simp_all add: factors_others step_up_factors_stay)

lemma hrelates_others: "hrelates factors_stay h \<Longrightarrow> hrelates (others_stay u) h"
  by (simp add: hrelates_def factors_others)

lemma factors_stay_handlers:
  "hrelates factors_stay current_operator" "hrelates factors_stay (render_overview req r m c)"
  "hrelates factors_stay (render_enroll C req r e m c)" "hrelates factors_stay (render_recovery C req r cs m)"
  "hrelates factors_stay (refresh_current_session E u)" "hrelates factors_stay (audit_mfa_event w u n)"
proof -
  show "hrelates factors_stay (audit_mfa_event w u n)"
    unfolding audit_mfa_event_def by (rule hrelates_keeps, simp, rule keeps_tables_plain)
qed (unfold current_operator_def render_overview_def render_enroll_def render_recovery_def refresh_current_session_def,
  (intro hrelates_intros factors_stay_programs factor_relations)+)

lemma factors_stay_pages: "hrelates factors_stay (overview_or_401 req m)" "hrelates factors_stay (mfa_overview E C req)"
  unfolding overview_or_401_def mfa_overview_def
  by (intro hrelates_intros factors_stay_programs factors_stay_handlers factor_relations)+

lemma confirm_factors_stay: "hrelates factors_stay (mfa_confirm E C req f)"
proof -
  have outcome: "hrelates factors_stay (case x of Confirmed cs \<Rightarrow> g cs | Invalid_code \<Rightarrow> h | No_pending_enrollment \<Rightarrow> k)"
    if "\<And>cs. hrelates factors_stay (g cs)" "hrelates factors_stay h" "hrelates factors_stay k" for x g h and k :: "response handler"
    using that by (cases x) auto
  show ?thesis unfolding mfa_confirm_def
    by (intro hrelates_intros outcome factors_stay_programs factors_stay_handlers factor_relations)
qed

datatype mfa_request =
    Overview
  | Enroll step_up_form
  | Confirm_code confirm_form
  | Disable disable_form
  | Regenerate step_up_form

fun serve_mfa :: "auth_env \<Rightarrow> encoders \<Rightarrow> request \<Rightarrow> mfa_request \<Rightarrow> response handler" where
  "serve_mfa E C req Overview = mfa_overview E C req"
| "serve_mfa E C req (Enroll f) = mfa_enroll E C req f"
| "serve_mfa E C req (Confirm_code f) = mfa_confirm E C req f"
| "serve_mfa E C req (Disable f) = mfa_disable E req f"
| "serve_mfa E C req (Regenerate f) = mfa_regenerate E C req f"

text \<open>The password and the code a request comes with.\<close>

fun credentials_of :: "mfa_request \<Rightarrow> ustr \<times> ustr" where
  "credentials_of (Enroll f) = (sf_current_password f, sf_mfa_code f)"
| "credentials_of (Disable f) = (xf_current_password f, xf_mfa_code f)"
| "credentials_of (Regenerate f) = (sf_current_password f, sf_mfa_code f)"
| "credentials_of _ = ([], [])"

lemmas mfa_effects = fac.acts_intros fac.acts_step_up keeps_intros factors_stay_pages hrelates_intros
  others_stay_programs factor_relations hrelates_others [OF factors_stay_handlers(2)]
  hrelates_others [OF factors_stay_handlers(3)] hrelates_others [OF factors_stay_handlers(4)]
  hrelates_others [OF factors_stay_handlers(5)] hrelates_others [OF factors_stay_handlers(6)]
  relates_others [OF factors_stay_programs(2)] relates_others [OF factors_stay_programs(9)]

lemma enroll_acts: "acts factors_stay others_stay E (sf_current_password f) (sf_mfa_code f) d (mfa_enroll E C req f)"
  unfolding mfa_enroll_def by (intro mfa_effects)

lemma disable_acts: "acts factors_stay others_stay E (xf_current_password f) (xf_mfa_code f) d (mfa_disable E req f)"
  unfolding mfa_disable_def by (intro mfa_effects)

lemma regenerate_acts: "acts factors_stay others_stay E (sf_current_password f) (sf_mfa_code f) d (mfa_regenerate E C req f)"
  unfolding mfa_regenerate_def by (intro mfa_effects)

lemma serve_mfa_acts: "acts factors_stay others_stay E (fst (credentials_of q)) (snd (credentials_of q)) d (serve_mfa E C req q)"
  by (cases q) (simp_all add: fac.acts_unchanged factors_stay_pages confirm_factors_stay enroll_acts disable_acts
      regenerate_acts)


definition sample_encoders :: encoders where
  "sample_encoders = \<lparr>qr_svg = Some, base64 = (\<lambda>b. b)\<rparr>"

definition turn_off :: mfa_request where
  "turn_off = Disable \<lparr>xf_current_password = lit ''pw'', xf_mfa_code = lit ''000002'', xf_csrf_token = lit ''tok''\<rparr>"


end
