(* ===== verification/Setup.thy ===== *)
theory Setup
  imports Administration Transitions
begin

text \<open>
  How the first administrator comes to be: the \<open>first_time\<close> endpoint of \<open>src/controllers/setup.rs\<close> and
  \<open>bootstrap_administrator\<close> of \<open>src/app.rs\<close>. The endpoint is also modelled as threads that contend for its
  lock, so that the lemmas can show it creates at most one account however requests interleave.
\<close>

section \<open>The endpoint\<close>

record first_time_form =
  ft_username :: ustr
  ft_email :: ustr
  ft_password :: ustr
  ft_user_type :: ustr
  ft_token :: ustr

fun is_loopback :: "ip_addr \<Rightarrow> bool" where
  "is_loopback (V4 os) = (hd os = 127)"
| "is_loopback (V6 gs) = (gs = [0, 0, 0, 0, 0, 0, 0, 1])"

definition forbidden :: "ustr \<Rightarrow> response" where
  "forbidden message = Status_json 403 (lit ''forbidden'') message"

definition has_forwarding_headers :: "header_map \<Rightarrow> bool" where
  "has_forwarding_headers hs = list_ex (\<lambda>name. hs name \<noteq> None)
     [lit ''x-forwarded-for'', lit ''forwarded'', lit ''x-real-ip'', lit ''x-forwarded-host'']"

text \<open>
  The checks before the lock: \<open>token\<close> is \<open>KRAKEN_UI_FIRST_TIME_TOKEN\<close>, \<open>debug\<close> whether this is a debug
  build. \<open>Some\<close> is the refusal.
\<close>

definition first_time_checks :: "ustr option \<Rightarrow> bool \<Rightarrow> request \<Rightarrow> first_time_form \<Rightarrow> response option" where
  "first_time_checks token debug req form =
     (if \<not> is_loopback (peer req) then Some (forbidden (lit ''first_time accepts loopback clients only''))
      else if has_forwarding_headers (headers req)
      then Some (forbidden (lit ''first_time refuses proxied requests; run it directly against loopback''))
      else case (if token = Some [] then None else token) of
        Some expected \<Rightarrow>
          if \<not> constant_time_eq (as_bytes (ft_token form)) (as_bytes expected)
          then Some (forbidden (lit ''invalid bootstrap token'')) else None
      | None \<Rightarrow>
          if \<not> debug then Some (forbidden (lit ''first_time requires KRAKEN_UI_FIRST_TIME_TOKEN to be set'')) else None)"

definition gone_response :: response where
  "gone_response = Status_json 410 (lit ''closed'') (lit ''first_time was already consumed'')"

definition created_response :: response where
  "created_response = Status_json 201 (lit ''created'') (lit ''initial administrator created; endpoint is now closed'')"

definition invalid_response :: response where
  "invalid_response = Status_json 400 (lit ''invalid'') (lit ''invalid admin registration data or weak password'')"

definition first_time_valid :: "auth_env \<Rightarrow> first_time_form \<Rightarrow> bool" where
  "first_time_valid E form \<longleftrightarrow>
     (let name = to_ascii_lowercase (plain_text E (ft_username form));
          addr = to_ascii_lowercase (plain_text E (ft_email form));
          ty = to_ascii_lowercase (plain_text E (ft_user_type form))
      in valid_username name \<and> valid_email addr \<and> ty = lit ''admin'' \<and>
         \<not> secret_has_rejected_markup E (ft_password form) \<and>
         validate_password (ft_password form) name = Inr () \<and>
         validate_password (ft_password form) (email_identity addr) = Inr ())"

text \<open>The part after the count of operators, and the whole part under the lock.\<close>

definition register_admin :: "auth_env \<Rightarrow> first_time_form \<Rightarrow> response handler" where
  "register_admin E form =
     (if \<not> first_time_valid E form then hret invalid_response
      else
        hbind (database (create_operator (deps_of E) (to_ascii_lowercase (plain_text E (ft_username form)))
          (to_ascii_lowercase (plain_text E (ft_email form))) (lit ''admin'') (ft_password form))) (\<lambda>created.
        hbind (update_app (\<lambda>a. a\<lparr>operator_log := operator_log a @ [\<lparr>event = lit ''first_time'', action = [],
          event_id_user = id_user created, event_username = username created\<rparr>]\<rparr>)) (\<lambda>_.
        hret created_response)))"

definition first_time_locked :: "auth_env \<Rightarrow> first_time_form \<Rightarrow> response handler" where
  "first_time_locked E form = hbind (database count_operators) (\<lambda>n.
     if 0 < n then hret gone_response else register_admin E form)"

definition first_time :: "auth_env \<Rightarrow> ustr option \<Rightarrow> bool \<Rightarrow> request \<Rightarrow> first_time_form \<Rightarrow> response handler" where
  "first_time E token debug req form =
     (case first_time_checks token debug req form of
        Some refusal \<Rightarrow> hret refusal
      | None \<Rightarrow> first_time_locked E form)"

section \<open>Bootstrap from the environment\<close>

datatype bootstrap_error = Bootstrap_failed app_error | Rejected_markup | Weak_password

text \<open>\<open>password\<close> and \<open>addr\<close> are \<open>KRAKEN_UI_ADMIN_PASSWORD\<close> and \<open>KRAKEN_UI_ADMIN_EMAIL\<close>.\<close>

definition bootstrap_administrator ::
    "auth_env \<Rightarrow> ustr option \<Rightarrow> ustr option \<Rightarrow> world \<Rightarrow> (bootstrap_error + unit) \<times> world" where
  "bootstrap_administrator E password addr w =
     (case find_by_username (lit ''admin'') w of
        (Inl e, w1) \<Rightarrow> (Inl (Bootstrap_failed e), w1)
      | (Inr (Some _), w1) \<Rightarrow> (Inr (), w1)
      | (Inr None, w1) \<Rightarrow> (case password of
          None \<Rightarrow> (Inr (), w1)
        | Some pw \<Rightarrow>
            if secret_has_rejected_markup E pw then (Inl Rejected_markup, w1)
            else if validate_password pw (lit ''admin'') \<noteq> Inr () then (Inl Weak_password, w1)
            else (case create_operator (deps_of E) (lit ''admin'')
                    (case addr of None \<Rightarrow> lit ''admin@localhost.invalid'' | Some m \<Rightarrow> m) (lit ''admin'') pw w1 of
                (Inl e, w2) \<Rightarrow> (Inl (Bootstrap_failed e), w2)
              | (Inr _, w2) \<Rightarrow> (Inr (), w2))))"

section \<open>Concurrent requests\<close>

text \<open>
  A request waits for \<open>first_time_lock\<close>, counts, then registers, and lets go of the lock when it has
  answered or is dropped.
\<close>

datatype setup_thread =
    Waiting first_time_form
  | Locked first_time_form
  | Counted first_time_form
  | Done "app_error + response"
  | Dropped

record setup_system =
  setup_app :: app
  first_time_lock :: "nat option"
  setup_threads :: "setup_thread list"

definition operators_empty :: "app \<Rightarrow> bool" where
  "operators_empty a \<longleftrightarrow> operators (tables (world a)) = []"

text \<open>\<open>Other\<close> is any step of another request: it neither makes a first nor removes a last account.\<close>

datatype setup_event = Arrive request first_time_form | Lock nat | Advance_setup nat | Drop nat | Other app

fun advance_setup :: "auth_env \<Rightarrow> setup_thread \<Rightarrow> app \<Rightarrow> setup_thread \<times> app" where
  "advance_setup E (Locked form) a = (case database count_operators a of
     (Inl e, a') \<Rightarrow> (Done (Inl e), a')
   | (Inr n, a') \<Rightarrow> (if 0 < n then Done (Inr gone_response) else Counted form, a'))"
| "advance_setup E (Counted form) a = (case register_admin E form a of (r, a') \<Rightarrow> (Done r, a'))"
| "advance_setup E th a = (th, a)"

definition setup_step :: "auth_env \<Rightarrow> ustr option \<Rightarrow> bool \<Rightarrow> setup_system \<Rightarrow> setup_event \<Rightarrow> setup_system option" where
  "setup_step E token debug st e = (case e of
     Arrive req form \<Rightarrow> Some (st\<lparr>setup_threads := setup_threads st @
       [case first_time_checks token debug req form of Some r \<Rightarrow> Done (Inr r) | None \<Rightarrow> Waiting form]\<rparr>)
   | Lock i \<Rightarrow>
       if i < length (setup_threads st) \<and> first_time_lock st = None
       then (case setup_threads st ! i of
           Waiting form \<Rightarrow> Some (st\<lparr>setup_threads := (setup_threads st)[i := Locked form], first_time_lock := Some i\<rparr>)
         | _ \<Rightarrow> None)
       else None
   | Advance_setup i \<Rightarrow>
       if i < length (setup_threads st) \<and> first_time_lock st = Some i
       then (case advance_setup E (setup_threads st ! i) (setup_app st) of (th, a) \<Rightarrow>
         Some (st\<lparr>setup_app := a, setup_threads := (setup_threads st)[i := th],
           first_time_lock := (case th of Done _ \<Rightarrow> None | _ \<Rightarrow> Some i)\<rparr>))
       else None
   | Drop i \<Rightarrow>
       if i < length (setup_threads st)
       then (case setup_threads st ! i of Done _ \<Rightarrow> None | _ \<Rightarrow>
         Some (st\<lparr>setup_threads := (setup_threads st)[i := Dropped],
           first_time_lock := (if first_time_lock st = Some i then None else first_time_lock st)\<rparr>))
       else None
   | Other a \<Rightarrow>
       if operators_empty a = operators_empty (setup_app st) then Some (st\<lparr>setup_app := a\<rparr>) else None)"

text \<open>Without interruption the phases are the endpoint.\<close>

lemma phases_are_first_time:
  "(case advance_setup E (Locked form) a of (th, a1) \<Rightarrow> advance_setup E th a1) =
     (case first_time_locked E form a of (r, a') \<Rightarrow> (Done r, a'))"
  by (auto simp: first_time_locked_def hbind_def hret_def split: prod.split sum.split)

section \<open>At most one account\<close>

definition created_count :: "setup_system \<Rightarrow> nat" where
  "created_count st = count_if (\<lambda>th. th = Done (Inr created_response)) (setup_threads st)"

definition room :: "app \<Rightarrow> nat" where
  "room a = (if operators_empty a then 1 else 0)"

fun thread_ok :: "nat option \<Rightarrow> bool \<Rightarrow> nat \<Rightarrow> setup_thread \<Rightarrow> bool" where
  "thread_ok lk vacant i (Locked _) = (lk = Some i)"
| "thread_ok lk vacant i (Counted _) = (lk = Some i \<and> vacant)"
| "thread_ok lk vacant i _ = True"

definition setup_inv :: "nat \<Rightarrow> setup_system \<Rightarrow> bool" where
  "setup_inv c st \<longleftrightarrow> created_count st + room (setup_app st) \<le> c \<and>
     (\<forall>i<length (setup_threads st). thread_ok (first_time_lock st) (operators_empty (setup_app st)) i (setup_threads st ! i))"

lemma thread_ok_other: "\<lbrakk>thread_ok lock e j th; lock = None \<or> lock = Some i; i \<noteq> j\<rbrakk> \<Longrightarrow> thread_ok lock' e' j th"
  by (cases th) auto

lemma setup_inv_update:
  assumes "setup_inv c st" and "i < length (setup_threads st)" and "first_time_lock st = None \<or> first_time_lock st = Some i"
    and "(if th = Done (Inr created_response) then 1 else 0) + room a \<le>
      (if setup_threads st ! i = Done (Inr created_response) then 1 else 0) + room (setup_app st)"
    and "thread_ok lock (operators_empty a) i th"
  shows "setup_inv c (st\<lparr>setup_app := a, setup_threads := (setup_threads st)[i := th], first_time_lock := lock\<rparr>)"
proof -
  let ?st = "st\<lparr>setup_app := a, setup_threads := (setup_threads st)[i := th], first_time_lock := lock\<rparr>"
  have "created_count ?st + (if setup_threads st ! i = Done (Inr created_response) then 1 else 0) =
      created_count st + (if th = Done (Inr created_response) then 1 else 0)"
    using count_if_update [OF assms(2), of "\<lambda>th. th = Done (Inr created_response)" th] by (simp add: created_count_def)
  then have "created_count ?st + room a \<le> c" using assms(1,4) by (simp add: setup_inv_def split: if_splits)
  moreover have "thread_ok lock (operators_empty a) j ((setup_threads st)[i := th] ! j)" if "j < length (setup_threads st)" for j
    using assms(1,3,5) that thread_ok_other [of "first_time_lock st" "operators_empty (setup_app st)" j]
    by (cases "j = i") (auto simp: setup_inv_def)
  ultimately show ?thesis by (simp add: setup_inv_def)
qed

lemma count_operators_result:
  "database count_operators a = (r, a') \<Longrightarrow> operators_empty a' = operators_empty a \<and>
     (\<forall>n. r = Inr n \<longrightarrow> (n = 0) = operators_empty a)"
  unfolding count_operators_def
  by (auto simp: database_def operators_empty_def split: prod.splits dest: query_tables dest!: query_InrD)

lemma create_operator_result:
  assumes "create_operator D name addr ty pw w = (r, w')"
  shows "(\<exists>e. r = Inl e \<and> tables w' = tables w) \<or> (\<exists>row. r = Inr row \<and> operators (tables w') \<noteq> [])"
proof -
  have stored: "operators (tables w2) \<noteq> []" if run: "execute (update_operator_row u f) w1 = (Inr n, w2)" "n \<noteq> 0" for w1 w2 u f n
  proof -
    have "operators (tables w1) \<noteq> [] \<and> operators (tables w2) = update_where (\<lambda>r. id_user r = u) f (operators (tables w1))"
      using execute_InrD [OF run(1)] run(2)
      by (auto simp: update_operator_row_def lookup_operator_def dest: sym [of _ "tables w2"] split: option.splits if_splits)
    then show ?thesis by (simp add: update_where_def)
  qed
  show ?thesis
    using transaction_cases [OF assms [unfolded create_operator_def]]
    by (cases r) (auto simp: ret_def fail_def dest!: bind_InrD stored split: if_splits)
qed

lemma register_admin_result:
  assumes "register_admin E form a = (r, a')"
  shows "if r = Inr created_response then \<not> operators_empty a' else operators_empty a' = operators_empty a"
proof -
  have "gone_response \<noteq> created_response" "invalid_response \<noteq> created_response"
    by (simp_all add: gone_response_def created_response_def invalid_response_def)
  then show ?thesis
    using assms unfolding register_admin_def
    by (auto simp: hret_def update_app_def database_def operators_empty_def elim!: hbind_cases
        split: if_splits prod.splits dest!: create_operator_result)
qed

lemma advance_setup_result:
  assumes "advance_setup E th a = (th', a')" and "thread_ok (Some i) (operators_empty a) i th"
  shows "(if th' = Done (Inr created_response) then 1 else 0) + room a' \<le>
      (if th = Done (Inr created_response) then 1 else 0) + room a \<and>
    thread_ok (case th' of Done _ \<Rightarrow> None | _ \<Rightarrow> Some i) (operators_empty a') i th'"
proof (cases th)
  case (Locked form)
  have "gone_response \<noteq> created_response" by (simp add: gone_response_def created_response_def)
  then show ?thesis
    using assms(1) Locked count_operators_result [of a]
    by (cases "database count_operators a") (auto simp: room_def split: sum.splits if_splits)
next
  case (Counted form)
  obtain r where "th' = Done r" "register_admin E form a = (r, a')"
    using assms(1) Counted by (auto split: prod.splits)
  then show ?thesis using register_admin_result [of E form a r a'] assms(2) Counted by (auto simp: room_def split: if_splits)
qed (use assms in \<open>auto split: setup_thread.splits\<close>)

lemma setup_step_inv:
  assumes "setup_inv c st" and "setup_step E token debug st e = Some st'"
  shows "setup_inv c st'"
proof (cases e)
  case (Arrive req form)
  have "first_time_checks token debug req form \<noteq> Some created_response"
    by (auto simp: first_time_checks_def forbidden_def created_response_def split: option.splits)
  then show ?thesis
    using Arrive assms by (auto simp: setup_step_def setup_inv_def created_count_def nth_append split: option.splits)
next
  case (Lock i)
  then obtain form where i: "i < length (setup_threads st)" "setup_threads st ! i = Waiting form" "first_time_lock st = None"
    and st': "st' = st\<lparr>setup_threads := (setup_threads st)[i := Locked form], first_time_lock := Some i\<rparr>"
    using assms(2) by (auto simp: setup_step_def split: if_splits setup_thread.splits)
  show ?thesis
    using setup_inv_update [OF assms(1) i(1), of "Locked form" "setup_app st" "Some i"] i(2,3) st' by simp
next
  case (Advance_setup i)
  then obtain th a where i: "i < length (setup_threads st)" "first_time_lock st = Some i"
    and adv: "advance_setup E (setup_threads st ! i) (setup_app st) = (th, a)"
    and st': "st' = st\<lparr>setup_app := a, setup_threads := (setup_threads st)[i := th],
        first_time_lock := (case th of Done _ \<Rightarrow> None | _ \<Rightarrow> Some i)\<rparr>"
    using assms(2) by (auto simp: setup_step_def split: if_splits prod.splits)
  have "thread_ok (Some i) (operators_empty (setup_app st)) i (setup_threads st ! i)"
    using assms(1) i by (simp add: setup_inv_def)
  from advance_setup_result [OF adv this] show ?thesis
    unfolding st' by (intro setup_inv_update [OF assms(1) i(1)]) (simp_all add: i(2))
next
  case (Drop i)
  then have i: "i < length (setup_threads st)" and st': "st' = st\<lparr>setup_threads := (setup_threads st)[i := Dropped],
      first_time_lock := (if first_time_lock st = Some i then None else first_time_lock st)\<rparr>"
    using assms(2) by (auto simp: setup_step_def split: if_splits setup_thread.splits)
  show ?thesis
  proof (cases "first_time_lock st = Some i")
    case True
    then show ?thesis
      using setup_inv_update [OF assms(1) i, of Dropped "setup_app st" None] st' by auto
  next
    case False
    then have "first_time_lock st' = first_time_lock st" by (simp add: st')
    moreover have "created_count st' \<le> created_count st"
      using count_if_update [OF i, of "\<lambda>th. th = Done (Inr created_response)" Dropped] st' by (simp add: created_count_def)
    ultimately show ?thesis
      using assms(1) i unfolding setup_inv_def st' by (auto simp: nth_list_update split: if_splits)
  qed
next
  case (Other a)
  then show ?thesis
    using assms by (auto simp: setup_step_def setup_inv_def created_count_def room_def split: if_splits)
qed

interpretation su: invariant_system "setup_step E token debug" "setup_inv c" for E token debug c
  by unfold_locales (rule setup_step_inv)

definition setup_start :: "app \<Rightarrow> setup_system" where
  "setup_start a = \<lparr>setup_app = a, first_time_lock = None, setup_threads = []\<rparr>"

text \<open>
  Property C6 (safety): \<open>first_time\<close> is single-use. However its requests arrive, wait for the lock, run, fail
  and are dropped, and whatever other requests do in between, at most one of them is ever answered
  \<open>created\<close>; and none where accounts exist already.
\<close>

theorem first_time_creates_at_most_one:
  assumes "run_events (setup_step E token debug) (setup_start a) es = Some st"
  shows "created_count st \<le> (if operators_empty a then 1 else 0) \<and>
    (operators_empty a \<longrightarrow> created_count st = 1 \<longrightarrow> \<not> operators_empty (setup_app st))"
proof -
  have "setup_inv (room a) (setup_start a)" by (simp add: setup_inv_def setup_start_def created_count_def)
  then have "setup_inv (room a) st" using su.run_inv [OF assms] by blast
  then have "created_count st + room (setup_app st) \<le> room a" by (simp add: setup_inv_def)
  then show ?thesis by (auto simp: room_def split: if_splits)
qed

definition first_form :: first_time_form where
  "first_form = \<lparr>ft_username = lit ''ann'', ft_email = lit ''ann@example.org'', ft_password = lit ''Long-Random#Pass9'',
     ft_user_type = lit ''admin'', ft_token = lit ''tok''\<rparr>"

definition two_setups :: "setup_event list" where
  "two_setups = (let req = sample_request\<lparr>peer := V4 [127, 0, 0, 1]\<rparr> in
     [Arrive req first_form, Arrive req first_form, Lock 1, Advance_setup 1, Advance_setup 1, Lock 0, Advance_setup 0])"

theorem first_time_creates_at_most_one_witness:
  "\<exists>st. run_events (setup_step sample_env (Some (lit ''tok'')) False) (setup_start (sample_app no_accounts (\<lambda>_. None))) two_setups = Some st \<and>
     created_count st = 1 \<and> setup_threads st = [Done (Inr gone_response), Done (Inr created_response)] \<and>
     \<not> operators_empty (setup_app st)"
proof -
  let ?a = "sample_app no_accounts (\<lambda>_. None)"
  have "map_option setup_threads (run_events (setup_step sample_env (Some (lit ''tok'')) False) (setup_start ?a) two_setups) =
      Some [Done (Inr gone_response), Done (Inr created_response)]"
    by code_simp
  then obtain st where st: "run_events (setup_step sample_env (Some (lit ''tok'')) False) (setup_start ?a) two_setups = Some st"
      "setup_threads st = [Done (Inr gone_response), Done (Inr created_response)]"
    by auto
  moreover have "operators_empty ?a" by code_simp
  moreover have "1 \<le> created_count st" by (simp add: created_count_def st(2))
  ultimately show ?thesis using first_time_creates_at_most_one [OF st(1)] by (intro exI [of _ st]) auto
qed

section \<open>Bootstrapping again\<close>

text \<open>
  The bootstrap looks for an operator called \<open>admin\<close>, not for an administrator: where the only
  administrator has another name and the variable is still set, a restart makes a second one.
\<close>

lemma bootstrap_ignores_other_admins:
  "map username (operators (tables (snd (bootstrap_administrator sample_env (Some (lit ''Long-Random#Pass9'')) None
     sample_world)))) = [username sample_operator, lit ''admin''] \<and>
   operator_type sample_operator = lit ''admin'' \<and> username sample_operator \<noteq> lit ''admin''"
  by code_simp

end
