(* ===== verification/Redact.thy ===== *)
theory Redact
  imports Prelude
begin

text \<open>
  \<open>src/security/redact.rs\<close>: masking of secret parameter values in captured requests.
  The source walks an index \<open>i\<close> over a vector of characters and pushes onto \<open>out\<close>; the model
  recurses on the suffix that starts at \<open>i\<close> and returns what is pushed. The Unicode tables of the
  standard library (letters and digits beyond ASCII, lower-casing beyond ASCII) are the fields of
  a record \<open>unicode\<close>, and every lemma holds for all of them.
\<close>

section \<open>Definitions\<close>

record unicode =
  alnum_beyond_ascii :: "uchar \<Rightarrow> bool"
  lowercase_beyond_ascii :: "ustr \<Rightarrow> ustr"

definition is_alphanumeric :: "unicode \<Rightarrow> uchar \<Rightarrow> bool" where
  "is_alphanumeric U c \<longleftrightarrow> (if is_ascii c then is_ascii_alnum c else alnum_beyond_ascii U c)"

definition to_lowercase :: "unicode \<Rightarrow> ustr \<Rightarrow> ustr" where
  "to_lowercase U s =
     (if list_all is_ascii s then to_ascii_lowercase s else lowercase_beyond_ascii U s)"

definition REDACTED :: ustr where
  "REDACTED = lit ''+++++''"

definition SENSITIVE_WORDS :: "ustr list" where
  "SENSITIVE_WORDS =
    [lit ''mot de passe'', lit ''passe'', lit ''code'', lit ''jeton'', lit ''token'',
     lit ''bearer'', lit ''porteur'', lit ''cl'' @ [233], lit ''cle'', lit ''clef'',
     lit ''passwort'', lit ''kennwort'', lit ''kode'', lit ''tr'' @ [228] @ lit ''ger'',
     lit ''traeger'', lit ''schl'' @ [252] @ lit ''ssel'', lit ''schlussel'',
     lit ''palavra-passe'', lit ''palavrapasse'', lit ''senha'', lit ''c'' @ [243] @ lit ''digo'',
     lit ''codigo'', lit ''portador'', lit ''chave'', lit ''contrase'' @ [241] @ lit ''a'',
     lit ''contrasena'', lit ''clave'', lit ''password'', lit ''passwd'', lit ''pass'', lit ''key'',
     [1087, 1072, 1088, 1086, 1083, 1100], [1082, 1086, 1076],
     [1090, 1086, 1082, 1077, 1085], [1085, 1086, 1089, 1080, 1090, 1077, 1083, 1100],
     [1082, 1083, 1102, 1095], [23494, 30721], [23494, 30908], [20195, 30721], [20195, 30908],
     [20196, 29260], [25345, 26377, 32773], [23494, 38053], [23494, 38312], [38053, 21273],
     [38312, 21273], [12497, 12473, 12527, 12540, 12489], [26263, 21495], [12467, 12540, 12489],
     [12488, 12540, 12463, 12531], [12505, 12450, 12521, 12540], [37749], [12461, 12540],
     lit ''kata sandi'', lit ''katasandi'', lit ''sandi'', lit ''pembawa'', lit ''kunci'']"

definition is_quote :: "uchar \<Rightarrow> bool" where
  "is_quote c \<longleftrightarrow> c = 34 \<or> c = 39"

definition is_sensitive_key :: "unicode \<Rightarrow> ustr \<Rightarrow> bool" where
  "is_sensitive_key U key =
     (let k = to_lowercase U (trim_matches is_quote (trim key))
      in if k = [] then False else list_ex (\<lambda>w. contains w k) SENSITIVE_WORDS)"

definition is_key_char :: "unicode \<Rightarrow> uchar \<Rightarrow> bool" where
  "is_key_char U c \<longleftrightarrow> is_alphanumeric U c \<or> c = 95 \<or> c = 45"

definition is_value_terminator :: "uchar \<Rightarrow> bool" where
  "is_value_terminator c \<longleftrightarrow>
     c \<in> {38, 59, 44, 10, 13, 9, 32, 34, 39, 125, 93, 41, 60, 62, 35}"

definition is_gap :: "uchar \<Rightarrow> bool" where
  "is_gap c \<longleftrightarrow> c = 32 \<or> c = 9 \<or> c = 34 \<or> c = 39"

definition is_blank :: "uchar \<Rightarrow> bool" where
  "is_blank c \<longleftrightarrow> c = 32 \<or> c = 9"

definition is_delimiter :: "uchar \<Rightarrow> bool" where
  "is_delimiter c \<longleftrightarrow> c = 61 \<or> c = 58"

text \<open>What \<open>redact_value\<close> pushes, and the input left after the consumed value.\<close>

fun redact_value :: "ustr \<Rightarrow> ustr \<times> ustr" where
  "redact_value [] = ([], [])"
| "redact_value (q # s) =
     (if is_quote q then
        (let body = takeWhile (\<lambda>c. c \<noteq> q) s; rest = dropWhile (\<lambda>c. c \<noteq> q) s;
             masked = (if body \<noteq> [] then REDACTED else [])
         in case rest of [] \<Rightarrow> (q # masked, []) | close # rest' \<Rightarrow> (q # masked @ [close], rest'))
      else
        (let body = takeWhile (\<lambda>c. \<not> is_value_terminator c) (q # s);
             rest = dropWhile (\<lambda>c. \<not> is_value_terminator c) (q # s)
         in (if body \<noteq> [] then REDACTED else [], rest)))"

lemma redact_value_rest_length: "length (snd (redact_value s)) \<le> length s"
proof (cases s)
  case (Cons q t)
  have "length (dropWhile (\<lambda>c. c \<noteq> q) t) \<le> length t" by (rule takeWhile_dropWhile_length)
  moreover have "length (dropWhile (\<lambda>c. \<not> is_value_terminator c) (q # t)) \<le> length (q # t)"
    by (rule takeWhile_dropWhile_length)
  ultimately show ?thesis using Cons by (auto simp: Let_def split: list.splits)
qed simp

lemma redact_rest_shorter:
  assumes "dropWhile is_gap (dropWhile p s) = d # tail"
    and "redact_value (dropWhile is_blank tail) = (m, rest)"
  shows "length rest \<le> length s"
proof -
  have "length rest \<le> length (dropWhile is_blank tail)"
    using redact_value_rest_length [of "dropWhile is_blank tail"] assms(2) by simp
  also have "\<dots> \<le> length tail" by (rule takeWhile_dropWhile_length)
  also have "\<dots> \<le> length (dropWhile is_gap (dropWhile p s))" using assms(1) by simp
  also have "\<dots> \<le> length (dropWhile p s)" by (rule takeWhile_dropWhile_length)
  also have "\<dots> \<le> length s" by (rule takeWhile_dropWhile_length)
  finally show ?thesis .
qed

function redact_sensitive_values :: "unicode \<Rightarrow> ustr \<Rightarrow> ustr" where
  "redact_sensitive_values U [] = []"
| "redact_sensitive_values U (c # s) =
     (if \<not> is_key_char U c then c # redact_sensitive_values U s
      else
        (let key = c # takeWhile (is_key_char U) s;
             after = dropWhile (is_key_char U) s;
             gap = takeWhile is_gap after
         in case dropWhile is_gap after of
              [] \<Rightarrow> key @ redact_sensitive_values U after
            | d # tail \<Rightarrow>
                if is_delimiter d \<and> is_sensitive_key U key then
                  (let blanks = takeWhile is_blank tail;
                       (masked, rest) = redact_value (dropWhile is_blank tail)
                   in key @ gap @ [d] @ blanks @ masked @ redact_sensitive_values U rest)
                else key @ redact_sensitive_values U after))"
  by pat_completeness auto
termination
  by (relation "measure (\<lambda>(U, s). length s)")
    (auto simp: takeWhile_dropWhile_length less_Suc_eq_le
      intro: redact_rest_shorter [OF _ sym])

declare redact_sensitive_values.simps(2) [simp del]

section \<open>Equations by the shape of the input\<close>

lemma key_char_facts [simp]:
  "is_gap c \<Longrightarrow> \<not> is_key_char U c"
  "is_delimiter c \<Longrightarrow> \<not> is_key_char U c"
  "is_delimiter c \<Longrightarrow> \<not> is_gap c"
  "is_value_terminator c \<Longrightarrow> \<not> is_key_char U c"
  "is_value_terminator c \<Longrightarrow> \<not> is_delimiter c"
  "is_quote c \<Longrightarrow> is_value_terminator c"
  "is_blank c \<Longrightarrow> is_value_terminator c"
  by (auto simp: is_gap_def is_key_char_def is_alphanumeric_def is_delimiter_def char_class_defs
      is_value_terminator_def is_quote_def is_blank_def)

lemma redact_other: "\<not> is_key_char U c \<Longrightarrow>
  redact_sensitive_values U (c # s) = c # redact_sensitive_values U s"
  by (simp add: redact_sensitive_values.simps(2))

text \<open>A maximal token: \<open>token U k r\<close> when \<open>k\<close> is a name and \<open>r\<close> cannot extend it.\<close>

definition token :: "unicode \<Rightarrow> ustr \<Rightarrow> ustr \<Rightarrow> bool" where
  "token U k r \<longleftrightarrow> k \<noteq> [] \<and> list_all (is_key_char U) k \<and> (r = [] \<or> \<not> is_key_char U (hd r))"

lemma token_split:
  assumes "token U k r"
  obtains c k' where "k = c # k'" "is_key_char U c" "takeWhile (is_key_char U) (k' @ r) = k'"
    "dropWhile (is_key_char U) (k' @ r) = r"
proof -
  obtain c k' where k: "k = c # k'" using assms by (cases k) (auto simp: token_def)
  have all: "\<And>x. x \<in> set k' \<Longrightarrow> is_key_char U x" and "is_key_char U c"
    using assms k by (auto simp: token_def list_all_iff)
  moreover have "takeWhile (is_key_char U) (k' @ r) = k'" "dropWhile (is_key_char U) (k' @ r) = r"
    using assms all by (simp_all add: token_def While_stop_Nil)
  ultimately show thesis using k that by blast
qed

lemma redact_plain_token:
  assumes "token U k r"
    and "\<And>d tail. dropWhile is_gap r = d # tail \<Longrightarrow> \<not> (is_delimiter d \<and> is_sensitive_key U k)"
  shows "redact_sensitive_values U (k @ r) = k @ redact_sensitive_values U r"
proof -
  from assms(1) obtain c k' where k: "k = c # k'" "is_key_char U c"
    "takeWhile (is_key_char U) (k' @ r) = k'" "dropWhile (is_key_char U) (k' @ r) = r"
    by (rule token_split)
  then show ?thesis
    using assms(2) by (auto simp: redact_sensitive_values.simps(2) Let_def split: list.splits)
qed

lemma redact_secret_token:
  assumes "list_all (is_key_char U) k" "k \<noteq> []" and "list_all is_gap g"
    and "is_delimiter d" "is_sensitive_key U k"
    and "redact_value (dropWhile is_blank tail) = (m, rest)"
  shows "redact_sensitive_values U (k @ g @ d # tail) =
    k @ g @ [d] @ takeWhile is_blank tail @ m @ redact_sensitive_values U rest"
proof -
  have r: "token U k (g @ d # tail)"
    using assms by (cases g) (auto simp: token_def)
  have g: "takeWhile is_gap (g @ d # tail) = g" "dropWhile is_gap (g @ d # tail) = d # tail"
    using assms by (simp_all add: list_all_iff)
  from r obtain c k' where "k = c # k'" "is_key_char U c"
    "takeWhile (is_key_char U) (k' @ g @ d # tail) = k'"
    "dropWhile (is_key_char U) (k' @ g @ d # tail) = g @ d # tail"
    by (rule token_split)
  then show ?thesis
    using assms g by (simp add: redact_sensitive_values.simps(2) Let_def)
qed

text \<open>
  Every input is empty, starts with a character outside names, starts with a token that names no
  secret parameter, or starts with one that does.
\<close>

lemma redact_cases [case_names Nil Other Plain Secret]:
  fixes s :: ustr
  obtains "s = []"
  | c t where "s = c # t" "\<not> is_key_char U c"
  | k r where "s = k @ r" "token U k r" "length r < length s"
      "\<And>d tail. dropWhile is_gap r = d # tail \<Longrightarrow> \<not> (is_delimiter d \<and> is_sensitive_key U k)"
  | k g d b v m rest where "s = k @ g @ d # b @ v" "list_all (is_key_char U) k" "k \<noteq> []"
      "list_all is_gap g" "is_delimiter d" "is_sensitive_key U k" "list_all is_blank b"
      "v = [] \<or> \<not> is_blank (hd v)" "redact_value v = (m, rest)" "length rest < length s"
proof (cases s)
  case (Cons c t)
  show thesis
  proof (cases "is_key_char U c")
    case True
    define k where "k = takeWhile (is_key_char U) s"
    define r where "r = dropWhile (is_key_char U) s"
    have s: "s = k @ r" by (simp add: k_def r_def)
    have k: "list_all (is_key_char U) k" "k \<noteq> []"
      using Cons True by (auto simp: k_def list_all_iff dest: set_takeWhileD)
    have tok: "token U k r"
      using k dropWhile_hd [of "is_key_char U" s] by (cases r) (auto simp: token_def r_def)
    show thesis
    proof (cases "\<exists>d tail. dropWhile is_gap r = d # tail \<and> is_delimiter d \<and> is_sensitive_key U k")
      case False
      have "length r < length s" using s k by (cases k) auto
      with False s tok that(3) show thesis by blast
    next
      case True
      then obtain d tail where d: "dropWhile is_gap r = d # tail" "is_delimiter d" "is_sensitive_key U k"
        by blast
      define g where "g = takeWhile is_gap r"
      define b where "b = takeWhile is_blank tail"
      define v where "v = dropWhile is_blank tail"
      obtain m rest where v: "redact_value v = (m, rest)" by (cases "redact_value v")
      have r: "r = g @ d # b @ v"
        using takeWhile_dropWhile_id [of is_gap r] takeWhile_dropWhile_id [of is_blank tail] d
        by (simp add: g_def b_def v_def)
      have "length rest \<le> length v" using redact_value_rest_length [of v] v by simp
      then have len: "length rest < length s" using s r by simp
      have g: "list_all is_gap g" and b: "list_all is_blank b"
        by (auto simp: g_def b_def list_all_iff dest: set_takeWhileD)
      have vhd: "v = [] \<or> \<not> is_blank (hd v)"
        using dropWhile_hd [of is_blank tail] by (cases v) (auto simp: v_def)
      have "s = k @ g @ d # b @ v" using s r by simp
      then show thesis using that(4) k g d(2,3) b vhd v len by blast
    qed
  next
    case False
    with Cons that(2) show thesis by blast
  qed
qed (use that in blast)

lemma redact_secret:
  assumes "list_all (is_key_char U) k" "k \<noteq> []" "list_all is_gap g" "is_delimiter d"
    "is_sensitive_key U k" "list_all is_blank b" "v = [] \<or> \<not> is_blank (hd v)"
    "redact_value v = (m, rest)"
  shows "redact_sensitive_values U (k @ g @ d # b @ v) =
    k @ g @ [d] @ b @ m @ redact_sensitive_values U rest"
proof -
  have "takeWhile is_blank (b @ v) = b" "dropWhile is_blank (b @ v) = v"
    using assms by (simp_all add: list_all_iff While_stop_Nil)
  then show ?thesis using redact_secret_token [of U k g d "b @ v"] assms by simp
qed

text \<open>The first character always survives, so gaps, tokens and delimiters stay where they are.\<close>

lemma redact_hd: "\<exists>t. redact_sensitive_values U (c # s) = c # t"
  by (auto simp: redact_sensitive_values.simps(2) Let_def split: list.splits prod.splits)

lemma redact_Nil_iff [simp]: "redact_sensitive_values U s = [] \<longleftrightarrow> s = []"
  using redact_hd [of U "hd s" "tl s"] by (cases s) auto

lemma hd_redact [simp]: "hd (redact_sensitive_values U s) = hd s"
  using redact_hd [of U "hd s" "tl s"] by (cases s) auto

lemma redact_gap:
  "list_all is_gap g \<Longrightarrow> redact_sensitive_values U (g @ r) = g @ redact_sensitive_values U r"
  by (induction g) (auto simp: redact_other)

lemma dropWhile_gap_redact:
  "dropWhile is_gap (redact_sensitive_values U r) = redact_sensitive_values U (dropWhile is_gap r)"
proof -
  have all: "list_all is_gap (takeWhile is_gap r)"
    by (auto simp: list_all_iff dest: set_takeWhileD)
  have "redact_sensitive_values U r =
      takeWhile is_gap r @ redact_sensitive_values U (dropWhile is_gap r)"
    using redact_gap [OF all, of U "dropWhile is_gap r"] by simp
  moreover have "dropWhile is_gap r = [] \<or> \<not> is_gap (hd (dropWhile is_gap r))"
    by (metis hd_dropWhile)
  ultimately show ?thesis
    using all by (auto simp: list_all_iff While_stop_Nil)
qed

section \<open>Idempotence\<close>

definition mask :: "ustr \<Rightarrow> ustr" where
  "mask body = (if body = [] then [] else REDACTED)"

lemma mask_not_quote: "is_quote q \<Longrightarrow> q \<notin> set (mask body)"
  by (auto simp: mask_def REDACTED_def lit_def is_quote_def)

lemma mask_not_terminator: "c \<in> set (mask body) \<Longrightarrow> \<not> is_value_terminator c"
  by (auto simp: mask_def REDACTED_def lit_def is_value_terminator_def split: if_splits)

lemma mask_mask [simp]: "mask (mask body) = mask body"
  by (simp add: mask_def)

lemma mask_Nil_iff [simp]: "mask body = [] \<longleftrightarrow> body = []"
  by (simp add: mask_def REDACTED_def)

lemma redact_value_quoted:
  assumes "is_quote q" and "q \<notin> set body"
  shows "redact_value (q # body @ q # rest) = (q # mask body @ [q], rest)"
proof -
  have "takeWhile (\<lambda>c. c \<noteq> q) (body @ q # rest) = body" "dropWhile (\<lambda>c. c \<noteq> q) (body @ q # rest) = q # rest"
    using assms by (induction body) auto
  then show ?thesis using assms by (simp add: Let_def mask_def)
qed

lemma redact_value_open:
  assumes "is_quote q" and "q \<notin> set body"
  shows "redact_value (q # body) = (q # mask body, [])"
proof -
  have "takeWhile (\<lambda>c. c \<noteq> q) body = body" "dropWhile (\<lambda>c. c \<noteq> q) body = []"
    using assms by (induction body) auto
  then show ?thesis using assms(1) by (cases body) (simp_all add: Let_def mask_def)
qed

lemma redact_value_bare:
  assumes "\<And>c. c \<in> set body \<Longrightarrow> \<not> is_value_terminator c"
    and "rest = [] \<or> is_value_terminator (hd rest)"
    and "body = [] \<Longrightarrow> rest \<noteq> [] \<Longrightarrow> \<not> is_quote (hd rest)"
  shows "redact_value (body @ rest) = (mask body, rest)"
proof (cases "body @ rest")
  case Nil
  then show ?thesis by (simp add: mask_def)
next
  case (Cons q s)
  have "\<not> is_quote q"
  proof (cases body)
    case Nil
    then show ?thesis using Cons assms(3) by simp
  next
    case body: (Cons c t)
    then have "\<not> is_value_terminator q" using Cons assms(1) [of q] by simp
    then show ?thesis using key_char_facts(6) by blast
  qed
  moreover have "takeWhile (\<lambda>c. \<not> is_value_terminator c) (body @ rest) = body"
    "dropWhile (\<lambda>c. \<not> is_value_terminator c) (body @ rest) = rest"
    using assms by (simp_all add: While_stop_Nil)
  ultimately show ?thesis using Cons by (simp add: Let_def mask_def)
qed

lemma redact_value_cases [case_names Quoted Open Bare]:
  obtains q body rest where "v = q # body @ q # rest" "is_quote q" "q \<notin> set body"
  | q body where "v = q # body" "is_quote q" "q \<notin> set body"
  | body rest where "v = body @ rest" "\<And>c. c \<in> set body \<Longrightarrow> \<not> is_value_terminator c"
      "rest = [] \<or> is_value_terminator (hd rest)"
      "body = [] \<Longrightarrow> rest \<noteq> [] \<Longrightarrow> \<not> is_quote (hd rest)"
proof (cases "v \<noteq> [] \<and> is_quote (hd v)")
  case True
  then obtain q s where v: "v = q # s" and q: "is_quote q" by (cases v) auto
  show thesis
  proof (cases "q \<in> set s")
    case True
    then obtain body rest where "s = body @ q # rest" "q \<notin> set body"
      by (metis split_list_first)
    then show thesis using v q that(1) by blast
  qed (use v q that(2) in blast)
next
  case False
  define body where "body = takeWhile (\<lambda>c. \<not> is_value_terminator c) v"
  define rest where "rest = dropWhile (\<lambda>c. \<not> is_value_terminator c) v"
  have "v = body @ rest" by (simp add: body_def rest_def)
  moreover have "\<And>c. c \<in> set body \<Longrightarrow> \<not> is_value_terminator c"
    by (auto simp: body_def dest: set_takeWhileD)
  moreover have "rest = [] \<or> is_value_terminator (hd rest)"
    unfolding rest_def by (metis hd_dropWhile)
  moreover have "body = [] \<Longrightarrow> rest \<noteq> [] \<Longrightarrow> \<not> is_quote (hd rest)"
    using False \<open>v = body @ rest\<close> by simp
  ultimately show thesis by (rule that(3))
qed

lemma redact_value_again:
  assumes "redact_value v = (m, rest)" and "w = [] \<longleftrightarrow> rest = []" and "hd w = hd rest"
  shows "redact_value (m @ w) = (m, w)"
proof (cases v rule: redact_value_cases)
  case (Quoted q body r)
  then have "m = q # mask body @ [q]" using assms by (simp add: redact_value_quoted del: redact_value.simps)
  then show ?thesis
    using Quoted mask_not_quote redact_value_quoted [of q "mask body" w]
    by (simp del: redact_value.simps)
next
  case (Open q body)
  then have "m = q # mask body" "w = []"
    using assms by (simp_all add: redact_value_open del: redact_value.simps)
  then show ?thesis
    using Open mask_not_quote redact_value_open [of q "mask body"]
    by (simp del: redact_value.simps)
next
  case (Bare body r)
  have m: "m = mask body" "rest = r"
    using assms(1) Bare redact_value_bare [OF Bare(2-4)] by (simp_all del: redact_value.simps)
  have "redact_value (mask body @ w) = (mask (mask body), w)"
  proof (rule redact_value_bare)
    show "w = [] \<or> is_value_terminator (hd w)" using Bare(3) m assms by auto
    show "\<not> is_quote (hd w)" if "mask body = []" "w \<noteq> []" using that Bare(4) m assms by auto
  qed (rule mask_not_terminator)
  then show ?thesis using m by simp
qed

lemma redact_idem:
  "redact_sensitive_values U (redact_sensitive_values U s) = redact_sensitive_values U s"
proof (induction s rule: length_induct)
  case (1 s)
  then have IH: "redact_sensitive_values U (redact_sensitive_values U t) = redact_sensitive_values U t"
    if "length t < length s" for t
    using that by blast
  show ?case
  proof (cases s rule: redact_cases [where U = U])
    case Nil
    then show ?thesis by simp
  next
    case (Other c t)
    then show ?thesis using IH [of t] by (simp add: redact_other)
  next
    case (Plain k r)
    let ?r = "redact_sensitive_values U r"
    have "redact_sensitive_values U s = k @ ?r" using Plain by (simp add: redact_plain_token)
    moreover have "redact_sensitive_values U (k @ ?r) = k @ redact_sensitive_values U ?r"
    proof (rule redact_plain_token)
      show "token U k ?r" using Plain(2) by (auto simp: token_def)
      fix d tail
      assume "dropWhile is_gap ?r = d # tail"
      then have "redact_sensitive_values U (dropWhile is_gap r) = d # tail"
        by (simp add: dropWhile_gap_redact)
      then obtain tail' where "dropWhile is_gap r = d # tail'"
        using hd_redact [of U "dropWhile is_gap r"] by (cases "dropWhile is_gap r") auto
      then show "\<not> (is_delimiter d \<and> is_sensitive_key U k)" by (rule Plain(4))
    qed
    ultimately show ?thesis using IH [OF Plain(3)] by simp
  next
    case (Secret k g d b v m rest)
    let ?w = "redact_sensitive_values U rest"
    have out: "redact_sensitive_values U s = k @ g @ d # b @ m @ ?w"
      using Secret by (simp add: redact_secret)
    have again: "redact_value (m @ ?w) = (m, ?w)"
      by (rule redact_value_again [OF Secret(9)]) auto
    have "m @ ?w = [] \<or> \<not> is_blank (hd (m @ ?w))"
    proof (cases v rule: redact_value_cases)
      case (Quoted q body r)
      then show ?thesis
        using Secret(9) by (auto simp: redact_value_quoted is_quote_def is_blank_def simp del: redact_value.simps)
    next
      case (Open q body)
      then show ?thesis
        using Secret(9) by (auto simp: redact_value_open is_quote_def is_blank_def simp del: redact_value.simps)
    next
      case (Bare body r)
      have m: "m = mask body" "rest = r"
        using Secret(9) Bare redact_value_bare [OF Bare(2-4)] by (simp_all del: redact_value.simps)
      show ?thesis
      proof (cases "body = []")
        case True
        then show ?thesis using m Bare(1) Secret(8) by (simp add: mask_def)
      next
        case False
        then show ?thesis using m by (simp add: mask_def REDACTED_def lit_def is_blank_def)
      qed
    qed
    then have "redact_sensitive_values U (k @ g @ d # b @ m @ ?w) =
        k @ g @ [d] @ b @ m @ redact_sensitive_values U ?w"
      using Secret again by (intro redact_secret) auto
    then show ?thesis using out IH [OF Secret(10)] by simp
  qed
qed

section \<open>Separators\<close>

text \<open>
  A terminator that is neither a quote nor a blank ends whatever parameter precedes it, so the text
  after it is masked as if it stood alone.
\<close>

definition is_separator :: "uchar \<Rightarrow> bool" where
  "is_separator z \<longleftrightarrow> is_value_terminator z \<and> \<not> is_quote z \<and> \<not> is_blank z"

lemma separator_facts [simp]:
  "is_separator z \<Longrightarrow> \<not> is_gap z"
  "is_separator z \<Longrightarrow> \<not> is_blank z"
  "is_separator z \<Longrightarrow> \<not> is_key_char U z"
  "is_separator z \<Longrightarrow> \<not> is_delimiter z"
  "is_separator z \<Longrightarrow> \<not> is_quote z"
  "is_separator z \<Longrightarrow> is_value_terminator z"
  by (auto simp: is_separator_def is_gap_def is_blank_def is_quote_def)

lemma redact_value_separator:
  assumes "is_separator z" and "\<And>c. c \<in> set v \<Longrightarrow> \<not> is_quote c" and "redact_value v = (m, rest)"
  shows "redact_value (v @ z # t) = (m, rest @ z # t)"
proof (cases v rule: redact_value_cases)
  case (Bare body r)
  have m: "m = mask body" "rest = r"
    using assms(3) Bare redact_value_bare [OF Bare(2-4)] by (simp_all del: redact_value.simps)
  have "redact_value (body @ r @ z # t) = (mask body, r @ z # t)"
  proof (rule redact_value_bare [OF Bare(2)])
    show "r @ z # t = [] \<or> is_value_terminator (hd (r @ z # t))"
    proof (cases r)
      case Nil
      then show ?thesis using assms(1) by simp
    next
      case (Cons x xs)
      then show ?thesis using Bare(3) by simp
    qed
    show "\<not> is_quote (hd (r @ z # t))"
    proof (cases r)
      case Nil
      then show ?thesis using assms(1) by simp
    next
      case (Cons x xs)
      then have "x \<in> set v" using Bare(1) by simp
      then show ?thesis using assms(2) Cons by simp
    qed
  qed
  then show ?thesis using Bare(1) m by simp
qed (use assms(2) in auto)

lemma redact_separator:
  assumes "is_separator z" and "\<And>c. c \<in> set p \<Longrightarrow> \<not> is_quote c"
  shows "redact_sensitive_values U (p @ z # t) =
    redact_sensitive_values U p @ z # redact_sensitive_values U t"
  using assms(2)
proof (induction p rule: length_induct)
  case (1 p)
  then have IH: "redact_sensitive_values U (q @ z # t) =
      redact_sensitive_values U q @ z # redact_sensitive_values U t"
    if "length q < length p" "set q \<subseteq> set p" for q
    using that by blast
  show ?case
  proof (cases p rule: redact_cases [where U = U])
    case Nil
    then show ?thesis using assms(1) by (simp add: redact_other)
  next
    case (Other c q)
    then show ?thesis using IH [of q] by (auto simp: redact_other)
  next
    case (Plain k r)
    have "redact_sensitive_values U (k @ (r @ z # t)) = k @ redact_sensitive_values U (r @ z # t)"
    proof (rule redact_plain_token)
      show "token U k (r @ z # t)" using Plain(2) assms(1) by (cases r) (auto simp: token_def)
      fix d tail
      assume d: "dropWhile is_gap (r @ z # t) = d # tail"
      show "\<not> (is_delimiter d \<and> is_sensitive_key U k)"
      proof (cases "dropWhile is_gap r")
        case Nil
        then have "\<forall>x \<in> set r. is_gap x" by simp
        then have "d = z" using d assms(1) by simp
        then show ?thesis using assms(1) by simp
      next
        case (Cons d' tail')
        then have "dropWhile is_gap (r @ z # t) = d' # tail' @ z # t"
          by (rule dropWhile_append_Cons)
        then have "d = d'" using d by simp
        then show ?thesis using Plain(4) [OF Cons] by simp
      qed
    qed
    then show ?thesis using Plain IH [of r] by (auto simp: redact_plain_token)
  next
    case (Secret k g d b v m rest)
    have v: "redact_value (v @ z # t) = (m, rest @ z # t)"
    proof (rule redact_value_separator [OF assms(1) _ Secret(9)])
      show "\<not> is_quote c" if "c \<in> set v" for c using that "1.prems" Secret(1) by simp
    qed
    have "redact_sensitive_values U (k @ g @ d # b @ (v @ z # t)) =
        k @ g @ [d] @ b @ m @ redact_sensitive_values U (rest @ z # t)"
      using Secret v assms(1) by (intro redact_secret) (auto, cases v, auto)
    moreover
    have "set rest \<subseteq> set v"
    proof (cases v rule: redact_value_cases)
      case (Bare body r)
      then show ?thesis
        using Secret(9) redact_value_bare [OF Bare(2-4)] by (simp del: redact_value.simps)
    qed (use Secret(1) "1.prems" in auto)
    then have "set rest \<subseteq> set p" using Secret(1) by auto
    ultimately show ?thesis
      using Secret IH [OF Secret(10)] by (simp add: redact_secret)
  qed
qed

section \<open>Abstract view: query strings and JSON objects of parameters\<close>

definition render_param :: "ustr \<times> ustr \<Rightarrow> ustr" where
  "render_param p = fst p @ [61] @ snd p"

definition render_query :: "(ustr \<times> ustr) list \<Rightarrow> ustr" where
  "render_query ps = join [38] (map render_param ps)"

definition mask_param :: "unicode \<Rightarrow> ustr \<times> ustr \<Rightarrow> ustr \<times> ustr" where
  "mask_param U p =
     (fst p, if is_sensitive_key U (fst p) then mask (snd p) else redact_sensitive_values U (snd p))"

definition param_ok :: "unicode \<Rightarrow> ustr \<times> ustr \<Rightarrow> bool" where
  "param_ok U p \<longleftrightarrow> fst p \<noteq> [] \<and> list_all (is_key_char U) (fst p)
     \<and> list_all (\<lambda>c. \<not> is_value_terminator c) (snd p)"

lemma not_gap_61: "\<not> is_gap 61" and delimiter_61: "is_delimiter 61" and delimiter_58: "is_delimiter 58"
  and gap_34: "is_gap 34" and quote_34: "is_quote 34" and not_gap_58: "\<not> is_gap 58"
  by (simp_all add: is_gap_def is_delimiter_def is_quote_def)

lemma param_no_quote:
  assumes "param_ok U p" and "c \<in> set (render_param p)"
  shows "\<not> is_quote c"
proof
  assume q: "is_quote c"
  then have "\<not> is_key_char U c" "is_value_terminator c" by simp_all
  then show False
    using assms q by (auto simp: param_ok_def render_param_def list_all_iff is_quote_def)
qed

lemma redact_param:
  assumes "param_ok U p"
  shows "redact_sensitive_values U (render_param p) = render_param (mask_param U p)"
proof -
  obtain k v where p: "p = (k, v)" by (cases p)
  have k: "k \<noteq> []" "list_all (is_key_char U) k" and v: "\<And>c. c \<in> set v \<Longrightarrow> \<not> is_value_terminator c"
    using assms by (auto simp: p param_ok_def list_all_iff)
  show ?thesis
  proof (cases "is_sensitive_key U k")
    case True
    have "redact_value (v @ []) = (mask v, [])" by (rule redact_value_bare) (use v in auto)
    moreover have "v = [] \<or> \<not> is_blank (hd v)"
      using v key_char_facts(7) by (metis hd_in_set)
    ultimately show ?thesis
      using redact_secret [of U k "[]" 61 "[]" v "mask v" "[]"] k True delimiter_61
      by (simp add: p render_param_def mask_param_def)
  next
    case False
    have "redact_sensitive_values U (k @ 61 # v) = k @ redact_sensitive_values U (61 # v)"
      using k False by (intro redact_plain_token) (auto simp: token_def delimiter_61)
    then show ?thesis
      using False by (simp add: p render_param_def mask_param_def redact_other delimiter_61)
  qed
qed


definition ascii_unicode :: unicode where
  "ascii_unicode = \<lparr>alnum_beyond_ascii = (\<lambda>_. False), lowercase_beyond_ascii = (\<lambda>s. s)\<rparr>"


text \<open>
  A flat JSON object of string members, as the masker sees it: names are name characters, values
  hold no double quote, and a value that is not masked is a single word.
\<close>

definition render_member :: "ustr \<times> ustr \<Rightarrow> ustr" where
  "render_member p = [34] @ fst p @ [34, 58, 34] @ snd p @ [34]"

definition render_json :: "(ustr \<times> ustr) list \<Rightarrow> ustr" where
  "render_json ps = [123] @ join [44] (map render_member ps) @ [125]"

definition mask_member :: "unicode \<Rightarrow> ustr \<times> ustr \<Rightarrow> ustr \<times> ustr" where
  "mask_member U p = (fst p, if is_sensitive_key U (fst p) then mask (snd p) else snd p)"

definition member_ok :: "unicode \<Rightarrow> ustr \<times> ustr \<Rightarrow> bool" where
  "member_ok U p \<longleftrightarrow> fst p \<noteq> [] \<and> list_all (is_key_char U) (fst p) \<and> 34 \<notin> set (snd p)
     \<and> (is_sensitive_key U (fst p) \<or> list_all (is_key_char U) (snd p))"

lemma redact_word:
  assumes "list_all (is_key_char U) v" and "is_separator z"
  shows "redact_sensitive_values U (v @ 34 # z # t) = v @ 34 # z # redact_sensitive_values U t"
proof -
  have tail: "redact_sensitive_values U (34 # z # t) = 34 # z # redact_sensitive_values U t"
    using assms(2) gap_34 by (simp add: redact_other)
  show ?thesis
  proof (cases "v = []")
    case False
    have "redact_sensitive_values U (v @ 34 # z # t) = v @ redact_sensitive_values U (34 # z # t)"
    proof (rule redact_plain_token)
      show "token U v (34 # z # t)" using False assms(1) gap_34 by (simp add: token_def)
      show "\<not> (is_delimiter d \<and> is_sensitive_key U v)" if "dropWhile is_gap (34 # z # t) = d # tail" for d tail
        using that assms(2) gap_34 by auto
    qed
    then show ?thesis using tail by simp
  qed (simp add: tail)
qed

lemma redact_member:
  assumes "member_ok U p" and "is_separator z"
  shows "redact_sensitive_values U (render_member p @ z # t) =
    render_member (mask_member U p) @ z # redact_sensitive_values U t"
proof -
  obtain k v where p: "p = (k, v)" by (cases p)
  have k: "k \<noteq> []" "list_all (is_key_char U) k" and v: "34 \<notin> set v"
    using assms(1) by (auto simp: p member_ok_def)
  have open_quote: "redact_sensitive_values U (34 # s) = 34 # redact_sensitive_values U s" for s
    using gap_34 by (simp add: redact_other)
  show ?thesis
  proof (cases "is_sensitive_key U k")
    case True
    have "redact_value (34 # v @ 34 # z # t) = (34 # mask v @ [34], z # t)"
      using quote_34 v by (rule redact_value_quoted)
    then have "redact_sensitive_values U (k @ [34] @ 58 # [] @ (34 # v @ 34 # z # t)) =
        k @ [34] @ [58] @ [] @ (34 # mask v @ [34]) @ redact_sensitive_values U (z # t)"
      using k True delimiter_58 gap_34 by (intro redact_secret) (auto simp: is_blank_def)
    then show ?thesis
      using True assms(2) by (simp add: p render_member_def mask_member_def open_quote redact_other)
  next
    case False
    have "redact_sensitive_values U (k @ 34 # 58 # 34 # v @ 34 # z # t) =
        k @ redact_sensitive_values U (34 # 58 # 34 # v @ 34 # z # t)"
      using k False gap_34 by (intro redact_plain_token) (auto simp: token_def)
    moreover have "redact_sensitive_values U (58 # s) = 58 # redact_sensitive_values U s" for s
      using delimiter_58 by (simp add: redact_other)
    moreover have "list_all (is_key_char U) v" using False assms(1) by (simp add: p member_ok_def)
    ultimately show ?thesis
      using False assms(2) redact_word
      by (simp add: p render_member_def mask_member_def open_quote)
  qed
qed

lemma redact_members:
  assumes "list_all (member_ok U) ps" and "is_separator z" and "ps \<noteq> []"
  shows "redact_sensitive_values U (join [44] (map render_member ps) @ z # t) =
    join [44] (map (render_member \<circ> mask_member U) ps) @ z # redact_sensitive_values U t"
  using assms(1,3)
proof (induction ps)
  case (Cons p ps)
  have comma: "is_separator 44"
    by (simp add: is_separator_def is_value_terminator_def is_quote_def is_blank_def)
  show ?case
  proof (cases ps)
    case Nil
    then show ?thesis using Cons.prems assms(2) by (simp add: redact_member)
  next
    case (Cons q qs)
    then show ?thesis using Cons.IH Cons.prems comma by (simp add: redact_member)
  qed
qed simp

text \<open>
  On a flat JSON object, the scanner masks exactly the values of the
  members with a sensitive name, keeps both quotes and every other byte of the object.
\<close>

theorem redact_json_object:
  assumes "list_all (member_ok U) ps"
  shows "redact_sensitive_values U (render_json ps) = render_json (map (mask_member U) ps)"
proof -
  have brace: "\<not> is_key_char U 123" "is_separator 125"
    by (simp_all add: is_separator_def is_value_terminator_def is_quote_def is_blank_def
        is_key_char_def is_alphanumeric_def char_class_defs)
  then show ?thesis
    using assms redact_members [of U ps 125 "[]"]
    by (cases "ps = []") (simp_all add: render_json_def redact_other)
qed

lemma redact_json_object_witness:
  "redact_sensitive_values ascii_unicode (lit ''{\"token\":\"ey.secret\",\"keep\":\"me\"}'') =
     lit ''{\"token\":\"+++++\",\"keep\":\"me\"}''"
proof -
  let ?ps = "[(lit ''token'', lit ''ey.secret''), (lit ''keep'', lit ''me'')]"
  have ok: "list_all (member_ok ascii_unicode) ?ps" by code_simp
  have "render_json ?ps = lit ''{\"token\":\"ey.secret\",\"keep\":\"me\"}''" by code_simp
  moreover have "render_json (map (mask_member ascii_unicode) ?ps) =
      lit ''{\"token\":\"+++++\",\"keep\":\"me\"}''"
    by code_simp
  ultimately show ?thesis using redact_json_object [OF ok] by simp
qed

text \<open>
  Masking is idempotent on every input, whatever its shape, so a page that
  masks twice shows the same bytes.
\<close>

theorem redact_idempotent:
  "redact_sensitive_values U (redact_sensitive_values U s) = redact_sensitive_values U s"
  by (rule redact_idem)

section \<open>What the masker leaves alone, and what it misses\<close>

lemma redact_no_delimiter:
  assumes "\<And>c. c \<in> set s \<Longrightarrow> \<not> is_delimiter c"
  shows "redact_sensitive_values U s = s"
  using assms
proof (induction s rule: length_induct)
  case (1 s)
  show ?case
  proof (cases s rule: redact_cases [where U = U])
    case (Other c t)
    then show ?thesis using 1 by (simp add: redact_other)
  next
    case (Plain k r)
    then show ?thesis using 1 by (simp add: redact_plain_token)
  next
    case (Secret k g d b v m rest)
    then have "d \<in> set s" by simp
    then show ?thesis using "1.prems" Secret(5) by blast
  qed simp
qed

text \<open>
  What the masker misses. A nested form parameter (\<open>user[password]=...\<close>) is
  shown in clear, because the bracket after the name is not skipped when looking for the
  delimiter; a JSON string with an escaped quote is masked only up to the escape; and a bare value
  is masked only up to a comma. The rest of the secret stays readable for an operator or auditor.
\<close>

theorem redact_misses_nested_and_escaped:
  "redact_sensitive_values ascii_unicode (lit ''user[password]=hunter2'') = lit ''user[password]=hunter2'' \<and>
   redact_sensitive_values ascii_unicode (lit ''password:'' @ 34 # lit ''ab'' @ 92 # 34 # lit ''cdef'' @ [34]) =
     lit ''password:'' @ 34 # lit ''+++++'' @ 34 # lit ''cdef'' @ [34] \<and>
   redact_sensitive_values ascii_unicode (lit ''password=abc,def'') = lit ''password=+++++,def''"
  by (intro conjI) code_simp+

end
