(* ===== verification/Attacks.thy ===== *)
theory Attacks
  imports Guard Redact
begin

text \<open>
  The attack monitor of \<open>src/controllers/waf.rs\<close>: the table page, its JSON endpoint and the page of one
  finding, which masks captured secrets for everyone but administrators; and the dashboard page of
  \<open>src/controllers/dashboard.rs\<close>. The date parser of the \<open>time\<close> crate is a parameter.
\<close>

section \<open>Display\<close>

definition severity_class :: "ustr \<Rightarrow> ustr" where
  "severity_class s =
     (let l = to_ascii_lowercase (trim s) in
      if l = lit ''low'' then lit ''sev-low''
      else if l = lit ''medium'' then lit ''sev-medium''
      else if l = lit ''high'' then lit ''sev-high''
      else if l = lit ''critical'' then lit ''sev-critical''
      else lit ''sev-unknown'')"

text \<open>
  Each reader takes a text in its format to the text shown, \<open>None\<close> when it does not parse: RFC 3339
  (moved to UTC), then the two SQL shapes.
\<close>

record date_readers =
  rfc3339 :: "ustr \<Rightarrow> ustr option"
  sql_space :: "ustr \<Rightarrow> ustr option"
  sql_t :: "ustr \<Rightarrow> ustr option"

definition humanize_timestamp :: "date_readers \<Rightarrow> ustr \<Rightarrow> ustr" where
  "humanize_timestamp T raw =
     (let trimmed = trim raw in
      if trimmed = [] then []
      else case rfc3339 T trimmed of
        Some shown \<Rightarrow> shown
      | None \<Rightarrow> (case sql_space T trimmed of
          Some shown \<Rightarrow> shown
        | None \<Rightarrow> (case sql_t T trimmed of Some shown \<Rightarrow> shown | None \<Rightarrow> trimmed)))"

section \<open>Handlers\<close>

text \<open>What the monitor's handlers use besides the session.\<close>

record monitor_env =
  unicode_of :: unicode
  dates_of :: date_readers

definition viewer_frame :: "ustr \<Rightarrow> page_frame handler" where
  "viewer_frame section_name =
     hbind is_admin (\<lambda>admin.
     hbind is_auditor (\<lambda>auditor.
     hret \<lparr>active_page = section_name, show_acl = admin, show_rule_management = \<not> auditor\<rparr>))"

definition show_attacks :: "request \<Rightarrow> response handler" where
  "show_attacks req =
     (if \<not> mints_token req then hfail Csrf_token_error
      else hbind (viewer_frame MONITOR) (\<lambda>frame.
        hbind (read_app waf_database) (\<lambda>db.
        hret (Rendered (Show_attacks \<lparr>sa_frame = frame, sa_database_available = (db \<noteq> None)\<rparr>)))))"

definition dashboard_page :: "request \<Rightarrow> response handler" where
  "dashboard_page req =
     (if \<not> mints_token req then hfail Csrf_token_error
      else hbind (viewer_frame DASHBOARD) (\<lambda>frame. hret (Rendered (Dashboard frame))))"

text \<open>The masking of \<open>view_waf_request\<close>.\<close>

definition reveal :: "monitor_env \<Rightarrow> bool \<Rightarrow> ustr \<Rightarrow> ustr" where
  "reveal M reveal_secrets v = (if reveal_secrets then v else redact_sensitive_values (unicode_of M) v)"

definition attack_page :: "monitor_env \<Rightarrow> bool \<Rightarrow> vulnerability \<Rightarrow> view_waf_request_template" where
  "attack_page M reveal_secrets r = \<lparr>vw_attack_id = vuln_id r, vw_title = vuln_title r,
     vw_severity = vuln_severity r, vw_severity_class = severity_class (vuln_severity r),
     vw_cwe = vuln_cwe r, vw_description = vuln_description r, vw_reference_url = vuln_reference_url r,
     vw_occurred_at = humanize_timestamp (dates_of M) (vuln_occurred_at r), vw_rule_match = vuln_rule_match r,
     vw_rule_line_match = vuln_rule_line_match r, vw_client_ip = vuln_client_ip r,
     vw_request_uri = reveal M reveal_secrets (vuln_request_uri r),
     vw_fullpath_evidence = reveal M reveal_secrets (vuln_fullpath_evidence r),
     vw_request_payload = reveal M reveal_secrets (vuln_request_payload r)\<rparr>"

definition attack_id_of :: "auth_env \<Rightarrow> query_map \<Rightarrow> int option" where
  "attack_id_of E q = (case q (lit ''id'') of
     None \<Rightarrow> None
   | Some v \<Rightarrow> (case parse_i32 (plain_text E v) of Some i \<Rightarrow> if 0 < i then Some i else None | None \<Rightarrow> None))"

definition view_waf_request :: "auth_env \<Rightarrow> monitor_env \<Rightarrow> query_map \<Rightarrow> response handler" where
  "view_waf_request E M q =
     hbind is_admin (\<lambda>reveal_secrets. case attack_id_of E q of
       None \<Rightarrow> hret (Status 400 (lit ''Invalid attack ID''))
     | Some i \<Rightarrow>
     hbind (read_app waf_database) (\<lambda>db. case db of
       None \<Rightarrow> hret (Status 503 (lit ''The WAF database configured in db-waf-alerts is not available.''))
     | Some rs \<Rightarrow>
     hbind (waf_query (\<lambda>rs. find_vulnerability rs i) rs) (\<lambda>found. hret (case found of
       None \<Rightarrow> Status 404 (lit ''Attack not found'')
     | Some r \<Rightarrow> Rendered (View_waf_request (attack_page M reveal_secrets r))))))"

definition attack_json_of :: "vulnerability \<Rightarrow> attack_json" where
  "attack_json_of r = \<lparr>aj_id = vuln_id r, aj_severity = vuln_severity r, aj_title = vuln_title r,
     aj_client_ip = vuln_client_ip r, aj_request_uri = vuln_request_uri r, aj_rule_match = vuln_rule_match r,
     aj_occurred_at = vuln_occurred_at r, aj_country = vuln_country r\<rparr>"

text \<open>\<open>search[value]\<close>, or else \<open>search\<close>, sanitised; absent is empty.\<close>

definition attack_search_term :: "auth_env \<Rightarrow> query_map \<Rightarrow> ustr" where
  "attack_search_term E q = (case (case q (lit ''search[value]'') of None \<Rightarrow> q (lit ''search'') | Some v \<Rightarrow> Some v) of
     None \<Rightarrow> [] | Some v \<Rightarrow> plain_text E v)"

definition attack_list :: "auth_env \<Rightarrow> query_map \<Rightarrow> vulnerability list \<Rightarrow> vulnerability_page" where
  "attack_list E q rs = page_vulnerabilities rs
     (parse_query_u64 q (lit ''start'') 0)
     (clamp 1 100 (parse_query_u64 q (lit ''length'') 50))
     (attack_search_term E q)
     (case q (lit ''search_field'') of None \<Rightarrow> All_fields | Some v \<Rightarrow> search_field_from_token (plain_text E v))
     (case q (lit ''sort'') of None \<Rightarrow> By_severity | Some v \<Rightarrow> sort_from_token (plain_text E v))
     (case q (lit ''order'') of None \<Rightarrow> True | Some v \<Rightarrow> plain_text E v \<noteq> lit ''asc'')"

definition api_attacks :: "auth_env \<Rightarrow> query_map \<Rightarrow> response handler" where
  "api_attacks E q =
     hbind (read_app waf_database) (\<lambda>db. case db of
       None \<Rightarrow> hret (Attacks_json 503 \<lparr>draw = 1, records_total = 0, records_filtered = 0, page_data = []\<rparr>)
     | Some rs \<Rightarrow>
     hbind (waf_query (attack_list E q) rs) (\<lambda>p.
     hret (Attacks_json 200 \<lparr>draw = parse_query_u64 q (lit ''draw'') 1, records_total = vp_total p,
       records_filtered = vp_filtered p, page_data = map attack_json_of (vp_rows p)\<rparr>)))"

section \<open>What a viewer sees\<close>

lemma is_admin_InrD: "is_admin a = (Inr b, a') \<Longrightarrow>
    b = (data (session a) AUTHENTICATED_OPERATOR_TYPE = Some (Text (role_str Admin)))"
proof -
  assume "is_admin a = (Inr b, a')"
  then obtain ty a1 where s: "session_string AUTHENTICATED_OPERATOR_TYPE a = (Inr ty, a1)" and
    b: "b = (case (case ty of None \<Rightarrow> None | Some s \<Rightarrow> parse_role s) of None \<Rightarrow> False | Some r \<Rightarrow> can_administer r)"
    unfolding is_admin_def authenticated_role_def authenticated_operator_type_def
    by (auto simp: hret_def dest!: hbind_InrD)
  have "data (session a) AUTHENTICATED_OPERATOR_TYPE = map_option Text ty"
    using s by (auto simp: session_string_def session_access_def next_fault_def
        split: prod.splits if_splits option.splits session_value.splits list.splits)
  then show ?thesis
    unfolding b by (cases ty) (auto simp: can_administer_def parse_role_def split: option.splits if_splits)
qed


definition monitor_app :: "string \<Rightarrow> app" where
  "monitor_app ty = (sample_app sample_world (sample_session(AUTHENTICATED_OPERATOR_TYPE \<mapsto> Text (lit ty))))
     \<lparr>waf_database := Some sample_findings\<rparr>"

definition plain_monitor :: monitor_env where
  "plain_monitor = \<lparr>unicode_of = ascii_unicode, dates_of = \<lparr>rfc3339 = (\<lambda>_. None), sql_space = (\<lambda>_. None), sql_t = (\<lambda>_. None)\<rparr>\<rparr>"


text \<open>
  The table's endpoint does not mask. An auditor, who sees the request address of a
  finding masked on its page, gets the same address with the secret in it from the list behind the table.
\<close>

theorem attack_list_shows_secrets:
  "\<exists>v p. fst (view_waf_request sample_env plain_monitor [lit ''id'' \<mapsto> lit ''2''] (monitor_app ''auditor'')) =
      Inr (Rendered (View_waf_request v)) \<and> vw_request_uri v = lit ''/login?password=+++++'' \<and>
    fst (api_attacks sample_env Map.empty (monitor_app ''auditor'')) = Inr (Attacks_json 200 p) \<and>
    map aj_request_uri (page_data p) = replicate 4 (lit ''/login?password=hunter2'')"
proof -
  let ?v = "attack_page plain_monitor False (finding 2 ''High'' ''2024-01-02'')"
  let ?p = "\<lparr>draw = 1, records_total = 4, records_filtered = 4,
    page_data = map attack_json_of (vp_rows (attack_list sample_env Map.empty sample_findings))\<rparr>"
  have "fst (view_waf_request sample_env plain_monitor [lit ''id'' \<mapsto> lit ''2''] (monitor_app ''auditor'')) =
      Inr (Rendered (View_waf_request ?v))" "vw_request_uri ?v = lit ''/login?password=+++++''"
    by code_simp+
  moreover have "fst (api_attacks sample_env Map.empty (monitor_app ''auditor'')) = Inr (Attacks_json 200 ?p)"
    "map aj_request_uri (page_data ?p) = replicate 4 (lit ''/login?password=hunter2'')"
    by code_simp+
  ultimately show ?thesis by blast
qed

end
