(* ===== verification/ReleaseFiles.thy ===== *)
theory ReleaseFiles
  imports PasswordCrypto "HOL-Library.AList"
begin

text \<open>
  The files of a source update (\<open>src/services/source_update.rs\<close>): unpacking the release archive into a
  fresh staging directory, copying the staged source over the installation, and exchanging the executable.
  The staging directory is a tree that only the update writes. The disk with the installation is a map
  from absolute paths to nodes with symbolic links, which path resolution follows as the operating system
  does; the calls of \<open>std::fs\<close> work on it and may fail as a script says. Gzip and tar are crates: an
  archive is given by its entries.
\<close>

type_synonym path = "ustr list"

section \<open>Paths in archives\<close>

text \<open>\<open>Path::components\<close> on Unix: separators are collapsed, a dot counts only at the front.\<close>

datatype component = RootDir | CurDir | ParentDir | Normal ustr

definition component_of :: "ustr \<Rightarrow> component" where
  "component_of p = (if p = [46, 46] then ParentDir else Normal p)"

definition components :: "ustr \<Rightarrow> component list" where
  "components s =
     (let pieces = split_on 47 s in
      (if s \<noteq> [] \<and> hd s = 47 then [RootDir] else if hd pieces = [46] then [CurDir] else []) @
      map component_of (filter (\<lambda>p. p \<noteq> [] \<and> p \<noteq> [46]) pieces))"

fun normal_parts :: "component list \<Rightarrow> path option" where
  "normal_parts [] = Some []"
| "normal_parts (c # cs) = (case c of Normal n \<Rightarrow> map_option ((#) n) (normal_parts cs) | _ \<Rightarrow> None)"

definition strip_archive_root :: "ustr \<Rightarrow> ustr + path" where
  "strip_archive_root p =
     (case components p of
        Normal _ # rest \<Rightarrow> (case normal_parts rest of
            Some relative \<Rightarrow> Inr relative
          | None \<Rightarrow> Inl (lit ''release archive contains an unsafe path''))
      | _ \<Rightarrow> Inl (lit ''release archive path has no package root''))"

section \<open>Staging\<close>

text \<open>What a directory listing can find; unpacking makes files and directories only.\<close>

datatype staged = S_file bytes nat | S_dir "(ustr \<times> staged) list" | S_link | S_other

type_synonym staged_dir = "(ustr \<times> staged) list"

fun look :: "staged_dir \<Rightarrow> path \<Rightarrow> staged option" where
  "look d [] = Some (S_dir d)"
| "look d (n # p) = (case map_of d n of
     None \<Rightarrow> None
   | Some t \<Rightarrow> if p = [] then Some t else (case t of S_dir c \<Rightarrow> look c p | _ \<Rightarrow> None))"

definition staged_is_file :: "staged_dir \<Rightarrow> path \<Rightarrow> bool" where
  "staged_is_file d p = (case look d p of Some (S_file _ _) \<Rightarrow> True | _ \<Rightarrow> False)"

fun make_dirs :: "path \<Rightarrow> staged_dir \<Rightarrow> staged_dir option" where
  "make_dirs [] d = Some d"
| "make_dirs (n # p) d = (case map_of d n of
     None \<Rightarrow> map_option (\<lambda>c. AList.update n (S_dir c) d) (make_dirs p [])
   | Some (S_dir c) \<Rightarrow> map_option (\<lambda>c'. AList.update n (S_dir c') d) (make_dirs p c)
   | Some _ \<Rightarrow> None)"

text \<open>The parents are made, and a file that is there already is replaced, a directory is not.\<close>

fun put_file :: "path \<Rightarrow> bytes \<Rightarrow> nat \<Rightarrow> staged_dir \<Rightarrow> staged_dir option" where
  "put_file [] b m d = None"
| "put_file (n # p) b m d =
     (if p = [] then (case map_of d n of
         Some (S_dir _) \<Rightarrow> None
       | _ \<Rightarrow> Some (AList.update n (S_file b m) d))
      else (case map_of d n of
         None \<Rightarrow> map_option (\<lambda>c. AList.update n (S_dir c) d) (put_file p b m [])
       | Some (S_dir c) \<Rightarrow> map_option (\<lambda>c'. AList.update n (S_dir c') d) (put_file p b m c)
       | Some _ \<Rightarrow> None))"

definition MAX_EXTRACTED_BYTES :: nat where "MAX_EXTRACTED_BYTES = 500 * 1024 * 1024"

datatype entry_kind = Dir_entry | File_entry | Other_entry

record tar_entry =
  entry_path :: ustr
  header_size :: "nat option"
  entry_kind :: entry_kind
  entry_mode :: nat
  entry_content :: bytes

definition saturating_add_u64 :: "nat \<Rightarrow> nat \<Rightarrow> nat" where
  "saturating_add_u64 a b = min (a + b) u64_max"

definition unpack_entry :: "tar_entry \<Rightarrow> nat \<times> staged_dir \<Rightarrow> ustr + nat \<times> staged_dir" where
  "unpack_entry e = (\<lambda>(total_size, d).
     case strip_archive_root (entry_path e) of
       Inl m \<Rightarrow> Inl m
     | Inr relative \<Rightarrow>
         if relative = [] then Inr (total_size, d)
         else (let sz = saturating_add_u64 total_size (case header_size e of Some n \<Rightarrow> n | None \<Rightarrow> u64_max) in
           if MAX_EXTRACTED_BYTES < sz then Inl (lit ''release archive exceeds the 500 MiB extraction limit'')
           else (case entry_kind e of
               Dir_entry \<Rightarrow> (case make_dirs relative d of
                   Some d' \<Rightarrow> Inr (sz, d') | None \<Rightarrow> Inl (lit ''failed to create a directory''))
             | File_entry \<Rightarrow> (case put_file relative (entry_content e) (entry_mode e) d of
                   Some d' \<Rightarrow> Inr (sz, d') | None \<Rightarrow> Inl (lit ''failed to extract a file''))
             | Other_entry \<Rightarrow> Inl (lit ''release archive contains an unsupported link or special file''))))"

text \<open>Reading on may fail at any entry (\<open>Inl\<close> in the list), also because writing it fails.\<close>

fun unpack_entries :: "(ustr + tar_entry) list \<Rightarrow> nat \<times> staged_dir \<Rightarrow> ustr + nat \<times> staged_dir" where
  "unpack_entries [] st = Inr st"
| "unpack_entries (Inl m # es) st = Inl (lit ''invalid release archive entry: '' @ m)"
| "unpack_entries (Inr e # es) st = (case unpack_entry e st of Inl m \<Rightarrow> Inl m | Inr st' \<Rightarrow> unpack_entries es st')"

definition unpack_release_archive :: "ustr + (ustr + tar_entry) list \<Rightarrow> ustr + staged_dir" where
  "unpack_release_archive archive =
     (case archive of
        Inl m \<Rightarrow> Inl (lit ''invalid release tar archive: '' @ m)
      | Inr es \<Rightarrow> map_sum id snd (unpack_entries es (0, [])))"

section \<open>What is unpacked\<close>

definition file_at :: "staged_dir \<Rightarrow> path \<Rightarrow> (bytes \<times> nat) option" where
  "file_at d p = (case look d p of Some (S_file b m) \<Rightarrow> Some (b, m) | _ \<Rightarrow> None)"

fun plain_node :: "staged \<Rightarrow> bool" where
  "plain_node (S_file b m) = True"
| "plain_node (S_dir d) = (\<forall>e \<in> set d. plain_node (snd e))"
| "plain_node S_link = False"
| "plain_node S_other = False"

definition plain_dir :: "staged_dir \<Rightarrow> bool" where
  "plain_dir d \<longleftrightarrow> (\<forall>e \<in> set d. plain_node (snd e))"

lemma file_at_Nil [simp]: "file_at d [] = None"
  by (simp add: file_at_def)

lemma file_at_Cons:
  "file_at d (n # p) = (case map_of d n of
     None \<Rightarrow> None
   | Some t \<Rightarrow> (case t of S_file b m \<Rightarrow> if p = [] then Some (b, m) else None | S_dir c \<Rightarrow> file_at c p | _ \<Rightarrow> None))"
  by (cases p) (auto simp: file_at_def split: option.splits staged.splits)

lemma file_at_empty [simp]: "file_at [] p = None"
  by (cases p) (simp_all add: file_at_Cons)

lemma map_of_update: "map_of (AList.update n t d) k = (if k = n then Some t else map_of d k)"
  by (simp add: update_conv')

lemma file_at_update:
  "file_at (AList.update n t d) (k # p) =
     (if k = n then (case t of S_file b m \<Rightarrow> if p = [] then Some (b, m) else None | S_dir c \<Rightarrow> file_at c p | _ \<Rightarrow> None)
      else file_at d (k # p))"
  by (simp add: file_at_Cons map_of_update)

lemma make_dirs_files: "make_dirs p d = Some d' \<Longrightarrow> file_at d' q = file_at d q"
proof (induction p d arbitrary: d' q rule: make_dirs.induct)
  case (2 n p d)
  show ?case
  proof (cases q)
    case (Cons k ks)
    consider (new) c where "map_of d n = None" "make_dirs p [] = Some c" "d' = AList.update n (S_dir c) d"
      | (old) c c' where "map_of d n = Some (S_dir c)" "make_dirs p c = Some c'" "d' = AList.update n (S_dir c') d"
      using "2.prems" by (auto split: option.splits staged.splits)
    then show ?thesis
    proof cases
      case new
      then show ?thesis using "2.IH"(1) [OF new(1,2)] Cons by (simp add: file_at_update file_at_Cons [of d])
    next
      case old
      then show ?thesis using "2.IH"(2) [OF old(1) refl old(2)] Cons by (simp add: file_at_update file_at_Cons [of d])
    qed
  qed simp
qed simp

lemma put_file_files: "put_file p b m d = Some d' \<Longrightarrow> file_at d' q = (if q = p then Some (b, m) else file_at d q)"
proof (induction p b m d arbitrary: d' q rule: put_file.induct)
  case (2 n p b m d)
  show ?case
  proof (cases q)
    case (Cons k ks)
    consider (leaf) "p = []" "d' = AList.update n (S_file b m) d" "\<forall>c. map_of d n \<noteq> Some (S_dir c)"
      | (new) c where "p \<noteq> []" "map_of d n = None" "put_file p b m [] = Some c" "d' = AList.update n (S_dir c) d"
      | (old) c c' where "p \<noteq> []" "map_of d n = Some (S_dir c)" "put_file p b m c = Some c'" "d' = AList.update n (S_dir c') d"
      using "2.prems" by (auto split: option.splits staged.splits if_splits)
    then show ?thesis
    proof cases
      case leaf
      then have "ks \<noteq> [] \<Longrightarrow> file_at d (n # ks) = None"
        by (auto simp: file_at_Cons split: option.splits staged.splits)
      then show ?thesis using leaf Cons by (auto simp: file_at_update)
    next
      case new
      then show ?thesis using "2.IH"(1) [OF new(1,2,3)] Cons by (simp add: file_at_update file_at_Cons [of d])
    next
      case old
      then show ?thesis using "2.IH"(2) [OF old(1,2) refl old(3)] Cons by (simp add: file_at_update file_at_Cons [of d])
    qed
  qed simp
qed simp

lemma plain_dir_update: "plain_dir d \<Longrightarrow> plain_node t \<Longrightarrow> plain_dir (AList.update n t d)"
  unfolding plain_dir_def by (induction d) auto

lemma plain_dir_Some: "plain_dir d \<Longrightarrow> map_of d n = Some t \<Longrightarrow> plain_node t"
  by (auto simp: plain_dir_def dest!: map_of_SomeD)

lemma plain_node_S_dir [simp]: "plain_node (S_dir d) = plain_dir d"
  by (simp add: plain_dir_def)

declare plain_node.simps(2) [simp del]

lemma plain_dir_Nil [simp]: "plain_dir []"
  by (simp add: plain_dir_def)

lemma make_dirs_plain: "make_dirs p d = Some d' \<Longrightarrow> plain_dir d \<Longrightarrow> plain_dir d'"
proof (induction p d arbitrary: d' rule: make_dirs.induct)
  case (2 n p d)
  then show ?case
    by (cases "map_of d n") (auto intro!: plain_dir_update dest: plain_dir_Some split: staged.splits)
qed simp

lemma put_file_plain: "put_file p b m d = Some d' \<Longrightarrow> plain_dir d \<Longrightarrow> plain_dir d'"
proof (induction p b m d arbitrary: d' rule: put_file.induct)
  case (2 n p b m d)
  then show ?case
    by (cases "map_of d n") (auto intro!: plain_dir_update dest: plain_dir_Some split: staged.splits if_splits)
qed simp

text \<open>The files an archive means to have: of several entries for a path the last one.\<close>

definition written_by :: "tar_entry \<Rightarrow> path \<Rightarrow> bool" where
  "written_by e p \<longleftrightarrow> entry_kind e = File_entry \<and> p \<noteq> [] \<and> strip_archive_root (entry_path e) = Inr p"

fun last_written :: "tar_entry list \<Rightarrow> path \<Rightarrow> (bytes \<times> nat) option \<Rightarrow> (bytes \<times> nat) option" where
  "last_written [] p before = before"
| "last_written (e # es) p before =
     last_written es p (if written_by e p then Some (entry_content e, entry_mode e) else before)"

definition counted :: "tar_entry \<Rightarrow> nat" where
  "counted e = (if strip_archive_root (entry_path e) = Inr [] then 0
     else (case header_size e of Some n \<Rightarrow> n | None \<Rightarrow> u64_max))"

lemma unpack_entry_sound:
  assumes "unpack_entry e (sz, d) = Inr (sz', d')" and "sz \<le> MAX_EXTRACTED_BYTES"
  shows "sz' = sz + counted e \<and> sz' \<le> MAX_EXTRACTED_BYTES \<and> (plain_dir d \<longrightarrow> plain_dir d') \<and>
    (\<forall>p. file_at d' p = (if written_by e p then Some (entry_content e, entry_mode e) else file_at d p))"
proof -
  obtain rel where rel: "strip_archive_root (entry_path e) = Inr rel"
    using assms(1) by (auto simp: unpack_entry_def split: sum.splits)
  show ?thesis
  proof (cases "rel = []")
    case True
    then show ?thesis using assms rel by (auto simp: unpack_entry_def counted_def written_by_def)
  next
    case False
    let ?n = "case header_size e of Some n \<Rightarrow> n | None \<Rightarrow> u64_max"
    have limit: "saturating_add_u64 sz ?n \<le> MAX_EXTRACTED_BYTES"
      and kind: "(entry_kind e = Dir_entry \<and> make_dirs rel d = Some d' \<or>
        entry_kind e = File_entry \<and> put_file rel (entry_content e) (entry_mode e) d = Some d') \<and> sz' = saturating_add_u64 sz ?n"
      using assms(1) rel False
      by (auto simp: unpack_entry_def Let_def split: if_splits entry_kind.splits option.splits)
    have "MAX_EXTRACTED_BYTES < u64_max" by code_simp
    with limit have "sz + ?n \<le> MAX_EXTRACTED_BYTES" "saturating_add_u64 sz ?n = sz + ?n"
      by (auto simp: saturating_add_u64_def min_def split: if_splits)
    then have size: "sz' = sz + counted e \<and> sz' \<le> MAX_EXTRACTED_BYTES"
      using kind rel False by (simp add: counted_def)
    from kind show ?thesis
      using size rel False make_dirs_files make_dirs_plain put_file_files put_file_plain
      by (auto simp: written_by_def)
  qed
qed

lemma unpack_entries_sound:
  assumes "unpack_entries es (sz, d) = Inr (sz', d')" and "sz \<le> MAX_EXTRACTED_BYTES" and "plain_dir d"
  shows "\<exists>ts. es = map Inr ts \<and> sz' = sz + sum_list (map counted ts) \<and> sz' \<le> MAX_EXTRACTED_BYTES \<and>
    plain_dir d' \<and> (\<forall>p. file_at d' p = last_written ts p (file_at d p))"
  using assms
proof (induction es arbitrary: sz d)
  case (Cons r es)
  then obtain e where r: "r = Inr e" by (cases r) auto
  with Cons.prems(1) obtain t1 d1 where step: "unpack_entry e (sz, d) = Inr (t1, d1)"
      and rest: "unpack_entries es (t1, d1) = Inr (sz', d')"
    by (auto split: sum.splits)
  note s = unpack_entry_sound [OF step Cons.prems(2)]
  then obtain ts where "es = map Inr ts" "sz' = t1 + sum_list (map counted ts)" "sz' \<le> MAX_EXTRACTED_BYTES"
      "plain_dir d'" "\<forall>p. file_at d' p = last_written ts p (file_at d1 p)"
    using Cons.IH [OF rest] Cons.prems(3) by blast
  then show ?case using s r by (intro exI [of _ "e # ts"]) auto
qed simp


definition a_file :: "string \<Rightarrow> nat \<Rightarrow> bytes \<Rightarrow> tar_entry" where
  "a_file p n b = \<lparr>entry_path = lit p, header_size = Some n, entry_kind = File_entry, entry_mode = 420, entry_content = b\<rparr>"

definition small_release :: "tar_entry list" where
  "small_release = [(a_file ''pax_global_header'' 52 [1])\<lparr>entry_kind := Other_entry\<rparr>, a_file ''kraken/src//main.rs'' 2 [7, 7],
     a_file ''kraken/./Cargo.toml'' 1 [8], a_file ''kraken/src/main.rs'' 1 [9]]"


end
