(* ===== verification/Installation.thy ===== *)
theory Installation
  imports ReleaseFiles
begin

text \<open>
  The second half of a source update (\<open>src/services/source_update.rs\<close>): copying the staged tree over the
  installation and exchanging the executable, on a disk with symbolic links. The calls of \<open>std::fs\<close> are
  modelled as the operating system documents them: a link is followed in the middle of a path and, except
  where a call works on the entry itself, at its end; at most 40 links are followed. Each call that
  changes the disk may fail, which a script decides.
\<close>

section \<open>The disk\<close>

datatype node = Directory | Regular bytes nat | Symlink path

type_synonym nodes = "path \<Rightarrow> node option"

record disk =
  nodes :: nodes
  disk_faults :: "ustr option list"

type_synonym 'a io = "disk \<Rightarrow> (ustr + 'a) \<times> disk"

definition io_ret :: "'a \<Rightarrow> 'a io" where
  "io_ret x = (\<lambda>d. (Inr x, d))"

definition io_fail :: "ustr \<Rightarrow> 'a io" where
  "io_fail e = (\<lambda>d. (Inl e, d))"

definition io_bind :: "'a io \<Rightarrow> ('a \<Rightarrow> 'b io) \<Rightarrow> 'b io" where
  "io_bind p f = (\<lambda>d. case p d of (Inr x, d') \<Rightarrow> f x d' | (Inl e, d') \<Rightarrow> (Inl e, d'))"

text \<open>A call: it fails as the script says, or as the state of the disk makes it fail, or changes the disk.\<close>

definition io_call :: "ustr \<Rightarrow> (nodes \<Rightarrow> nodes option) \<Rightarrow> unit io" where
  "io_call what f = (\<lambda>d.
     case disk_faults d of
       Some e # fs \<Rightarrow> (Inl (what @ lit '': '' @ e), d\<lparr>disk_faults := fs\<rparr>)
     | script \<Rightarrow> (case f (nodes d) of
           None \<Rightarrow> (Inl what, d\<lparr>disk_faults := tl script\<rparr>)
         | Some F \<Rightarrow> (Inr (), d\<lparr>nodes := F, disk_faults := tl script\<rparr>)))"

text \<open>Where a path leads: the directory part is walked, links are replaced by their (absolute) targets.\<close>

fun walk :: "nat \<Rightarrow> nodes \<Rightarrow> path \<Rightarrow> path \<Rightarrow> path option" where
  "walk links F at [] = Some at"
| "walk links F at (n # ns) =
     (case F (at @ [n]) of
        Some (Symlink target) \<Rightarrow> (case links of 0 \<Rightarrow> None | Suc k \<Rightarrow> walk k F [] (target @ ns))
      | Some Directory \<Rightarrow> walk links F (at @ [n]) ns
      | _ \<Rightarrow> if ns = [] then Some (at @ [n]) else None)"

definition MAX_LINKS :: nat where "MAX_LINKS = 40"

definition resolve :: "nodes \<Rightarrow> path \<Rightarrow> path option" where
  "resolve F p = walk MAX_LINKS F [] p"

text \<open>The entry a path names, its last component not followed.\<close>

definition entry_of :: "nodes \<Rightarrow> path \<Rightarrow> path option" where
  "entry_of F p =
     (if p = [] then Some []
      else case resolve F (butlast p) of
        Some q \<Rightarrow> if F q = Some Directory then Some (q @ [last p]) else None
      | None \<Rightarrow> None)"

definition fs_exists :: "nodes \<Rightarrow> path \<Rightarrow> bool" where
  "fs_exists F p = (case resolve F p of Some q \<Rightarrow> F q \<noteq> None | None \<Rightarrow> False)"

definition fs_is_dir :: "nodes \<Rightarrow> path \<Rightarrow> bool" where
  "fs_is_dir F p = (case resolve F p of Some q \<Rightarrow> F q = Some Directory | None \<Rightarrow> False)"

definition fs_is_file :: "nodes \<Rightarrow> path \<Rightarrow> bool" where
  "fs_is_file F p = (case resolve F p of Some q \<Rightarrow> (case F q of Some (Regular _ _) \<Rightarrow> True | _ \<Rightarrow> False) | None \<Rightarrow> False)"

definition is_symlink :: "nodes \<Rightarrow> path \<Rightarrow> bool" where
  "is_symlink F p = (case entry_of F p of Some q \<Rightarrow> (case F q of Some (Symlink _) \<Rightarrow> True | _ \<Rightarrow> False) | None \<Rightarrow> False)"

definition make_dir :: "path \<Rightarrow> nodes \<Rightarrow> nodes option" where
  "make_dir p F =
     (case entry_of F p of
        None \<Rightarrow> None
      | Some q \<Rightarrow> if F q = None then Some (F(q \<mapsto> Directory)) else if fs_is_dir F p then Some F else None)"

fun make_dir_prefixes :: "path \<Rightarrow> path \<Rightarrow> nodes \<Rightarrow> nodes option" where
  "make_dir_prefixes at [] F = Some F"
| "make_dir_prefixes at (n # ns) F = Option.bind (make_dir (at @ [n]) F) (make_dir_prefixes (at @ [n]) ns)"

definition create_dir_all :: "ustr \<Rightarrow> path \<Rightarrow> unit io" where
  "create_dir_all what p = io_call what (make_dir_prefixes [] p)"

text \<open>\<open>fs::copy\<close> to a path: the file the path leads to is created or overwritten, with the mode.\<close>

definition write_file :: "path \<Rightarrow> bytes \<Rightarrow> nat \<Rightarrow> nodes \<Rightarrow> nodes option" where
  "write_file p b m F =
     (case resolve F p of
        None \<Rightarrow> None
      | Some q \<Rightarrow> if F q = Some Directory then None else Some (F(q \<mapsto> Regular b m)))"

section \<open>Copying the release\<close>

definition file_extension :: "ustr \<Rightarrow> ustr option" where
  "file_extension name = (case rsplit_once 46 name of
     Some (before, after) \<Rightarrow> if before = [] then None else Some after | None \<Rightarrow> None)"

definition RESERVED :: "ustr list" where
  "RESERVED = map lit [''.git'', ''target'', ''db'', ''conf'', ''certs'', ''log'', ''logs'']"

definition KEPT_EXTENSIONS :: "ustr list" where
  "KEPT_EXTENSIONS = map lit [''yaml'', ''yml'', ''conf'', ''db'', ''sqlite'', ''sqlite3'']"

definition protected_path :: "nodes \<Rightarrow> path \<Rightarrow> path \<Rightarrow> bool" where
  "protected_path F relative target =
     (if relative \<noteq> [] \<and> hd relative \<in> set RESERVED then True
      else if \<not> fs_exists F target then False
      else relative \<noteq> [] \<and> (case file_extension (last relative) of Some e \<Rightarrow> e \<in> set KEPT_EXTENSIONS | None \<Rightarrow> False))"

definition ensure_destination_safe :: "path \<Rightarrow> path \<Rightarrow> unit io" where
  "ensure_destination_safe root relative = (\<lambda>d.
     if list_ex (\<lambda>k. fs_exists (nodes d) (root @ take k relative) \<and> is_symlink (nodes d) (root @ take k relative))
          [1..<length relative + 1]
     then (Inl (lit ''refusing to update through symbolic link''), d) else (Inr (), d))"

fun copy_directory :: "path \<Rightarrow> path \<Rightarrow> staged_dir \<Rightarrow> unit io" where
  "copy_directory root relative [] = io_ret ()"
| "copy_directory root relative ((n, t) # es) =
     (let child = relative @ [n] in
      if t = S_link then io_fail (lit ''release source contains an unsupported symbolic link'')
      else (\<lambda>d.
        if protected_path (nodes d) child (root @ child) then copy_directory root relative es d
        else io_bind (ensure_destination_safe root child) (\<lambda>_.
          io_bind (case t of
              S_dir ch \<Rightarrow> io_bind (create_dir_all (lit ''failed to create'') (root @ child)) (\<lambda>_. copy_directory root child ch)
            | S_file b m \<Rightarrow> io_bind (create_dir_all (lit ''failed to create'') (root @ relative)) (\<lambda>_.
                io_call (lit ''failed to install'') (write_file (root @ child) b m))
            | _ \<Rightarrow> io_ret ())
          (\<lambda>_. copy_directory root relative es)) d))"

definition copy_release_source :: "staged_dir \<Rightarrow> path \<Rightarrow> unit io" where
  "copy_release_source source destination = copy_directory destination [] source"

section \<open>Exchanging the executable\<close>

definition with_extension :: "ustr \<Rightarrow> path \<Rightarrow> path" where
  "with_extension e p =
     (let name = last p;
          stem = (case rsplit_once 46 name of Some (before, _) \<Rightarrow> if before = [] then name else before | None \<Rightarrow> name)
      in butlast p @ [stem @ 46 # e])"

definition prepared_executable_path :: "path \<Rightarrow> path" where
  "prepared_executable_path p = with_extension (lit ''update-new'') p"

definition previous_executable_path :: "path \<Rightarrow> path" where
  "previous_executable_path p = with_extension (lit ''update-previous'') p"

text \<open>\<open>rename\<close> and \<open>remove_file\<close> work on entries; here only files and links are ever renamed.\<close>

definition rename_entry :: "path \<Rightarrow> path \<Rightarrow> nodes \<Rightarrow> nodes option" where
  "rename_entry from to F =
     (case (entry_of F from, entry_of F to) of
        (Some a, Some b) \<Rightarrow>
          if F a = None \<or> F a = Some Directory \<or> F b = Some Directory then None
          else if a = b then Some F else Some (F(b := F a, a := None))
      | _ \<Rightarrow> None)"

definition remove_entry :: "path \<Rightarrow> nodes \<Rightarrow> nodes option" where
  "remove_entry p F = (case entry_of F p of
     Some a \<Rightarrow> if F a = None \<or> F a = Some Directory then None else Some (F(a := None)) | None \<Rightarrow> None)"

definition set_mode :: "path \<Rightarrow> nat \<Rightarrow> nodes \<Rightarrow> nodes option" where
  "set_mode p m F = (case resolve F p of
     Some q \<Rightarrow> (case F q of Some (Regular b _) \<Rightarrow> Some (F(q \<mapsto> Regular b m)) | _ \<Rightarrow> None) | None \<Rightarrow> None)"

definition prepare_executable :: "bytes \<Rightarrow> nat \<Rightarrow> path \<Rightarrow> unit io" where
  "prepare_executable staged_bytes staged_mode executable =
     io_bind (io_call (lit ''failed to stage executable'') (write_file (prepared_executable_path executable) staged_bytes staged_mode)) (\<lambda>_.
     io_call (lit ''failed to preserve executable permissions'') (set_mode (prepared_executable_path executable) staged_mode))"

definition activate_executable :: "path \<Rightarrow> unit io" where
  "activate_executable executable =
     (let prepared = prepared_executable_path executable; previous = previous_executable_path executable in
      io_bind (\<lambda>d. if fs_exists (nodes d) previous
                   then io_call (lit ''failed to remove the previous update backup'') (remove_entry previous) d
                   else (Inr (), d)) (\<lambda>_.
      io_bind (io_call (lit ''failed to preserve the running executable'') (rename_entry executable previous)) (\<lambda>_ d.
      case io_call (lit ''failed to activate the updated executable'') (rename_entry prepared executable) d of
        (Inr _, d1) \<Rightarrow> (Inr (), d1)
      | (Inl e, d1) \<Rightarrow> (case io_call [] (rename_entry previous executable) d1 of (_, d2) \<Rightarrow> (Inl e, d2)))))"


section \<open>Paths that lead where they say\<close>

text \<open>A disk as it is mounted: the root is a directory, and what exists lies in directories.\<close>

definition closed :: "nodes \<Rightarrow> bool" where
  "closed F \<longleftrightarrow> F [] = Some Directory \<and> (\<forall>p n. F (p @ [n]) \<noteq> None \<longrightarrow> F p = Some Directory)"

lemma closed_prefix: "closed F \<Longrightarrow> F (p @ q) \<noteq> None \<Longrightarrow> q \<noteq> [] \<Longrightarrow> F p = Some Directory"
proof (induction q rule: rev_induct)
  case (snoc n q)
  then have "F ((p @ q) @ [n]) \<noteq> None" by simp
  then have "F (p @ q) = Some Directory" using snoc.prems(1) unfolding closed_def by blast
  then show ?case using snoc by (cases q) auto
qed simp

definition not_link :: "nodes \<Rightarrow> path \<Rightarrow> bool" where
  "not_link F p \<longleftrightarrow> (\<forall>t. F p \<noteq> Some (Symlink t))"

lemma walk_real:
  "\<lbrakk>closed F; ns \<noteq> []; F (at @ butlast ns) = Some Directory; not_link F (at @ ns)\<rbrakk> \<Longrightarrow> walk k F at ns = Some (at @ ns)"
proof (induction ns arbitrary: at)
  case (Cons n ns)
  show ?case
  proof (cases "ns = []")
    case True
    then show ?thesis using Cons.prems by (auto simp: not_link_def split: option.splits node.splits)
  next
    case False
    then have "F ((at @ [n]) @ butlast ns) = Some Directory" using Cons.prems(3) by simp
    moreover from this have "F (at @ [n]) = Some Directory"
      using closed_prefix [OF Cons.prems(1), of "at @ [n]" "butlast ns"] by (cases "butlast ns") auto
    moreover have "not_link F ((at @ [n]) @ ns)" using Cons.prems(4) by simp
    ultimately show ?thesis using Cons.IH [OF Cons.prems(1) False] by simp
  qed
qed simp

lemma resolve_real:
  "closed F \<Longrightarrow> p = [] \<or> F (butlast p) = Some Directory \<and> not_link F p \<Longrightarrow> resolve F p = Some p"
  by (cases "p = []") (auto simp: resolve_def walk_real [of F p "[]"])

lemma resolve_existing: "closed F \<Longrightarrow> F p \<noteq> None \<Longrightarrow> not_link F p \<Longrightarrow> resolve F p = Some p"
  using resolve_real [of F p] by (cases p rule: rev_cases) (auto simp: closed_def)

lemma entry_of_real: "closed F \<Longrightarrow> p \<noteq> [] \<Longrightarrow> F (butlast p) = Some Directory \<Longrightarrow> entry_of F p = Some p"
  using resolve_existing [of F "butlast p"] by (simp add: entry_of_def not_link_def)

lemma make_dir_real:
  assumes "closed F" and "p \<noteq> []" and "F (butlast p) = Some Directory" and "not_link F p" and "make_dir p F = Some F'"
  shows "F p = Some Directory \<and> F' = F \<or> F p = None \<and> F' = F(p \<mapsto> Directory)"
  using assms resolve_existing [OF assms(1) _ assms(4)] entry_of_real [OF assms(1-3)]
  by (cases "F p = None") (auto simp: make_dir_def fs_is_dir_def split: if_splits)

lemma closed_update:
  assumes "closed F" and "p \<noteq> []" and "F (butlast p) = Some Directory" and "F p = None \<or> F p \<noteq> Some Directory"
  shows "closed (F(p \<mapsto> x))"
proof -
  have "F q = Some Directory \<and> q \<noteq> p" if "F (q @ [n]) \<noteq> None" for q n
  proof -
    have "F q = Some Directory" using that assms(1) unfolding closed_def by blast
    then show ?thesis using assms(4) by auto
  qed
  then show ?thesis using assms by (auto simp: closed_def)
qed

lemma make_dir_prefixes_real:
  assumes "make_dir_prefixes at ns F = Some F'" and "closed F" and "F at = Some Directory"
    and "\<And>k. k \<le> length ns \<Longrightarrow> not_link F (at @ take k ns)"
  shows "closed F' \<and> F' (at @ ns) = Some Directory \<and>
    (\<forall>p. F' p \<noteq> F p \<longrightarrow> F p = None \<and> F' p = Some Directory \<and> (\<exists>k. 0 < k \<and> k \<le> length ns \<and> p = at @ take k ns))"
  using assms
proof (induction ns arbitrary: at F)
  case (Cons n ns)
  obtain F1 where F1: "make_dir (at @ [n]) F = Some F1" "make_dir_prefixes (at @ [n]) ns F1 = Some F'"
    using Cons.prems(1) by (auto split: bind_splits)
  have link: "not_link F (at @ [n])" using Cons.prems(4) [of 1] by simp
  have step: "F (at @ [n]) = Some Directory \<and> F1 = F \<or> F (at @ [n]) = None \<and> F1 = F(at @ [n] \<mapsto> Directory)"
    using make_dir_real [OF Cons.prems(2) _ _ link F1(1)] Cons.prems(3) by simp
  then have "closed F1" "F1 (at @ [n]) = Some Directory"
    using Cons.prems(2,3) closed_update [of F "at @ [n]" Directory] by auto
  moreover have "not_link F1 ((at @ [n]) @ take k ns)" if "k \<le> length ns" for k
    using Cons.prems(4) [of "Suc k"] step that by (auto simp: not_link_def split: if_splits)
  ultimately have IH: "closed F' \<and> F' ((at @ [n]) @ ns) = Some Directory \<and>
      (\<forall>p. F' p \<noteq> F1 p \<longrightarrow> F1 p = None \<and> F' p = Some Directory \<and> (\<exists>k. 0 < k \<and> k \<le> length ns \<and> p = (at @ [n]) @ take k ns))"
    using Cons.IH [OF F1(2)] by blast
  then have diff: "F1 p = None \<and> F' p = Some Directory \<and> (\<exists>k. 0 < k \<and> k \<le> length ns \<and> p = (at @ [n]) @ take k ns)"
    if "F' p \<noteq> F1 p" for p using that by blast
  have "F p = None \<and> F' p = Some Directory \<and> (\<exists>k. 0 < k \<and> k \<le> length (n # ns) \<and> p = at @ take k (n # ns))"
    if ne: "F' p \<noteq> F p" for p
  proof (cases "p = at @ [n]")
    case True
    have "F1 p = Some Directory" using True step by auto
    moreover from this have "F' p = F1 p" using diff [of p] by (cases "F' p = F1 p") simp_all
    ultimately have "F p = None \<and> F' p = Some Directory" using ne True step by auto
    then show ?thesis using True by (intro conjI exI [of _ 1]) auto
  next
    case False
    then have "F1 p = F p" using step by auto
    then obtain k where "k \<le> length ns" "p = (at @ [n]) @ take k ns" "F p = None" "F' p = Some Directory"
      using diff [of p] ne by auto
    then show ?thesis by (intro conjI exI [of _ "Suc k"]) auto
  qed
  then show ?case using IH by simp
qed simp

section \<open>What copying may change\<close>

definition kept_name :: "ustr \<Rightarrow> bool" where
  "kept_name n \<longleftrightarrow> (case file_extension n of Some e \<Rightarrow> e \<in> set KEPT_EXTENSIONS | None \<Rightarrow> False)"

text \<open>A path below the root that is not reserved, with nothing there or a file that is not configuration.\<close>

definition replaceable :: "path \<Rightarrow> path \<Rightarrow> node option \<Rightarrow> bool" where
  "replaceable root p old \<longleftrightarrow>
     (\<exists>relative. p = root @ relative \<and> relative \<noteq> [] \<and> hd relative \<notin> set RESERVED \<and>
        (old = None \<or> (\<exists>b m. old = Some (Regular b m)) \<and> \<not> kept_name (last relative)))"

definition overlaid :: "path \<Rightarrow> nodes \<Rightarrow> nodes \<Rightarrow> bool" where
  "overlaid root F F' \<longleftrightarrow>
     (\<forall>p. F' p \<noteq> F p \<longrightarrow> replaceable root p (F p) \<and>
        ((\<exists>b m. F' p = Some (Regular b m)) \<or> F p = None \<and> F' p = Some Directory))"

lemma overlaid_refl [simp]: "overlaid root F F"
  by (simp add: overlaid_def)

lemma overlaidD:
  "overlaid root F G \<Longrightarrow> G p \<noteq> F p \<Longrightarrow>
     replaceable root p (F p) \<and> ((\<exists>b m. G p = Some (Regular b m)) \<or> F p = None \<and> G p = Some Directory)"
  unfolding overlaid_def by blast

lemma replaceable_old: "replaceable root p old \<Longrightarrow> old = None \<or> (\<exists>b m. old = Some (Regular b m))"
  by (auto simp: replaceable_def)

lemma overlaid_node:
  assumes "overlaid root F G" and "F p = Some x"
  shows "G p = Some x \<and> (\<forall>b m. x \<noteq> Regular b m) \<or> (\<exists>b m. x = Regular b m) \<and> (\<exists>b m. G p = Some (Regular b m))"
  using overlaidD [OF assms(1), of p] replaceable_old [of root p "F p"] assms(2)
  by (cases "G p = F p"; cases x) auto

lemma overlaid_trans:
  assumes "overlaid root F G" and "overlaid root G H"
  shows "overlaid root F H"
  unfolding overlaid_def
proof (intro allI impI)
  fix p
  assume ne: "H p \<noteq> F p"
  show "replaceable root p (F p) \<and> ((\<exists>b m. H p = Some (Regular b m)) \<or> F p = None \<and> H p = Some Directory)"
  proof (cases "G p = F p")
    case True
    then show ?thesis using overlaidD [OF assms(2), of p] ne by simp
  next
    case False
    then have G: "replaceable root p (F p)" "(\<exists>b m. G p = Some (Regular b m)) \<or> F p = None \<and> G p = Some Directory"
      using overlaidD [OF assms(1)] by blast+
    have "H p \<noteq> G p \<Longrightarrow> \<exists>b m. H p = Some (Regular b m)"
    proof -
      assume "H p \<noteq> G p"
      then have "(\<exists>b m. H p = Some (Regular b m)) \<or> G p = None"
        using overlaidD [OF assms(2), of p] by auto
      then show ?thesis using G(2) by auto
    qed
    then show ?thesis using G by (cases "H p = G p") auto
  qed
qed

lemma overlaid_links: "overlaid root F G \<Longrightarrow> F p = Some (Symlink t) \<longleftrightarrow> G p = Some (Symlink t)"
  using overlaid_node [of root F G p] overlaidD [of root F G p] by (cases "G p = F p"; cases "F p") auto

lemma overlaid_keeps_dirs: "overlaid root F G \<Longrightarrow> F p = Some Directory \<Longrightarrow> G p = Some Directory"
  using overlaid_node [of root F G p] by auto

lemma overlaid_keeps_some: "overlaid root F G \<Longrightarrow> F p \<noteq> None \<Longrightarrow> G p \<noteq> None"
  using overlaid_node [of root F G p] by auto

lemma walk_overlaid:
  "walk k F at ns = Some q \<Longrightarrow> F q \<noteq> None \<Longrightarrow> overlaid root F G \<Longrightarrow> walk k G at ns = Some q"
proof (induction k F at ns rule: walk.induct)
  case (2 k F at n ns)
  show ?case
  proof (cases "F (at @ [n])")
    case None
    then show ?thesis using 2 by (auto split: if_splits)
  next
    case (Some x)
    show ?thesis
    proof (cases x)
      case Directory
      then have "G (at @ [n]) = Some Directory" using overlaid_keeps_dirs 2 Some by blast
      then show ?thesis using 2 Some Directory by simp
    next
      case (Symlink t)
      then have "G (at @ [n]) = Some (Symlink t)" using overlaid_links 2 Some by blast
      then show ?thesis using 2 Some Symlink by (cases k) auto
    next
      case (Regular b m)
      have "\<exists>b' m'. G (at @ [n]) = Some (Regular b' m')"
        using overlaid_node [OF "2.prems"(3) Some] Regular by auto
      then show ?thesis using 2 Some Regular by auto
    qed
  qed
qed simp

text \<open>An installation: its root is a directory, and no link below it leads nowhere.\<close>

definition installation_ok :: "path \<Rightarrow> nodes \<Rightarrow> bool" where
  "installation_ok root F \<longleftrightarrow>
     closed F \<and> F root = Some Directory \<and> (\<forall>relative t. F (root @ relative) = Some (Symlink t) \<longrightarrow> fs_exists F (root @ relative))"

lemma is_symlink_real:
  "closed F \<Longrightarrow> F p = Some (Symlink t) \<Longrightarrow> is_symlink F p"
proof -
  assume F: "closed F" "F p = Some (Symlink t)"
  then have "p \<noteq> []" by (auto simp: closed_def)
  then have "F (butlast p @ [last p]) \<noteq> None" using F(2) by simp
  then have "F (butlast p) = Some Directory" using F(1) unfolding closed_def by blast
  then show ?thesis using entry_of_real [OF F(1) \<open>p \<noteq> []\<close>] F(2) by (simp add: is_symlink_def)
qed


lemma installation_ok_overlaid:
  "installation_ok root F \<Longrightarrow> closed G \<Longrightarrow> overlaid root F G \<Longrightarrow> installation_ok root G"
proof -
  assume ok: "installation_ok root F" and G: "closed G" "overlaid root F G"
  have "fs_exists G p" if "fs_exists F p" for p
    using that walk_overlaid [OF _ _ G(2)] overlaid_keeps_some [OF G(2)]
    by (auto simp: fs_exists_def resolve_def split: option.splits)
  then show ?thesis
    using ok G(1) overlaid_keeps_dirs [OF G(2)] overlaid_links [OF G(2)] unfolding installation_ok_def by blast
qed

definition overlays :: "path \<Rightarrow> 'a io \<Rightarrow> bool" where
  "overlays root w \<longleftrightarrow> (\<forall>d :: disk. installation_ok root (nodes d) \<longrightarrow>
     closed (nodes (snd (w d))) \<and> overlaid root (nodes d) (nodes (snd (w d))))"

lemma overlays_ret: "overlays root (io_ret x)"
  by (simp add: overlays_def io_ret_def installation_ok_def)

lemma overlays_fail: "overlays root (io_fail e)"
  by (simp add: overlays_def io_fail_def installation_ok_def)

lemma overlaysD:
  "overlays root w \<Longrightarrow> installation_ok root (nodes d) \<Longrightarrow> w d = (r, d') \<Longrightarrow>
     installation_ok root (nodes d') \<and> closed (nodes d') \<and> overlaid root (nodes d) (nodes d')"
  unfolding overlays_def using installation_ok_overlaid by (metis snd_conv)

lemma io_bind_snd:
  "snd (io_bind p f d) = (case p d of (Inr x, d') \<Rightarrow> snd (f x d') | (Inl e, d') \<Rightarrow> d')"
  by (auto simp: io_bind_def split: prod.splits sum.splits)

lemma overlays_bind:
  assumes "overlays root p" and "\<And>x. overlays root (f x)"
  shows "overlays root (io_bind p f)"
  unfolding overlays_def
proof (intro allI impI)
  fix d :: disk
  assume ok: "installation_ok root (nodes d)"
  obtain r d1 where p: "p d = (r, d1)" by (cases "p d")
  note one = overlaysD [OF assms(1) ok p]
  show "closed (nodes (snd (io_bind p f d))) \<and> overlaid root (nodes d) (nodes (snd (io_bind p f d)))"
  proof (cases r)
    case (Inl e)
    then show ?thesis using one p by (simp add: io_bind_snd)
  next
    case (Inr x)
    have "closed (nodes (snd (f x d1))) \<and> overlaid root (nodes d1) (nodes (snd (f x d1)))"
      using assms(2) one unfolding overlays_def by blast
    then show ?thesis using one p Inr overlaid_trans by (auto simp: io_bind_snd)
  qed
qed

lemma io_call_cases:
  obtains "nodes (snd (io_call what f d)) = nodes d" "isl (fst (io_call what f d))"
  | F where "f (nodes d) = Some F" "nodes (snd (io_call what f d)) = F" "fst (io_call what f d) = Inr ()"
  by (cases "disk_faults d"; cases "hd (disk_faults d)"; cases "f (nodes d)") (auto simp: io_call_def)

text \<open>Where no component below the root is a link, making directories and writing stay there.\<close>

definition no_links_on :: "path \<Rightarrow> path \<Rightarrow> nodes \<Rightarrow> bool" where
  "no_links_on root relative F \<longleftrightarrow> (\<forall>k \<le> length relative. not_link F (root @ take k relative))"

lemma ensure_destination_safe_no_links:
  assumes "ensure_destination_safe root relative d = (Inr x, d')" and "installation_ok root (nodes d)"
  shows "d' = d \<and> no_links_on root relative (nodes d)"
proof -
  have safe: "\<not> (fs_exists (nodes d) (root @ take k relative) \<and> is_symlink (nodes d) (root @ take k relative))"
    if "0 < k" "k \<le> length relative" for k
    using assms(1) that by (auto simp: ensure_destination_safe_def list_ex_iff split: if_splits)
  have "not_link (nodes d) (root @ take k relative)" if "k \<le> length relative" for k
  proof (cases "k = 0")
    case True
    then show ?thesis using assms(2) by (simp add: installation_ok_def not_link_def)
  next
    case False
    then show ?thesis
      using safe [of k] that assms(2) is_symlink_real unfolding installation_ok_def not_link_def by blast
  qed
  then show ?thesis using assms(1) by (auto simp: no_links_on_def ensure_destination_safe_def split: if_splits)
qed

lemma dirs_below:
  assumes "installation_ok root F" and "no_links_on root relative F" and "relative = [] \<or> hd relative \<notin> set RESERVED"
    and "make_dir_prefixes [] (root @ relative) F = Some F'"
  shows "closed F' \<and> overlaid root F F' \<and> F' (root @ relative) = Some Directory \<and>
    (\<forall>p. length (root @ relative) < length p \<longrightarrow> F' p = F p)"
proof -
  have closed: "closed F" and root: "F root = Some Directory" using assms(1) by (auto simp: installation_ok_def)
  have dir: "F (take k root) = Some Directory" if "k \<le> length root" for k
    using closed_prefix [OF closed, of "take k root" "drop k root"] root that by (cases "drop k root = []") auto
  have "not_link F ([] @ take k (root @ relative))" if "k \<le> length (root @ relative)" for k
    using dir [of k] assms(2) that
    by (cases "k \<le> length root") (auto simp: not_link_def no_links_on_def)
  from make_dir_prefixes_real [OF assms(4) closed _ this] closed
  have made: "closed F'" "F' (root @ relative) = Some Directory"
    and diff: "\<And>p. F' p \<noteq> F p \<Longrightarrow> F p = None \<and> F' p = Some Directory \<and> (\<exists>k \<le> length (root @ relative). p = take k (root @ relative))"
    unfolding closed_def by auto
  have "replaceable root p None" if "F p = None" "p = take k (root @ relative)" "k \<le> length (root @ relative)" for p k
  proof -
    have k: "length root < k" using dir [of k] that by (cases "k \<le> length root") auto
    then have "p = root @ take (k - length root) relative" "take (k - length root) relative \<noteq> []" using that by auto
    moreover from this have "hd (take (k - length root) relative) = hd relative" by (cases relative) (auto simp: take_Cons')
    ultimately show ?thesis using assms(3) by (fastforce simp: replaceable_def)
  qed
  then have "overlaid root F F'" unfolding overlaid_def using diff by metis
  moreover have "F' p = F p" if "length (root @ relative) < length p" for p
  proof (rule ccontr)
    assume "F' p \<noteq> F p"
    then obtain k where "p = take k (root @ relative)" using diff by blast
    then show False using that by simp
  qed
  ultimately show ?thesis using made by simp
qed

lemma write_below:
  assumes "installation_ok root F" and "no_links_on root (relative @ [n]) F" and "hd (relative @ [n]) \<notin> set RESERVED"
    and "F (root @ relative) = Some Directory" and "F (root @ relative @ [n]) \<noteq> None \<longrightarrow> \<not> kept_name n"
    and "write_file (root @ relative @ [n]) b m F = Some F'"
  shows "closed F' \<and> overlaid root F F'"
proof -
  let ?p = "root @ relative @ [n]"
  have closed: "closed F" using assms(1) by (simp add: installation_ok_def)
  have link: "not_link F ?p" using assms(2) by (auto simp: no_links_on_def dest: spec [of _ "Suc (length relative)"])
  have parent: "F (butlast ?p) = Some Directory" using assms(4) by (simp add: butlast_append)
  then have "resolve F ?p = Some ?p" using resolve_real [OF closed] link by blast
  then have F': "F' = F(?p \<mapsto> Regular b m)" "F ?p \<noteq> Some Directory"
    using assms(6) by (auto simp: write_file_def split: if_splits)
  have "closed F'" unfolding F'(1) using closed_update [OF closed _ parent] F'(2) by auto
  moreover have "replaceable root ?p (F ?p)"
    using assms(3,5) link F'(2) unfolding replaceable_def not_link_def
    by (intro exI [of _ "relative @ [n]"]) (auto, metis node.exhaust)
  ultimately show ?thesis by (auto simp: F'(1) overlaid_def)
qed

lemma protected_child:
  assumes "\<not> protected_path F (relative @ [n]) (root @ relative @ [n])" and "installation_ok root F"
    and "no_links_on root (relative @ [n]) F"
  shows "hd (relative @ [n]) \<notin> set RESERVED \<and> (F (root @ relative @ [n]) \<noteq> None \<longrightarrow> \<not> kept_name n)"
proof -
  have "not_link F (root @ relative @ [n])"
    using assms(3) by (auto simp: no_links_on_def dest: spec [of _ "Suc (length relative)"])
  then have "F (root @ relative @ [n]) \<noteq> None \<Longrightarrow> fs_exists F (root @ relative @ [n])"
    using resolve_existing assms(2) by (simp add: fs_exists_def installation_ok_def)
  then show ?thesis using assms(1) by (auto simp: protected_path_def kept_name_def split: if_splits)
qed


lemma call_overlays:
  assumes "\<And>F'. f (nodes d) = Some F' \<Longrightarrow> closed F' \<and> overlaid root (nodes d) F'" and "closed (nodes d)"
  shows "closed (nodes (snd (io_call what f d))) \<and> overlaid root (nodes d) (nodes (snd (io_call what f d)))"
  using assms by (cases rule: io_call_cases [of what f d]) auto

text \<open>One entry of the release that is neither a link nor protected.\<close>

lemma entry_overlays:
  fixes d :: disk
  assumes ok: "installation_ok root (nodes d)" and pp: "\<not> protected_path (nodes d) (relative @ [n]) (root @ relative @ [n])"
    and sub: "\<And>ch. t = S_dir ch \<Longrightarrow> overlays root (copy_directory root (relative @ [n]) ch)"
  shows "closed (nodes (snd (io_bind (ensure_destination_safe root (relative @ [n])) (\<lambda>_.
          case t of
              S_dir ch \<Rightarrow> io_bind (create_dir_all what (root @ relative @ [n])) (\<lambda>_. copy_directory root (relative @ [n]) ch)
            | S_file b m \<Rightarrow> io_bind (create_dir_all what (root @ relative)) (\<lambda>_.
                io_call what' (write_file (root @ relative @ [n]) b m))
            | _ \<Rightarrow> io_ret ()) d))) \<and>
    overlaid root (nodes d) (nodes (snd (io_bind (ensure_destination_safe root (relative @ [n])) (\<lambda>_.
          case t of
              S_dir ch \<Rightarrow> io_bind (create_dir_all what (root @ relative @ [n])) (\<lambda>_. copy_directory root (relative @ [n]) ch)
            | S_file b m \<Rightarrow> io_bind (create_dir_all what (root @ relative)) (\<lambda>_.
                io_call what' (write_file (root @ relative @ [n]) b m))
            | _ \<Rightarrow> io_ret ()) d)))"
    (is "closed (nodes (snd (io_bind ?safe (\<lambda>_. ?work) d))) \<and> _")
proof -
  have closed: "closed (nodes d)" using ok by (simp add: installation_ok_def)
  obtain r d1 where safe: "?safe d = (r, d1)" by (cases "?safe d")
  show ?thesis
  proof (cases r)
    case (Inl e)
    then have "d1 = d" using safe by (auto simp: ensure_destination_safe_def split: if_splits)
    then show ?thesis using Inl safe closed by (simp add: io_bind_snd)
  next
    case (Inr x)
    have d1: "d1 = d" and links: "no_links_on root (relative @ [n]) (nodes d)"
      using ensure_destination_safe_no_links safe Inr ok by blast+
    note child = protected_child [OF pp ok links]
    have parent_links: "no_links_on root relative (nodes d)"
      using links unfolding no_links_on_def by (metis le_SucI length_append_singleton take_append append_Nil2 diff_is_0_eq take0)
    have parent_hd: "relative = [] \<or> hd relative \<notin> set RESERVED" using child by (cases relative) auto
    have "closed (nodes (snd (?work d))) \<and> overlaid root (nodes d) (nodes (snd (?work d)))"
    proof (cases t)
      case (S_dir ch)
      have make: "closed F' \<and> overlaid root (nodes d) F'"
        if "make_dir_prefixes [] (root @ relative @ [n]) (nodes d) = Some F'" for F'
        using dirs_below [OF ok links _ that] child by simp
      obtain r2 d2 where two: "create_dir_all what (root @ relative @ [n]) d = (r2, d2)"
        by (cases "create_dir_all what (root @ relative @ [n]) d")
      have one: "closed (nodes d2)" "overlaid root (nodes d) (nodes d2)"
        using call_overlays [of "make_dir_prefixes [] (root @ relative @ [n])" d root what] make closed two by (auto simp: create_dir_all_def)
      show ?thesis
      proof (cases r2)
        case (Inl e)
        then show ?thesis using S_dir two one by (simp add: io_bind_snd)
      next
        case (Inr y)
        have "closed (nodes (snd (copy_directory root (relative @ [n]) ch d2))) \<and>
            overlaid root (nodes d2) (nodes (snd (copy_directory root (relative @ [n]) ch d2)))"
          using sub [OF S_dir] installation_ok_overlaid [OF ok one] unfolding overlays_def by blast
        then show ?thesis using S_dir two one Inr overlaid_trans by (auto simp: io_bind_snd)
      qed
    next
      case (S_file b m)
      have make: "closed F' \<and> overlaid root (nodes d) F' \<and> F' (root @ relative) = Some Directory \<and>
          (\<forall>p. length (root @ relative) < length p \<longrightarrow> F' p = nodes d p)"
        if "make_dir_prefixes [] (root @ relative) (nodes d) = Some F'" for F'
        using dirs_below [OF ok parent_links parent_hd that] .
      obtain r2 d2 where two: "create_dir_all what (root @ relative) d = (r2, d2)"
        by (cases "create_dir_all what (root @ relative) d")
      have one: "closed (nodes d2)" "overlaid root (nodes d) (nodes d2)"
        using call_overlays [of "make_dir_prefixes [] (root @ relative)" d root what] make closed two by (auto simp: create_dir_all_def)
      show ?thesis
      proof (cases r2)
        case (Inl e)
        then show ?thesis using S_file two one by (simp add: io_bind_snd)
      next
        case (Inr y)
        have made: "make_dir_prefixes [] (root @ relative) (nodes d) = Some (nodes d2)"
          using two Inr by (cases rule: io_call_cases [of what "make_dir_prefixes [] (root @ relative)" d]) (auto simp: create_dir_all_def)
        then have dir: "nodes d2 (root @ relative) = Some Directory" using make by blast
        have links2: "no_links_on root (relative @ [n]) (nodes d2)"
          using links overlaid_links [OF one(2)] unfolding no_links_on_def not_link_def by metis
        have kept: "nodes d2 (root @ relative @ [n]) \<noteq> None \<longrightarrow> \<not> kept_name n"
          using make [OF made] child by simp
        have "closed F' \<and> overlaid root (nodes d2) F'"
          if "write_file (root @ relative @ [n]) b m (nodes d2) = Some F'" for F'
          using write_below [OF installation_ok_overlaid [OF ok one] links2 _ dir kept that] child by blast
        from call_overlays [OF this one(1)] show ?thesis
          using S_file two one Inr overlaid_trans by (auto simp: io_bind_snd)
      qed
    qed (use closed in \<open>simp_all add: io_ret_def\<close>)
    then show ?thesis using safe Inr d1 by (simp add: io_bind_snd)
  qed
qed


lemma io_bind_assoc: "io_bind p (\<lambda>x. io_bind (f x) g) = io_bind (io_bind p f) g"
  by (rule ext) (auto simp: io_bind_def split: prod.splits sum.splits)

lemma then_overlays:
  assumes "installation_ok root (nodes d)" and "overlays root q"
    and "closed (nodes (snd (p d))) \<and> overlaid root (nodes d) (nodes (snd (p d)))"
  shows "closed (nodes (snd (io_bind p (\<lambda>_. q) d))) \<and> overlaid root (nodes d) (nodes (snd (io_bind p (\<lambda>_. q) d)))"
proof -
  obtain r d1 where p: "p d = (r, d1)" by (cases "p d")
  then have "closed (nodes d1)" "overlaid root (nodes d) (nodes d1)" using assms(3) by auto
  moreover from this have "closed (nodes (snd (q d1))) \<and> overlaid root (nodes d1) (nodes (snd (q d1)))"
    using installation_ok_overlaid [OF assms(1)] assms(2) unfolding overlays_def by blast
  ultimately show ?thesis using p overlaid_trans by (cases r) (auto simp: io_bind_snd)
qed

lemma copy_directory_overlays: "overlays root (copy_directory root relative es)"
proof (induction root relative es rule: copy_directory.induct)
  case (1 root relative)
  show ?case by (simp add: overlays_ret)
next
  case (2 root relative n t es)
  show ?case
  proof (cases "t = S_link")
    case True
    then show ?thesis by (simp add: overlays_fail)
  next
    case False
    show ?thesis unfolding overlays_def
    proof (intro allI impI)
      fix d :: disk
      assume ok: "installation_ok root (nodes d)"
      show "closed (nodes (snd (copy_directory root relative ((n, t) # es) d))) \<and>
          overlaid root (nodes d) (nodes (snd (copy_directory root relative ((n, t) # es) d)))"
      proof (cases "protected_path (nodes d) (relative @ [n]) (root @ relative @ [n])")
        case True
        then show ?thesis using "2.IH" False ok unfolding overlays_def by (simp add: Let_def)
      next
        case pp: False
        have rest: "overlays root (copy_directory root relative es)"
          using "2.IH" False pp by simp
        have sub: "overlays root (copy_directory root (relative @ [n]) ch)" if "t = S_dir ch" for ch
          using "2.IH"(2) [OF refl False _ that] pp by simp
        have step: "copy_directory root relative ((n, t) # es) d =
            io_bind (io_bind (ensure_destination_safe root (relative @ [n])) (\<lambda>_. case t of
                S_dir ch \<Rightarrow> io_bind (create_dir_all (lit ''failed to create'') (root @ relative @ [n])) (\<lambda>_. copy_directory root (relative @ [n]) ch)
              | S_file b m \<Rightarrow> io_bind (create_dir_all (lit ''failed to create'') (root @ relative)) (\<lambda>_.
                  io_call (lit ''failed to install'') (write_file (root @ relative @ [n]) b m))
              | _ \<Rightarrow> io_ret ())) (\<lambda>_. copy_directory root relative es) d"
          using pp False by (simp add: Let_def io_bind_assoc)
        show ?thesis unfolding step
          by (rule then_overlays [OF ok rest]) (rule entry_overlays [OF ok pp sub])
      qed
    qed
  qed
qed


text \<open>
  Property C12 (safety): an update never writes where it must not. Copying a release over an installation, to
  the end or up to whatever failure, changes only paths below the source root outside the seven
  reserved directories, and there only files and places where nothing was: no configuration or
  database file that exists, no link and no directory. Assumed is that the root is a directory and
  that no link below it is broken.
\<close>

theorem update_preserves_runtime_files:
  assumes "installation_ok root (nodes d)" and "(nodes (snd (copy_release_source source root d))) p \<noteq> nodes d p"
  shows "\<exists>relative. p = root @ relative \<and> relative \<noteq> [] \<and> hd relative \<notin> set RESERVED \<and>
    (nodes d p = None \<or> (\<exists>b m. nodes d p = Some (Regular b m)) \<and> \<not> kept_name (last relative))"
proof -
  have "overlaid root (nodes d) (nodes (snd (copy_release_source source root d)))"
    using copy_directory_overlays [of root "[]" source] assms(1) by (auto simp: overlays_def copy_release_source_def)
  from overlaidD [OF this assms(2)] show ?thesis by (auto simp: replaceable_def)
qed

definition disk_of :: "(path \<times> node) list \<Rightarrow> disk" where
  "disk_of ns = \<lparr>nodes = map_of (([], Directory) # ns), disk_faults = []\<rparr>"

definition old_file :: node where "old_file = Regular (lit ''old'') 420"

definition installed :: disk where
  "installed = disk_of [([lit ''app''], Directory), ([lit ''app'', lit ''db''], Directory),
     ([lit ''app'', lit ''db'', lit ''ui.sqlite''], old_file), ([lit ''app'', lit ''setup.yaml''], old_file),
     ([lit ''app'', lit ''main.rs''], old_file)]"

definition new_release :: staged_dir where
  "new_release = [(lit ''db'', S_dir [(lit ''ui.sqlite'', S_file (lit ''new'') 420)]), (lit ''setup.yaml'', S_file (lit ''new'') 420),
     (lit ''main.rs'', S_file (lit ''new'') 420), (lit ''src'', S_dir [(lit ''lib.rs'', S_file (lit ''new'') 420)])]"

definition rooted :: "(path \<times> node) list \<Rightarrow> bool" where
  "rooted ns \<longleftrightarrow> list_all (\<lambda>(p, x). p \<noteq> [] \<and> map_of (([], Directory) # ns) (butlast p) = Some Directory) ns"

lemma closed_disk_of:
  assumes "rooted ns"
  shows "closed (nodes (disk_of ns))"
  unfolding closed_def
proof (intro conjI allI impI)
  fix p n
  assume "nodes (disk_of ns) (p @ [n]) \<noteq> None"
  then obtain x where "(p @ [n], x) \<in> set ns" by (auto simp: disk_of_def dest: map_of_SomeD)
  then have "map_of (([], Directory) # ns) (butlast (p @ [n])) = Some Directory"
    using assms by (auto simp: rooted_def list_all_iff)
  then show "nodes (disk_of ns) p = Some Directory" by (simp add: disk_of_def)
qed (simp add: disk_of_def)

definition link_free :: "(path \<times> node) list \<Rightarrow> bool" where
  "link_free ns \<longleftrightarrow> list_all (\<lambda>(p, x). case x of Symlink _ \<Rightarrow> False | _ \<Rightarrow> True) ns"

lemma link_free_disk_of: "link_free ns \<Longrightarrow> nodes (disk_of ns) p \<noteq> Some (Symlink t)"
  by (auto simp: link_free_def list_all_iff disk_of_def dest!: map_of_SomeD split: if_splits)

lemma installed_ok: "installation_ok [lit ''app''] (nodes installed)"
proof -
  have "closed (nodes installed)" unfolding installed_def by (rule closed_disk_of) code_simp
  moreover have "nodes installed p \<noteq> Some (Symlink t)" for p t
    unfolding installed_def by (rule link_free_disk_of) code_simp
  moreover have "nodes installed [lit ''app''] = Some Directory" by code_simp
  ultimately show ?thesis unfolding installation_ok_def by blast
qed

theorem update_preserves_runtime_files_witness:
  "let d = snd (copy_release_source new_release [lit ''app''] installed) in
   nodes d [lit ''app'', lit ''main.rs''] = Some (Regular (lit ''new'') 420) \<and>
   \<not> kept_name (lit ''main.rs'') \<and> nodes d [lit ''app'', lit ''setup.yaml''] = nodes installed [lit ''app'', lit ''setup.yaml'']"
proof -
  let ?d = "snd (copy_release_source new_release [lit ''app''] installed)"
  have new: "nodes ?d [lit ''app'', lit ''main.rs''] = Some (Regular (lit ''new'') 420)"
    and old: "nodes installed [lit ''app'', lit ''main.rs''] = Some (Regular (lit ''old'') 420)"
    and kept: "nodes ?d [lit ''app'', lit ''setup.yaml''] = nodes installed [lit ''app'', lit ''setup.yaml'']"
    by code_simp+
  have "nodes ?d [lit ''app'', lit ''main.rs''] \<noteq> nodes installed [lit ''app'', lit ''main.rs'']"
    unfolding new old by (simp add: text_simps)
  from update_preserves_runtime_files [OF installed_ok this] new old kept
  show ?thesis by (auto simp: Let_def)
qed

text \<open>
  A broken link defeats the check. The check of a destination asks whether the path
  exists, and a link to nothing does not: the copy goes through it and creates its target outside the
  source root.
\<close>

theorem update_writes_through_broken_link:
  "let d = disk_of [([lit ''app''], Directory), ([lit ''etc''], Directory),
       ([lit ''app'', lit ''main.rs''], Symlink [lit ''etc'', lit ''cron''])] in
   is_symlink (nodes d) [lit ''app'', lit ''main.rs''] \<and>
   (case copy_release_source [(lit ''main.rs'', S_file (lit ''new'') 420)] [lit ''app''] d of
      (r, d') \<Rightarrow> r = Inr () \<and> nodes d [lit ''etc'', lit ''cron''] = None \<and>
        nodes d' [lit ''etc'', lit ''cron''] = Some (Regular (lit ''new'') 420))"
  by code_simp

end
