(* ===== verification/Activation.thy ===== *)
theory Activation
  imports Installation
begin

text \<open>
  Exchanging the executable, continued from theory Installation: whatever fails on the way, the installed
  program is not lost.
\<close>

section \<open>Calls that would succeed\<close>

definition faults_in :: "disk \<Rightarrow> nat" where
  "faults_in d = length (filter (\<lambda>f. f \<noteq> None) (disk_faults d))"

lemma io_call_would_succeed:
  assumes "f (nodes d) = Some F"
  obtains (done_it) d' where "io_call what f d = (Inr (), d')" "nodes d' = F" "faults_in d' = faults_in d"
  | (failed) e d' where "io_call what f d = (Inl e, d')" "nodes d' = nodes d" "faults_in d = faults_in d' + 1"
proof (cases "disk_faults d")
  case Nil
  then show ?thesis using assms by (intro done_it [of "d\<lparr>nodes := F, disk_faults := []\<rparr>"]) (auto simp: io_call_def faults_in_def)
next
  case (Cons x fs)
  show ?thesis
  proof (cases x)
    case None
    then show ?thesis using assms Cons
      by (intro done_it [of "d\<lparr>nodes := F, disk_faults := fs\<rparr>"]) (auto simp: io_call_def faults_in_def)
  next
    case (Some e)
    then show ?thesis using assms Cons
      by (intro failed [of _ "d\<lparr>disk_faults := fs\<rparr>"]) (auto simp: io_call_def faults_in_def)
  qed
qed

lemma rename_real:
  assumes "closed F" and "p \<noteq> []" and "F (butlast p) = Some Directory" and "q \<noteq> []" and "F (butlast q) = Some Directory"
    and "F p = Some (Regular b m)" and "F q \<noteq> Some Directory" and "p \<noteq> q"
  shows "rename_entry p q F = Some (F(q := F p, p := None))"
  using assms entry_of_real [OF assms(1,2,3)] entry_of_real [OF assms(1,4,5)] by (simp add: rename_entry_def)

lemma closed_remove: "closed F \<Longrightarrow> F p = Some (Regular b m) \<Longrightarrow> closed (F(p := None))"
  by (fastforce simp: closed_def)

lemma closed_rename:
  assumes "closed F" and "q \<noteq> []" and "F (butlast q) = Some Directory" and "F p = Some (Regular b m)"
    and "F q \<noteq> Some Directory" and "p \<noteq> q"
  shows "closed (F(q := F p, p := None))"
proof -
  have "closed (F(q \<mapsto> Regular b m))" using closed_update [OF assms(1,2,3)] assms(5) by auto
  then show ?thesis using closed_remove [of "F(q \<mapsto> Regular b m)" p b m] assms(4,6) by simp
qed

lemma sibling_paths:
  "p \<noteq> [] \<Longrightarrow> prepared_executable_path p \<noteq> [] \<and> butlast (prepared_executable_path p) = butlast p \<and>
     previous_executable_path p \<noteq> [] \<and> butlast (previous_executable_path p) = butlast p \<and>
     prepared_executable_path p \<noteq> previous_executable_path p"
  by (auto simp: prepared_executable_path_def previous_executable_path_def with_extension_def Let_def text_simps)

section \<open>The executable survives\<close>

text \<open>What an interrupted or finished exchange leaves behind.\<close>

definition exchanged :: "path \<Rightarrow> node \<Rightarrow> node \<Rightarrow> nodes \<Rightarrow> bool" where
  "exchanged p old new F \<longleftrightarrow> F p = Some new \<and> F (previous_executable_path p) = Some old"

lemma exchange_from_free:
  assumes "closed (nodes d)" and "p \<noteq> []" and "nodes d p = Some (Regular b m)"
    and "nodes d (prepared_executable_path p) = Some (Regular b' m')" and "nodes d (previous_executable_path p) = None"
    and "p \<noteq> prepared_executable_path p" and "p \<noteq> previous_executable_path p"
    and "activate_executable p d = (r, d')"
  shows "case r of
      Inr _ \<Rightarrow> exchanged p (Regular b m) (Regular b' m') (nodes d')
    | Inl _ \<Rightarrow> nodes d' p = Some (Regular b m) \<or>
        nodes d' p = None \<and> nodes d' (previous_executable_path p) = Some (Regular b m) \<and> 2 \<le> faults_in d"
proof -
  let ?new = "prepared_executable_path p" and ?old = "previous_executable_path p"
  note sib = sibling_paths [OF assms(2)]
  have "nodes d (butlast p @ [last p]) \<noteq> None" using assms(2,3) by simp
  then have dir: "nodes d (butlast p) = Some Directory" using assms(1) unfolding closed_def by blast
  have gone: "\<not> fs_exists (nodes d) ?old"
    using resolve_real [OF assms(1), of ?old] sib dir assms(5) by (auto simp: fs_exists_def not_link_def)
  let ?F = "(nodes d)(?old := nodes d p, p := None)"
  have keep: "rename_entry p ?old (nodes d) = Some ?F"
    using rename_real [OF assms(1,2) dir _ _ assms(3)] sib dir assms(5,7) by auto
  have F: "closed ?F" using closed_rename [OF assms(1) _ _ assms(3)] sib dir assms(5,7) by auto
  have not_self: "butlast p \<noteq> p" using assms(2) by (metis append_butlast_last_id append_self_conv list.distinct(1))
  moreover have "butlast p \<noteq> ?old" using sib by (metis append_butlast_last_id append_self_conv list.distinct(1))
  ultimately have dirF: "?F (butlast p) = Some Directory" using dir by simp
  have swap: "rename_entry ?new p ?F = Some (?F(p := ?F ?new, ?new := None))"
    using rename_real [OF F, of ?new p] sib dirF assms(2,4,6) by auto
  have undo: "rename_entry ?old p ?F = Some (?F(p := ?F ?old, ?old := None))"
    using rename_real [OF F, of ?old p] sib dirF assms(2,3,7) by auto
  from keep show ?thesis
  proof (cases rule: io_call_would_succeed [where what = "lit ''failed to preserve the running executable''"])
    case (failed e d1)
    then have "r = Inl e" "d' = d1" using assms(8) gone by (auto simp: activate_executable_def Let_def io_bind_def)
    then show ?thesis using failed assms(3) by simp
  next
    case (done_it d1)
    note one = done_it
    from swap have swap1: "rename_entry ?new p (nodes d1) = Some (?F(p := ?F ?new, ?new := None))" by (simp only: one(2))
    then show ?thesis
    proof (cases rule: io_call_would_succeed [where what = "lit ''failed to activate the updated executable''"])
      case (done_it d2)
      then have "r = Inr ()" "d' = d2" using assms(8) gone one by (auto simp: activate_executable_def Let_def io_bind_def)
      then show ?thesis using done_it one sib assms(3,4,6,7) by (auto simp: exchanged_def)
    next
      case (failed e d2)
      note two = failed
      from undo have undo2: "rename_entry ?old p (nodes d2) = Some (?F(p := ?F ?old, ?old := None))" by (simp only: one(2) two(2))
      then show ?thesis
      proof (cases rule: io_call_would_succeed [where what = "[]"])
        case (done_it d3)
        then have "r = Inl e" "d' = d3" using assms(8) gone one two by (auto simp: activate_executable_def Let_def io_bind_def)
        then show ?thesis using done_it assms(3,7) by simp
      next
        case (failed e' d3)
        then have "r = Inl e" "d' = d3" using assms(8) gone one two by (auto simp: activate_executable_def Let_def io_bind_def)
        then show ?thesis using failed one two assms(3,7) by simp
      qed
    qed
  qed
qed



definition two_binaries :: "ustr option list \<Rightarrow> disk" where
  "two_binaries script = (disk_of [([lit ''bin''], Directory), ([lit ''bin'', lit ''kraken-ui''], Regular [1] 493),
     ([lit ''bin'', lit ''kraken-ui.update-new''], Regular [2] 493)])\<lparr>disk_faults := script\<rparr>"


end
