(* ===== verification/SourceUpdate.thy ===== *)
theory SourceUpdate
  imports UpdateStatus Activation Transitions
begin

text \<open>
  The source updater of \<open>src/services/source_update.rs\<close>: one run of the update from the release lookup to
  the restart, and the flag that admits one run at a time. GitHub, gzip and tar, Cargo, TOML and the
  \<open>semver\<close> crate are outside \<open>src/\<close> and enter as a record of functions. A run collects its writes to the
  status in order; they are applied to the status as they are made (theory UpdateStatus).
\<close>

section \<open>Outside\<close>

datatype 'a fetched = Send_error ustr | Rejected ustr | Body_error ustr | Fetched 'a

record version =
  major :: nat
  minor :: nat
  patch :: nat
  pre :: ustr
  build :: ustr

record github_release =
  tag_name :: ustr
  draft :: bool
  prerelease :: bool

record cargo_manifest =
  package_name :: ustr
  package_version :: ustr

record cargo_output =
  stdout_text :: ustr
  stderr_text :: ustr
  build_success :: bool
  built :: staged_dir

text \<open>An archive arrives with its announced length, if any, and in chunks, any of which may fail.\<close>

record update_world =
  latest_release :: "github_release fetched"
  archive_at :: "ustr \<Rightarrow> (nat option \<times> (ustr + bytes) list) fetched"
  staging_error :: "ustr option"
  tar_entries :: "bytes \<Rightarrow> ustr + (ustr + tar_entry) list"
  parse_toml :: "bytes \<Rightarrow> ustr + cargo_manifest"
  cargo_build :: "staged_dir \<Rightarrow> ustr + cargo_output"
  parse_version :: "ustr \<Rightarrow> ustr + version"
  version_le :: "version \<Rightarrow> version \<Rightarrow> bool"
  show_version :: "version \<Rightarrow> ustr"
  spawn_error :: "ustr option"

record updater =
  source_root :: path
  executable :: path
  server_handle :: bool
  allow_unsigned_source_update :: bool

section \<open>Checks\<close>

definition context_of :: "ustr \<Rightarrow> ustr + 'a \<Rightarrow> ustr + 'a" where
  "context_of what r = (case r of Inl e \<Rightarrow> Inl (what @ lit '': '' @ e) | Inr x \<Rightarrow> Inr x)"

definition validate_release_tag :: "update_world \<Rightarrow> ustr \<Rightarrow> ustr + version" where
  "validate_release_tag X tag =
     (case strip_prefix (lit ''v'') tag of
        None \<Rightarrow> Inl (lit ''release tag must use the vMAJOR.MINOR.PATCH format'')
      | Some v \<Rightarrow> (case context_of (lit ''release tag is not a semantic version'') (parse_version X v) of
          Inl e \<Rightarrow> Inl e
        | Inr ver \<Rightarrow> if pre ver \<noteq> [] \<or> build ver \<noteq> [] then Inl (lit ''release tag is not a stable semantic version'')
                     else Inr ver))"

definition stable_version_from_release :: "update_world \<Rightarrow> github_release \<Rightarrow> ustr + version" where
  "stable_version_from_release X rel =
     (if draft rel \<or> prerelease rel then Inl (lit ''GitHub returned a draft or prerelease as the latest stable release'')
      else validate_release_tag X (tag_name rel))"

definition fetch_latest_release :: "update_world \<Rightarrow> ustr + github_release" where
  "fetch_latest_release X =
     (case latest_release X of
        Send_error e \<Rightarrow> Inl (lit ''failed to query the GitHub releases API: '' @ e)
      | Rejected e \<Rightarrow> Inl (lit ''GitHub rejected the latest-release request: '' @ e)
      | Body_error e \<Rightarrow> Inl (lit ''GitHub returned invalid latest-release metadata: '' @ e)
      | Fetched rel \<Rightarrow> Inr rel)"

definition MAX_ARCHIVE_BYTES :: nat where "MAX_ARCHIVE_BYTES = 100 * 1024 * 1024"

definition ARCHIVE_URL_PREFIX :: ustr where
  "ARCHIVE_URL_PREFIX = lit ''https://api.github.com/repos/Orangewarrior/kraken-ui/tarball/''"

fun read_chunks :: "bytes \<Rightarrow> (ustr + bytes) list \<Rightarrow> ustr + bytes" where
  "read_chunks got [] = Inr got"
| "read_chunks got (Inl e # cs) = Inl (lit ''failed while downloading the release archive: '' @ e)"
| "read_chunks got (Inr c # cs) =
     (if MAX_ARCHIVE_BYTES < length got + length c then Inl (lit ''release archive exceeds the 100 MiB download limit'')
      else read_chunks (got @ c) cs)"

definition download_archive :: "update_world \<Rightarrow> ustr \<Rightarrow> ustr + bytes" where
  "download_archive X tag =
     (case validate_release_tag X tag of
        Inl e \<Rightarrow> Inl e
      | Inr _ \<Rightarrow> (case archive_at X (ARCHIVE_URL_PREFIX @ tag) of
          Send_error e \<Rightarrow> Inl (lit ''failed to download the release archive: '' @ e)
        | Rejected e \<Rightarrow> Inl (lit ''GitHub rejected the release archive request: '' @ e)
        | Body_error e \<Rightarrow> Inl (lit ''failed while downloading the release archive: '' @ e)
        | Fetched (announced, chunks) \<Rightarrow>
            if (case announced of Some n \<Rightarrow> MAX_ARCHIVE_BYTES < n | None \<Rightarrow> False)
            then Inl (lit ''release archive exceeds the 100 MiB download limit'')
            else read_chunks [] chunks))"

definition CARGO_TOML :: path where "CARGO_TOML = [lit ''Cargo.toml'']"

definition validate_source_root :: "path \<Rightarrow> nodes \<Rightarrow> ustr + unit" where
  "validate_source_root root F =
     (if fs_is_file F (root @ CARGO_TOML) then Inr () else Inl (lit ''KRAKEN_UI_SOURCE_DIR does not contain Cargo.toml''))"

definition validate_staged_release :: "update_world \<Rightarrow> staged_dir \<Rightarrow> version \<Rightarrow> ustr + unit" where
  "validate_staged_release X d expected =
     (case file_at d CARGO_TOML of
        None \<Rightarrow> Inl (lit ''failed to read Cargo.toml'')
      | Some (text, _) \<Rightarrow> (case context_of (lit ''release Cargo.toml is invalid'') (parse_toml X text) of
          Inl e \<Rightarrow> Inl e
        | Inr manifest \<Rightarrow>
            if package_name manifest \<noteq> lit ''kraken-ui'' then Inl (lit ''release archive contains the wrong Cargo package'')
            else (case context_of (lit ''release package version is invalid'') (parse_version X (package_version manifest)) of
              Inl e \<Rightarrow> Inl e
            | Inr ver \<Rightarrow>
                if ver \<noteq> expected then Inl (lit ''release tag version '' @ show_version X expected @
                  lit '' does not match Cargo.toml version '' @ show_version X ver)
                else if \<not> staged_is_file d [lit ''Cargo.lock''] \<or> \<not> staged_is_file d [lit ''src'', lit ''main.rs'']
                then Inl (lit ''release archive is missing required Kraken UI source files'')
                else Inr ())))"

section \<open>A run\<close>

text \<open>What a run does: its writes to the status, the disk, the process it starts, the shutdown it asks for.\<close>

record run =
  writes :: "status_write list"
  run_disk :: disk
  spawned :: bool
  shut_down :: bool

type_synonym 'a run_m = "run \<Rightarrow> (ustr + 'a) \<times> run"

definition rret :: "'a \<Rightarrow> 'a run_m" where
  "rret x = (\<lambda>r. (Inr x, r))"

definition rfail :: "ustr \<Rightarrow> 'a run_m" where
  "rfail e = (\<lambda>r. (Inl e, r))"

definition rbind :: "'a run_m \<Rightarrow> ('a \<Rightarrow> 'b run_m) \<Rightarrow> 'b run_m" where
  "rbind p f = (\<lambda>r. case p r of (Inr x, r') \<Rightarrow> f x r' | (Inl e, r') \<Rightarrow> (Inl e, r'))"

definition lift :: "ustr + 'a \<Rightarrow> 'a run_m" where
  "lift v = (\<lambda>r. (v, r))"

definition report :: "status_write \<Rightarrow> unit run_m" where
  "report w = (\<lambda>r. (Inr (), r\<lparr>writes := writes r @ [w]\<rparr>))"

definition on_disk :: "'a io \<Rightarrow> 'a run_m" where
  "on_disk p = (\<lambda>r. case p (run_disk r) of (v, d) \<Rightarrow> (v, r\<lparr>run_disk := d\<rparr>))"

definition install :: "updater \<Rightarrow> staged_dir \<Rightarrow> bytes \<Rightarrow> nat \<Rightarrow> unit io" where
  "install c staged_source binary mode =
     io_bind (prepare_executable binary mode (executable c)) (\<lambda>_.
     io_bind (copy_release_source staged_source (source_root c)) (\<lambda>_.
     activate_executable (executable c)))"

definition restart :: "update_world \<Rightarrow> updater \<Rightarrow> version \<Rightarrow> unit run_m" where
  "restart X c target =
     (if \<not> server_handle c then rfail (lit ''automatic restart is unavailable in this runtime'')
      else rbind (report (Set_restarting (show_version X target))) (\<lambda>_.
        case spawn_error X of
          Some e \<Rightarrow> rfail (lit ''failed to start the updated Kraken UI process: '' @ e)
        | None \<Rightarrow> (\<lambda>r. (Inr (), r\<lparr>spawned := True, shut_down := True\<rparr>))))"

definition compile_and_install :: "update_world \<Rightarrow> updater \<Rightarrow> version \<Rightarrow> staged_dir \<Rightarrow> unit run_m" where
  "compile_and_install X c target d =
     rbind (report (Phase Compiling (lit ''Release validated. Downloading Rust packages and compiling the new web UI. This can take several minutes...''))) (\<lambda>_.
     rbind (lift (context_of (lit ''failed to start cargo build for the staged release'') (cargo_build X d))) (\<lambda>out.
     rbind (report (Command_output (stdout_text out) (stderr_text out))) (\<lambda>_.
     if \<not> build_success out then rfail (lit ''the staged release did not compile successfully'')
     else (case file_at (built out) [lit ''target'', lit ''release'', lit ''kraken-ui''] of
         None \<Rightarrow> rfail (lit ''compiled binary was not found'')
       | Some (binary, mode) \<Rightarrow>
           rbind (report (Phase Installing (lit ''Compilation succeeded. Installing source and executable while preserving databases and configuration files...''))) (\<lambda>_.
           rbind (on_disk (install c (built out) binary mode)) (\<lambda>_.
           restart X c target))))))"

definition download_and_stage :: "update_world \<Rightarrow> ustr \<Rightarrow> version \<Rightarrow> staged_dir run_m" where
  "download_and_stage X tag target =
     rbind (report (Phase Downloading (lit ''Downloading Kraken UI v'' @ show_version X target @ lit '' source package...''))) (\<lambda>_.
     rbind (lift (download_archive X tag)) (\<lambda>archive.
     rbind (report (Phase Extracting (lit ''Validating and extracting the release into an isolated staging directory...''))) (\<lambda>_.
     case staging_error X of
       Some e \<Rightarrow> rfail (lit ''failed to create the update staging directory: '' @ e)
     | None \<Rightarrow>
         rbind (lift (unpack_release_archive (tar_entries X archive))) (\<lambda>d.
         rbind (lift (validate_staged_release X d target)) (\<lambda>_.
         rret d)))))"

definition run_update :: "update_world \<Rightarrow> updater \<Rightarrow> unit run_m" where
  "run_update X c =
     (if \<not> allow_unsigned_source_update c then rfail UNSIGNED_SOURCE_UPDATE_DISABLED_MESSAGE
      else
        rbind (report (Phase Checking (lit ''Checking the latest published GitHub release...''))) (\<lambda>_.
        rbind (\<lambda>r. (validate_source_root (source_root c) (nodes (run_disk r)), r)) (\<lambda>_.
        rbind (lift (fetch_latest_release X)) (\<lambda>rel.
        rbind (lift (stable_version_from_release X rel)) (\<lambda>target.
        rbind (report (Target (show_version X target))) (\<lambda>_.
        rbind (lift (context_of (lit ''the running package version is not semantic versioning'') (parse_version X CARGO_PKG_VERSION))) (\<lambda>current.
        if version_le X target current
        then report (Finish_complete (lit ''No update installed. Running version '' @ show_version X current @
          lit '' is already at or newer than the latest stable release '' @ show_version X target @ lit ''.''))
        else
          rbind (download_and_stage X (tag_name rel) target) (compile_and_install X c target))))))))"

text \<open>The spawned task: an error of the run becomes its last write.\<close>

definition update_task :: "update_world \<Rightarrow> updater \<Rightarrow> disk \<Rightarrow> run" where
  "update_task X c d =
     (case run_update X c \<lparr>writes = [], run_disk = d, spawned = False, shut_down = False\<rparr> of
        (Inr _, r) \<Rightarrow> r
      | (Inl e, r) \<Rightarrow> r\<lparr>writes := writes r @ [Finish_failed (lit ''Update failed: '' @ e)]\<rparr>)"


section \<open>Only vetted releases are installed\<close>

lemma rbind_cases:
  assumes "rbind p f r = (v, r')"
  obtains (error) e where "p r = (Inl e, r')" "v = Inl e"
  | (value_then) x r1 where "p r = (Inr x, r1)" "f x r1 = (v, r')"
  using assms by (auto simp: rbind_def split: prod.splits sum.splits)

lemma context_of_Inr [simp]: "context_of what r = Inr x \<longleftrightarrow> r = Inr x"
  by (auto simp: context_of_def split: sum.splits)

lemma read_chunks_Inr:
  "read_chunks got cs = Inr b \<Longrightarrow> \<exists>bs. cs = map Inr bs \<and> b = got @ concat bs \<and> (length got \<le> MAX_ARCHIVE_BYTES \<longrightarrow> length b \<le> MAX_ARCHIVE_BYTES)"
proof (induction got cs rule: read_chunks.induct)
  case (3 got c cs)
  then obtain bs where "cs = map Inr bs" "b = (got @ c) @ concat bs"
      "length (got @ c) \<le> MAX_ARCHIVE_BYTES \<longrightarrow> length b \<le> MAX_ARCHIVE_BYTES" "length got + length c \<le> MAX_ARCHIVE_BYTES"
    by (auto split: if_splits)
  then show ?case by (intro exI [of _ "c # bs"]) auto
qed auto

text \<open>The stable release a tag names.\<close>

definition names_stable :: "update_world \<Rightarrow> ustr \<Rightarrow> version \<Rightarrow> bool" where
  "names_stable X tag target \<longleftrightarrow>
     (\<exists>v. tag = lit ''v'' @ v \<and> parse_version X v = Inr target \<and> pre target = [] \<and> build target = [])"

lemma validate_release_tag_Inr: "validate_release_tag X tag = Inr target \<longleftrightarrow> names_stable X tag target"
proof (cases "strip_prefix (lit ''v'') tag")
  case None
  moreover have "strip_prefix (lit ''v'') (lit ''v'' @ v) = Some v" for v by (simp add: strip_prefix_iff)
  ultimately have "tag \<noteq> lit ''v'' @ v" for v by auto
  then show ?thesis using None by (simp add: validate_release_tag_def names_stable_def)
next
  case (Some v)
  then have "tag = lit ''v'' @ v" by (simp add: strip_prefix_iff)
  then show ?thesis using Some
    by (cases "parse_version X v") (auto simp: validate_release_tag_def names_stable_def context_of_def)
qed

definition downloaded :: "update_world \<Rightarrow> ustr \<Rightarrow> bytes \<Rightarrow> bool" where
  "downloaded X tag archive \<longleftrightarrow>
     (\<exists>announced bs. archive_at X (ARCHIVE_URL_PREFIX @ tag) = Fetched (announced, map Inr bs) \<and> archive = concat bs \<and>
        length archive \<le> MAX_ARCHIVE_BYTES)"

lemma download_archive_Inr: "download_archive X tag = Inr b \<Longrightarrow> downloaded X tag b"
  by (fastforce simp: download_archive_def downloaded_def dest!: read_chunks_Inr split: sum.splits fetched.splits prod.splits if_splits)

definition is_release_of :: "update_world \<Rightarrow> staged_dir \<Rightarrow> version \<Rightarrow> bool" where
  "is_release_of X d target \<longleftrightarrow>
     (\<exists>text mode m. file_at d CARGO_TOML = Some (text, mode) \<and> parse_toml X text = Inr m \<and>
        package_name m = lit ''kraken-ui'' \<and> parse_version X (package_version m) = Inr target) \<and>
     staged_is_file d [lit ''Cargo.lock''] \<and> staged_is_file d [lit ''src'', lit ''main.rs'']"

lemma validate_staged_release_Inr: "validate_staged_release X d target = Inr u \<Longrightarrow> is_release_of X d target"
  by (auto simp: validate_staged_release_def is_release_of_def split: option.splits sum.splits if_splits)

text \<open>
  What an update must have passed: it was opted in to; the latest release is published and stable, its tag
  names the version, newer than the running one; the archive of that tag came whole within its limit,
  unpacked cleanly, and is this package in this version; and it compiled.
\<close>

definition vetted :: "update_world \<Rightarrow> updater \<Rightarrow> version \<Rightarrow> staged_dir \<Rightarrow> cargo_output \<Rightarrow> bool" where
  "vetted X c target d out \<longleftrightarrow>
     allow_unsigned_source_update c \<and>
     (\<exists>rel current archive. latest_release X = Fetched rel \<and> \<not> draft rel \<and> \<not> prerelease rel \<and>
        names_stable X (tag_name rel) target \<and>
        parse_version X CARGO_PKG_VERSION = Inr current \<and> \<not> version_le X target current \<and>
        downloaded X (tag_name rel) archive \<and> unpack_release_archive (tar_entries X archive) = Inr d) \<and>
     is_release_of X d target \<and> cargo_build X d = Inr out \<and> build_success out"

lemma rbind_simps [simp]:
  "rbind (lift s) f r = (case s of Inl e \<Rightarrow> (Inl e, r) | Inr x \<Rightarrow> f x r)"
  "rbind (\<lambda>r. (g r, r)) f r = (case g r of Inl e \<Rightarrow> (Inl e, r) | Inr x \<Rightarrow> f x r)"
  by (auto simp: rbind_def lift_def split: sum.splits)

definition newest_release :: "update_world \<Rightarrow> updater \<Rightarrow> github_release \<Rightarrow> version \<Rightarrow> bool" where
  "newest_release X c rel target \<longleftrightarrow>
     allow_unsigned_source_update c \<and> latest_release X = Fetched rel \<and> \<not> draft rel \<and> \<not> prerelease rel \<and>
     names_stable X (tag_name rel) target \<and>
     (\<exists>current. parse_version X CARGO_PKG_VERSION = Inr current \<and> \<not> version_le X target current)"

lemma stable_version_Inr:
  "stable_version_from_release X rel = Inr target \<Longrightarrow> \<not> draft rel \<and> \<not> prerelease rel \<and> names_stable X (tag_name rel) target"
  by (auto simp: stable_version_from_release_def validate_release_tag_Inr split: if_splits)

lemma fetch_latest_release_Inr: "fetch_latest_release X = Inr rel \<Longrightarrow> latest_release X = Fetched rel"
  by (auto simp: fetch_latest_release_def split: fetched.splits)

text \<open>Writes that only say how far the update is.\<close>

fun progress :: "status_write \<Rightarrow> bool" where
  "progress (Phase p m) = (p \<in> {Checking, Downloading, Extracting, Compiling})"
| "progress (Target v) = True"
| "progress (Command_output out err) = True"
| "progress w = False"

definition reports :: "status_write list \<Rightarrow> run \<Rightarrow> run" where
  "reports ws r = r\<lparr>writes := writes r @ ws\<rparr>"

lemma reports_simps [simp]:
  "run_disk (reports ws r) = run_disk r" "spawned (reports ws r) = spawned r" "shut_down (reports ws r) = shut_down r"
  "writes (reports ws r) = writes r @ ws" "reports vs (reports ws r) = reports (ws @ vs) r" "reports [] r = r"
  by (simp_all add: reports_def)

lemma rbind_report [simp]: "rbind (report w) f r = f () (reports [w] r)"
  by (simp add: rbind_def report_def reports_def)

lemma report_apply [simp]: "report w r = (Inr (), reports [w] r)"
  by (simp add: report_def reports_def)

lemma rbind_on_disk [simp]:
  "rbind (on_disk p) f r = (case p (run_disk r) of
     (Inl e, dk) \<Rightarrow> (Inl e, r\<lparr>run_disk := dk\<rparr>) | (Inr x, dk) \<Rightarrow> f x (r\<lparr>run_disk := dk\<rparr>))"
  by (auto simp: rbind_def on_disk_def split: prod.splits sum.splits)

lemma rfail_apply [simp]: "rfail e r = (Inl e, r)" and rret_apply [simp]: "rret x r = (Inr x, r)"
  by (simp_all add: rfail_def rret_def)

lemma download_cases:
  assumes "download_and_stage X tag target r = (v, r')"
  obtains ws where "r' = reports ws r" "list_all progress ws"
    "\<And>d. v = Inr d \<Longrightarrow> (\<exists>archive. downloaded X tag archive \<and> unpack_release_archive (tar_entries X archive) = Inr d) \<and> is_release_of X d target"
proof -
  have "(\<exists>ws. r' = reports ws r \<and> list_all progress ws) \<and> (\<forall>d. v = Inr d \<longrightarrow>
      (\<exists>archive. downloaded X tag archive \<and> unpack_release_archive (tar_entries X archive) = Inr d) \<and> is_release_of X d target)"
    using assms download_archive_Inr validate_staged_release_Inr unfolding download_and_stage_def
    by (fastforce split: sum.splits option.splits)
  then show ?thesis using that by blast
qed


lemma compile_cases:
  assumes "compile_and_install X c target d r = (v, r')"
  obtains (stopped) ws where "isl v" "r' = reports ws r" "list_all progress ws"
  | (installing) out binary mode ws m iv disk where "cargo_build X d = Inr out" "build_success out" "list_all progress ws"
      "install c (built out) binary mode (run_disk r) = (iv, disk)"
      "(case iv of Inl e \<Rightarrow> (Inl e, (reports (ws @ [Phase Installing m]) r)\<lparr>run_disk := disk\<rparr>)
        | Inr _ \<Rightarrow> restart X c target ((reports (ws @ [Phase Installing m]) r)\<lparr>run_disk := disk\<rparr>)) = (v, r')"
proof -
  let ?c = "Phase Compiling (lit ''Release validated. Downloading Rust packages and compiling the new web UI. This can take several minutes...'')"
  let ?i = "Phase Installing (lit ''Compilation succeeded. Installing source and executable while preserving databases and configuration files...'')"
  show ?thesis
  proof (cases "cargo_build X d")
    case (Inl e)
    then show ?thesis
      using assms by (intro stopped [of "[?c]"]) (auto simp: compile_and_install_def context_of_def)
  next
    case (Inr out)
    let ?o = "Command_output (stdout_text out) (stderr_text out)"
    show ?thesis
    proof (cases "build_success out")
      case False
      then show ?thesis
        using assms Inr by (intro stopped [of "[?c, ?o]"]) (auto simp: compile_and_install_def context_of_def)
    next
      case True
      show ?thesis
      proof (cases "file_at (built out) [lit ''target'', lit ''release'', lit ''kraken-ui'']")
        case None
        then show ?thesis
          using assms Inr True by (intro stopped [of "[?c, ?o]"]) (auto simp: compile_and_install_def context_of_def)
      next
        case (Some bm)
        obtain binary mode where bm: "bm = (binary, mode)" by (cases bm)
        obtain iv disk where inst: "install c (built out) binary mode (run_disk r) = (iv, disk)"
          by (cases "install c (built out) binary mode (run_disk r)")
        have "(case iv of Inl e \<Rightarrow> (Inl e, (reports ([?c, ?o] @ [?i]) r)\<lparr>run_disk := disk\<rparr>)
            | Inr _ \<Rightarrow> restart X c target ((reports ([?c, ?o] @ [?i]) r)\<lparr>run_disk := disk\<rparr>)) = (v, r')"
          using assms Inr True Some bm inst
          by (cases iv) (auto simp: compile_and_install_def context_of_def)
        from installing [OF Inr True _ inst this] show ?thesis by simp
      qed
    qed
  qed
qed

lemma update_endings:
  assumes "run_update X c r = (v, r')"
  obtains (stopped) ws where "isl v" "r' = reports ws r" "list_all progress ws"
  | (up_to_date) m ws where "v = Inr ()" "r' = reports (ws @ [Finish_complete m]) r" "list_all progress ws"
  | (installing) target d out binary mode ws m iv disk where "vetted X c target d out" "list_all progress ws"
      "install c (built out) binary mode (run_disk r) = (iv, disk)"
      "(case iv of Inl e \<Rightarrow> (Inl e, (reports (ws @ [Phase Installing m]) r)\<lparr>run_disk := disk\<rparr>)
        | Inr _ \<Rightarrow> restart X c target ((reports (ws @ [Phase Installing m]) r)\<lparr>run_disk := disk\<rparr>)) = (v, r')"
proof (cases "allow_unsigned_source_update c")
  case False
  then show ?thesis using assms by (intro stopped [of "[]"]) (auto simp: run_update_def)
next
  case allowed: True
  let ?ck = "Phase Checking (lit ''Checking the latest published GitHub release...'')"
  show ?thesis
  proof (cases "\<exists>u rel target. validate_source_root (source_root c) (nodes (run_disk r)) = Inr u \<and> fetch_latest_release X = Inr rel \<and>
      stable_version_from_release X rel = Inr target")
    case False
    have "isl v \<and> r' = reports [?ck] r"
    proof (cases "validate_source_root (source_root c) (nodes (run_disk r))")
      case (Inl e)
      then show ?thesis using assms allowed by (simp add: run_update_def) (metis sum.disc(1))
    next
      case root: (Inr u)
      show ?thesis
      proof (cases "fetch_latest_release X")
        case (Inl e)
        then show ?thesis using assms allowed root by (simp add: run_update_def) (metis sum.disc(1))
      next
        case (Inr rel)
        then obtain e where "stable_version_from_release X rel = Inl e"
          using False root by (cases "stable_version_from_release X rel") auto
        then show ?thesis using assms allowed root Inr by (simp add: run_update_def) (metis sum.disc(1))
      qed
    qed
    then show ?thesis by (intro stopped [of "[?ck]"]) auto
  next
    case True
    then obtain u rel target where front: "validate_source_root (source_root c) (nodes (run_disk r)) = Inr u"
        "fetch_latest_release X = Inr rel" "stable_version_from_release X rel = Inr target" by blast
    let ?tg = "Target (show_version X target)"
    show ?thesis
    proof (cases "parse_version X CARGO_PKG_VERSION")
      case (Inl e)
      then show ?thesis
        using assms allowed front by (intro stopped [of "[?ck, ?tg]"]) (auto simp: run_update_def context_of_def)
    next
      case (Inr current)
      show ?thesis
      proof (cases "version_le X target current")
        case True
        then show ?thesis
          using assms allowed front Inr
          by (intro up_to_date [of "[?ck, ?tg]" "lit ''No update installed. Running version '' @ show_version X current @
              lit '' is already at or newer than the latest stable release '' @ show_version X target @ lit ''.''"])
            (auto simp: run_update_def context_of_def)
      next
        case False
        let ?r = "reports [?ck, ?tg] r"
        have run: "rbind (download_and_stage X (tag_name rel) target) (compile_and_install X c target) ?r = (v, r')"
          using assms allowed front Inr False by (simp add: run_update_def context_of_def)
        show ?thesis
        proof (cases rule: rbind_cases [OF run])
          case (1 e)
          then obtain ws where "r' = reports ws ?r" "list_all progress ws" by (elim download_cases)
          then show ?thesis using 1 by (intro stopped [of "[?ck, ?tg] @ ws"]) auto
        next
          case (2 d r1)
          obtain ws where ws: "r1 = reports ws ?r" "list_all progress ws"
            and d: "\<exists>archive. downloaded X (tag_name rel) archive \<and> unpack_release_archive (tar_entries X archive) = Inr d"
              "is_release_of X d target"
            using 2(1) by (elim download_cases) blast
          show ?thesis
          proof (cases rule: compile_cases [OF 2(2)])
            case (1 vs)
            then show ?thesis using ws by (intro stopped [of "[?ck, ?tg] @ ws @ vs"]) auto
          next
            case (2 out binary mode vs m iv disk)
            have "vetted X c target d out"
              using allowed front(2,3) Inr False d 2(1,2) stable_version_Inr fetch_latest_release_Inr
              unfolding vetted_def by blast
            moreover have "list_all progress ([?ck, ?tg] @ ws @ vs)" using ws(2) 2(3) by simp
            moreover have "install c (built out) binary mode (run_disk r) = (iv, disk)" using 2(4) ws(1) by simp
            moreover have "(case iv of Inl e \<Rightarrow> (Inl e, (reports (([?ck, ?tg] @ ws @ vs) @ [Phase Installing m]) r)\<lparr>run_disk := disk\<rparr>)
                | Inr _ \<Rightarrow> restart X c target ((reports (([?ck, ?tg] @ ws @ vs) @ [Phase Installing m]) r)\<lparr>run_disk := disk\<rparr>)) = (v, r')"
              using 2(5) ws(1) by (cases iv) auto
            ultimately show ?thesis by (rule installing)
          qed
        qed
      qed
    qed
  qed
qed


text \<open>
  Property C10 (safety): only a vetted release is ever installed. If a run of the update changed anything on
  the disk or started a new process, then updates were opted in to and the release passed every check:
  published, stable, newer than the running version, its archive complete and within its limits,
  unpacked cleanly, this package in this version, and compiled.
\<close>

theorem only_vetted_releases_installed:
  assumes "run_disk (update_task X c dk) \<noteq> dk \<or> spawned (update_task X c dk)"
  shows "\<exists>target d out. vetted X c target d out"
proof -
  let ?r = "\<lparr>writes = [], run_disk = dk, spawned = False, shut_down = False\<rparr>"
  obtain v r' where run: "run_update X c ?r = (v, r')" by (cases "run_update X c ?r")
  then have "run_disk r' \<noteq> dk \<or> spawned r'"
    using assms by (auto simp: update_task_def split: sum.splits)
  then show ?thesis by (cases rule: update_endings [OF run]) auto
qed

lemma restart_cases:
  assumes "restart X c target r = (v, r')"
  obtains (failed) ws where "isl v" "r' = reports ws r" "ws = [] \<or> ws = [Set_restarting (show_version X target)]"
  | (restarted) "v = Inr ()" "r' = (reports [Set_restarting (show_version X target)] r)\<lparr>spawned := True, shut_down := True\<rparr>"
proof (cases "server_handle c")
  case False
  then show ?thesis using assms by (intro failed [of "[]"]) (auto simp: restart_def)
next
  case True
  then show ?thesis
    using assms failed [of "[Set_restarting (show_version X target)]"] restarted
    by (cases "spawn_error X") (auto simp: restart_def)
qed

text \<open>What the status may say of a run that is over.\<close>

definition truthful :: "update_status \<Rightarrow> run \<Rightarrow> disk \<Rightarrow> bool" where
  "truthful s r dk \<longleftrightarrow>
     (case phase s of
        Complete \<Rightarrow> \<not> in_progress s \<and> run_disk r = dk \<and> \<not> spawned r \<and> \<not> shut_down r
      | Restarting \<Rightarrow> in_progress s \<and> redirect_after_seconds s = Some 120 \<and> spawned r \<and> shut_down r
      | Failed_update \<Rightarrow> \<not> in_progress s \<and> \<not> spawned r \<and> \<not> shut_down r \<and>
          ((\<forall>m. Phase Installing m \<notin> set (writes r)) \<longrightarrow> run_disk r = dk)
      | _ \<Rightarrow> False)"

lemma progress_no_install: "list_all progress ws \<Longrightarrow> Phase Installing m \<notin> set ws"
  by (induction ws) auto


text \<open>
  An installed update can be reported as failed. Where the process has no handle to
  restart itself, every update that gets through to the end exchanges the executable and then ends
  with the status failed.
\<close>

theorem installed_update_reported_failed:
  assumes "\<not> server_handle c" and "Phase Installing m \<in> set (writes (update_task X c dk))"
  shows "\<exists>(out :: cargo_output) binary mode. run_disk (update_task X c dk) = snd (install c (built out) binary mode dk) \<and>
    phase (write_all (writes (update_task X c dk)) (reset_for_update s)) = Failed_update"
proof -
  let ?r = "\<lparr>writes = [], run_disk = dk, spawned = False, shut_down = False\<rparr>"
  obtain v r' where run: "run_update X c ?r = (v, r')" by (cases "run_update X c ?r")
  have task: "update_task X c dk = (case v of Inr _ \<Rightarrow> r' | Inl e \<Rightarrow> reports [Finish_failed (lit ''Update failed: '' @ e)] r')"
    using run by (auto simp: update_task_def reports_def split: sum.splits)
  show ?thesis
  proof (cases rule: update_endings [OF run])
    case (1 ws)
    then show ?thesis using assms(2) progress_no_install by (cases v) (auto simp: task)
  next
    case (2 k ws)
    then show ?thesis using assms(2) progress_no_install by (auto simp: task)
  next
    case (3 target d out binary mode ws k iv disk)
    then have "isl v \<and> run_disk r' = disk" using assms(1) by (cases iv) (auto simp: restart_def)
    then obtain e where "v = Inl e" "run_disk r' = disk" by (auto simp: isl_def)
    then have "run_disk (update_task X c dk) = snd (install c (built out) binary mode dk)"
      "phase (write_all (writes (update_task X c dk)) (reset_for_update s)) = Failed_update"
      using 3(3) by (simp_all add: task finish_failed_def)
    then show ?thesis by blast
  qed
qed


section \<open>A release from end to end\<close>

definition stable :: "nat \<Rightarrow> nat \<Rightarrow> nat \<Rightarrow> version" where
  "stable a b c = \<lparr>major = a, minor = b, patch = c, pre = [], build = []\<rparr>"

definition sample_world_of_releases :: update_world where
  "sample_world_of_releases = \<lparr>
     latest_release = Fetched \<lparr>tag_name = lit ''v2.0.0'', draft = False, prerelease = False\<rparr>,
     archive_at = (\<lambda>_. Fetched (Some 2, [Inr [3], Inr [4]])),
     staging_error = None,
     tar_entries = (\<lambda>_. Inr (map (\<lambda>p. Inr (a_file p 1 [5])) [''k/Cargo.toml'', ''k/Cargo.lock'', ''k/src/main.rs''])),
     parse_toml = (\<lambda>_. Inr \<lparr>package_name = lit ''kraken-ui'', package_version = lit ''2.0.0''\<rparr>),
     cargo_build = (\<lambda>d. Inr \<lparr>stdout_text = [], stderr_text = lit ''ok'', build_success = True,
       built = d @ [(lit ''target'', S_dir [(lit ''release'', S_dir [(lit ''kraken-ui'', S_file [2] 493)])])]\<rparr>),
     parse_version = (\<lambda>s. if s = lit ''2.0.0'' then Inr (stable 2 0 0) else if s = CARGO_PKG_VERSION then Inr (stable 0 20 2) else Inl []),
     version_le = (\<lambda>a b. major a < major b \<or> major a = major b \<and> (minor a < minor b \<or> minor a = minor b \<and> patch a \<le> patch b)),
     show_version = (\<lambda>a. show_nat (major a) @ 46 # show_nat (minor a) @ 46 # show_nat (patch a)),
     spawn_error = None\<rparr>"

definition sample_updater :: updater where
  "sample_updater = \<lparr>source_root = [lit ''app''], executable = [lit ''bin'', lit ''kraken-ui''], server_handle = True,
     allow_unsigned_source_update = True\<rparr>"

definition deployed :: disk where
  "deployed = disk_of [([lit ''app''], Directory), ([lit ''app'', lit ''Cargo.toml''], Regular [4] 420),
     ([lit ''bin''], Directory), ([lit ''bin'', lit ''kraken-ui''], Regular [1] 493)]"

definition sample_staged :: staged_dir where
  "sample_staged = [(lit ''Cargo.toml'', S_file [5] 420), (lit ''Cargo.lock'', S_file [5] 420),
     (lit ''src'', S_dir [(lit ''main.rs'', S_file [5] 420)])]"

definition sample_built :: staged_dir where
  "sample_built = sample_staged @ [(lit ''target'', S_dir [(lit ''release'', S_dir [(lit ''kraken-ui'', S_file [2] 493)])])]"

definition sample_cargo :: cargo_output where
  "sample_cargo = \<lparr>stdout_text = [], stderr_text = lit ''ok'', build_success = True, built = sample_built\<rparr>"

lemma sample_checks:
  "validate_source_root [lit ''app''] (nodes deployed) = Inr ()"
  "fetch_latest_release sample_world_of_releases = Inr \<lparr>tag_name = lit ''v2.0.0'', draft = False, prerelease = False\<rparr>"
  "stable_version_from_release sample_world_of_releases \<lparr>tag_name = lit ''v2.0.0'', draft = False, prerelease = False\<rparr> = Inr (stable 2 0 0)"
  "parse_version sample_world_of_releases CARGO_PKG_VERSION = Inr (stable 0 20 2)"
  "\<not> version_le sample_world_of_releases (stable 2 0 0) (stable 0 20 2)"
  "download_archive sample_world_of_releases (lit ''v2.0.0'') = Inr [3, 4]"
  "staging_error sample_world_of_releases = None"
  "unpack_release_archive (tar_entries sample_world_of_releases [3, 4]) = Inr sample_staged"
  "validate_staged_release sample_world_of_releases sample_staged (stable 2 0 0) = Inr ()"
  "cargo_build sample_world_of_releases sample_staged = Inr sample_cargo"
  "file_at sample_built [lit ''target'', lit ''release'', lit ''kraken-ui''] = Some ([2], 493)"
  "spawn_error sample_world_of_releases = None"
  by code_simp+

lemma sample_install:
  "install sample_updater sample_built [2] 493 deployed = (Inr (), snd (install sample_updater sample_built [2] 493 deployed))"
  "nodes (snd (install sample_updater sample_built [2] 493 deployed)) [lit ''bin'', lit ''kraken-ui''] = Some (Regular [2] 493)"
proof -
  have "fst (install sample_updater sample_built [2] 493 deployed) = Inr ()" by code_simp
  then show "install sample_updater sample_built [2] 493 deployed = (Inr (), snd (install sample_updater sample_built [2] 493 deployed))"
    by (metis prod.collapse)
  show "nodes (snd (install sample_updater sample_built [2] 493 deployed)) [lit ''bin'', lit ''kraken-ui''] = Some (Regular [2] 493)"
    by code_simp
qed

lemma sample_run:
  assumes "c = sample_updater\<lparr>server_handle := b\<rparr>"
  shows "run_disk (update_task sample_world_of_releases c deployed) = snd (install sample_updater sample_built [2] 493 deployed)"
    and "\<exists>m. Phase Installing m \<in> set (writes (update_task sample_world_of_releases c deployed))"
proof -
  have c: "allow_unsigned_source_update c" "source_root c = [lit ''app'']" "server_handle c = b"
    using assms by (simp_all add: sample_updater_def)
  have inst: "install c sample_built [2] 493 deployed = (Inr (), snd (install sample_updater sample_built [2] 493 deployed))"
    using sample_install(1) assms by (simp add: install_def)
  have stage: "rbind (download_and_stage sample_world_of_releases (lit ''v2.0.0'') (stable 2 0 0)) f r =
      f sample_staged (reports [Phase Downloading (lit ''Downloading Kraken UI v'' @ show_version sample_world_of_releases (stable 2 0 0) @ lit '' source package...''),
        Phase Extracting (lit ''Validating and extracting the release into an isolated staging directory...'')] r)" for f :: "staged_dir \<Rightarrow> unit run_m" and r
    by (simp add: download_and_stage_def rbind_def [of "download_and_stage _ _ _"] rbind_def [of "rbind _ _"] sample_checks)
  have built: "built sample_cargo = sample_built" "build_success sample_cargo" by (simp_all add: sample_cargo_def)
  note eval = update_task_def run_update_def stage compile_and_install_def restart_def context_of_def
    c inst built sample_checks
  show "run_disk (update_task sample_world_of_releases c deployed) = snd (install sample_updater sample_built [2] 493 deployed)"
    by (cases b) (simp_all add: eval)
  show "\<exists>m. Phase Installing m \<in> set (writes (update_task sample_world_of_releases c deployed))"
    by (cases b) (simp_all add: eval)
qed

theorem only_vetted_releases_installed_witness:
  "nodes (run_disk (update_task sample_world_of_releases sample_updater deployed)) [lit ''bin'', lit ''kraken-ui''] = Some (Regular [2] 493) \<and>
   (\<exists>target d out. vetted sample_world_of_releases sample_updater target d out)"
proof -
  have new: "nodes (run_disk (update_task sample_world_of_releases sample_updater deployed)) [lit ''bin'', lit ''kraken-ui''] =
      Some (Regular [2] 493)"
    using sample_run(1) [of sample_updater True] sample_install(2) by (simp add: sample_updater_def)
  moreover have "nodes deployed [lit ''bin'', lit ''kraken-ui''] = Some (Regular [1] 493)" by code_simp
  ultimately have "run_disk (update_task sample_world_of_releases sample_updater deployed) \<noteq> deployed" by auto
  then show ?thesis using new only_vetted_releases_installed by blast
qed

theorem installed_update_reported_failed_witness:
  "let r = update_task sample_world_of_releases (sample_updater\<lparr>server_handle := False\<rparr>) deployed in
   nodes (run_disk r) [lit ''bin'', lit ''kraken-ui''] = Some (Regular [2] 493) \<and>
   phase (write_all (writes r) (reset_for_update (initial_status True))) = Failed_update"
proof -
  let ?c = "sample_updater\<lparr>server_handle := False\<rparr>"
  let ?r = "update_task sample_world_of_releases ?c deployed"
  obtain m where "Phase Installing m \<in> set (writes ?r)" using sample_run(2) [OF refl] by blast
  moreover have "\<not> server_handle ?c" by simp
  moreover have "nodes (run_disk ?r) [lit ''bin'', lit ''kraken-ui''] = Some (Regular [2] 493)"
    using sample_run(1) [OF refl] sample_install(2) by simp
  ultimately show ?thesis using installed_update_reported_failed [of ?c] by (auto simp: Let_def)
qed

section \<open>One update at a time\<close>

text \<open>
  Requests to start an update and the tasks they spawn, interleaved. \<open>Start\<close> is the exchange of the flag;
  \<open>Reset_status\<close> the write that \<open>start\<close> makes before it spawns the task (the request may be dropped
  there, which \<open>Dropped\<close> says); \<open>Task_write\<close> the next write of the task; \<open>Task_end\<close> clears the flag.
  What the \<open>n\<close>-th task writes is a parameter, as \<open>update_task\<close> gives it.
\<close>

datatype update_event = Start | Reset_status nat | Dropped nat | Task_write nat | Task_end nat

datatype starter = Refused | Admitted | Task "status_write list" | Over

record update_system =
  status :: update_status
  running :: bool
  starters :: "starter list"

fun update_step :: "(nat \<Rightarrow> status_write list) \<Rightarrow> update_system \<Rightarrow> update_event \<Rightarrow> update_system option" where
  "update_step W st Start =
     Some (if running st then st\<lparr>starters := starters st @ [Refused]\<rparr>
           else st\<lparr>running := True, starters := starters st @ [Admitted]\<rparr>)"
| "update_step W st (Reset_status i) =
     (if i < length (starters st) \<and> starters st ! i = Admitted
      then Some (st\<lparr>status := write_status Reset (status st), starters := (starters st)[i := Task (W i)]\<rparr>) else None)"
| "update_step W st (Dropped i) =
     (if i < length (starters st) \<and> starters st ! i = Admitted
      then Some (st\<lparr>starters := (starters st)[i := Over]\<rparr>) else None)"
| "update_step W st (Task_write i) =
     (if i < length (starters st) then (case starters st ! i of
        Task (w # ws) \<Rightarrow> Some (st\<lparr>status := write_status w (status st), starters := (starters st)[i := Task ws]\<rparr>)
      | _ \<Rightarrow> None) else None)"
| "update_step W st (Task_end i) =
     (if i < length (starters st) \<and> starters st ! i = Task []
      then Some (st\<lparr>running := False, starters := (starters st)[i := Over]\<rparr>) else None)"

definition active :: "starter \<Rightarrow> bool" where
  "active t \<longleftrightarrow> (case t of Admitted \<Rightarrow> True | Task _ \<Rightarrow> True | _ \<Rightarrow> False)"

definition one_update :: "update_system \<Rightarrow> bool" where
  "one_update st \<longleftrightarrow> count_if active (starters st) \<le> (if running st then 1 else 0)"

lemma update_step_one: "one_update st \<Longrightarrow> update_step W st e = Some st' \<Longrightarrow> one_update st'"
proof (cases e)
  case Start
  assume "one_update st" "update_step W st e = Some st'"
  then show ?thesis using Start by (auto simp: one_update_def active_def split: if_splits)
next
  case (Reset_status i)
  assume "one_update st" "update_step W st e = Some st'"
  then show ?thesis using Reset_status count_if_update [of i "starters st" active "Task (W i)"]
    by (auto simp: one_update_def active_def split: if_splits)
next
  case (Dropped i)
  assume "one_update st" "update_step W st e = Some st'"
  then show ?thesis using Dropped count_if_update [of i "starters st" active Over]
    by (auto simp: one_update_def active_def split: if_splits)
next
  case (Task_write i)
  assume a: "one_update st" "update_step W st e = Some st'"
  then obtain w ws where t: "i < length (starters st)" "starters st ! i = Task (w # ws)"
      "st' = st\<lparr>status := write_status w (status st), starters := (starters st)[i := Task ws]\<rparr>"
    using Task_write by (auto split: if_splits starter.splits list.splits)
  then show ?thesis using a(1) count_if_update [of i "starters st" active "Task ws"]
    by (auto simp: one_update_def active_def split: if_splits)
next
  case (Task_end i)
  assume "one_update st" "update_step W st e = Some st'"
  then show ?thesis using Task_end count_if_update [of i "starters st" active Over]
    by (auto simp: one_update_def active_def split: if_splits)
qed

interpretation up: invariant_system "update_step W" one_update for W
  by unfold_locales (rule update_step_one)

definition idle_system :: "bool \<Rightarrow> update_system" where
  "idle_system allowed = \<lparr>status = initial_status allowed, running = False, starters = []\<rparr>"

lemma active_unique:
  assumes "count_if p xs \<le> 1" and "i < length xs" and "j < length xs" and "p (xs ! i)" and "p (xs ! j)"
  shows "i = j"
  using assms
proof (induction xs arbitrary: i j)
  case (Cons x xs)
  show ?case
  proof (cases i; cases j)
    fix n assume "i = 0" "j = Suc n"
    then show ?thesis using Cons.prems count_if_pos [of n xs p] by auto
  next
    fix n assume "i = Suc n" "j = 0"
    then show ?thesis using Cons.prems count_if_pos [of n xs p] by auto
  next
    fix n k assume "i = Suc n" "j = Suc k"
    then show ?thesis using Cons.prems Cons.IH [of n k] by (auto split: if_splits)
  qed simp
qed simp

text \<open>
  Property C19 (invariant): at most one update is under way. However requests to start one arrive, are
  dropped and interleave with the tasks, in every state reached at most one starter holds the flag or
  runs, only while the flag is set; so the writes to the status are those of one run at a time.
\<close>

theorem one_update_at_a_time:
  assumes "run_events (update_step W) (idle_system allowed) es = Some st"
  shows "\<forall>i < length (starters st). \<forall>j < length (starters st).
    active (starters st ! i) \<longrightarrow> active (starters st ! j) \<longrightarrow> i = j \<and> running st"
proof -
  have "one_update (idle_system allowed)" by (simp add: one_update_def idle_system_def)
  then have inv: "one_update st" by (rule up.run_inv [OF assms])
  show ?thesis
  proof (intro allI impI)
    fix i j
    assume a: "i < length (starters st)" "j < length (starters st)" "active (starters st ! i)" "active (starters st ! j)"
    then have "0 < count_if active (starters st)" by (intro count_if_pos)
    then have "running st" "count_if active (starters st) \<le> 1" using inv by (auto simp: one_update_def split: if_splits)
    then show "i = j \<and> running st" using active_unique a by blast
  qed
qed

theorem one_update_at_a_time_witness:
  "\<exists>st. run_events (update_step (\<lambda>_. [Phase Checking []])) (idle_system True)
      [Start, Start, Reset_status 0, Start, Task_write 0, Task_end 0, Start] = Some st \<and>
    starters st = [Over, Refused, Refused, Admitted] \<and> running st \<and>
    (\<forall>j < 4. active (starters st ! j) \<longrightarrow> j = 3)"
proof -
  have "map_option starters (run_events (update_step (\<lambda>_. [Phase Checking []])) (idle_system True)
      [Start, Start, Reset_status 0, Start, Task_write 0, Task_end 0, Start]) = Some [Over, Refused, Refused, Admitted]"
    by code_simp
  then obtain st where st: "run_events (update_step (\<lambda>_. [Phase Checking []])) (idle_system True)
      [Start, Start, Reset_status 0, Start, Task_write 0, Task_end 0, Start] = Some st"
      "starters st = [Over, Refused, Refused, Admitted]" unfolding map_option_eq_Some by blast
  have "active (starters st ! 3)" by (simp add: st(2) active_def)
  moreover have "length (starters st) = 4" by (simp add: st(2))
  ultimately have "\<forall>j < 4. active (starters st ! j) \<longrightarrow> j = 3 \<and> running st"
    using one_update_at_a_time [OF st(1), rule_format, of 3] by auto
  moreover from this have "running st" using \<open>active (starters st ! 3)\<close> by (auto dest!: spec [of _ 3])
  ultimately show ?thesis using st by (intro exI [of _ st]) blast
qed

text \<open>A request that is dropped between the flag and the task leaves the flag set for good.\<close>

lemma dropped_start_blocks_updates:
  "map_option starters (run_events (update_step W) (idle_system allowed) [Start, Dropped 0, Start]) = Some [Over, Refused] \<and>
   map_option running (run_events (update_step W) (idle_system allowed) [Start, Dropped 0, Start]) = Some True"
  by (simp add: idle_system_def)

end
