(* ===== verification/ConsoleState.thy ===== *)
theory ConsoleState
  imports Guard
begin

text \<open>
  The parts of the application that are neither its database nor the session: the calls to the firewall,
  the audit lines of the console and the updater. Sessions, step-up and the route guards leave them alone.
\<close>

definition audit_console :: "(ustr \<Rightarrow> console_event) \<Rightarrow> unit handler" where
  "audit_console e = hbind authenticated_username (\<lambda>name.
     update_app (\<lambda>a. a\<lparr>console_log := console_log a @ [e (case name of Some n \<Rightarrow> n | None \<Rightarrow> lit ''unknown'')]\<rparr>))"

text \<open>A part of the state that neither the session nor the database is.\<close>

definition aside :: "(app \<Rightarrow> 'b) \<Rightarrow> bool" where
  "aside f \<longleftrightarrow> (\<forall>a w s. f (a\<lparr>world := w\<rparr>) = f a \<and> f (a\<lparr>session := s\<rparr>) = f a)"

named_theorems aside_intros

lemma aside_fields [aside_intros]:
  "aside waf_calls" "aside console_log" "aside update_state" "aside update_running" "aside update_tasks"
  by (simp_all add: aside_def)

lemma aside_access: "aside f \<Longrightarrow> keeps f h \<Longrightarrow> keeps f (session_access h)"
  by (rule keeps_access) (auto simp: aside_def)

lemma aside_session [aside_intros]:
  assumes "aside f"
  shows "keeps f (session_insert k v)" and "keeps f (session_remove k)" and "keeps f (session_i32 k)" and "keeps f (session_i64 k)"
    and "keeps f (session_string k)" and "keeps f cycle_id" and "keeps f flush" and "keeps f (database p)"
proof -
  have eqs: "f (a\<lparr>world := w\<rparr>) = f a" "f (a\<lparr>session := s\<rparr>) = f a" "f (a\<lparr>session := s, world := w\<rparr>) = f a" for a w s
  proof -
    show "f (a\<lparr>world := w\<rparr>) = f a" "f (a\<lparr>session := s\<rparr>) = f a" using assms by (auto simp: aside_def)
    have "f ((a\<lparr>session := s\<rparr>)\<lparr>world := w\<rparr>) = f a" using assms unfolding aside_def by metis
    then show "f (a\<lparr>session := s, world := w\<rparr>) = f a" by simp
  qed
  show "keeps f (session_insert k v)" "keeps f (session_remove k)" "keeps f (session_i32 k)" "keeps f (session_i64 k)"
    "keeps f (session_string k)" "keeps f cycle_id" "keeps f flush"
    unfolding session_insert_def session_remove_def session_i32_def session_i64_def session_int_def session_string_def
      cycle_id_def flush_def
    by (rule aside_access [OF assms]; auto simp: keeps_def update_app_def eqs split: option.split session_value.split)+
  show "keeps f (database p)" by (auto simp: keeps_def database_def eqs split: prod.split)
qed

lemma aside_username [aside_intros]: "aside f \<Longrightarrow> keeps f authenticated_username"
  unfolding keeps_def authenticated_username_def
proof
  fix a
  assume f: "aside f"
  obtain r a1 where s: "session_string AUTHENTICATED_USERNAME a = (r, a1)" by (cases "session_string AUTHENTICATED_USERNAME a")
  then have "f a1 = f a" using keepsD [OF aside_session(5) [OF f]] by blast
  then show "f (snd (case session_string AUTHENTICATED_USERNAME a of (Inl x, a') \<Rightarrow> (Inr None, a') | (Inr x, a') \<Rightarrow> (Inr x, a'))) = f a"
    using s by (cases r) auto
qed

lemma aside_is_admin [aside_intros]: "aside f \<Longrightarrow> keeps f is_admin"
  unfolding is_admin_def authenticated_role_def authenticated_operator_type_def
  by (intro keeps_hbind aside_intros keeps_hret)

lemma aside_give_up [aside_intros]: "aside f \<Longrightarrow> keeps f give_up"
  unfolding give_up_def by (intro keeps_intros aside_intros)

lemma aside_authorized [aside_intros]:
  assumes "aside f"
  shows "keeps f (authorized_role E)"
proof -
  note asides = aside_session [OF assms] aside_give_up [OF assms]
  have "keeps f (rotate_session_id_if_due t)" for t
    unfolding rotate_session_id_if_due_def session_timestamp_def set_session_timestamp_def
    by (intro keeps_intros asides)
  then show ?thesis
    unfolding authorized_role_def authenticated_user_id_def authenticated_role_def authenticated_operator_type_def
      authenticated_authz_version_def session_timestamp_def
    by (intro keeps_intros asides)
qed

lemma aside_render [aside_intros]: "keeps f (render_with_csrf req v)"
  by (simp add: keeps_render)

lemma aside_step_up [aside_intros]:
  assumes "aside f"
  shows "keeps f (step_up_verify E pw code)"
proof -
  note asides = aside_session [OF assms]
  have "keeps f (step_up_row E pw code r)" for r
    unfolding step_up_row_def Let_def mark_reauthenticated_def reauthenticated_within_def session_timestamp_def
      set_session_timestamp_def
    by (intro keeps_intros asides)
  then show ?thesis
    unfolding step_up_verify_def authenticated_user_id_def by (intro keeps_intros asides)
qed

lemma run_endpoint_snd: "snd (run_endpoint h a) = snd (h a)"
  by (simp add: run_endpoint_def split: prod.split sum.split)

text \<open>When a guarded route changes such a part, the guard let the request in and the handler did it.\<close>

lemma guarded_change:
  assumes "aside f" and "guard E roles h a = (out, a')" and "f a' \<noteq> f a"
  obtains r where "granted_role E a = Some r" and "r \<in> set roles" and "a' = snd (h (snd (authorized_role E a)))"
    and "f (snd (authorized_role E a)) = f a"
proof -
  have kept: "f (snd (authorized_role E a)) = f a" using aside_authorized [OF assms(1)] by (simp add: keeps_def)
  show ?thesis
    using assms(2,3) kept that run_endpoint_snd [of h "snd (authorized_role E a)"] unfolding guard_result
    by (auto split: option.splits if_splits prod.splits)
qed

end
