(* ===== verification/RuleManagement.thy ===== *)
theory RuleManagement
  imports ConsoleState ControlPlane "HOL-Library.List_Lexorder"
begin

text \<open>
  \<open>src/controllers/rule_management.rs\<close>: the pages that list, switch and edit the firewall's rules. The
  handlers send requests through the client of theory ControlPlane; what was sent is part of the
  application state, so that the theorems can say which requests ever leave the console.
\<close>

section \<open>Environment and forms\<close>

record rule_env =
  outside_of :: outside
  rule_management :: "rule_service option"

record cmc_update_form =
  cu_csrf_token :: ustr
  cu_modules :: "(ustr \<times> bool) list"

record regex_update_form =
  ru_csrf_token :: ustr
  ru_content :: ustr

text \<open>A call to the firewall: the clock and fresh random bytes go into its token.\<close>

definition call_waf :: "(int \<Rightarrow> nat \<Rightarrow> 'a wire) \<Rightarrow> (ustr + 'a) handler" where
  "call_waf w = (\<lambda>a. case w (clock (world a)) (dice (world a)) (waf_calls a) of
     (r, cs) \<Rightarrow> (Inr r, a\<lparr>world := (world a)\<lparr>dice := dice (world a) + 1\<rparr>, waf_calls := cs\<rparr>))"

definition REGEX_SELECT_PATH :: ustr where "REGEX_SELECT_PATH = lit ''/kraken_ui/auth/rule_management/regex''"
definition MAX_MODULES :: nat where "MAX_MODULES = 1024"
definition WAF_ERROR_MESSAGE :: ustr where "WAF_ERROR_MESSAGE = lit ''error in WAF server''"

definition waf_error :: response where
  "waf_error = Error_json 502 WAF_ERROR_MESSAGE"

definition not_configured :: response where
  "not_configured = Error_json 503 (lit ''Rule management is not configured'')"

definition is_valid_module_name :: "ustr \<Rightarrow> bool" where
  "is_valid_module_name name \<longleftrightarrow>
     name \<noteq> [] \<and> utf8_len name \<le> 128 \<and> list_all (\<lambda>c. is_ascii_alnum c \<or> c = 95 \<or> c = 45) name"

section \<open>Modules\<close>

definition rule_frame :: "page_frame handler" where
  "rule_frame = hbind is_admin (\<lambda>admin.
     hret \<lparr>active_page = RULE_MANAGEMENT, show_acl = admin, show_rule_management = True\<rparr>)"

definition cmc_page :: "rule_env \<Rightarrow> request \<Rightarrow> response handler" where
  "cmc_page R req =
     (if \<not> mints_token req then hfail Csrf_token_error
      else hbind rule_frame (\<lambda>frame.
        hret (Rendered (Rule_management_cmc \<lparr>ct_frame = frame, ct_configured = (rule_management R \<noteq> None)\<rparr>))))"

definition api_cmc_list :: "rule_env \<Rightarrow> response handler" where
  "api_cmc_list R =
     (case rule_management R of
        None \<Rightarrow> hret not_configured
      | Some s \<Rightarrow> hbind (call_waf (list_cmc (outside_of R) s)) (\<lambda>r. case r of
            Inr modules \<Rightarrow> hret (Cmc_list_json (sort_key fst modules))
          | Inl _ \<Rightarrow> hret waf_error))"

definition cmc_update :: "rule_env \<Rightarrow> request \<Rightarrow> cmc_update_form \<Rightarrow> response handler" where
  "cmc_update R req form =
     (if \<not> csrf_verify req (cu_csrf_token form) then hret (Error_json 403 (lit ''invalid csrf token''))
      else case rule_management R of
        None \<Rightarrow> hret not_configured
      | Some s \<Rightarrow>
          if cu_modules form = [] \<or> MAX_MODULES < length (cu_modules form) \<or>
             \<not> list_all (\<lambda>(name, _). is_valid_module_name name) (cu_modules form)
          then hret (Error_json 400 (lit ''invalid module set''))
          else hbind (call_waf (\<lambda>t n. update_cmc (outside_of R) s t n (cu_modules form))) (\<lambda>r. case r of
            Inl _ \<Rightarrow> hret waf_error
          | Inr out \<Rightarrow>
              hbind (audit_console (\<lambda>user. Cmc_rules_update user (outcome_enabled out) (outcome_disabled out))) (\<lambda>_.
              hret (Cmc_updated_json (outcome_enabled out) (outcome_disabled out)))))"

section \<open>Rule files\<close>

definition regex_select_page :: "rule_env \<Rightarrow> request \<Rightarrow> response handler" where
  "regex_select_page R req =
     (if \<not> mints_token req then hfail Csrf_token_error
      else hbind rule_frame (\<lambda>frame.
        hret (Rendered (Rule_management_regex_select \<lparr>rs_frame = frame, rs_configured = (rule_management R \<noteq> None),
          rs_rule_lists = map rule_list_str ALL_LISTS\<rparr>))))"

definition regex_edit_page :: "rule_env \<Rightarrow> request \<Rightarrow> ustr \<Rightarrow> response handler" where
  "regex_edit_page R req rule =
     (case parse_rule_list rule of
        None \<Rightarrow> hret (Redirect REGEX_SELECT_PATH)
      | Some l \<Rightarrow>
          if \<not> mints_token req then hfail Csrf_token_error
          else hbind (case rule_management R of
              None \<Rightarrow> hret ([], False, lit ''Rule management is not configured.'')
            | Some s \<Rightarrow> hbind (call_waf (\<lambda>t n. view_regex (outside_of R) s t n (rule_list_str l))) (\<lambda>r. case r of
                Inr content \<Rightarrow> hret (content, True, [])
              | Inl _ \<Rightarrow> hret ([], False, WAF_ERROR_MESSAGE)))
          (\<lambda>(content, loaded, message). hbind rule_frame (\<lambda>frame.
            hret (Rendered (Rule_management_regex_edit \<lparr>re_frame = frame, re_rule_name = rule_list_str l,
              re_editor_mode = editor_mode l, re_content = content, re_loaded = loaded, re_error_message = message\<rparr>)))))"

definition regex_update :: "rule_env \<Rightarrow> request \<Rightarrow> ustr \<Rightarrow> regex_update_form \<Rightarrow> response handler" where
  "regex_update R req rule form =
     (if \<not> csrf_verify req (ru_csrf_token form) then hret (Error_json 403 (lit ''invalid csrf token''))
      else case parse_rule_list rule of
        None \<Rightarrow> hret (Error_json 400 (lit ''unknown rule list''))
      | Some l \<Rightarrow> (case rule_management R of
          None \<Rightarrow> hret not_configured
        | Some s \<Rightarrow> (case build_update_body (json_of (outside_of R)) l (ru_content form) of
            Inl e \<Rightarrow> hret (Error_json 400 (show_rule_error e))
          | Inr body \<Rightarrow>
              hbind (call_waf (\<lambda>t n. update_regex (outside_of R) s t n (rule_list_str l) body)) (\<lambda>r. case r of
                Inl _ \<Rightarrow> hret waf_error
              | Inr out \<Rightarrow>
                  hbind (audit_console (\<lambda>user. Regex_rules_update user (rule_list_str l) (regex_rules_written out))) (\<lambda>_.
                  hret (Regex_updated_json (rule_list_str l) (regex_rules_written out)))))))"

section \<open>What is sent\<close>

text \<open>A request with a token made for it.\<close>

definition signed_by :: "outside \<Rightarrow> rule_service \<Rightarrow> waf_call \<Rightarrow> ustr \<Rightarrow> bool" where
  "signed_by X s c path \<longleftrightarrow>
     call_url c = endpoint s @ path \<and>
     (\<exists>t seed. rorschach_token X s t seed (call_method c) path (call_body c) = Inr (call_authorization c))"

definition sends :: "(waf_call \<Rightarrow> bool) \<Rightarrow> 'a wire \<Rightarrow> bool" where
  "sends P w \<longleftrightarrow> (\<forall>cs. snd (w cs) = cs \<or> (\<exists>c. P c \<and> snd (w cs) = c # cs))"

lemma sends_signed_call:
  "sends (\<lambda>c. signed_by X s c path \<and> call_method c = method \<and> call_body c = body)
     (signed_call X s t seed method path ty body what)"
  unfolding sends_def
proof
  fix cs
  show "snd (signed_call X s t seed method path ty body what cs) = cs \<or>
    (\<exists>c. (signed_by X s c path \<and> call_method c = method \<and> call_body c = body) \<and>
       snd (signed_call X s t seed method path ty body what cs) = c # cs)"
  proof (cases "rorschach_token X s t seed method path body")
    case (Inl e)
    then show ?thesis by (simp add: signed_call_def wbind_def lift_sum_def wfail_def)
  next
    case (Inr h)
    let ?c = "\<lparr>call_method = method, call_url = endpoint s @ path, call_authorization = h, call_content_type = ty, call_body = body\<rparr>"
    have "snd (signed_call X s t seed method path ty body what cs) = ?c # cs"
      using Inr by (cases "answer_of X (?c # cs)")
        (auto simp: signed_call_def wbind_def lift_sum_def wret_def wfail_def send_def)
    moreover have "signed_by X s ?c path" using Inr by (auto simp: signed_by_def)
    ultimately show ?thesis by (intro disjI2 exI [of _ ?c]) simp
  qed
qed

lemma sends_wbind:
  assumes "sends P p" and "\<And>x cs. snd (k x cs) = cs"
  shows "sends P (wbind p k)"
  unfolding sends_def
proof
  fix cs
  obtain r cs1 where p: "p cs = (r, cs1)" by (cases "p cs")
  then have "snd (wbind p k cs) = cs1" using assms(2) by (cases r) (simp_all add: wbind_def)
  then show "snd (wbind p k cs) = cs \<or> (\<exists>c. P c \<and> snd (wbind p k cs) = c # cs)"
    using assms(1) p unfolding sends_def by (metis snd_conv)
qed

lemma sends_wfail: "sends P (wfail e)"
  by (simp add: sends_def wfail_def)

lemma sends_update_cmc:
  "sends (\<lambda>c. signed_by X s c UPDATE_PATH \<and> call_method c = lit ''POST'' \<and>
      to_text (json_of X) (cmc_update_json desired) = Inr (call_body c)) (update_cmc X s t seed desired)"
proof (cases "to_text (json_of X) (cmc_update_json desired)")
  case (Inr body)
  have "sends (\<lambda>c. signed_by X s c UPDATE_PATH \<and> call_method c = lit ''POST'' \<and> call_body c = body) (update_cmc X s t seed desired)"
    unfolding update_cmc_def Inr by (auto intro!: sends_wbind sends_signed_call simp: wret_def)
  then show ?thesis unfolding Inr by (simp add: eq_commute)
qed (simp add: update_cmc_def sends_wfail)

lemma sends_update_regex:
  "sends (\<lambda>c. signed_by X s c (REGEX_UPDATE_PREFIX @ rule) \<and> call_method c = lit ''POST'' \<and> call_body c = body)
     (update_regex X s t seed rule body)"
  unfolding update_regex_def by (auto intro!: sends_wbind sends_signed_call simp: wret_def)

text \<open>Handlers around a call.\<close>

definition hsends :: "(waf_call \<Rightarrow> bool) \<Rightarrow> 'a handler \<Rightarrow> bool" where
  "hsends P h \<longleftrightarrow> (\<forall>a. waf_calls (snd (h a)) = waf_calls a \<or> (\<exists>c. P c \<and> waf_calls (snd (h a)) = c # waf_calls a))"

lemma hsends_keeps: "keeps waf_calls h \<Longrightarrow> hsends P h"
  by (simp add: hsends_def keeps_def)

lemma hsends_call_waf:
  assumes "\<And>t n. sends P (w t n)"
  shows "hsends P (call_waf w)"
  unfolding hsends_def
proof
  fix a :: app
  obtain r cs where w: "w (clock (world a)) (dice (world a)) (waf_calls a) = (r, cs)" by fastforce
  then have "waf_calls (snd (call_waf w a)) = cs" by (simp add: call_waf_def)
  then show "waf_calls (snd (call_waf w a)) = waf_calls a \<or> (\<exists>c. P c \<and> waf_calls (snd (call_waf w a)) = c # waf_calls a)"
    using assms w unfolding sends_def by (metis snd_conv)
qed

lemma hsends_then:
  assumes "hsends P p" and "\<And>x. keeps waf_calls (f x)"
  shows "hsends P (hbind p f)"
  unfolding hsends_def
proof
  fix a :: app
  obtain r a1 where p: "p a = (r, a1)" by (cases "p a")
  then have "waf_calls (snd (hbind p f a)) = waf_calls a1"
    using assms(2) by (cases r) (simp_all add: hbind_def keeps_def)
  then show "waf_calls (snd (hbind p f a)) = waf_calls a \<or> (\<exists>c. P c \<and> waf_calls (snd (hbind p f a)) = c # waf_calls a)"
    using assms(1) p unfolding hsends_def by (metis snd_conv)
qed

lemma hsends_mono: "hsends P h \<Longrightarrow> (\<And>c. P c \<Longrightarrow> Q c) \<Longrightarrow> hsends Q h"
  unfolding hsends_def by metis

lemma hsends_hret: "hsends P (hret x)"
  by (simp add: hsends_def hret_def)

lemma keeps_calls_audit: "keeps waf_calls (audit_console e)"
  unfolding audit_console_def by (intro keeps_hbind aside_intros keeps_update) simp

section \<open>Only checked changes reach the firewall\<close>

text \<open>A change of modules and a change of a rule file as they may leave the console.\<close>

definition module_change :: "rule_env \<Rightarrow> request \<Rightarrow> cmc_update_form \<Rightarrow> waf_call \<Rightarrow> bool" where
  "module_change R req form c \<longleftrightarrow>
     csrf_verify req (cu_csrf_token form) \<and> cu_modules form \<noteq> [] \<and> length (cu_modules form) \<le> MAX_MODULES \<and>
     list_all (\<lambda>(name, _). is_valid_module_name name) (cu_modules form) \<and>
     call_method c = lit ''POST'' \<and> to_text (json_of (outside_of R)) (cmc_update_json (cu_modules form)) = Inr (call_body c) \<and>
     (\<exists>s. rule_management R = Some s \<and> signed_by (outside_of R) s c UPDATE_PATH)"

definition rule_file_change :: "rule_env \<Rightarrow> request \<Rightarrow> ustr \<Rightarrow> regex_update_form \<Rightarrow> waf_call \<Rightarrow> bool" where
  "rule_file_change R req rule form c \<longleftrightarrow>
     csrf_verify req (ru_csrf_token form) \<and> call_method c = lit ''POST'' \<and>
     (\<exists>s l. rule_management R = Some s \<and> rule = rule_list_str l \<and>
        build_update_body (json_of (outside_of R)) l (ru_content form) = Inr (call_body c) \<and>
        signed_by (outside_of R) s c (REGEX_UPDATE_PREFIX @ rule_list_str l))"

lemma cmc_update_sends: "hsends (module_change R req form) (cmc_update R req form)"
proof (cases "csrf_verify req (cu_csrf_token form) \<and> cu_modules form \<noteq> [] \<and> length (cu_modules form) \<le> MAX_MODULES \<and>
    list_all (\<lambda>(name, _). is_valid_module_name name) (cu_modules form) \<and> rule_management R \<noteq> None")
  case True
  then obtain s where s: "rule_management R = Some s" by auto
  have call: "hsends (module_change R req form) (call_waf (\<lambda>t n. update_cmc (outside_of R) s t n (cu_modules form)))"
    by (rule hsends_mono [OF hsends_call_waf [OF sends_update_cmc]]) (use True s in \<open>auto simp: module_change_def\<close>)
  have "cmc_update R req form = hbind (call_waf (\<lambda>t n. update_cmc (outside_of R) s t n (cu_modules form))) (\<lambda>r. case r of
      Inl _ \<Rightarrow> hret waf_error
    | Inr out \<Rightarrow>
        hbind (audit_console (\<lambda>user. Cmc_rules_update user (outcome_enabled out) (outcome_disabled out))) (\<lambda>_.
        hret (Cmc_updated_json (outcome_enabled out) (outcome_disabled out))))"
    using True s by (simp add: cmc_update_def)
  then show ?thesis
    by (simp only:) (rule hsends_then [OF call], auto split: sum.split intro!: keeps_hbind keeps_hret keeps_calls_audit)
next
  case False
  then show ?thesis by (auto simp: cmc_update_def hsends_hret split: option.split)
qed

lemma regex_update_sends: "hsends (rule_file_change R req rule form) (regex_update R req rule form)"
proof (cases "\<exists>s l body. csrf_verify req (ru_csrf_token form) \<and> rule_management R = Some s \<and> parse_rule_list rule = Some l \<and>
    build_update_body (json_of (outside_of R)) l (ru_content form) = Inr body")
  case True
  then obtain s l body where ok: "csrf_verify req (ru_csrf_token form)" "rule_management R = Some s" "parse_rule_list rule = Some l"
      "build_update_body (json_of (outside_of R)) l (ru_content form) = Inr body" by blast
  then have rule: "rule = rule_list_str l" by (simp add: parse_rule_list_iff)
  have call: "hsends (rule_file_change R req rule form) (call_waf (\<lambda>t n. update_regex (outside_of R) s t n (rule_list_str l) body))"
    by (rule hsends_mono [OF hsends_call_waf [OF sends_update_regex]]) (use ok rule in \<open>auto simp: rule_file_change_def\<close>)
  have "regex_update R req rule form =
    hbind (call_waf (\<lambda>t n. update_regex (outside_of R) s t n (rule_list_str l) body)) (\<lambda>r. case r of
      Inl _ \<Rightarrow> hret waf_error
    | Inr out \<Rightarrow>
        hbind (audit_console (\<lambda>user. Regex_rules_update user (rule_list_str l) (regex_rules_written out))) (\<lambda>_.
        hret (Regex_updated_json (rule_list_str l) (regex_rules_written out))))"
    using ok by (simp add: regex_update_def)
  then show ?thesis
    by (simp only:) (rule hsends_then [OF call], auto split: sum.split intro!: keeps_hbind keeps_hret keeps_calls_audit)
next
  case False
  then show ?thesis by (auto simp: regex_update_def hsends_hret split: option.split sum.split)
qed

lemma operator_route_sends:
  assumes "hsends P (serve e)" and route: "(m, path, Operator_grade, e) \<in> set all_routes"
    and run: "dispatch E serve m path a = Some (out, a')" and "waf_calls a' \<noteq> waf_calls a"
  shows "\<exists>c. P c \<and> waf_calls a' = c # waf_calls a \<and> granted_role E a \<in> {Some Admin, Some Operator}"
proof -
  have guarded: "guard E [Admin, Operator] (serve e) a = (out, a')"
    using run by (simp add: dispatch_def find_route [OF route] require_operator_def)
  from aside_fields(1) guarded assms(4) obtain r where r: "granted_role E a = Some r" "r \<in> set [Admin, Operator]"
    "a' = snd (serve e (snd (authorized_role E a)))" "waf_calls (snd (authorized_role E a)) = waf_calls a"
    by (rule guarded_change)
  then have "\<exists>c. P c \<and> waf_calls a' = c # waf_calls a" using assms(1,4) unfolding hsends_def by metis
  then show ?thesis using r(1,2) by auto
qed

text \<open>
  Property C9 (safety): what reaches the firewall was checked. A request to either route that changes rules
  sends the firewall at most one request, and if it does, the guard has granted the caller the role
  of an operator or administrator, the CSRF token was right, and what is sent is a signed POST: of a
  nonempty set of at most 1024 well-named modules, or of one of the five rule files, with a body that
  passed the check of that file, to the path of that file.
\<close>

theorem firewall_changes_are_checked:
  assumes "serve Rule_management_cmc_update = cmc_update R req cf"
    and "serve Rule_management_regex_update = regex_update R req rule rf"
    and "dispatch E serve Post path a = Some (out, a')"
    and "path \<in> {lit ''/kraken_ui/auth/rule_management/cmc/update'', lit ''/kraken_ui/auth/rule_management/regex/update''}"
    and "waf_calls a' \<noteq> waf_calls a"
  shows "\<exists>c. waf_calls a' = c # waf_calls a \<and> granted_role E a \<in> {Some Admin, Some Operator} \<and>
    (module_change R req cf c \<or> rule_file_change R req rule rf c)"
proof -
  have sent: "hsends (module_change R req cf) (serve Rule_management_cmc_update)"
    "hsends (rule_file_change R req rule rf) (serve Rule_management_regex_update)"
    unfolding assms(1,2) by (rule cmc_update_sends regex_update_sends)+
  have routes: "(Post, lit ''/kraken_ui/auth/rule_management/cmc/update'', Operator_grade, Rule_management_cmc_update) \<in> set all_routes"
    "(Post, lit ''/kraken_ui/auth/rule_management/regex/update'', Operator_grade, Rule_management_regex_update) \<in> set all_routes"
    by (simp_all add: all_routes_def in_group_def operator_routes_def)
  show ?thesis
    using assms(3-5) operator_route_sends [where serve = serve, OF sent(1) routes(1)] operator_route_sends [where serve = serve, OF sent(2) routes(2)]
    by blast
qed

text \<open>One module switched on by an administrator.\<close>

definition switch_module :: cmc_update_form where
  "switch_module = \<lparr>cu_csrf_token = lit ''tok'', cu_modules = [(lit ''anti-xss'', True)]\<rparr>"

definition sample_rules :: rule_env where
  "sample_rules = \<lparr>outside_of = sample_outside\<lparr>json_of := one_text (cmc_update_json (cu_modules switch_module))\<rparr>,
     rule_management = Some sample_service\<rparr>"

definition serve_switch :: "Guard.endpoint \<Rightarrow> response handler" where
  "serve_switch e = (if e = Rule_management_cmc_update then cmc_update sample_rules sample_request switch_module
     else regex_update sample_rules sample_request (lit ''body_regex.json'') \<lparr>ru_csrf_token = [], ru_content = []\<rparr>)"

theorem firewall_changes_are_checked_witness:
  "\<exists>c. map_option (\<lambda>(_, a). waf_calls a) (dispatch sample_env serve_switch Post
      (lit ''/kraken_ui/auth/rule_management/cmc/update'') (sample_app sample_world sample_session)) = Some [c] \<and>
    granted_role sample_env (sample_app sample_world sample_session) \<in> {Some Admin, Some Operator} \<and>
    call_url c = lit ''http://127.0.0.1:4342'' @ UPDATE_PATH"
proof -
  let ?a = "sample_app sample_world sample_session"
  have serve: "serve_switch Rule_management_cmc_update = cmc_update sample_rules sample_request switch_module"
    "serve_switch Rule_management_regex_update =
      regex_update sample_rules sample_request (lit ''body_regex.json'') \<lparr>ru_csrf_token = [], ru_content = []\<rparr>"
    by (simp_all add: serve_switch_def)
  have "map_option (\<lambda>(_, a). map call_url (waf_calls a)) (dispatch sample_env serve_switch Post
      (lit ''/kraken_ui/auth/rule_management/cmc/update'') ?a) = Some [lit ''http://127.0.0.1:4342'' @ UPDATE_PATH]"
    by code_simp
  then obtain out a' where run: "dispatch sample_env serve_switch Post (lit ''/kraken_ui/auth/rule_management/cmc/update'') ?a =
      Some (out, a')" and url: "map call_url (waf_calls a') = [lit ''http://127.0.0.1:4342'' @ UPDATE_PATH]" by auto
  moreover have "waf_calls ?a = []" by (simp add: sample_app_def)
  ultimately show ?thesis
    using firewall_changes_are_checked [OF serve run] by fastforce
qed

end
