(* ===== verification/UpdatePage.thy ===== *)
theory UpdatePage
  imports ConsoleState
begin

text \<open>
  \<open>src/controllers/update.rs\<close> and the start of an update (\<open>UpdateService::start\<close> of
  \<open>src/services/source_update.rs\<close>): the page, the step-up in front of a start, and the status. The task
  that a start spawns is that of theory SourceUpdate; here it is a count of tasks.
\<close>

section \<open>Handlers\<close>

record update_form =
  kf_csrf_token :: ustr
  kf_current_password :: ustr
  kf_mfa_code :: ustr

definition update_page :: "request \<Rightarrow> response handler" where
  "update_page req = render_with_csrf req (Update_kraken_ui
     \<lparr>uk_frame = \<lparr>active_page = UPDATES, show_acl = True, show_rule_management = True\<rparr>,
      uk_current_version = CARGO_PKG_VERSION\<rparr>)"

text \<open>The exchange of the flag, the reset of the status and the spawning of the task.\<close>

definition start_update :: "bool handler" where
  "start_update = hbind (read_app update_running) (\<lambda>busy.
     if busy then hret False
     else hbind (update_app (\<lambda>a. a\<lparr>update_running := True\<rparr>)) (\<lambda>_.
       hbind (update_app (\<lambda>a. a\<lparr>update_state := reset_for_update (update_state a)\<rparr>)) (\<lambda>_.
       hbind (update_app (\<lambda>a. a\<lparr>update_tasks := update_tasks a + 1\<rparr>)) (\<lambda>_.
       hret True))))"

definition update_status_answer :: "response handler" where
  "update_status_answer = hbind (read_app update_state) (\<lambda>s. hret (Update_status_json s))"

definition started_update :: "response handler" where
  "started_update = hbind start_update (\<lambda>started.
     hbind (if started then audit_console Source_update_started else hret ()) (\<lambda>_.
     update_status_answer))"

definition update_start :: "auth_env \<Rightarrow> request \<Rightarrow> update_form \<Rightarrow> response handler" where
  "update_start E req form =
     (if \<not> csrf_verify req (kf_csrf_token form) then hret csrf_error_response
      else hbind (step_up_verify E (kf_current_password form) (kf_mfa_code form)) (\<lambda>result. case result of
        Verified _ \<Rightarrow> started_update
      | Unauthorized \<Rightarrow> hret (Status 401 (lit ''Unauthorized''))
      | Rejected message \<Rightarrow> hret (Status 403 message)))"

section \<open>What a start does\<close>

text \<open>The updater as a whole: its status, its flag and its tasks.\<close>

definition updater :: "app \<Rightarrow> update_status \<times> bool \<times> nat" where
  "updater a = (update_state a, update_running a, update_tasks a)"

lemma aside_updater [aside_intros]: "aside updater"
  using aside_fields by (simp add: aside_def updater_def)

lemma keeps_updater_audit: "keeps updater (audit_console e)"
  unfolding audit_console_def by (intro keeps_hbind aside_intros keeps_update) (simp add: updater_def)

lemma start_update_result:
  "start_update a = (Inr (\<not> update_running a), if update_running a then a
     else a\<lparr>update_running := True, update_state := reset_for_update (update_state a), update_tasks := update_tasks a + 1\<rparr>)"
  by (simp add: start_update_def hbind_def read_app_def update_app_def hret_def)

lemma updater_started:
  "updater (snd (started_update a)) = (if update_running a then updater a
     else (reset_for_update (update_state a), True, update_tasks a + 1))"
proof -
  let ?rest = "hbind (if \<not> update_running a then audit_console Source_update_started else hret ()) (\<lambda>_. update_status_answer)"
  have "keeps updater ?rest"
    unfolding update_status_answer_def by (intro keeps_intros keeps_updater_audit)
  then have "updater (snd (started_update a)) = updater (snd (start_update a))"
    by (simp add: started_update_def hbind_def [of start_update] start_update_result keeps_def)
  then show ?thesis by (simp add: start_update_result updater_def)
qed

lemma update_start_changes:
  assumes "updater (snd (update_start E req form a)) \<noteq> updater a"
  shows "csrf_verify req (kf_csrf_token form) \<and>
    (\<exists>row. stepped_up E (kf_current_password form) (kf_mfa_code form) (data (session a)) (tables (world a)) (clock (world a)) row) \<and>
    \<not> update_running a \<and>
    updater (snd (update_start E req form a)) = (reset_for_update (update_state a), True, update_tasks a + 1)"
proof -
  have csrf: "csrf_verify req (kf_csrf_token form)"
    using assms by (auto simp: update_start_def hret_def split: if_splits)
  obtain r a1 where s: "step_up_verify E (kf_current_password form) (kf_mfa_code form) a = (r, a1)" by fastforce
  have same: "updater a1 = updater a" using keepsD [OF aside_step_up [OF aside_updater] s] .
  have "r \<in> Inr ` range Verified"
  proof (rule ccontr)
    assume "r \<notin> Inr ` range Verified"
    then have "snd (update_start E req form a) = a1"
      by (cases r) (auto simp: update_start_def csrf hbind_def s hret_def split: step_up_outcome.splits)
    then show False using assms same by simp
  qed
  then obtain row where r: "r = Inr (Verified row)" by auto
  have "snd (update_start E req form a) = snd (started_update a1)"
    by (simp add: update_start_def csrf hbind_def [of "step_up_verify _ _ _"] s r)
  moreover have "update_running a1 = update_running a" "update_state a1 = update_state a" "update_tasks a1 = update_tasks a"
    using same by (simp_all add: updater_def)
  ultimately show ?thesis
    using csrf assms same updater_started [of a1] step_up_result [OF s [unfolded r]] by (auto split: if_splits)
qed

text \<open>
  Only an administrator who has just stepped up starts an update. If a request to the
  route that starts updates changes the updater in any way, then the guard has granted the role of an
  administrator, the CSRF token was right, the operator of the session (as the guard leaves it) has
  given the current password and, with a second factor, an accepted code, and no update was under way;
  and then one task is started, on a status that is reset and with the flag set.
\<close>

theorem updates_start_under_step_up:
  assumes "serve Update_start = update_start E req form"
    and "dispatch E serve Post (lit ''/kraken_ui/auth/update_kraken_ui/start'') a = Some (out, a')"
    and "updater a' \<noteq> updater a"
  shows "granted_role E a = Some Admin \<and> csrf_verify req (kf_csrf_token form) \<and>
    (\<exists>row a1. a1 = snd (authorized_role E a) \<and>
      stepped_up E (kf_current_password form) (kf_mfa_code form) (data (session a1)) (tables (world a1)) (clock (world a1)) row) \<and>
    \<not> update_running a \<and> updater a' = (reset_for_update (update_state a), True, update_tasks a + 1)"
proof -
  let ?a1 = "snd (authorized_role E a)"
  have route: "(Post, lit ''/kraken_ui/auth/update_kraken_ui/start'', Admin_only, Update_start) \<in> set all_routes"
    by (simp add: all_routes_def in_group_def admin_routes_def)
  have "guard E [Admin] (update_start E req form) a = (out, a')"
    using assms(2) by (simp add: dispatch_def find_route [OF route] require_admin_def assms(1))
  with aside_updater obtain role where g: "granted_role E a = Some role" "role \<in> set [Admin]"
    "a' = snd (update_start E req form ?a1)" "updater ?a1 = updater a"
    using assms(3) by (rule guarded_change)
  then have "updater (snd (update_start E req form ?a1)) \<noteq> updater ?a1" using assms(3) by simp
  from update_start_changes [OF this] g show ?thesis by (auto simp: updater_def)
qed

definition start_now :: update_form where
  "start_now = \<lparr>kf_csrf_token = lit ''tok'', kf_current_password = lit ''pw'', kf_mfa_code = lit ''000002''\<rparr>"

theorem updates_start_under_step_up_witness:
  "map_option (\<lambda>(_, a). (update_running a, update_tasks a)) (dispatch sample_env
      (\<lambda>_. update_start sample_env sample_request start_now) Post (lit ''/kraken_ui/auth/update_kraken_ui/start'')
      (sample_app sample_world sample_session)) = Some (True, 1) \<and>
   granted_role sample_env (sample_app sample_world sample_session) = Some Admin \<and>
   (\<exists>d t at row. stepped_up sample_env (lit ''pw'') (lit ''000002'') d t at row)"
proof -
  let ?a = "sample_app sample_world sample_session"
  have "map_option (\<lambda>(_, a). (update_running a, update_tasks a)) (dispatch sample_env
      (\<lambda>_. update_start sample_env sample_request start_now) Post (lit ''/kraken_ui/auth/update_kraken_ui/start'') ?a) =
      Some (True, 1)" by code_simp
  moreover from this obtain out a' where run: "dispatch sample_env (\<lambda>_. update_start sample_env sample_request start_now)
      Post (lit ''/kraken_ui/auth/update_kraken_ui/start'') ?a = Some (out, a')" "update_running a'" by auto
  moreover have "updater a' \<noteq> updater ?a" using run(2) by (simp add: updater_def sample_app_def)
  from updates_start_under_step_up [OF refl run(1) this]
  have "granted_role sample_env ?a = Some Admin \<and> (\<exists>d t at row. stepped_up sample_env (lit ''pw'') (lit ''000002'') d t at row)"
    by (auto simp: start_now_def)
  ultimately show ?thesis by simp
qed

end
