(* ===== verification/Secrets.thy ===== *)
theory Secrets
  imports ControlPlane PasswordCrypto
begin

text \<open>
  Where the secrets come from: \<open>src/secrets.rs\<close>, the files with keys (\<open>src/security/mod.rs\<close>), the keys
  that the start of the program loads (\<open>src/app.rs\<close>, \<open>src/services/password_crypto.rs\<close>), and the tool that
  writes the secrets shared with the firewall (\<open>src/bin/rorschach_keygen.rs\<close>). Environment and files are
  a record; a file has its permission bits and its text, \<open>None\<close> where it cannot be read as text.
\<close>

section \<open>Environment and files\<close>

record secret_file =
  file_mode :: nat
  file_text :: "ustr option"

record host =
  env_var :: "ustr \<Rightarrow> ustr option"
  file_of :: "ustr \<Rightarrow> secret_file option"

text \<open>The bits \<open>0o077\<close> are the six lowest.\<close>

definition file_has_loose_permissions :: "nat \<Rightarrow> bool" where
  "file_has_loose_permissions mode \<longleftrightarrow> mode mod 64 \<noteq> 0"

definition read_protected_file :: "host \<Rightarrow> ustr \<Rightarrow> ustr + ustr" where
  "read_protected_file H path =
     (case file_of H path of
        None \<Rightarrow> Inl (lit ''unable to read key metadata'')
      | Some f \<Rightarrow>
          if file_has_loose_permissions (file_mode f) then Inl (lit ''key file must not be accessible by group or others'')
          else (case file_text f of None \<Rightarrow> Inl (lit ''unable to read key file'') | Some t \<Rightarrow> Inr t))"

definition join_path :: "ustr \<Rightarrow> ustr \<Rightarrow> ustr" where
  "join_path dir name = (if dir = [] \<or> last dir = 47 then dir @ name else dir @ 47 # name)"

section \<open>Loading a secret\<close>

definition SECRETS_DIR :: ustr where "SECRETS_DIR = lit ''/run/secrets/krakenwaf''"

datatype enforcement = Strict | Warn_only

datatype secret_class = Secret_loaded ustr | Secret_rejected | Secret_absent

definition non_empty_secret :: "ustr option \<Rightarrow> ustr option" where
  "non_empty_secret v = (case v of None \<Rightarrow> None | Some s \<Rightarrow> if trim s = [] then None else Some (trim s))"

definition classify_secret_file :: "host \<Rightarrow> ustr \<Rightarrow> enforcement \<Rightarrow> secret_class" where
  "classify_secret_file H path enf =
     (case file_of H path of
        None \<Rightarrow> Secret_absent
      | Some f \<Rightarrow>
          if file_has_loose_permissions (file_mode f) \<and> enf = Strict then Secret_rejected
          else (case non_empty_secret (file_text f) of Some s \<Rightarrow> Secret_loaded s | None \<Rightarrow> Secret_absent))"

definition load_secret_from_sources :: "host \<Rightarrow> ustr option \<Rightarrow> ustr \<Rightarrow> ustr option \<Rightarrow> ustr option" where
  "load_secret_from_sources H explicit conventional environment_value =
     (let rest = (case classify_secret_file H conventional Warn_only of
          Secret_loaded s \<Rightarrow> Some s
        | _ \<Rightarrow> non_empty_secret environment_value) in
      case explicit of
        None \<Rightarrow> rest
      | Some path \<Rightarrow> (case classify_secret_file H path Strict of
          Secret_loaded s \<Rightarrow> Some s
        | Secret_rejected \<Rightarrow> None
        | Secret_absent \<Rightarrow> rest))"

definition load_secret :: "host \<Rightarrow> ustr \<Rightarrow> ustr option" where
  "load_secret H name =
     load_secret_from_sources H
       (case env_var H (name @ lit ''_FILE'') of None \<Rightarrow> None | Some v \<Rightarrow> if trim v = [] then None else Some (trim v))
       (join_path SECRETS_DIR name)
       (env_var H name)"

section \<open>Keys loaded at the start\<close>

datatype signing_key = Configured_key bytes | Ephemeral_key

text \<open>\<open>std64\<close> is the standard Base64 decoder, \<open>debug\<close> whether this is a debug build.\<close>

definition load_session_signing_key :: "(ustr \<Rightarrow> bytes option) \<Rightarrow> bool \<Rightarrow> host \<Rightarrow> ustr + signing_key" where
  "load_session_signing_key std64 debug H =
     (case (case env_var H (lit ''KRAKEN_UI_SESSION_KEY'') of
          Some v \<Rightarrow> Inr (Some v)
        | None \<Rightarrow> (case env_var H (lit ''KRAKEN_UI_SESSION_KEY_FILE'') of
            Some path \<Rightarrow> map_sum id Some (read_protected_file H path)
          | None \<Rightarrow> Inr None))
      of
        Inl e \<Rightarrow> Inl e
      | Inr (Some v) \<Rightarrow> (case std64 (trim v) of
          None \<Rightarrow> Inl (lit ''KRAKEN_UI_SESSION_KEY must be valid base64'')
        | Some b \<Rightarrow> if length b < 64 then Inl (lit ''session signing key must decode to at least 64 bytes'')
                   else Inr (Configured_key b))
      | Inr None \<Rightarrow>
          if debug \<or> env_var H (lit ''KRAKEN_UI_ALLOW_EPHEMERAL_SESSION_KEY'') \<noteq> None then Inr Ephemeral_key
          else Inl (lit ''no session signing key configured''))"

datatype key_error = Key_unavailable ustr | Key_invalid crypto_error

definition crypto_from_environment :: "primitives \<Rightarrow> nat \<Rightarrow> host \<Rightarrow> key_error + dryoc_service" where
  "crypto_from_environment P seed H =
     (let kid = (case env_var H (lit ''KRAKEN_UI_PASSWORD_KEY_ID'') of Some v \<Rightarrow> v | None \<Rightarrow> lit ''primary-v1'') in
      case (case env_var H (lit ''KRAKEN_UI_PASSWORD_KEY'') of
          Some v \<Rightarrow> Inr v
        | None \<Rightarrow> (case env_var H (lit ''KRAKEN_UI_PASSWORD_KEY_FILE'') of
            None \<Rightarrow> Inl (Key_unavailable (lit ''set KRAKEN_UI_PASSWORD_KEY or KRAKEN_UI_PASSWORD_KEY_FILE''))
          | Some path \<Rightarrow> map_sum Key_unavailable id (read_protected_file H path)))
      of
        Inl e \<Rightarrow> Inl e
      | Inr encoded_key \<Rightarrow> map_sum Key_invalid id (from_base64_key P seed kid (trim encoded_key)))"

text \<open>\<open>ca_ok\<close> says whether the certificate file can be read and a client be built that trusts it alone;
  the outer \<open>None\<close> is a start that fails.\<close>

definition from_config :: "outside \<Rightarrow> (ustr \<Rightarrow> bool) \<Rightarrow> ustr \<Rightarrow> ustr \<Rightarrow> ustr \<Rightarrow> ustr \<Rightarrow> ustr \<Rightarrow> rule_service option" where
  "from_config X ca_ok base certificate_path cid even_encoded odd_encoded =
     (if \<not> ca_ok certificate_path then None else with_client X base cid even_encoded odd_encoded)"

definition build_rule_management ::
    "outside \<Rightarrow> (ustr \<Rightarrow> bool) \<Rightarrow> ustr option \<Rightarrow> ustr \<Rightarrow> host \<Rightarrow> rule_service option option" where
  "build_rule_management X ca_ok waf_rule_endpoint certificate_path H =
     (case waf_rule_endpoint of
        None \<Rightarrow> Some None
      | Some base \<Rightarrow>
          (case (load_secret H (lit ''RORSCHACH_SECRET_EVEN''), load_secret H (lit ''RORSCHACH_SECRET_ODD'')) of
             (Some ev, Some od) \<Rightarrow>
               map_option Some (from_config X ca_ok base certificate_path
                 (case load_secret H (lit ''RORSCHACH_CLIENT_ID'') of Some c \<Rightarrow> c | None \<Rightarrow> lit ''kraken-ui'') ev od)
           | _ \<Rightarrow> Some None))"

section \<open>What a loaded secret is\<close>

lemma non_empty_secret_Some: "non_empty_secret v = Some s \<longleftrightarrow> (\<exists>t. v = Some t \<and> s = trim t \<and> s \<noteq> [])"
  by (auto simp: non_empty_secret_def split: option.splits)

lemma classify_loaded:
  "classify_secret_file H path enf = Secret_loaded s \<longleftrightarrow>
     (\<exists>f t. file_of H path = Some f \<and> (enf = Strict \<longrightarrow> \<not> file_has_loose_permissions (file_mode f)) \<and>
        file_text f = Some t \<and> s = trim t \<and> s \<noteq> [])"
  by (auto simp: classify_secret_file_def non_empty_secret_Some split: option.splits) (metis non_empty_secret_Some option.distinct(1))+

lemma classify_rejected:
  "classify_secret_file H path enf = Secret_rejected \<longleftrightarrow>
     (\<exists>f. file_of H path = Some f \<and> file_has_loose_permissions (file_mode f) \<and> enf = Strict)"
  by (auto simp: classify_secret_file_def split: option.splits)

text \<open>The file that \<open>NAME_FILE\<close> names.\<close>

definition named_file :: "host \<Rightarrow> ustr \<Rightarrow> ustr option" where
  "named_file H name = (case env_var H (name @ lit ''_FILE'') of
     None \<Rightarrow> None | Some v \<Rightarrow> if trim v = [] then None else Some (trim v))"

lemma load_secret_unnamed:
  "named_file H name = None \<Longrightarrow> load_secret H name =
     (case classify_secret_file H (join_path SECRETS_DIR name) Warn_only of
        Secret_loaded s \<Rightarrow> Some s | _ \<Rightarrow> non_empty_secret (env_var H name))"
  by (simp add: load_secret_def load_secret_from_sources_def named_file_def Let_def)

lemma load_secret_named:
  "named_file H name = Some path \<Longrightarrow> load_secret H name =
     (case classify_secret_file H path Strict of
        Secret_loaded s \<Rightarrow> Some s
      | Secret_rejected \<Rightarrow> None
      | Secret_absent \<Rightarrow> (case classify_secret_file H (join_path SECRETS_DIR name) Warn_only of
            Secret_loaded s \<Rightarrow> Some s | _ \<Rightarrow> non_empty_secret (env_var H name)))"
  by (simp add: load_secret_def load_secret_from_sources_def named_file_def Let_def)

section \<open>Keys are strong and protected\<close>

text \<open>Where a key may come from: the environment, or a file that only its owner can read.\<close>

definition protected_source :: "host \<Rightarrow> ustr \<Rightarrow> ustr \<Rightarrow> bool" where
  "protected_source H name v \<longleftrightarrow>
     env_var H name = Some v \<or>
     (env_var H name = None \<and> (\<exists>path f. env_var H (name @ lit ''_FILE'') = Some path \<and> file_of H path = Some f \<and>
        \<not> file_has_loose_permissions (file_mode f) \<and> file_text f = Some v))"

lemma read_protected_file_Inr:
  "read_protected_file H path = Inr v \<longleftrightarrow>
     (\<exists>f. file_of H path = Some f \<and> \<not> file_has_loose_permissions (file_mode f) \<and> file_text f = Some v)"
  by (auto simp: read_protected_file_def split: option.splits if_splits)

lemma map_sum_Inr: "map_sum f g x = Inr y \<longleftrightarrow> (\<exists>z. x = Inr z \<and> y = g z)"
  by (cases x) auto

lemma session_key_source:
  assumes "load_session_signing_key std64 debug H = Inr k"
  shows "(\<exists>v b. k = Configured_key b \<and> 64 \<le> length b \<and> std64 (trim v) = Some b \<and> protected_source H (lit ''KRAKEN_UI_SESSION_KEY'') v) \<or>
    (k = Ephemeral_key \<and> env_var H (lit ''KRAKEN_UI_SESSION_KEY'') = None \<and> env_var H (lit ''KRAKEN_UI_SESSION_KEY_FILE'') = None \<and>
      (debug \<or> env_var H (lit ''KRAKEN_UI_ALLOW_EPHEMERAL_SESSION_KEY'') \<noteq> None))"
  using assms unfolding load_session_signing_key_def protected_source_def
  by (auto simp: read_protected_file_Inr map_sum_Inr lit_append [symmetric] split: option.splits sum.splits if_splits)

lemma crypto_key_source:
  assumes "crypto_from_environment P seed H = Inr svc"
  shows "\<exists>v. b64_decode P (trim v) = Some (cipher_key svc) \<and> length (cipher_key svc) = KEY_BYTES \<and>
    protected_source H (lit ''KRAKEN_UI_PASSWORD_KEY'') v"
proof -
  obtain v kid where v: "protected_source H (lit ''KRAKEN_UI_PASSWORD_KEY'') v" "from_base64_key P seed kid (trim v) = Inr svc"
    using assms unfolding crypto_from_environment_def protected_source_def
    by (auto simp: read_protected_file_Inr map_sum_Inr lit_append [symmetric] split: option.splits sum.splits)
  then have "b64_decode P (trim v) = Some (cipher_key svc) \<and> length (cipher_key svc) = KEY_BYTES"
    by (auto simp: from_base64_key_def Let_def split: option.splits sum.splits if_splits)
  then show ?thesis using v(1) by blast
qed

end
