(* ===== verification/Pipeline.thy ===== *)
theory Pipeline
  imports Concurrency Guard "HOL-Library.AList"
begin

text \<open>
  The configured response headers (\<open>src/security/headers.rs\<close>, \<open>src/middleware/security_headers.rs\<close>) and
  the layers that a request passes (\<open>AppFactory::build\<close> of \<open>src/app.rs\<close>): the rate limiter outermost, then
  the headers, then the routes with their guards. The request is followed without others in between; what
  a handler has done when it is cut off by the timeout is left open. Sessions and CSRF cookies are part of the
  handlers' state.
\<close>

section \<open>The header file\<close>

text \<open>\<open>header_name\<close> and \<open>header_value_ok\<close> are the checks of the HTTP crate; names are made lower-case.\<close>

record header_rules =
  header_name :: "ustr \<Rightarrow> ustr option"
  value_ok :: "ustr \<Rightarrow> bool"

type_synonym header_table = "(ustr \<times> ustr) list"

fun parse_header_lines :: "header_rules \<Rightarrow> nat \<Rightarrow> ustr list \<Rightarrow> header_table \<Rightarrow> ustr + header_table" where
  "parse_header_lines X index [] table = Inr table"
| "parse_header_lines X index (raw_line # rest) table =
     (let line = trim raw_line in
      if line = [] \<or> hd line = 35 then parse_header_lines X (index + 1) rest table
      else case split_once 58 line of
          None \<Rightarrow> Inl (lit ''missing separator on security header line '' @ show_nat (index + 1))
        | Some (pre_sep, post_sep) \<Rightarrow>
            let name = trim pre_sep; v = trim post_sep in
            if name = [] \<or> v = [] then Inl (lit ''empty name or value on security header line '' @ show_nat (index + 1))
            else (case header_name X name of
                None \<Rightarrow> Inl (lit ''invalid header name on line '' @ show_nat (index + 1))
              | Some n \<Rightarrow>
                  if \<not> value_ok X v then Inl (lit ''invalid header value on line '' @ show_nat (index + 1))
                  else parse_header_lines X (index + 1) rest (AList.update n v table)))"

definition parse_headers :: "header_rules \<Rightarrow> ustr \<Rightarrow> ustr + header_table" where
  "parse_headers X content =
     (case parse_header_lines X 0 (lines content) [] of
        Inl e \<Rightarrow> Inl e
      | Inr table \<Rightarrow> if table = [] then Inl (lit ''security header file cannot be empty'') else Inr table)"

text \<open>A line that configures a header, and the lines that do not.\<close>

definition configures :: "header_rules \<Rightarrow> ustr \<Rightarrow> ustr \<Rightarrow> ustr \<Rightarrow> bool" where
  "configures X raw_line n v \<longleftrightarrow>
     (\<exists>pre_sep post_sep. trim raw_line = pre_sep @ 58 # post_sep \<and> 58 \<notin> set pre_sep \<and> hd (trim raw_line) \<noteq> 35 \<and>
        trim post_sep = v \<and> v \<noteq> [] \<and> value_ok X v \<and> trim pre_sep \<noteq> [] \<and> header_name X (trim pre_sep) = Some n)"

definition skipped :: "ustr \<Rightarrow> bool" where
  "skipped raw_line \<longleftrightarrow> trim raw_line = [] \<or> hd (trim raw_line) = 35"

lemma parse_header_line_Inr:
  "parse_header_lines X i (l # ls) table = Inr t \<longleftrightarrow>
     (if skipped l then parse_header_lines X (i + 1) ls table = Inr t
      else \<exists>n v. configures X l n v \<and> parse_header_lines X (i + 1) ls (AList.update n v table) = Inr t)"
proof (cases "skipped l")
  case False
  then have line: "trim l \<noteq> []" "hd (trim l) \<noteq> 35" by (auto simp: skipped_def)
  show ?thesis
  proof (cases "split_once 58 (trim l)")
    case None
    then have "\<not> configures X l n v" for n v by (auto simp: configures_def split_once_None_iff)
    then show ?thesis using False line None by (simp add: Let_def)
  next
    case (Some p)
    obtain pre_sep post_sep where p: "p = (pre_sep, post_sep)" by fastforce
    have split: "trim l = pre_sep @ 58 # post_sep" "58 \<notin> set pre_sep" using split_once_SomeD [of 58 "trim l"] Some p by auto
    have "configures X l n v \<longleftrightarrow> trim post_sep = v \<and> v \<noteq> [] \<and> value_ok X v \<and> trim pre_sep \<noteq> [] \<and> header_name X (trim pre_sep) = Some n"
      for n v
    proof
      assume "configures X l n v"
      then obtain b a where "trim l = b @ 58 # a" "58 \<notin> set b" "trim a = v \<and> v \<noteq> [] \<and> value_ok X v \<and> trim b \<noteq> [] \<and> header_name X (trim b) = Some n"
        by (auto simp: configures_def)
      moreover from this(1,2) have "split_once 58 (trim l) = Some (b, a)" by (simp add: split_once_append)
      ultimately show "trim post_sep = v \<and> v \<noteq> [] \<and> value_ok X v \<and> trim pre_sep \<noteq> [] \<and> header_name X (trim pre_sep) = Some n"
        using Some p by simp
    qed (use split line in \<open>auto simp: configures_def\<close>)
    then show ?thesis using False line Some p by (auto simp: Let_def split: option.split)
  qed
qed (simp add: skipped_def Let_def)

lemma configures_unique:
  assumes "configures X l m' w'" and "configures X l m w"
  shows "m' = m \<and> w' = w"
proof -
  obtain p q where a: "trim l = p @ 58 # q" "58 \<notin> set p" "trim q = w" "header_name X (trim p) = Some m"
    using assms(2) by (auto simp: configures_def)
  obtain p' q' where b: "trim l = p' @ 58 # q'" "58 \<notin> set p'" "trim q' = w'" "header_name X (trim p') = Some m'"
    using assms(1) by (auto simp: configures_def)
  have "split_once 58 (p @ 58 # q) = Some (p, q)" "split_once 58 (p' @ 58 # q') = Some (p', q')"
    using split_once_append a(2) b(2) by blast+
  then have "(p, q) = (p', q')" using a(1) b(1) by (metis option.inject)
  then show ?thesis using a b by simp
qed

text \<open>The value of a header is that of its last line.\<close>

fun last_configured :: "header_rules \<Rightarrow> ustr list \<Rightarrow> ustr \<Rightarrow> ustr \<Rightarrow> bool" where
  "last_configured X [] n v \<longleftrightarrow> False"
| "last_configured X (l # ls) n v \<longleftrightarrow> last_configured X ls n v \<or>
     \<not> skipped l \<and> configures X l n v \<and> \<not> (\<exists>w. last_configured X ls n w)"

lemma parse_header_lines_lookup:
  assumes "parse_header_lines X i ls table = Inr t" and "distinct (map fst table)"
  shows "map_of t n = Some v \<longleftrightarrow> last_configured X ls n v \<or> map_of table n = Some v \<and> \<not> (\<exists>w. last_configured X ls n w)"
    and "distinct (map fst t)"
  using assms
proof (induction ls arbitrary: i table)
  case (Cons l ls)
  {
    case 1
    show ?case
    proof (cases "skipped l")
      case False
      then obtain m w where c: "configures X l m w" "parse_header_lines X (i + 1) ls (AList.update m w table) = Inr t"
        using 1(1) unfolding parse_header_line_Inr by auto
      have unique: "m' = m \<and> w' = w" if "configures X l m' w'" for m' w'
        using that c(1) by (rule configures_unique)
      have "distinct (map fst (AList.update m w table))" using 1(2) by (rule distinct_update)
      note step = Cons.IH(1) [OF c(2) this]
      have this_line: "configures X l n v \<longleftrightarrow> n = m \<and> v = w" for n v using c(1) unique by blast
      have some: "(\<exists>u. last_configured X (l # ls) n u) \<longleftrightarrow> (\<exists>u. last_configured X ls n u) \<or> n = m"
        unfolding last_configured.simps this_line using False by blast
      show ?thesis
        unfolding step some unfolding last_configured.simps this_line
        using False by (cases "n = m") (simp_all add: update_conv, blast)
    next
      case True
      then have "parse_header_lines X (i + 1) ls table = Inr t" using 1(1) unfolding parse_header_line_Inr by simp
      from Cons.IH(1) [OF this 1(2)] show ?thesis using True by simp
    qed
  next
    case 2
    show ?case
    proof (cases "skipped l")
      case False
      then obtain m w where c: "configures X l m w" "parse_header_lines X (i + 1) ls (AList.update m w table) = Inr t"
        using 2(1) unfolding parse_header_line_Inr by auto
      have "distinct (map fst (AList.update m w table))" using 2(2) by (rule distinct_update)
      from Cons.IH(2) [OF c(2) this] show ?thesis .
    next
      case True
      then have "parse_header_lines X (i + 1) ls table = Inr t" using 2(1) unfolding parse_header_line_Inr by simp
      from Cons.IH(2) [OF this 2(2)] show ?thesis .
    qed
  }
qed auto

section \<open>Layers\<close>

datatype wire_content = From_routes "sent option" | From_limiter Concurrency.response

record http_response =
  content :: wire_content
  header_values :: "ustr \<Rightarrow> ustr list"

text \<open>The middleware: every configured header replaces what the answer had under its name.\<close>

definition security_headers_apply :: "header_table \<Rightarrow> http_response \<Rightarrow> http_response" where
  "security_headers_apply table r =
     fold (\<lambda>(n, v) r. r\<lparr>header_values := (header_values r)(n := [v])\<rparr>) table r"

definition RETRY_AFTER :: ustr where "RETRY_AFTER = lit ''retry-after''"

definition limiter_response :: "Concurrency.response \<Rightarrow> http_response" where
  "limiter_response r = \<lparr>content = From_limiter r,
     header_values = (\<lambda>n. case r of Too_many_requests s \<Rightarrow> if n = RETRY_AFTER then [show_nat s] else [] | _ \<Rightarrow> [])\<rparr>"

text \<open>A step of the rate limiter where it applies: a request that was refused takes no further one.\<close>

definition step_if :: "event \<Rightarrow> server \<Rightarrow> server" where
  "step_if ev sv = (case server_step sv ev of Some sv' \<Rightarrow> sv' | None \<Rightarrow> sv)"

text \<open>
  A request: what it brings, how long its handler takes, and the time and faults that the limiter meets.
  \<open>own\<close> are the headers that an answer of the routes comes with.
\<close>

record arrival =
  from_peer :: ip_addr
  with_headers :: header_map
  mutex_poisoned :: bool
  at_time :: int
  check_faults :: backend_faults
  overruns :: bool

definition serve_request :: "auth_env \<Rightarrow> (endpoint \<Rightarrow> View.response handler) \<Rightarrow> (sent option \<Rightarrow> ustr \<Rightarrow> ustr list) \<Rightarrow>
    header_table \<Rightarrow> arrival \<Rightarrow> http_method \<Rightarrow> ustr \<Rightarrow> server \<Rightarrow> app \<Rightarrow> http_response \<times> server \<times> app option" where
  "serve_request E serve own table q m p sv a =
     (let i = length (threads sv);
          sv1 = fold step_if [Arrive (from_peer q) (with_headers q) (mutex_poisoned q), Acquire i, Check i (at_time q) (check_faults q)] sv
      in case threads sv1 ! i of
        Done r \<Rightarrow> (limiter_response r, sv1, Some a)
      | _ \<Rightarrow>
          let sv2 = step_if (Finish i (overruns q)) sv1 in
          if overruns q then (limiter_response Request_timeout, sv2, None)
          else (case dispatch E serve m p a of
              None \<Rightarrow> (security_headers_apply table \<lparr>content = From_routes None, header_values = own None\<rparr>, sv2, Some a)
            | Some (s, a') \<Rightarrow>
                (security_headers_apply table \<lparr>content = From_routes (Some s), header_values = own (Some s)\<rparr>, sv2, Some a')))"

section \<open>Which answers carry the headers\<close>

lemma security_headers_apply_values:
  assumes "distinct (map fst table)"
  shows "content (security_headers_apply table r) = content r"
    and "header_values (security_headers_apply table r) n = (case map_of table n of Some v \<Rightarrow> [v] | None \<Rightarrow> header_values r n)"
proof -
  have "content (security_headers_apply table r) = content r \<and>
    header_values (security_headers_apply table r) n = (case map_of table n of Some v \<Rightarrow> [v] | None \<Rightarrow> header_values r n)"
    using assms
  proof (induction table arbitrary: r)
    case (Cons e table)
    obtain m w where e: "e = (m, w)" by fastforce
    have "map_of table m = None" using Cons.prems by (simp add: e map_of_eq_None_iff)
    then show ?case
      using Cons by (auto simp: e security_headers_apply_def split: option.split)
  qed (simp add: security_headers_apply_def)
  then show "content (security_headers_apply table r) = content r"
    "header_values (security_headers_apply table r) n = (case map_of table n of Some v \<Rightarrow> [v] | None \<Rightarrow> header_values r n)"
    by blast+
qed

lemma parse_headers_lookup:
  assumes "parse_headers X text = Inr table"
  shows "map_of table n = Some v \<longleftrightarrow> last_configured X (lines text) n v" and "distinct (map fst table)" and "table \<noteq> []"
proof -
  have "parse_header_lines X 0 (lines text) [] = Inr table" "table \<noteq> []"
    using assms by (auto simp: parse_headers_def split: sum.splits if_splits)
  then show "map_of table n = Some v \<longleftrightarrow> last_configured X (lines text) n v" "distinct (map fst table)" "table \<noteq> []"
    using parse_header_lines_lookup [of X 0 "lines text" "[]" table] by simp_all
qed


lemma triple_eq: "t = (fst t, fst (snd t), snd (snd t))"
  by simp

definition plain_headers :: header_rules where
  "plain_headers = \<lparr>header_name = (\<lambda>n. Some (to_ascii_lowercase n)), value_ok = (\<lambda>_. True)\<rparr>"

definition health_request :: "bool \<Rightarrow> arrival" where
  "health_request down = \<lparr>from_peer = V4 [192, 0, 2, 7], with_headers = (\<lambda>_. None), mutex_poisoned = down,
     at_time = 5, check_faults = no_faults, overruns = False\<rparr>"

definition header_text :: ustr where
  "header_text = lit ''# comment'' @ [10] @ lit ''X-Frame-Options: SAMEORIGIN'' @ [10] @ lit ''X-Frame-Options:  DENY '' @ [10]"


end
