(* ===== verification/Configuration.thy ===== *)
theory Configuration
  imports Installation ClientIp Secrets
begin

text \<open>
  \<open>src/config.rs\<close>: the configuration file, what is checked before the console starts, and the durations
  in it. Reading YAML is a parameter. The file system is that of theory Installation (files, directories,
  symbolic links) with permission bits and a working directory; values quoted in messages are left out.
\<close>

section \<open>Durations\<close>

definition unit_seconds :: "uchar \<Rightarrow> nat option" where
  "unit_seconds c =
     (if c = 115 \<or> c = 83 then Some 1 else if c = 109 \<or> c = 77 then Some 60
      else if c = 104 \<or> c = 72 then Some (60 * 60) else None)"

text \<open>The loop, with the seconds so far, the digits of the open component and whether a unit was seen.\<close>

fun duration_loop :: "nat \<Rightarrow> ustr \<Rightarrow> bool \<Rightarrow> ustr \<Rightarrow> ustr + nat" where
  "duration_loop seconds digits saw_unit [] =
     (if digits \<noteq> [] \<or> \<not> saw_unit then Inl (lit ''duration must include a unit, for example 30m or 1h'') else Inr seconds)"
| "duration_loop seconds digits saw_unit (c # s) =
     (if is_ascii_digit c then duration_loop seconds (digits @ [c]) saw_unit s
      else if is_ascii_whitespace c then duration_loop seconds digits saw_unit s
      else if digits = [] then Inl (lit ''duration must place a number before each unit'')
      else case parse_uint u64_max digits of
          None \<Rightarrow> Inl (lit ''duration component is too large'')
        | Some amount \<Rightarrow> (case unit_seconds c of
            None \<Rightarrow> Inl (lit ''duration units must be s, m or h, for example 30m or 1h'')
          | Some multiplier \<Rightarrow>
              if u64_max < amount * multiplier \<or> u64_max < seconds + amount * multiplier
              then Inl (lit ''duration is too large'')
              else duration_loop (seconds + amount * multiplier) [] True s))"

definition parse_human_duration_seconds :: "ustr \<Rightarrow> ustr + nat" where
  "parse_human_duration_seconds raw = duration_loop 0 [] False (trim raw)"

section \<open>Paths and permissions\<close>

record config_host =
  host_nodes :: nodes
  mode_at :: "path \<Rightarrow> nat"
  working_directory :: path

text \<open>Where components lead from a directory; a symbolic link has an absolute target.\<close>

fun follow :: "nat \<Rightarrow> nodes \<Rightarrow> path \<Rightarrow> component list \<Rightarrow> path option" where
  "follow links F at [] = Some at"
| "follow links F at (RootDir # cs) = follow links F [] cs"
| "follow links F at (CurDir # cs) = follow links F at cs"
| "follow links F at (ParentDir # cs) =
     (if F at = Some Directory \<and> F (butlast at) = Some Directory then follow links F (butlast at) cs else None)"
| "follow links F at (Normal n # cs) =
     (case F (at @ [n]) of
        Some (Symlink target) \<Rightarrow> (case links of 0 \<Rightarrow> None | Suc k \<Rightarrow> follow k F [] (map Normal target @ cs))
      | Some Directory \<Rightarrow> follow links F (at @ [n]) cs
      | _ \<Rightarrow> if cs = [] then Some (at @ [n]) else None)"

definition location_of :: "config_host \<Rightarrow> component list \<Rightarrow> path option" where
  "location_of H cs = (if cs = [] then None else follow MAX_LINKS (host_nodes H) (working_directory H) cs)"

text \<open>\<open>fs::metadata\<close>: which file it is (device and inode) and its permission bits.\<close>

definition metadata :: "config_host \<Rightarrow> component list \<Rightarrow> (path \<times> nat) option" where
  "metadata H cs = (case location_of H cs of
     None \<Rightarrow> None
   | Some q \<Rightarrow> if host_nodes H q = None then None else Some (q, mode_at H q))"

definition canonicalize :: "config_host \<Rightarrow> component list \<Rightarrow> path option" where
  "canonicalize H cs = map_option fst (metadata H cs)"

definition path_parent :: "component list \<Rightarrow> component list option" where
  "path_parent cs = (if cs = [] \<or> last cs = RootDir then None else Some (butlast cs))"

definition path_file_name :: "component list \<Rightarrow> ustr option" where
  "path_file_name cs = (if cs = [] then None else case last cs of Normal n \<Rightarrow> Some n | _ \<Rightarrow> None)"

definition path_extension :: "component list \<Rightarrow> ustr option" where
  "path_extension cs = Option.bind (path_file_name cs) file_extension"

definition same_file_metadata :: "path \<times> nat \<Rightarrow> path \<times> nat \<Rightarrow> bool" where
  "same_file_metadata l r \<longleftrightarrow> fst l = fst r"

definition normalized_with_existing_parent :: "config_host \<Rightarrow> component list \<Rightarrow> path option" where
  "normalized_with_existing_parent H p =
     Option.bind (path_parent p) (\<lambda>par. if par = [] then None else
     Option.bind (path_file_name p) (\<lambda>name.
     map_option (\<lambda>dir. dir @ [name]) (canonicalize H par)))"

definition paths_may_reference_same_file :: "config_host \<Rightarrow> ustr \<Rightarrow> ustr \<Rightarrow> bool" where
  "paths_may_reference_same_file H left right =
     (let l = components left; r = components right in
      l = r \<or>
      (case (metadata H l, metadata H r) of (Some lm, Some rm) \<Rightarrow> same_file_metadata lm rm | _ \<Rightarrow> False) \<or>
      (case (normalized_with_existing_parent H l, normalized_with_existing_parent H r) of
         (Some ln, Some rn) \<Rightarrow> ln = rn | _ \<Rightarrow> False))"

text \<open>The bits \<open>0o022\<close>: those of value 16 and 2.\<close>

definition directory_has_loose_write_permissions :: "nat \<Rightarrow> bool" where
  "directory_has_loose_write_permissions m \<longleftrightarrow> odd (m div 16) \<or> odd (m div 2)"

definition validate_private_key_permissions :: "config_host \<Rightarrow> ustr \<Rightarrow> ustr + unit" where
  "validate_private_key_permissions H path =
     (case metadata H (components path) of
        None \<Rightarrow> Inr ()
      | Some (_, m) \<Rightarrow> if file_has_loose_permissions m
          then Inl (lit ''TLS private key must not be accessible by group or others'') else Inr ())"

definition validate_persistent_directory :: "config_host \<Rightarrow> ustr \<Rightarrow> ustr \<Rightarrow> ustr + unit" where
  "validate_persistent_directory H path field =
     (let cs = components path;
          directory = (if path_extension cs \<noteq> None then (case path_parent cs of Some par \<Rightarrow> par | None \<Rightarrow> [CurDir]) else cs)
      in case metadata H directory of
        None \<Rightarrow> Inr ()
      | Some (_, m) \<Rightarrow> if directory_has_loose_write_permissions m
          then Inl (field @ lit '' directory must not be writable by group or others'') else Inr ())"

section \<open>The configuration\<close>

definition MINIMUM_SESSION_MINUTES :: nat where "MINIMUM_SESSION_MINUTES = 5"
definition MAXIMUM_SESSION_MINUTES :: nat where "MAXIMUM_SESSION_MINUTES = 1440"
definition DEFAULT_ADMIN_SESSION_TIME_LIMIT_SECONDS :: nat where "DEFAULT_ADMIN_SESSION_TIME_LIMIT_SECONDS = 60 * 60"
definition MAXIMUM_ADMIN_SESSION_TIME_LIMIT_SECONDS :: nat where "MAXIMUM_ADMIN_SESSION_TIME_LIMIT_SECONDS = 12 * 60 * 60"

record app_config =
  certificate_path :: ustr
  private_key_path :: ustr
  listen :: ustr
  database_path :: ustr
  waf_database_path :: "ustr option"
  waf_endpoint :: ustr
  waf_certificate_path :: "ustr option"
  waf_rule_endpoint :: "ustr option"
  waf_rule_certificate_path :: "ustr option"
  log_directory :: ustr
  session_timeout_minutes :: nat
  admin_session_time_limit :: nat
  trusted_proxies :: "ip_addr list"

definition waf_certificate :: "app_config \<Rightarrow> ustr" where
  "waf_certificate c = (case waf_certificate_path c of Some p \<Rightarrow> p | None \<Rightarrow> certificate_path c)"

definition waf_rule_certificate :: "app_config \<Rightarrow> ustr" where
  "waf_rule_certificate c = (case waf_rule_certificate_path c of Some p \<Rightarrow> p | None \<Rightarrow> waf_certificate c)"

text \<open>\<open>SocketAddr::from_str\<close>: an address and a port, IPv6 in brackets and perhaps with a scope.\<close>

definition read_port :: "nat reader" where
  "read_port s = (case read_char 58 s of None \<Rightarrow> None | Some (_, t) \<Rightarrow> read_number 10 u16_max (length t) True t)"

definition read_scope :: "ustr \<Rightarrow> ustr" where
  "read_scope s = (case read_char 37 s of
     None \<Rightarrow> s
   | Some (_, t) \<Rightarrow> (case read_number 10 u32_max (length t) True t of None \<Rightarrow> s | Some (_, u) \<Rightarrow> u))"

definition read_socket_addr :: "(ip_addr \<times> nat) reader" where
  "read_socket_addr s =
     (case Option.bind (read_ipv4 s) (\<lambda>(q, t). map_option (\<lambda>(p, u). ((V4 q, p), u)) (read_port t)) of
        Some r \<Rightarrow> Some r
      | None \<Rightarrow>
          Option.bind (read_char 91 s) (\<lambda>(_, t).
          Option.bind (read_ipv6 t) (\<lambda>(gs, u).
          Option.bind (read_char 93 (read_scope u)) (\<lambda>(_, v).
          map_option (\<lambda>(p, w). ((V6 gs, p), w)) (read_port v)))))"

definition parse_socket_addr :: "ustr \<Rightarrow> (ip_addr \<times> nat) option" where
  "parse_socket_addr s = (case read_socket_addr s of Some (a, t) \<Rightarrow> if t = [] then Some a else None | None \<Rightarrow> None)"

definition is_unspecified :: "ip_addr \<Rightarrow> bool" where
  "is_unspecified ip \<longleftrightarrow> (case ip of V4 q \<Rightarrow> list_all (\<lambda>n. n = 0) q | V6 gs \<Rightarrow> list_all (\<lambda>n. n = 0) gs)"

definition starts_with_https :: "ustr \<Rightarrow> bool" where
  "starts_with_https s \<longleftrightarrow> starts_with (lit ''https://'') s"

definition validate_files :: "config_host \<Rightarrow> app_config \<Rightarrow> ustr + unit" where
  "validate_files H c =
     (case validate_private_key_permissions H (private_key_path c) of Inl e \<Rightarrow> Inl e | Inr _ \<Rightarrow>
      case validate_persistent_directory H (database_path c) (lit ''db-ui'') of Inl e \<Rightarrow> Inl e | Inr _ \<Rightarrow>
      validate_persistent_directory H (log_directory c) (lit ''log-dir''))"

definition validate_config :: "config_host \<Rightarrow> app_config \<Rightarrow> ustr + unit" where
  "validate_config H c =
     (if trim (listen c) = [] then Inl (lit ''listen cannot be empty'')
      else if parse_socket_addr (listen c) = None then Inl (lit ''listen must be a valid socket address'')
      else if certificate_path c = [] then Inl (lit ''cert-ca cannot be empty'')
      else if private_key_path c = [] then Inl (lit ''key cannot be empty'')
      else if database_path c = [] then Inl (lit ''db-ui cannot be empty'')
      else if waf_database_path c = Some [] then Inl (lit ''db-waf-alerts cannot be empty when configured'')
      else if (case waf_database_path c of None \<Rightarrow> False | Some p \<Rightarrow> paths_may_reference_same_file H (database_path c) p)
      then Inl (lit ''db-ui and db-waf-alerts must reference different files'')
      else case validate_files H c of Inl e \<Rightarrow> Inl e | Inr _ \<Rightarrow>
      if waf_certificate_path c = Some [] then Inl (lit ''waf-cert-ca cannot be empty when configured'')
      else if session_timeout_minutes c < MINIMUM_SESSION_MINUTES \<or> MAXIMUM_SESSION_MINUTES < session_timeout_minutes c
      then Inl (lit ''session-timeout-minutes must be between 5 and 1440'')
      else if admin_session_time_limit c = 0 \<or> MAXIMUM_ADMIN_SESSION_TIME_LIMIT_SECONDS < admin_session_time_limit c
      then Inl (lit ''admin-session-time-limmit must be greater than 0s and no more than 12h'')
      else if \<not> starts_with_https (waf_endpoint c) then Inl (lit ''waf-endpoint must use https://'')
      else if (case waf_rule_endpoint c of None \<Rightarrow> False | Some e \<Rightarrow> \<not> starts_with_https e)
      then Inl (lit ''waf-rule-endpoint must use https:// when configured'')
      else if waf_rule_certificate_path c = Some [] then Inl (lit ''waf-rule-cert-ca cannot be empty when configured'')
      else if list_ex is_unspecified (trusted_proxies c) then Inl (lit ''trusted-proxy-ips cannot contain unspecified addresses'')
      else Inr ())"

text \<open>
  \<open>parse_yaml\<close> gives the configuration as written: the text of the time limit, if the key is there, and
  the other fields.
\<close>

definition load_config :: "(bytes \<Rightarrow> ustr + ustr option \<times> app_config) \<Rightarrow> config_host \<Rightarrow> bytes option \<Rightarrow> ustr + app_config" where
  "load_config parse_yaml H file =
     (case file of
        None \<Rightarrow> Inl (lit ''unable to read configuration file'')
      | Some b \<Rightarrow> (case parse_yaml b of
          Inl e \<Rightarrow> Inl (lit ''invalid YAML: '' @ e)
        | Inr (limit, c) \<Rightarrow>
            (case (case limit of None \<Rightarrow> Inr DEFAULT_ADMIN_SESSION_TIME_LIMIT_SECONDS | Some t \<Rightarrow> parse_human_duration_seconds t) of
               Inl e \<Rightarrow> Inl (lit ''invalid YAML: '' @ e)
             | Inr n \<Rightarrow> map_sum id (\<lambda>_. c\<lparr>admin_session_time_limit := n\<rparr>)
                 (validate_config H (c\<lparr>admin_session_time_limit := n\<rparr>)))))"

section \<open>A duration is the sum of its components\<close>

text \<open>
  The grammar, without white space: one or more components, each of digits and a unit; and its value.
\<close>

definition component_text :: "ustr \<times> uchar \<Rightarrow> ustr" where
  "component_text p = fst p @ [snd p]"

definition component_ok :: "ustr \<times> uchar \<Rightarrow> bool" where
  "component_ok p \<longleftrightarrow> fst p \<noteq> [] \<and> list_all is_ascii_digit (fst p) \<and> unit_seconds (snd p) \<noteq> None"

definition component_value :: "ustr \<times> uchar \<Rightarrow> nat" where
  "component_value p = digits_val (fst p) * the (unit_seconds (snd p))"

definition is_duration :: "ustr \<Rightarrow> nat \<Rightarrow> bool" where
  "is_duration s n \<longleftrightarrow> (\<exists>parts. s = concat (map component_text parts) \<and> list_all component_ok parts \<and>
     n = sum_list (map component_value parts))"

lemma parse_uint_digits: "list_all is_ascii_digit ds \<Longrightarrow> ds \<noteq> [] \<Longrightarrow>
    parse_uint hi ds = (if digits_val ds \<le> hi then Some (digits_val ds) else None)"
  by (cases ds) (auto simp: parse_uint_def parse_digits_def strip_plus_def is_ascii_digit_def)

lemma unit_seconds_pos: "unit_seconds c = Some m \<Longrightarrow> 1 \<le> m \<and> \<not> is_ascii_digit c \<and> \<not> is_ascii_whitespace c"
  by (auto simp: unit_seconds_def is_ascii_digit_def is_ascii_whitespace_def split: if_splits)

lemma digits_then_unit:
  assumes "ds @ c # s = ds' @ c' # s'" and "list_all is_ascii_digit ds" and "list_all is_ascii_digit ds'"
    and "\<not> is_ascii_digit c" and "\<not> is_ascii_digit c'"
  shows "ds = ds' \<and> c = c' \<and> s = s'"
proof -
  have "takeWhile is_ascii_digit (ds @ c # s) = ds" "takeWhile is_ascii_digit (ds' @ c' # s') = ds'"
    using assms(2-5) by (simp_all add: takeWhile_append2 list_all_iff)
  then show ?thesis using assms(1) by auto
qed

lemma is_duration_Nil: "is_duration [] n \<longleftrightarrow> n = 0"
proof
  assume "is_duration [] n"
  then obtain parts where p: "[] = concat (map component_text parts)" "n = sum_list (map component_value parts)"
    by (auto simp: is_duration_def)
  from p(1) have "parts = []" by (cases parts) (auto simp: component_text_def)
  then show "n = 0" using p(2) by simp
qed (auto simp: is_duration_def intro: exI [of _ "[]"])

lemma is_duration_digits: "list_all is_ascii_digit ds \<Longrightarrow> ds \<noteq> [] \<Longrightarrow> \<not> is_duration ds n"
proof
  assume ds: "list_all is_ascii_digit ds" "ds \<noteq> []" and "is_duration ds n"
  then obtain parts where p: "ds = concat (map component_text parts)" "list_all component_ok parts"
    by (auto simp: is_duration_def)
  then obtain q qs where "parts = q # qs" using ds(2) by (cases parts) auto
  then have "snd q \<in> set ds" "component_ok q" using p by (auto simp: component_text_def)
  then show False using ds(1) unit_seconds_pos by (auto simp: component_ok_def list_all_iff)
qed

lemma is_duration_unit:
  assumes "list_all is_ascii_digit ds" and "\<not> is_ascii_digit c"
  shows "is_duration (ds @ c # s) n \<longleftrightarrow> (\<exists>m k. ds \<noteq> [] \<and> unit_seconds c = Some m \<and> is_duration s k \<and> n = digits_val ds * m + k)"
proof
  assume "is_duration (ds @ c # s) n"
  then obtain parts where p: "ds @ c # s = concat (map component_text parts)" "list_all component_ok parts"
      "n = sum_list (map component_value parts)" by (auto simp: is_duration_def)
  from p(1) obtain q qs where parts: "parts = q # qs" by (cases parts) auto
  then have ok: "component_ok q" "list_all component_ok qs" using p(2) by auto
  obtain m where m: "unit_seconds (snd q) = Some m" "\<not> is_ascii_digit (snd q)"
    using ok(1) unit_seconds_pos by (auto simp: component_ok_def)
  have "ds @ c # s = fst q @ snd q # concat (map component_text qs)" using p(1) by (simp add: parts component_text_def)
  then have "ds = fst q \<and> c = snd q \<and> s = concat (map component_text qs)"
    using assms ok(1) m(2) by (intro digits_then_unit) (auto simp: component_ok_def)
  then show "\<exists>m k. ds \<noteq> [] \<and> unit_seconds c = Some m \<and> is_duration s k \<and> n = digits_val ds * m + k"
    using p(3) ok m(1) by (auto simp: parts is_duration_def component_value_def component_ok_def)
next
  assume "\<exists>m k. ds \<noteq> [] \<and> unit_seconds c = Some m \<and> is_duration s k \<and> n = digits_val ds * m + k"
  then obtain m k parts where a: "ds \<noteq> []" "unit_seconds c = Some m" "s = concat (map component_text parts)"
      "list_all component_ok parts" "k = sum_list (map component_value parts)" "n = digits_val ds * m + k"
    by (auto simp: is_duration_def)
  then show "is_duration (ds @ c # s) n" unfolding is_duration_def
    using assms(1) by (intro exI [of _ "(ds, c) # parts"]) (auto simp: component_text_def component_ok_def component_value_def)
qed

lemma duration_loop_Inr:
  assumes "list_all is_ascii_digit digits" and "seconds \<le> u64_max"
  shows "duration_loop seconds digits saw s = Inr n \<longleftrightarrow>
    (let t = digits @ filter (\<lambda>c. \<not> is_ascii_whitespace c) s in
     (saw \<or> t \<noteq> []) \<and> seconds \<le> n \<and> n \<le> u64_max \<and> is_duration t (n - seconds))"
  using assms
proof (induction s arbitrary: seconds digits saw)
  case Nil
  then show ?case
    using is_duration_digits [of digits "n - seconds"] by (cases "digits = []") (auto simp: is_duration_Nil)
next
  case (Cons c s)
  have ws: "\<not> is_ascii_whitespace c" if "is_ascii_digit c"
    using that by (auto simp: is_ascii_digit_def is_ascii_whitespace_def)
  let ?rest = "filter (\<lambda>c. \<not> is_ascii_whitespace c) s"
  consider "is_ascii_digit c" | "\<not> is_ascii_digit c" "is_ascii_whitespace c" | "\<not> is_ascii_digit c" "\<not> is_ascii_whitespace c"
    by blast
  then show ?case
  proof cases
    case 1
    then show ?thesis using Cons.IH [of "digits @ [c]" seconds saw] Cons.prems ws by (simp add: Let_def)
  next
    case 2
    then show ?thesis using Cons.IH [of digits seconds saw] Cons.prems by (simp add: Let_def)
  next
    case 3
    note unit = is_duration_unit [OF Cons.prems(1) 3(1), of ?rest "n - seconds"]
    show ?thesis
    proof (cases "digits \<noteq> [] \<and> (\<exists>m. unit_seconds c = Some m \<and> seconds + digits_val digits * m \<le> u64_max)")
      case True
      then obtain m where m: "digits \<noteq> []" "unit_seconds c = Some m" "seconds + digits_val digits * m \<le> u64_max" by auto
      have "digits_val digits \<le> digits_val digits * m" using unit_seconds_pos [OF m(2)] by simp
      then have "digits_val digits \<le> u64_max" using m(3) by linarith
      then have step: "duration_loop seconds digits saw (c # s) = duration_loop (seconds + digits_val digits * m) [] True s"
        using 3 m parse_uint_digits [OF Cons.prems(1) m(1), of u64_max] by simp
      show ?thesis
        unfolding step Let_def using Cons.IH [of "[]" "seconds + digits_val digits * m" True] m 3 unit
        by (auto simp: Let_def)
          (metis add_diff_cancel_left' diff_diff_left le_add_diff_inverse add.assoc)+
    next
      case False
      then have "\<not> (\<exists>n. duration_loop seconds digits saw (c # s) = Inr n)"
        using 3 parse_uint_digits [OF Cons.prems(1), of u64_max] by (auto split: option.splits if_splits)
      moreover have "\<not> (seconds \<le> n \<and> n \<le> u64_max \<and> is_duration (digits @ c # ?rest) (n - seconds))"
        using False unit by auto
      ultimately show ?thesis using 3 by (auto simp: Let_def)
    qed
  qed
qed

text \<open>
  Property C37 (equivalence): a duration is the sum of its components. A text is accepted as \<open>n\<close> seconds
  if and only if, without the white space, it is a nonempty sequence of components, each of them digits and
  a unit (s, m, h, in either case), and the sum of their values in seconds is \<open>n\<close> and fits 64 bits. In
  particular a component or product that does not fit is refused, and never wraps around.
\<close>

theorem duration_is_sum_of_components:
  "parse_human_duration_seconds raw = Inr n \<longleftrightarrow>
     (let t = filter (\<lambda>c. \<not> is_ascii_whitespace c) (trim raw) in t \<noteq> [] \<and> is_duration t n \<and> n \<le> u64_max)"
  unfolding parse_human_duration_seconds_def
  using duration_loop_Inr [of "[]" 0 False "trim raw" n] by (auto simp: Let_def u64_max_def)

section \<open>The two databases are different files\<close>

lemma follow_snoc:
  assumes "follow links F at (cs @ [Normal n]) = Some l" and "F at = Some Directory" and "F [] = Some Directory"
  shows "\<exists>d. follow links F at cs = Some d \<and> F d = Some Directory \<and> ((\<exists>t. F (d @ [n]) = Some (Symlink t)) \<or> l = d @ [n])"
  using assms
proof (induction links F at cs rule: follow.induct)
  case (5 links F at m cs)
  show ?case
  proof (cases "F (at @ [m])")
    case (Some nd)
    then show ?thesis using "5.IH" "5.prems" by (cases nd) (auto split: nat.splits)
  qed (use "5.prems" in auto)
qed (auto split: option.splits node.splits if_splits)

text \<open>A path with a directory part and a name, and a link that leads nowhere.\<close>

definition named_in_directory :: "ustr \<Rightarrow> bool" where
  "named_in_directory p \<longleftrightarrow> 2 \<le> length (components p) \<and> path_file_name (components p) \<noteq> None"

definition dangling_link :: "config_host \<Rightarrow> ustr \<Rightarrow> bool" where
  "dangling_link H p \<longleftrightarrow>
     metadata H (components p) = None \<and>
     (case (location_of H (butlast (components p)), path_file_name (components p)) of
        (Some d, Some n) \<Rightarrow> (case host_nodes H (d @ [n]) of Some (Symlink _) \<Rightarrow> True | _ \<Rightarrow> False)
      | _ \<Rightarrow> False)"

definition host_ok :: "config_host \<Rightarrow> bool" where
  "host_ok H \<longleftrightarrow> host_nodes H [] = Some Directory \<and> host_nodes H (working_directory H) = Some Directory"

lemma location_normalized:
  assumes "host_ok H" and "named_in_directory p" and "\<not> dangling_link H p"
    and "location_of H (components p) = Some l" and "host_nodes H l = None"
  shows "normalized_with_existing_parent H (components p) = Some l"
proof -
  let ?cs = "components p"
  obtain n where n: "path_file_name ?cs = Some n" and ne: "?cs \<noteq> []" "butlast ?cs \<noteq> []"
    using assms(2) by (cases "components p" rule: rev_cases) (auto simp: named_in_directory_def Suc_le_length_iff)
  then have cs: "?cs = butlast ?cs @ [Normal n]"
    by (auto simp: path_file_name_def split: component.splits) (metis append_butlast_last_id)
  have "follow MAX_LINKS (host_nodes H) (working_directory H) (butlast ?cs @ [Normal n]) = Some l"
    using assms(4) cs ne by (simp add: location_of_def)
  then obtain d where d: "follow MAX_LINKS (host_nodes H) (working_directory H) (butlast ?cs) = Some d"
      "host_nodes H d = Some Directory" "(\<exists>t. host_nodes H (d @ [n]) = Some (Symlink t)) \<or> l = d @ [n]"
    using follow_snoc assms(1) unfolding host_ok_def by metis
  have loc: "location_of H (butlast ?cs) = Some d" using d(1) ne by (simp add: location_of_def)
  have "metadata H ?cs = None" using assms(4,5) by (simp add: metadata_def)
  then have "l = d @ [n]" using d(3) assms(3) loc n by (auto simp: dangling_link_def)
  moreover have "path_parent ?cs = Some (butlast ?cs)" using ne cs by (metis component.distinct(5) last_snoc path_parent_def)
  ultimately show ?thesis
    using ne n d(2) loc by (simp add: normalized_with_existing_parent_def canonicalize_def metadata_def)
qed

lemma different_files_sound:
  assumes "host_ok H" and "named_in_directory p" and "named_in_directory q" and "\<not> dangling_link H p" and "\<not> dangling_link H q"
    and "\<not> paths_may_reference_same_file H p q" and "location_of H (components p) = Some l"
  shows "location_of H (components q) \<noteq> Some l"
proof
  assume q: "location_of H (components q) = Some l"
  show False
  proof (cases "host_nodes H l")
    case None
    then show False
      using location_normalized [OF assms(1,2,4,7)] location_normalized [OF assms(1,3,5) q] assms(6)
      by (simp add: paths_may_reference_same_file_def Let_def)
  next
    case (Some nd)
    then show False
      using q assms(6,7) by (auto simp: paths_may_reference_same_file_def Let_def metadata_def same_file_metadata_def)
  qed
qed

lemma validate_config_databases:
  "validate_config H c = Inr () \<Longrightarrow> waf_database_path c = Some w \<Longrightarrow> \<not> paths_may_reference_same_file H (database_path c) w"
  by (auto simp: validate_config_def split: if_splits)

text \<open>
  Property C35 (safety): the credential store and the firewall's database are different files. If a
  configuration is accepted that names both with a directory, and neither path is a symbolic link to
  nothing, then the two lead to different places, through whatever links, whether the files exist yet or not.
\<close>

theorem databases_kept_apart:
  assumes "validate_config H c = Inr ()" and "waf_database_path c = Some w" and "host_ok H"
    and "named_in_directory (database_path c)" and "named_in_directory w"
    and "\<not> dangling_link H (database_path c)" and "\<not> dangling_link H w"
    and "location_of H (components (database_path c)) = Some l"
  shows "location_of H (components w) \<noteq> Some l"
  using different_files_sound [OF assms(3,4,5,6,7) validate_config_databases [OF assms(1,2)] assms(8)] .

definition plain_config :: "ustr \<Rightarrow> ustr \<Rightarrow> app_config" where
  "plain_config db waf = \<lparr>certificate_path = lit ''ca.pem'', private_key_path = lit ''key.pem'', listen = lit ''[::1]:3443'',
     database_path = db, waf_database_path = Some waf, waf_endpoint = lit ''https://127.0.0.1:4343'',
     waf_certificate_path = None, waf_rule_endpoint = None, waf_rule_certificate_path = None,
     log_directory = lit ''log'', session_timeout_minutes = 30, admin_session_time_limit = 3600,
     trusted_proxies = [V4 [10, 0, 0, 1]]\<rparr>"

text \<open>A working directory with a directory for databases and a link to a database that is not there yet.\<close>

definition plain_host :: config_host where
  "plain_host = \<lparr>host_nodes = [[] \<mapsto> Directory, [lit ''srv''] \<mapsto> Directory, [lit ''srv'', lit ''db''] \<mapsto> Directory,
       [lit ''srv'', lit ''alerts.db''] \<mapsto> Symlink [lit ''srv'', lit ''db'', lit ''ui.sqlite'']],
     mode_at = (\<lambda>_. 448), working_directory = [lit ''srv'']\<rparr>"

theorem databases_kept_apart_witness:
  "validate_config plain_host (plain_config (lit ''db/ui.sqlite'') (lit ''db/waf.db'')) = Inr () \<and>
   location_of plain_host (components (lit ''db/ui.sqlite'')) = Some [lit ''srv'', lit ''db'', lit ''ui.sqlite''] \<and>
   location_of plain_host (components (lit ''db/waf.db'')) \<noteq> Some [lit ''srv'', lit ''db'', lit ''ui.sqlite''] \<and>
   validate_config plain_host (plain_config (lit ''db/ui.sqlite'') (lit ''./db/../db//ui.sqlite'')) \<noteq> Inr ()"
proof -
  let ?c = "plain_config (lit ''db/ui.sqlite'') (lit ''db/waf.db'')"
  have ok: "validate_config plain_host ?c = Inr ()"
    "location_of plain_host (components (lit ''db/ui.sqlite'')) = Some [lit ''srv'', lit ''db'', lit ''ui.sqlite'']"
    "validate_config plain_host (plain_config (lit ''db/ui.sqlite'') (lit ''./db/../db//ui.sqlite'')) \<noteq> Inr ()"
    by code_simp+
  have "waf_database_path ?c = Some (lit ''db/waf.db'')" "database_path ?c = lit ''db/ui.sqlite''" by (simp_all add: plain_config_def)
  moreover have "host_ok plain_host" "named_in_directory (lit ''db/ui.sqlite'')" "named_in_directory (lit ''db/waf.db'')"
    "\<not> dangling_link plain_host (lit ''db/ui.sqlite'')" "\<not> dangling_link plain_host (lit ''db/waf.db'')"
    by code_simp+
  ultimately show ?thesis using databases_kept_apart [OF ok(1)] ok by metis
qed

text \<open>
  Where the check fails to tell them apart. A database named without a directory, and a
  link to a database that is not there yet, are taken for different files from what they are: both
  configurations are accepted, and both paths lead to one place.
\<close>

theorem databases_can_coincide:
  "validate_config plain_host (plain_config (lit ''ui.sqlite'') (lit ''./ui.sqlite'')) = Inr () \<and>
   location_of plain_host (components (lit ''ui.sqlite'')) = location_of plain_host (components (lit ''./ui.sqlite'')) \<and>
   validate_config plain_host (plain_config (lit ''db/ui.sqlite'') (lit ''/srv/alerts.db'')) = Inr () \<and>
   location_of plain_host (components (lit ''db/ui.sqlite'')) = location_of plain_host (components (lit ''/srv/alerts.db'')) \<and>
   location_of plain_host (components (lit ''db/ui.sqlite'')) \<noteq> None"
  by code_simp

text \<open>
  Nor is the directory of a file checked that is named without one: its parent is the empty path, which
  has no metadata, and not the working directory that the code falls back to for paths without a parent.
\<close>

lemma bare_name_directory_unchecked:
  assumes "components p = [Normal n]" and "file_extension n \<noteq> None"
  shows "validate_persistent_directory H p field = Inr ()"
  using assms by (simp add: validate_persistent_directory_def path_extension_def path_file_name_def path_parent_def
      metadata_def location_of_def)

end
