(* ===== verification/Metrics.thy ===== *)
theory Metrics
  imports Attacks RegexRules
begin

text \<open>
  The metrics of the firewall (\<open>src/services/waf_metrics.rs\<close>): the request for them, with its fallback,
  and the reader of the Prometheus text format; and the numbers of the dashboard
  (\<open>src/controllers/dashboard.rs\<close>). Floating point numbers and their operations are a parameter.
\<close>

section \<open>Numbers\<close>

record 'f floats =
  parse_f64 :: "ustr \<Rightarrow> 'f option"
  f_zero :: 'f
  positive :: "'f \<Rightarrow> bool"
  quotient :: "'f \<Rightarrow> 'f \<Rightarrow> 'f"
  of_count :: "nat \<Rightarrow> 'f"
  total_le :: "'f \<Rightarrow> 'f \<Rightarrow> bool"

section \<open>Reading the text format\<close>

record 'f module_metric =
  mm_engine :: ustr
  mm_module :: ustr
  mm_value :: 'f

record 'f metrics_snapshot =
  requests_inspected :: 'f
  requests_blocked :: 'f
  rate_limit_hits :: 'f
  redis_rate_limit_failopen :: 'f
  redis_rate_limit_failclosed :: 'f
  traceparent_forwarded :: 'f
  traceparent_generated :: 'f
  request_duration_count :: 'f
  request_duration_sum :: 'f
  module_blocks :: "'f module_metric list"

definition default_snapshot :: "'f floats \<Rightarrow> 'f metrics_snapshot" where
  "default_snapshot N = \<lparr>requests_inspected = f_zero N, requests_blocked = f_zero N, rate_limit_hits = f_zero N,
     redis_rate_limit_failopen = f_zero N, redis_rate_limit_failclosed = f_zero N, traceparent_forwarded = f_zero N,
     traceparent_generated = f_zero N, request_duration_count = f_zero N, request_duration_sum = f_zero N, module_blocks = []\<rparr>"

text \<open>\<open>rsplit_once(char::is_whitespace)\<close> and \<open>strip_suffix\<close>.\<close>

definition rsplit_whitespace :: "ustr \<Rightarrow> (ustr \<times> ustr) option" where
  "rsplit_whitespace s =
     (case dropWhile (\<lambda>c. \<not> is_whitespace c) (rev s) of
        [] \<Rightarrow> None
      | _ # before \<Rightarrow> Some (rev before, rev (takeWhile (\<lambda>c. \<not> is_whitespace c) (rev s))))"

definition strip_suffix :: "ustr \<Rightarrow> ustr \<Rightarrow> ustr option" where
  "strip_suffix p s = map_option rev (strip_prefix (rev p) (rev s))"

definition parse_label :: "ustr \<Rightarrow> (ustr \<times> ustr) option" where
  "parse_label pair = map_option (\<lambda>(k, v). (trim k, trim_matches (\<lambda>c. c = 34) (trim v))) (split_once 61 pair)"

definition parse_labels :: "ustr \<Rightarrow> ustr \<Rightarrow> ustr option" where
  "parse_labels input = map_of (rev (List.map_filter parse_label (split_on 44 input)))"

definition BLOCKS_PREFIX :: ustr where "BLOCKS_PREFIX = lit ''krakenwaf_module_blocks_total{''"

text \<open>What one line adds to the scalars and the module counts.\<close>

definition parse_line :: "'f floats \<Rightarrow> ustr \<Rightarrow> (ustr \<Rightarrow> 'f option) \<times> 'f module_metric list \<Rightarrow>
    (ustr \<Rightarrow> 'f option) \<times> 'f module_metric list" where
  "parse_line N raw_line = (\<lambda>(scalar, modules).
     let line = trim raw_line in
     if line = [] \<or> hd line = 35 then (scalar, modules)
     else case rsplit_whitespace line of
       None \<Rightarrow> (scalar, modules)
     | Some (name_and_labels, text) \<Rightarrow> (case parse_f64 N (trim text) of
         None \<Rightarrow> (scalar, modules)
       | Some v \<Rightarrow> (case Option.bind (strip_prefix BLOCKS_PREFIX name_and_labels) (strip_suffix [125]) of
           Some labels \<Rightarrow> (case (parse_labels labels (lit ''engine''), parse_labels labels (lit ''module'')) of
               (Some en, Some md) \<Rightarrow> (scalar, modules @ [\<lparr>mm_engine = en, mm_module = md, mm_value = v\<rparr>])
             | _ \<Rightarrow> (scalar, modules))
         | None \<Rightarrow> (scalar(name_and_labels \<mapsto> v), modules))))"

text \<open>Higher counts first, then by name.\<close>

definition metric_before :: "'f floats \<Rightarrow> 'f module_metric \<Rightarrow> 'f module_metric \<Rightarrow> bool" where
  "metric_before N a b \<longleftrightarrow> total_le N (mm_value b) (mm_value a) \<and>
     (total_le N (mm_value a) (mm_value b) \<longrightarrow> mm_module a \<le> mm_module b)"

definition metric :: "'f floats \<Rightarrow> (ustr \<Rightarrow> 'f option) \<Rightarrow> string \<Rightarrow> 'f" where
  "metric N values name = (case values (lit name) of Some v \<Rightarrow> v | None \<Rightarrow> f_zero N)"

definition snapshot_of :: "'f floats \<Rightarrow> (ustr \<Rightarrow> 'f option) \<Rightarrow> 'f module_metric list \<Rightarrow> 'f metrics_snapshot" where
  "snapshot_of N scalar modules =
     \<lparr>requests_inspected = metric N scalar ''krakenwaf_requests_inspected_total'',
      requests_blocked = metric N scalar ''krakenwaf_requests_blocked_total'',
      rate_limit_hits = metric N scalar ''krakenwaf_rate_limit_hits_total'',
      redis_rate_limit_failopen = metric N scalar ''krakenwaf_redis_rate_limit_failopen_total'',
      redis_rate_limit_failclosed = metric N scalar ''krakenwaf_redis_rate_limit_failclosed_total'',
      traceparent_forwarded = metric N scalar ''krakenwaf_traceparent_forwarded_total'',
      traceparent_generated = metric N scalar ''krakenwaf_traceparent_generated_total'',
      request_duration_count = metric N scalar ''krakenwaf_request_duration_milliseconds_count'',
      request_duration_sum = metric N scalar ''krakenwaf_request_duration_milliseconds_sum'',
      module_blocks = order_by (metric_before N) modules\<rparr>"

definition parse_prometheus :: "'f floats \<Rightarrow> ustr \<Rightarrow> 'f metrics_snapshot" where
  "parse_prometheus N input =
     (case fold (parse_line N) (lines input) (Map.empty, []) of (scalar, modules) \<Rightarrow> snapshot_of N scalar modules)"

section \<open>Fetching\<close>

record metrics_service =
  metrics_endpoint :: ustr
  authorization :: "ustr option"

text \<open>What a request meets: no answer, or a status and a body that can be read or not.\<close>

datatype metrics_answer = No_answer ustr | Answered nat "ustr + ustr"

definition authorization_header :: "(ustr \<Rightarrow> bool) \<Rightarrow> ustr option \<Rightarrow> ustr + ustr option" where
  "authorization_header value_ok bearer_token =
     (case bearer_token of
        None \<Rightarrow> Inr None
      | Some tok \<Rightarrow>
          if tok = [] \<or> \<not> list_all is_ascii tok
          then Inl (lit ''BEARER_PASSWORD must be a non-empty ASCII bearer token'')
          else if \<not> value_ok (lit ''Bearer '' @ tok) then Inl (lit ''BEARER_PASSWORD must be a valid ASCII bearer token'')
          else Inr (Some (lit ''Bearer '' @ tok)))"

text \<open>\<open>ca_ok\<close>: the certificate can be read and parsed and a client be built that trusts it alone.\<close>

definition new_with_bearer_token :: "(ustr \<Rightarrow> bool) \<Rightarrow> (ustr \<Rightarrow> ustr + unit) \<Rightarrow> ustr \<Rightarrow> ustr \<Rightarrow> ustr option \<Rightarrow> ustr + metrics_service" where
  "new_with_bearer_token value_ok ca_ok base certificate bearer_token =
     (case ca_ok certificate of Inl e \<Rightarrow> Inl e
      | Inr _ \<Rightarrow> map_sum id (\<lambda>h. \<lparr>metrics_endpoint = trim_end_matches (\<lambda>c. c = 47) base, authorization = h\<rparr>)
          (authorization_header value_ok bearer_token))"

definition fetch_url :: "'f floats \<Rightarrow> (ustr \<Rightarrow> ustr option \<Rightarrow> metrics_answer) \<Rightarrow> metrics_service \<Rightarrow> ustr \<Rightarrow> ustr + 'f metrics_snapshot" where
  "fetch_url N net s url =
     (case net url (authorization s) of
        No_answer e \<Rightarrow> Inl (lit ''failed to request WAF metrics: '' @ e)
      | Answered code body \<Rightarrow>
          if \<not> (200 \<le> code \<and> code \<le> 299) then Inl (lit ''WAF metrics returned HTTP '' @ show_nat code)
          else (case body of
              Inl e \<Rightarrow> Inl (lit ''failed to read WAF metrics response: '' @ e)
            | Inr text \<Rightarrow> Inr (parse_prometheus N text)))"

definition fetch_metrics :: "'f floats \<Rightarrow> (ustr \<Rightarrow> ustr option \<Rightarrow> metrics_answer) \<Rightarrow> metrics_service \<Rightarrow> ustr + 'f metrics_snapshot" where
  "fetch_metrics N net s =
     (case fetch_url N net s (metrics_endpoint s @ lit ''/metrics'') of
        Inr snapshot \<Rightarrow> Inr snapshot
      | Inl primary_error \<Rightarrow> (case fetch_url N net s (metrics_endpoint s @ lit ''/__kwaf/metrics'') of
          Inr snapshot \<Rightarrow> Inr snapshot
        | Inl e \<Rightarrow> Inl (lit ''WAF metrics endpoints failed; primary error: '' @ primary_error @ lit '': '' @ e)))"

section \<open>The dashboard\<close>

record 'f dashboard_data =
  metrics_available :: bool
  database_available :: bool
  metrics :: "'f metrics_snapshot"
  average_latency_ms :: 'f
  cmc_detections :: "(ustr \<times> 'f) list"
  dashboard_module_blocks :: "'f module_metric list"
  countries :: "(ustr \<times> 'f) list"
  client_ips :: "(ustr \<times> 'f) list"

definition chart_values :: "'f floats \<Rightarrow> (ustr \<times> nat) list \<Rightarrow> (ustr \<times> 'f) list" where
  "chart_values N = map (\<lambda>(label, n). (label, of_count N n))"

definition average_latency :: "'f floats \<Rightarrow> 'f metrics_snapshot \<Rightarrow> 'f" where
  "average_latency N m =
     (if positive N (request_duration_count m) then quotient N (request_duration_sum m) (request_duration_count m) else f_zero N)"

definition dashboard_api :: "'f floats \<Rightarrow> (ustr \<Rightarrow> ustr option \<Rightarrow> metrics_answer) \<Rightarrow> metrics_service \<Rightarrow> 'f dashboard_data handler" where
  "dashboard_api N net s =
     (let (available, m) = (case fetch_metrics N net s of Inr m \<Rightarrow> (True, m) | Inl _ \<Rightarrow> (False, default_snapshot N)) in
      hbind (read_app waf_database) (\<lambda>db.
      hbind (case db of
          None \<Rightarrow> hret (False, [], [], [])
        | Some rs \<Rightarrow>
            hbind (waf_query cmc_module_counts rs) (\<lambda>cmc.
            hbind (waf_query (top_countries 10) rs) (\<lambda>cs.
            hbind (waf_query (top_client_ips 10) rs) (\<lambda>ips.
            hret (True, chart_values N cmc, chart_values N cs, chart_values N ips)))))
      (\<lambda>(db_available, cmc, cs, ips).
      hret \<lparr>metrics_available = available, database_available = db_available, metrics = m,
        average_latency_ms = average_latency N m, cmc_detections = cmc, dashboard_module_blocks = module_blocks m,
        countries = cs, client_ips = ips\<rparr>)))"

section \<open>A page of samples is read back\<close>

text \<open>Pages as the firewall writes them: lines with a metric or a module count, and comments.\<close>

datatype sample_line = Scalar_sample ustr ustr | Blocks_sample ustr ustr ustr | Comment_line ustr

fun line_of :: "sample_line \<Rightarrow> ustr" where
  "line_of (Scalar_sample name v) = name @ 32 # v"
| "line_of (Blocks_sample en md v) =
     BLOCKS_PREFIX @ lit ''engine='' @ 34 # en @ 34 # 44 # lit ''module='' @ 34 # md @ 34 # 125 # 32 # v"
| "line_of (Comment_line c) = 35 # c"

definition word_ok :: "ustr \<Rightarrow> bool" where
  "word_ok w \<longleftrightarrow> w \<noteq> [] \<and> list_all (\<lambda>c. \<not> is_whitespace c) w"

definition label_ok :: "ustr \<Rightarrow> bool" where
  "label_ok l \<longleftrightarrow> list_all (\<lambda>c. c \<noteq> 10 \<and> c \<noteq> 34 \<and> c \<noteq> 44) l"

fun sample_ok :: "'f floats \<Rightarrow> sample_line \<Rightarrow> bool" where
  "sample_ok N (Scalar_sample name v) \<longleftrightarrow> word_ok name \<and> hd name \<noteq> 35 \<and> strip_prefix BLOCKS_PREFIX name = None \<and>
     word_ok v \<and> parse_f64 N v \<noteq> None"
| "sample_ok N (Blocks_sample en md v) \<longleftrightarrow> label_ok en \<and> label_ok md \<and> word_ok v \<and> parse_f64 N v \<noteq> None"
| "sample_ok N (Comment_line c) \<longleftrightarrow> 10 \<notin> set c \<and> (c = [] \<or> \<not> is_whitespace (last c))"

fun scalar_of :: "'f floats \<Rightarrow> sample_line \<Rightarrow> (ustr \<times> 'f) list" where
  "scalar_of N (Scalar_sample name v) = [(name, the (parse_f64 N v))]"
| "scalar_of N _ = []"

fun module_of :: "'f floats \<Rightarrow> sample_line \<Rightarrow> 'f module_metric list" where
  "module_of N (Blocks_sample en md v) = [\<lparr>mm_engine = en, mm_module = md, mm_value = the (parse_f64 N v)\<rparr>]"
| "module_of N _ = []"

lemma whitespace_facts: "is_whitespace 32" "is_whitespace 10" "\<not> is_whitespace 35" "\<not> is_whitespace 107" "\<not> is_whitespace 34"
  by (simp_all add: is_whitespace_def)

lemma trim_fixed_ends: "s = [] \<or> \<not> is_whitespace (hd s) \<and> \<not> is_whitespace (last s) \<Longrightarrow> trim s = s"
  unfolding trim_def by (rule trim_matches_fixed)

lemma word_okD:
  assumes "word_ok w"
  shows "w \<noteq> []" and "10 \<notin> set w" and "\<not> is_whitespace (hd w)" and "\<not> is_whitespace (last w)" and "trim w = w"
proof -
  show ne: "w \<noteq> []" and "10 \<notin> set w" using assms whitespace_facts by (auto simp: word_ok_def list_all_iff)
  show "\<not> is_whitespace (hd w)" "\<not> is_whitespace (last w)" using assms ne by (auto simp: word_ok_def list_all_iff)
  then show "trim w = w" by (intro trim_fixed_ends) simp
qed

lemma line_of_ends:
  assumes "sample_ok N s"
  shows "line_of s \<noteq> []" and "\<not> is_whitespace (hd (line_of s))" and "\<not> is_whitespace (last (line_of s))" and "10 \<notin> set (line_of s)"
proof -
  have "line_of s \<noteq> [] \<and> \<not> is_whitespace (hd (line_of s)) \<and> \<not> is_whitespace (last (line_of s)) \<and> 10 \<notin> set (line_of s)"
  proof (cases s)
    case (Scalar_sample name v)
    then have "word_ok name" "word_ok v" using assms by auto
    then show ?thesis using word_okD [of name] word_okD [of v] by (simp add: Scalar_sample)
  next
    case (Blocks_sample en md v)
    then have ok: "label_ok en" "label_ok md" "word_ok v" using assms by auto
    have "10 \<notin> set (line_of s)"
      using ok word_okD(2) [of v] by (auto simp: Blocks_sample label_ok_def list_all_iff BLOCKS_PREFIX_def lit_def)
    moreover have "line_of s \<noteq> []" "hd (line_of s) = 107" by (simp_all add: Blocks_sample BLOCKS_PREFIX_def text_simps)
    moreover have "last (line_of s) = last v" using word_okD(1) [OF ok(3)] by (simp add: Blocks_sample)
    ultimately show ?thesis using word_okD(4) [OF ok(3)] whitespace_facts(4) by simp
  next
    case (Comment_line c)
    then show ?thesis using assms whitespace_facts(3) by (cases "c = []") simp_all
  qed
  then show "line_of s \<noteq> []" "\<not> is_whitespace (hd (line_of s))" "\<not> is_whitespace (last (line_of s))" "10 \<notin> set (line_of s)"
    by blast+
qed

lemma line_of_clean: "sample_ok N s \<Longrightarrow> clean_line (line_of s)"
  using line_of_ends [of N s] trim_fixed_ends [of "line_of s"] by (simp add: clean_line_def)

lemma rsplit_whitespace_word:
  assumes "word_ok v"
  shows "rsplit_whitespace (a @ 32 # v) = Some (a, v)"
proof -
  have word: "\<And>c. c \<in> set (rev v) \<Longrightarrow> \<not> is_whitespace c" using assms by (simp add: word_ok_def list_all_iff)
  have stop: "32 # rev a = [] \<or> \<not> \<not> is_whitespace (hd (32 # rev a))" using whitespace_facts(1) by simp
  have "dropWhile (\<lambda>c. \<not> is_whitespace c) (rev v @ 32 # rev a) = 32 # rev a"
    "takeWhile (\<lambda>c. \<not> is_whitespace c) (rev v @ 32 # rev a) = rev v"
    by (rule dropWhile_stop [where p = "\<lambda>c. \<not> is_whitespace c", OF word stop] takeWhile_stop [where p = "\<lambda>c. \<not> is_whitespace c", OF word stop], assumption)+
  then show ?thesis by (simp add: rsplit_whitespace_def)
qed

lemma strip_suffix_end: "strip_suffix [c] (s @ [c]) = Some s"
  by (simp add: strip_suffix_def)

lemma parse_label_quoted:
  assumes "label_ok v" and "list_all (\<lambda>c. c \<noteq> 61 \<and> \<not> is_whitespace c) k"
  shows "parse_label (k @ 61 # 34 # v @ [34]) = Some (k, v)"
proof -
  have "split_once 61 (k @ 61 # 34 # v @ [34]) = Some (k, 34 # v @ [34])"
    using assms(2) by (intro split_once_append) (auto simp: list_all_iff)
  moreover have "trim k = k" using assms(2) by (intro trim_fixed_if_none) (auto simp: list_all_iff)
  moreover have "trim (34 # v @ [34]) = 34 # v @ [34]" by (intro trim_fixed_ends) (simp add: whitespace_facts)
  moreover have "trim_matches (\<lambda>c. c = 34) (34 # v @ [34]) = v"
  proof -
    have "34 \<notin> set v" using assms(1) by (auto simp: label_ok_def list_all_iff)
    then have "dropWhile (\<lambda>c. c = 34) (v @ [34]) = (if v = [] then [] else v @ [34])" "dropWhile (\<lambda>c. c = 34) (rev v) = rev v"
      by (cases v, auto, cases v rule: rev_cases) auto
    then show ?thesis by (simp add: trim_matches_def trim_start_matches_def trim_end_matches_def)
  qed
  ultimately show ?thesis by (simp add: parse_label_def)
qed

lemma parse_labels_pair:
  assumes "label_ok en" and "label_ok md"
  shows "parse_labels (lit ''engine='' @ 34 # en @ 34 # 44 # lit ''module='' @ 34 # md @ [34]) =
    [lit ''engine'' \<mapsto> en, lit ''module'' \<mapsto> md]"
proof -
  have commas: "44 \<notin> set (lit ''engine='' @ 34 # en @ [34])" "44 \<notin> set (lit ''module='' @ 34 # md @ [34])"
    using assms by (auto simp: label_ok_def list_all_iff lit_def)
  have "split_on 44 ((lit ''engine='' @ 34 # en @ [34]) @ 44 # (lit ''module='' @ 34 # md @ [34])) =
      [lit ''engine='' @ 34 # en @ [34], lit ''module='' @ 34 # md @ [34]]"
    by (simp only: split_on_append [OF commas(1)] split_on_no_sep [OF commas(2)])
  moreover have "parse_label (lit ''engine='' @ 34 # en @ [34]) = Some (lit ''engine'', en)"
    "parse_label (lit ''module='' @ 34 # md @ [34]) = Some (lit ''module'', md)"
    using parse_label_quoted [OF assms(1), of "lit ''engine''"] parse_label_quoted [OF assms(2), of "lit ''module''"]
    by (simp_all add: text_simps list_all_iff is_whitespace_def)
  ultimately show ?thesis by (simp add: parse_labels_def map_filter_def fun_upd_twist)
qed

lemma parse_line_of:
  assumes "sample_ok N s"
  shows "parse_line N (line_of s) (scalar, modules) = (scalar ++ map_of (scalar_of N s), modules @ module_of N s)"
proof -
  have trimmed: "trim (line_of s) = line_of s" using line_of_ends [OF assms] by (intro trim_fixed_ends) simp
  show ?thesis
  proof (cases s)
    case (Scalar_sample name v)
    then have ok: "word_ok name" "word_ok v" "hd name \<noteq> 35" "strip_prefix BLOCKS_PREFIX name = None" "parse_f64 N v \<noteq> None"
      using assms by auto
    then show ?thesis
      using trimmed rsplit_whitespace_word [OF ok(2), of name] word_okD(1) [OF ok(1)] word_okD(5) [OF ok(2)]
      by (auto simp: parse_line_def Let_def Scalar_sample)
  next
    case (Blocks_sample en md v)
    let ?labels = "lit ''engine='' @ 34 # en @ 34 # 44 # lit ''module='' @ 34 # md @ [34]"
    have ok: "label_ok en" "label_ok md" "word_ok v" "parse_f64 N v \<noteq> None" using assms Blocks_sample by auto
    have line: "line_of s = (BLOCKS_PREFIX @ ?labels @ [125]) @ 32 # v" by (simp add: Blocks_sample)
    have "hd (line_of s) = 107" "line_of s \<noteq> []" by (simp_all add: Blocks_sample BLOCKS_PREFIX_def text_simps)
    moreover have "rsplit_whitespace (line_of s) = Some (BLOCKS_PREFIX @ ?labels @ [125], v)"
      unfolding line by (rule rsplit_whitespace_word [OF ok(3)])
    moreover have "Option.bind (strip_prefix BLOCKS_PREFIX (BLOCKS_PREFIX @ ?labels @ [125])) (strip_suffix [125]) = Some ?labels"
      using strip_suffix_end [of 125 ?labels] strip_prefix_iff [of BLOCKS_PREFIX "BLOCKS_PREFIX @ ?labels @ [125]" "?labels @ [125]"]
      by simp
    ultimately show ?thesis
      using trimmed ok(4) word_okD(5) [OF ok(3)] parse_labels_pair [OF ok(1,2)]
      by (auto simp: parse_line_def Let_def Blocks_sample)
  next
    case (Comment_line c)
    then show ?thesis using trimmed by (simp add: parse_line_def Let_def)
  qed
qed

lemma fold_lines:
  assumes "list_all (sample_ok N) ss"
  shows "fold (parse_line N) (map line_of ss) (scalar, modules) =
    (scalar ++ map_of (rev (concat (map (scalar_of N) ss))), modules @ concat (map (module_of N) ss))"
  using assms
proof (induction ss arbitrary: scalar modules)
  case (Cons s ss)
  have "rev (scalar_of N s) = scalar_of N s" by (cases s) simp_all
  then show ?case using Cons parse_line_of [of N s scalar modules] by (simp add: map_add_assoc)
qed simp

text \<open>
  A page of metrics is read back. A page of lines with a metric, lines with the
  count of a module, and comments, as the firewall writes them, is read as what was written: every metric
  of the console has the value of its last line, or zero without one, and the module counts are all
  there, in the order of the dashboard.
\<close>

theorem metrics_page_roundtrip:
  assumes "list_all (sample_ok N) ss"
  shows "parse_prometheus N (concat (map (\<lambda>s. line_of s @ [10]) ss)) =
      snapshot_of N (map_of (rev (concat (map (scalar_of N) ss)))) (concat (map (module_of N) ss)) \<and>
    mset (module_blocks (parse_prometheus N (concat (map (\<lambda>s. line_of s @ [10]) ss)))) = mset (concat (map (module_of N) ss))"
proof -
  have clean: "list_all clean_line (map line_of ss)" using assms line_of_clean by (auto simp: list_all_iff)
  have page: "concat (map (\<lambda>s. line_of s @ [10]) ss) = (if ss = [] then [] else join [10] (map line_of ss) @ [10])"
    by (induction ss rule: induct_list012) auto
  have "lines (concat (map (\<lambda>s. line_of s @ [10]) ss)) = map line_of ss"
    using split_join_lf_end [OF clean] lines_aux_clean [OF clean] unfolding page lines_def by auto
  then have "parse_prometheus N (concat (map (\<lambda>s. line_of s @ [10]) ss)) =
      snapshot_of N (map_of (rev (concat (map (scalar_of N) ss)))) (concat (map (module_of N) ss))"
    using fold_lines [OF assms, of Map.empty "[]"] by (simp add: parse_prometheus_def)
  then show ?thesis by (simp add: snapshot_of_def)
qed

text \<open>Whole numbers, for a concrete page.\<close>

definition whole_numbers :: "nat floats" where
  "whole_numbers = \<lparr>parse_f64 = parse_uint u32_max, f_zero = 0, positive = (\<lambda>n. 0 < n), quotient = (div),
     of_count = id, total_le = (\<le>)\<rparr>"

definition sample_page :: "sample_line list" where
  "sample_page = [Comment_line (lit '' HELP''), Scalar_sample (lit ''krakenwaf_requests_blocked_total'') (lit ''12''),
     Blocks_sample (lit ''cmc'') (lit ''ssti'') (lit ''3''), Blocks_sample (lit ''cmc'') (lit ''xss'') (lit ''5''),
     Scalar_sample (lit ''krakenwaf_requests_blocked_total'') (lit ''14'')]"

theorem metrics_page_roundtrip_witness:
  "let m = parse_prometheus whole_numbers (concat (map (\<lambda>s. line_of s @ [10]) sample_page)) in
   requests_blocked m = 14 \<and> rate_limit_hits m = 0 \<and> map mm_module (module_blocks m) = [lit ''xss'', lit ''ssti'']"
proof -
  have "list_all (sample_ok whole_numbers) sample_page" by code_simp
  from metrics_page_roundtrip [OF this] have "parse_prometheus whole_numbers (concat (map (\<lambda>s. line_of s @ [10]) sample_page)) =
      snapshot_of whole_numbers (map_of (rev (concat (map (scalar_of whole_numbers) sample_page))))
        (concat (map (module_of whole_numbers) sample_page))" by blast
  moreover have "requests_blocked (snapshot_of whole_numbers (map_of (rev (concat (map (scalar_of whole_numbers) sample_page))))
        (concat (map (module_of whole_numbers) sample_page))) = 14 \<and>
    rate_limit_hits (snapshot_of whole_numbers (map_of (rev (concat (map (scalar_of whole_numbers) sample_page))))
        (concat (map (module_of whole_numbers) sample_page))) = 0 \<and>
    map mm_module (module_blocks (snapshot_of whole_numbers (map_of (rev (concat (map (scalar_of whole_numbers) sample_page))))
        (concat (map (module_of whole_numbers) sample_page)))) = [lit ''xss'', lit ''ssti'']" by code_simp
  ultimately show ?thesis by (simp add: Let_def)
qed

text \<open>A second blank before the value, which the text format allows, hides a metric: the name keeps a blank.\<close>

lemma second_blank_hides_metric:
  "requests_blocked (parse_prometheus whole_numbers (lit ''krakenwaf_requests_blocked_total  12'')) = 0 \<and>
   requests_blocked (parse_prometheus whole_numbers (lit ''krakenwaf_requests_blocked_total 12'')) = 12"
  by code_simp

section \<open>The dashboard does without the firewall\<close>

text \<open>Whatever the firewall answers, the numbers fail only if a query of the findings does.\<close>

lemma dashboard_without_database:
  assumes "waf_database a = None"
  shows "\<exists>d. dashboard_api N net s a = (Inr d, a) \<and> \<not> database_available d \<and> countries d = [] \<and>
    metrics_available d = (\<not> isl (fetch_metrics N net s)) \<and>
    metrics d = (case fetch_metrics N net s of Inr m \<Rightarrow> m | Inl _ \<Rightarrow> default_snapshot N)"
  using assms by (auto simp: dashboard_api_def hbind_def read_app_def hret_def Let_def split: sum.split)

end
