(* ===== verification/Startup.thy ===== *)
theory Startup
  imports Pipeline Configuration Metrics Setup SourceUpdate
begin

text \<open>
  The start of the console: \<open>AppFactory::build\<close> of \<open>src/app.rs\<close>, \<open>main\<close> of \<open>src/main.rs\<close> and
  \<open>SourceUpdateService::new\<close>. Opening databases, certificates and the log are parameters that may fail;
  everything that is checked or derived on the way is the model of the theories imported here.
\<close>

section \<open>What the start depends on\<close>

text \<open>
  \<open>rate_file\<close> is \<open>conf/ratelimit.yaml\<close> as read, \<open>header_file\<close> \<open>conf/headers_sec.txt\<close>; \<open>limiter_error\<close> says
  whether the backend of the limiter cannot be opened; \<open>base_env\<close> has the crates the handlers use.
\<close>

record start_world =
  start_host :: host
  files :: config_host
  std64 :: "ustr \<Rightarrow> bytes option"
  debug_build :: bool
  crypto_primitives :: primitives
  crypto_seed :: nat
  http_outside :: outside
  header_checks :: header_rules
  base_env :: auth_env
  config_file :: "bytes option"
  yaml_config :: "bytes \<Rightarrow> ustr + ustr option \<times> app_config"
  rate_file :: "ustr + rate_limit_config"
  header_file :: "ustr option"
  limiter_rows :: "ustr \<Rightarrow> gcra_row option"
  limiter_alive :: "int \<Rightarrow> int \<Rightarrow> int \<Rightarrow> bool"
  limiter_entries :: "ustr \<Rightarrow> redis_entry option"
  limiter_error :: "rate_limit_config \<Rightarrow> ustr option"
  open_database :: "ustr \<Rightarrow> ustr + world"
  findings_exist :: "ustr \<Rightarrow> bool"
  open_findings :: "ustr \<Rightarrow> ustr + vulnerability list"
  metrics_ca :: "ustr \<Rightarrow> ustr + unit"
  rule_ca :: "ustr \<Rightarrow> bool"
  session_schema :: "ustr + store"
  current_dir :: "ustr + ustr"
  canonical_dir :: "ustr \<Rightarrow> ustr + path"
  current_exe :: "ustr + path"
  update_client :: "ustr + unit"
  log_error :: "ustr option"
  provider_installed :: bool
  tls_error :: "ustr \<Rightarrow> ustr \<Rightarrow> ustr option"

datatype start_error =
    Provider_unavailable
  | Config_invalid ustr
  | Rate_file_invalid ustr
  | Rate_limits_invalid config_error
  | Limiter_unavailable ustr
  | Database_unavailable ustr
  | Crypto_unavailable key_error
  | Bootstrap_refused bootstrap_error
  | Metrics_client_invalid ustr
  | Rule_client_invalid
  | Header_file_invalid ustr
  | Session_store_unavailable ustr
  | Updater_unavailable ustr
  | Session_timeout_too_long
  | Session_key_invalid ustr
  | Logging_unavailable ustr
  | Tls_unavailable ustr

definition sbind :: "'e + 'a \<Rightarrow> ('a \<Rightarrow> 'e + 'b) \<Rightarrow> 'e + 'b" where
  "sbind r f = (case r of Inl e \<Rightarrow> Inl e | Inr x \<Rightarrow> f x)"

definition or_fail :: "('d \<Rightarrow> 'e) \<Rightarrow> 'd + 'a \<Rightarrow> 'e + 'a" where
  "or_fail what r = map_sum what id r"

lemma sbind_Inr: "sbind r f = Inr y \<longleftrightarrow> (\<exists>x. r = Inr x \<and> f x = Inr y)"
  by (auto simp: sbind_def split: sum.split)

lemma or_fail_Inr: "or_fail what r = Inr x \<longleftrightarrow> r = Inr x"
  by (cases r) (auto simp: or_fail_def)

section \<open>The factory\<close>

text \<open>\<open>AppFactory\<close> with what has been put in it; and the console that it builds.\<close>

record app_factory =
  factory_config :: app_config
  given_crypto :: "dryoc_service option"
  given_metrics :: "metrics_service option"
  given_rules :: "rule_service option"
  given_handle :: bool
  given_limits :: "rate_limit_config option"

record console =
  console_env :: auth_env
  console_world :: world
  console_findings :: "vulnerability list option"
  console_crypto :: dryoc_service
  console_metrics :: metrics_service
  console_rules :: "rule_service option"
  console_headers :: header_table
  console_sessions :: store
  console_updater :: updater
  console_update_status :: update_status
  request_limiter :: "persistent_limiter option"
  login_limiter :: "persistent_limiter option"
  ip_limiter :: limiter_state
  request_timeout_secs :: nat
  session_minutes :: int
  session_signing_key :: signing_key
  governed :: bool

definition new_factory :: "app_config \<Rightarrow> app_factory" where
  "new_factory c = \<lparr>factory_config = c, given_crypto = None, given_metrics = None, given_rules = None,
     given_handle = False, given_limits = None\<rparr>"

definition load_rate_limits :: "start_world \<Rightarrow> start_error + rate_limit_config" where
  "load_rate_limits W =
     sbind (or_fail Rate_file_invalid (rate_file W)) (\<lambda>c.
     sbind (or_fail Rate_limits_invalid (validate c)) (\<lambda>_. Inr c))"

text \<open>\<open>SqliteBackend::open\<close> and \<open>RedisBackend::connect\<close>, which wants credentials.\<close>

definition open_backend :: "start_world \<Rightarrow> rate_limit_config \<Rightarrow> start_error + unit" where
  "open_backend W c =
     (if backend_choice c = Redis \<and> load_secret (start_host W) (lit ''REDIS_USERNAME'') = None
      then Inl (Limiter_unavailable (lit ''Redis backend requires REDIS_USERNAME or REDIS_USERNAME_FILE''))
      else if backend_choice c = Redis \<and> load_secret (start_host W) (lit ''REDIS_PASSWORD'') = None
      then Inl (Limiter_unavailable (lit ''Redis backend requires REDIS_PASSWORD or REDIS_PASSWORD_FILE''))
      else case limiter_error W c of Some e \<Rightarrow> Inl (Limiter_unavailable e) | None \<Rightarrow> Inr ())"

definition open_limiter :: "start_world \<Rightarrow> rate_limit_config \<Rightarrow> start_error + persistent_limiter" where
  "open_limiter W c =
     sbind (or_fail Rate_limits_invalid (Gcra.from_config (limiter_rows W) (limiter_alive W) (limiter_entries W) c)) (\<lambda>lim.
     sbind (open_backend W c) (\<lambda>_. Inr lim))"

definition connect_findings :: "start_world \<Rightarrow> app_config \<Rightarrow> start_error + vulnerability list option" where
  "connect_findings W c =
     (case waf_database_path c of
        None \<Rightarrow> Inr None
      | Some p \<Rightarrow> if findings_exist W p then map_sum Database_unavailable Some (open_findings W p) else Inr None)"

definition connect_metrics :: "start_world \<Rightarrow> app_factory \<Rightarrow> start_error + metrics_service" where
  "connect_metrics W f =
     (case given_metrics f of
        Some s \<Rightarrow> Inr s
      | None \<Rightarrow> or_fail Metrics_client_invalid (new_with_bearer_token (header_value_ok (http_outside W)) (metrics_ca W)
          (waf_endpoint (factory_config f)) (waf_certificate (factory_config f))
          (load_secret (start_host W) (lit ''BEARER_PASSWORD''))))"

definition connect_rules :: "start_world \<Rightarrow> app_factory \<Rightarrow> start_error + rule_service option" where
  "connect_rules W f =
     (case given_rules f of
        Some s \<Rightarrow> Inr (Some s)
      | None \<Rightarrow> (case build_rule_management (http_outside W) (rule_ca W) (waf_rule_endpoint (factory_config f))
            (waf_rule_certificate (factory_config f)) (start_host W) of
          None \<Rightarrow> Inl Rule_client_invalid | Some r \<Rightarrow> Inr r))"

definition load_headers :: "start_world \<Rightarrow> start_error + header_table" where
  "load_headers W =
     (case header_file W of
        None \<Rightarrow> Inl (Header_file_invalid (lit ''unable to read security headers''))
      | Some text \<Rightarrow> or_fail Header_file_invalid (parse_headers (header_checks W) text))"

definition new_updater :: "start_world \<Rightarrow> bool \<Rightarrow> ustr + updater" where
  "new_updater W handle =
     sbind (current_dir W) (\<lambda>cwd.
     sbind (canonical_dir W (case env_var (start_host W) (lit ''KRAKEN_UI_SOURCE_DIR'') of Some d \<Rightarrow> d | None \<Rightarrow> cwd)) (\<lambda>root.
     sbind (current_exe W) (\<lambda>exe.
     sbind (update_client W) (\<lambda>_.
     Inr \<lparr>source_root = root, executable = exe, server_handle = handle, allow_unsigned_source_update =
       unsigned_source_update_opt_in (env_var (start_host W) (lit ''KRAKEN_UI_ALLOW_UNSIGNED_SOURCE_UPDATE''))\<rparr>))))"

definition started_env :: "start_world \<Rightarrow> app_config \<Rightarrow> dryoc_service \<Rightarrow> auth_env" where
  "started_env W c svc = (base_env W)\<lparr>deps_of := with_dryoc (crypto_primitives W) svc (deps_of (base_env W)),
     trusted_proxy_ips := trusted_proxies c, admin_session_time_limit_seconds := admin_session_time_limit c\<rparr>"

definition bootstrapped :: "start_world \<Rightarrow> auth_env \<Rightarrow> world \<Rightarrow> start_error + world" where
  "bootstrapped W E w =
     (case bootstrap_administrator E (env_var (start_host W) (lit ''KRAKEN_UI_ADMIN_PASSWORD''))
         (env_var (start_host W) (lit ''KRAKEN_UI_ADMIN_EMAIL'')) w of
        (Inl e, _) \<Rightarrow> Inl (Bootstrap_refused e)
      | (Inr _, w') \<Rightarrow> Inr w')"

definition build_application :: "start_world \<Rightarrow> app_factory \<Rightarrow> start_error + console" where
  "build_application W f =
     (let c = factory_config f in
      sbind (case given_limits f of Some r \<Rightarrow> Inr r | None \<Rightarrow> load_rate_limits W) (\<lambda>limits.
      sbind (if enabled limits then map_sum id Some (open_limiter W limits) else Inr None) (\<lambda>requests.
      sbind (if enabled limits then map_sum id Some (open_limiter W (login_rate_limit_config limits)) else Inr None) (\<lambda>logins.
      sbind (or_fail Database_unavailable (open_database W (database_path c))) (\<lambda>w.
      sbind (connect_findings W c) (\<lambda>found.
      sbind (case given_crypto f of Some svc \<Rightarrow> Inr svc
             | None \<Rightarrow> or_fail Crypto_unavailable (crypto_from_environment (crypto_primitives W) (crypto_seed W) (start_host W))) (\<lambda>svc.
      sbind (bootstrapped W (started_env W c svc) w) (\<lambda>w'.
      sbind (connect_metrics W f) (\<lambda>metrics_client.
      sbind (connect_rules W f) (\<lambda>rules.
      sbind (load_headers W) (\<lambda>table.
      sbind (or_fail Session_store_unavailable (session_schema W)) (\<lambda>sessions.
      sbind (or_fail Updater_unavailable (new_updater W (given_handle f))) (\<lambda>up.
      sbind (if i64_max < int (session_timeout_minutes c) then Inl Session_timeout_too_long
             else Inr (int (session_timeout_minutes c))) (\<lambda>minutes.
      sbind (or_fail Session_key_invalid (load_session_signing_key (std64 W) (debug_build W) (start_host W))) (\<lambda>key.
      sbind (if enabled limits \<and> trusted_proxies c = [] then
               (if requests_per_second limits = 0 \<or> burst_size limits = 0 then Inl (Rate_limits_invalid Rate_or_burst_zero) else Inr True)
             else Inr False) (\<lambda>gov.
      Inr \<lparr>console_env = started_env W c svc, console_world = w', console_findings = found, console_crypto = svc,
        console_metrics = metrics_client, console_rules = rules, console_headers = table, console_sessions = sessions,
        console_updater = up, console_update_status = initial_status (allow_unsigned_source_update up),
        request_limiter = requests, login_limiter = logins, ip_limiter = new_limiter (max_coroutines_per_ip limits),
        request_timeout_secs = connection_timeout_secs limits, session_minutes = minutes, session_signing_key = key,
        governed = gov\<rparr>))))))))))))))))"

text \<open>\<open>main\<close> up to the listener, without the delay before a restart: the configuration, the limits, the log, TLS, and the console.\<close>

definition main_start :: "start_world \<Rightarrow> start_error + (ip_addr \<times> nat) \<times> console" where
  "main_start W =
     sbind (if provider_installed W then Inr () else Inl Provider_unavailable) (\<lambda>_.
     sbind (or_fail Config_invalid (load_config (yaml_config W) (files W) (config_file W))) (\<lambda>c.
     sbind (load_rate_limits W) (\<lambda>limits.
     sbind (case log_error W of Some e \<Rightarrow> Inl (Logging_unavailable e) | None \<Rightarrow> Inr ()) (\<lambda>_.
     sbind (case parse_socket_addr (listen c) of None \<Rightarrow> Inl (Config_invalid (lit ''invalid TLS listen address'')) | Some addr \<Rightarrow> Inr addr) (\<lambda>addr.
     sbind (case tls_error W (certificate_path c) (private_key_path c) of Some e \<Rightarrow> Inl (Tls_unavailable e) | None \<Rightarrow> Inr ()) (\<lambda>_.
     sbind (build_application W ((new_factory c)\<lparr>given_limits := Some limits, given_handle := True\<rparr>)) (\<lambda>app.
     Inr (addr, app))))))))"

section \<open>What a console that started is like\<close>

lemma build_rule_management_wf:
  "build_rule_management X ca_ok base certificate H = Some (Some s) \<Longrightarrow> service_wf s"
  by (auto simp: build_rule_management_def from_config_def intro: with_client_wf split: option.splits if_splits)

lemma validate_config_InrD:
  assumes "validate_config H c = Inr u"
  shows "MINIMUM_SESSION_MINUTES \<le> session_timeout_minutes c" and "session_timeout_minutes c \<le> MAXIMUM_SESSION_MINUTES"
    and "0 < admin_session_time_limit c" and "admin_session_time_limit c \<le> MAXIMUM_ADMIN_SESSION_TIME_LIMIT_SECONDS"
    and "list_all (\<lambda>ip. \<not> is_unspecified ip) (trusted_proxies c)"
    and "metadata H (components (private_key_path c)) = Some (q, m) \<Longrightarrow> \<not> file_has_loose_permissions m"
proof -
  show "MINIMUM_SESSION_MINUTES \<le> session_timeout_minutes c" "session_timeout_minutes c \<le> MAXIMUM_SESSION_MINUTES"
    "0 < admin_session_time_limit c" "admin_session_time_limit c \<le> MAXIMUM_ADMIN_SESSION_TIME_LIMIT_SECONDS"
    "list_all (\<lambda>ip. \<not> is_unspecified ip) (trusted_proxies c)"
    using assms by (auto simp: validate_config_def list_ex_iff list_all_iff split: if_splits sum.splits)
  have "validate_files H c = Inr ()" using assms by (auto simp: validate_config_def split: if_splits sum.splits)
  then have "validate_private_key_permissions H (private_key_path c) = Inr ()"
    by (auto simp: validate_files_def split: sum.splits)
  then show "metadata H (components (private_key_path c)) = Some (q, m) \<Longrightarrow> \<not> file_has_loose_permissions m"
    by (simp add: validate_private_key_permissions_def split: if_splits)
qed

lemma load_config_InrD: "load_config yaml H file = Inr c \<Longrightarrow> validate_config H c = Inr ()"
  by (auto simp: load_config_def map_sum_Inr split: option.splits sum.splits)

lemma bootstrapped_operators:
  assumes "bootstrapped W E w = Inr w'" and "env_var (start_host W) (lit ''KRAKEN_UI_ADMIN_PASSWORD'') \<noteq> None"
  shows "operators (tables w') \<noteq> []"
proof -
  obtain u where b: "bootstrap_administrator E (env_var (start_host W) (lit ''KRAKEN_UI_ADMIN_PASSWORD''))
      (env_var (start_host W) (lit ''KRAKEN_UI_ADMIN_EMAIL'')) w = (Inr u, w')"
    using assms(1) by (auto simp: bootstrapped_def split: prod.splits sum.splits)
  have found: "operators (tables w1) \<noteq> []" if "find_by_username n w = (Inr (Some r), w1)" for n r w1
    using query_InrD [OF that [unfolded find_by_username_def]] by (auto simp: find_Some_iff)
  show ?thesis
    using b assms(2) unfolding bootstrap_administrator_def
    by (auto split: prod.splits sum.splits option.splits if_splits dest: found dest!: create_operator_result)
qed

lemma load_headers_InrD:
  assumes "load_headers W = Inr table"
  shows "\<exists>text n v. header_file W = Some text \<and> last_configured (header_checks W) (lines text) n v"
proof -
  obtain raw where raw: "header_file W = Some raw" "parse_headers (header_checks W) raw = Inr table"
    using assms by (auto simp: load_headers_def or_fail_Inr split: option.splits)
  obtain n v rest where "table = (n, v) # rest"
    using parse_headers_lookup(3) [OF raw(2)] by (cases table) auto
  then show ?thesis using parse_headers_lookup(1) [OF raw(2), of n v] raw(1) by auto
qed

lemma open_limiter_InrD:
  "open_limiter W c = Inr lim \<Longrightarrow>
     Gcra.from_config (limiter_rows W) (limiter_alive W) (limiter_entries W) c = Inr lim \<and>
     (backend_choice c = Redis \<longrightarrow> load_secret (start_host W) (lit ''REDIS_USERNAME'') \<noteq> None \<and>
        load_secret (start_host W) (lit ''REDIS_PASSWORD'') \<noteq> None)"
  by (auto simp: open_limiter_def open_backend_def sbind_Inr or_fail_Inr split: if_splits)

text \<open>The parts of a console that was built, each with the step that made it.\<close>

lemma build_applicationD:
  assumes "build_application W f = Inr con" and "given_limits f = Some limits" and "given_crypto f = None" and "given_rules f = None"
  shows "console_env con = started_env W (factory_config f) (console_crypto con)"
    and "crypto_from_environment (crypto_primitives W) (crypto_seed W) (start_host W) = Inr (console_crypto con)"
    and "load_session_signing_key (std64 W) (debug_build W) (start_host W) = Inr (session_signing_key con)"
    and "\<exists>w. bootstrapped W (console_env con) w = Inr (console_world con)"
    and "build_rule_management (http_outside W) (rule_ca W) (waf_rule_endpoint (factory_config f))
      (waf_rule_certificate (factory_config f)) (start_host W) = Some (console_rules con)"
    and "load_headers W = Inr (console_headers con)"
    and "session_minutes con = int (session_timeout_minutes (factory_config f))"
    and "login_limiter con = Some lim \<Longrightarrow> open_limiter W (login_rate_limit_config limits) = Inr lim"
    and "login_limiter con = None \<longleftrightarrow> \<not> enabled limits" and "request_limiter con = None \<longleftrightarrow> \<not> enabled limits"
  using assms
  by (auto simp: build_application_def Let_def sbind_Inr or_fail_Inr map_sum_Inr connect_rules_def split: if_splits option.splits)


text \<open>A start with all keys in files, their permission bits given, and a password for the first administrator.\<close>

definition key_host :: "nat \<Rightarrow> host" where
  "key_host mode = \<lparr>env_var = [lit ''KRAKEN_UI_SESSION_KEY_FILE'' \<mapsto> lit ''/k/s'', lit ''KRAKEN_UI_PASSWORD_KEY_FILE'' \<mapsto> lit ''/k/p'',
       lit ''KRAKEN_UI_ADMIN_PASSWORD'' \<mapsto> lit ''Long-Random#Pass9''],
     file_of = [lit ''/k/s'' \<mapsto> \<lparr>file_mode = mode, file_text = Some (replicate 64 65 @ [10])\<rparr>,
       lit ''/k/p'' \<mapsto> \<lparr>file_mode = 256, file_text = Some (replicate 32 66 @ [10])\<rparr>]\<rparr>"

definition plain_start :: "nat \<Rightarrow> start_world" where
  "plain_start mode = \<lparr>start_host = key_host mode, files = plain_host, std64 = Some, debug_build = False,
     crypto_primitives = plain_primitives, crypto_seed = 1, http_outside = sample_outside, header_checks = plain_headers,
     base_env = sample_env, config_file = Some [],
     yaml_config = (\<lambda>_. Inr (Some (lit ''1h 30m''), plain_config (lit ''db/ui.sqlite'') (lit ''db/waf.db''))),
     rate_file = Inr sample_config, header_file = Some header_text, limiter_rows = (\<lambda>_. None),
     limiter_alive = (\<lambda>_ _ _. True), limiter_entries = (\<lambda>_. None), limiter_error = (\<lambda>_. None),
     open_database = (\<lambda>_. Inr no_accounts), findings_exist = (\<lambda>_. False), open_findings = (\<lambda>_. Inr []),
     metrics_ca = (\<lambda>_. Inr ()), rule_ca = (\<lambda>_. True), session_schema = Inr sample_store,
     current_dir = Inr (lit ''/srv''), canonical_dir = (\<lambda>d. Inr [d]), current_exe = Inr [lit ''srv'', lit ''kraken-ui''],
     update_client = Inr (), log_error = None, provider_installed = True, tls_error = (\<lambda>_ _. None)\<rparr>"


end
