(* ===== verification/HashSlots.thy ===== *)
theory HashSlots
  imports Transitions
begin

text \<open>
  The cap on concurrent password hashes (\<open>HASH_SLOTS\<close>, \<open>hash_slot\<close>, \<open>spawn_verify\<close>, \<open>spawn_encrypt\<close> and
  \<open>spawn_dummy\<close> of \<open>src/services/password_crypto.rs\<close>) as an interleaving system. Each of the three
  functions takes a slot, starts a task on the blocking pool, awaits it and gives the slot back. The
  request that calls them can be dropped at any await (by the request timeout or a client that goes
  away); a task on the blocking pool cannot. The pool is taken to have a thread for every task.
\<close>

section \<open>The system\<close>

text \<open>
  A call that waits for a slot; holds one while its task hashes, or has hashed; has returned; was dropped
  while its task hashes on; was dropped with nothing running.
\<close>

datatype hash_call = Queued | Hashing | Hashed | Returned | Detached | Withdrawn

record hash_system =
  free_slots :: nat
  hash_calls :: "hash_call list"

datatype hash_event = Call | Take_slot nat | End_task nat | Join nat | Cut_off nat

definition set_call :: "nat \<Rightarrow> hash_call \<Rightarrow> nat \<Rightarrow> hash_system \<Rightarrow> hash_system" where
  "set_call i c free st = st\<lparr>free_slots := free, hash_calls := (hash_calls st)[i := c]\<rparr>"

fun hash_move :: "hash_event \<Rightarrow> hash_call \<Rightarrow> nat \<Rightarrow> (hash_call \<times> nat) option" where
  "hash_move (Take_slot _) Queued free = (if free = 0 then None else Some (Hashing, free - 1))"
| "hash_move (End_task _) Hashing free = Some (Hashed, free)"
| "hash_move (End_task _) Detached free = Some (Withdrawn, free)"
| "hash_move (Join _) Hashed free = Some (Returned, free + 1)"
| "hash_move (Cut_off _) Queued free = Some (Withdrawn, free)"
| "hash_move (Cut_off _) Hashing free = Some (Detached, free + 1)"
| "hash_move (Cut_off _) Hashed free = Some (Withdrawn, free + 1)"
| "hash_move _ _ _ = None"

fun call_of :: "hash_event \<Rightarrow> nat option" where
  "call_of Call = None"
| "call_of (Take_slot i) = Some i"
| "call_of (End_task i) = Some i"
| "call_of (Join i) = Some i"
| "call_of (Cut_off i) = Some i"

definition hash_step :: "hash_system \<Rightarrow> hash_event \<Rightarrow> hash_system option" where
  "hash_step st e =
     (case call_of e of
        None \<Rightarrow> Some (st\<lparr>hash_calls := hash_calls st @ [Queued]\<rparr>)
      | Some i \<Rightarrow>
          if i < length (hash_calls st)
          then map_option (\<lambda>(c, free). set_call i c free st) (hash_move e (hash_calls st ! i) (free_slots st))
          else None)"

definition hash_slots :: "nat \<Rightarrow> hash_system" where
  "hash_slots permits = \<lparr>free_slots = permits, hash_calls = []\<rparr>"

definition holds_slot :: "hash_call \<Rightarrow> bool" where
  "holds_slot c \<longleftrightarrow> c = Hashing \<or> c = Hashed"

definition task_runs :: "hash_call \<Rightarrow> bool" where
  "task_runs c \<longleftrightarrow> c = Hashing \<or> c = Detached"

definition hashes_running :: "hash_system \<Rightarrow> nat" where
  "hashes_running st = count_if task_runs (hash_calls st)"

definition slots_held :: "hash_system \<Rightarrow> nat" where
  "slots_held st = count_if holds_slot (hash_calls st)"

section \<open>No slot leaks\<close>

definition detached :: "hash_system \<Rightarrow> nat" where
  "detached st = count_if (\<lambda>c. c = Detached) (hash_calls st)"

lemma count_set_call: "i < length (hash_calls st) \<Longrightarrow>
    count_if p (hash_calls (set_call i c free st)) + (if p (hash_calls st ! i) then 1 else 0) =
    count_if p (hash_calls st) + (if p c then 1 else 0)"
  by (simp add: set_call_def count_if_update)

lemma hash_move_slots: "hash_move e c free = Some (c', free') \<Longrightarrow>
    free' + (if holds_slot c' then 1 else 0) = free + (if holds_slot c then 1 else 0) \<and>
    (if c' = Detached then 1 else 0) \<le> (if c = Detached then 1 else 0) + (if \<exists>i. e = Cut_off i then 1 else (0::nat))"
  by (cases "(e, c, free)" rule: hash_move.cases) (auto simp: holds_slot_def split: if_splits)

lemma hash_step_slots:
  assumes "hash_step st e = Some st'"
  shows "free_slots st' + slots_held st' = free_slots st + slots_held st \<and>
    detached st' \<le> detached st + (if \<exists>i. e = Cut_off i then 1 else 0)"
proof (cases "call_of e")
  case None
  then show ?thesis using assms by (auto simp: hash_step_def slots_held_def detached_def holds_slot_def)
next
  case (Some i)
  then obtain c free where i: "i < length (hash_calls st)" and m: "hash_move e (hash_calls st ! i) (free_slots st) = Some (c, free)"
    and st': "st' = set_call i c free st"
    using assms by (auto simp: hash_step_def split: if_splits)
  have "free_slots st' = free" by (simp add: st' set_call_def)
  then show ?thesis
    using hash_move_slots [OF m] count_set_call [OF i, of holds_slot c free] count_set_call [OF i, of "\<lambda>c. c = Detached" c free]
    unfolding slots_held_def detached_def st' by linarith
qed

lemma hash_run_slots:
  "run_events hash_step st es = Some st' \<Longrightarrow>
     free_slots st' + slots_held st' = free_slots st + slots_held st \<and>
     detached st' \<le> detached st + count_if (\<lambda>e. \<exists>i. e = Cut_off i) es"
proof (induction es arbitrary: st)
  case (Cons e es)
  then obtain st1 where "hash_step st e = Some st1" "run_events hash_step st1 es = Some st'" by (auto split: option.splits)
  then show ?case using Cons.IH hash_step_slots [of st e st1] by fastforce
qed simp

text \<open>
  Property C40 (bounds): the cap on hashes, and what it does not cover. In every interleaving of calls, tasks
  and dropped requests no slot leaks: the free ones and the ones held are always all of them. Hence at
  most as many hashes run as there are slots, and one more for every request that was dropped; without
  dropped requests the cap holds.
\<close>

theorem hashes_bounded_by_slots:
  assumes "run_events hash_step (hash_slots permits) es = Some st"
  shows "free_slots st + slots_held st = permits \<and>
    hashes_running st \<le> permits + count_if (\<lambda>e. \<exists>i. e = Cut_off i) es"
proof -
  have start: "free_slots (hash_slots permits) + slots_held (hash_slots permits) = permits" "detached (hash_slots permits) = 0"
    by (simp_all add: hash_slots_def slots_held_def detached_def)
  note run = hash_run_slots [OF assms]
  have "count_if task_runs cs \<le> count_if holds_slot cs + count_if (\<lambda>c. c = Detached) cs" for cs
    by (induction cs) (auto simp: task_runs_def holds_slot_def)
  then have "hashes_running st \<le> slots_held st + detached st"
    by (simp add: hashes_running_def slots_held_def detached_def)
  then show ?thesis using run start by simp
qed

text \<open>Two slots, three calls: the third waits until the first has returned.\<close>

definition three_logins :: "hash_event list" where
  "three_logins = [Call, Call, Call, Take_slot 0, Take_slot 1, End_task 0, Join 0, Take_slot 2]"

theorem hashes_bounded_by_slots_witness:
  "\<exists>st. run_events hash_step (hash_slots 2) three_logins = Some st \<and> hashes_running st = 2 \<and> slots_held st = 2 \<and>
     run_events hash_step (hash_slots 2) (take 5 three_logins @ [Take_slot 2]) = None"
proof -
  have "map_option hashes_running (run_events hash_step (hash_slots 2) three_logins) = Some 2"
    "map_option free_slots (run_events hash_step (hash_slots 2) three_logins) = Some 0"
    "run_events hash_step (hash_slots 2) (take 5 three_logins @ [Take_slot 2]) = None" by code_simp+
  moreover from this obtain st where st: "run_events hash_step (hash_slots 2) three_logins = Some st" by auto
  ultimately show ?thesis using hashes_bounded_by_slots [OF st] by auto
qed

section \<open>Dropped requests overrun the cap\<close>

text \<open>Requests that are dropped as soon as their hash has started.\<close>

definition dropped_hashes :: "nat \<Rightarrow> hash_event list" where
  "dropped_hashes n = concat (map (\<lambda>i. [Call, Take_slot i, Cut_off i]) [0..<n])"

lemma dropped_hashes_run:
  assumes "0 < permits"
  shows "run_events hash_step (hash_slots permits) (dropped_hashes n) =
    Some \<lparr>free_slots = permits, hash_calls = replicate n Detached\<rparr>"
proof (induction n)
  case 0
  then show ?case by (simp add: dropped_hashes_def hash_slots_def)
next
  case (Suc n)
  obtain k where k: "permits = Suc k" using assms by (cases permits) auto
  have "replicate n Detached @ [Detached] = replicate (Suc n) Detached" by (simp add: replicate_append_same)
  then show ?case
    using Suc by (simp add: dropped_hashes_def run_events_append hash_step_def set_call_def k nth_append list_update_append)
qed

text \<open>
  Dropped requests overrun the cap. The slot is released when the request is dropped, not
  when its hash is done, as the comment on \<open>hash_slot\<close> says: whatever the number of slots, any number of
  hashes can run at once while all the slots are free again, each with its memory.
\<close>

theorem dropped_requests_overrun_slots:
  "\<exists>es st. run_events hash_step (hash_slots (Suc k)) es = Some st \<and> hashes_running st = n \<and> free_slots st = Suc k"
proof -
  have "count_if task_runs (replicate n Detached) = n" by (induction n) (simp_all add: task_runs_def)
  then show ?thesis
    using dropped_hashes_run [of "Suc k" n]
    by (intro exI [of _ "dropped_hashes n"] exI [of _ "\<lparr>free_slots = Suc k, hash_calls = replicate n Detached\<rparr>"])
      (simp add: hashes_running_def)
qed

end
