(* ===== verification/Schema.thy ===== *)
theory Schema
  imports SessionStore OperatorStore
begin

text \<open>
  The schema of the databases: \<open>connect\<close> and \<open>initialize_schema\<close> of \<open>src/models/database.rs\<close>, and
  \<open>initialize_schema\<close> of \<open>src/models/session_store.rs\<close>. A database is a map from names to tables with columns
  and rows, so that databases of older versions can be described; \<open>tables_of\<close> reads the typed tables of
  theory World off it, the way the queries of the console do.
\<close>

section \<open>Databases\<close>

datatype sql_value = Sql_null | Sql_int int | Sql_text ustr

type_synonym sql_row = "ustr \<Rightarrow> sql_value option"

text \<open>A column with its constraints: \<open>CHECK (... IN ...)\<close> and the foreign key whose deletion cascades.\<close>

record column =
  col_name :: ustr
  not_null :: bool
  default_value :: sql_value
  one_of :: "ustr list option"
  is_unique :: bool
  cascades_from :: "(ustr \<times> ustr) option"

record sql_table =
  table_columns :: "column list"
  table_rows :: "sql_row list"
  row_sequence :: int

record sql_database =
  sql_tables :: "ustr \<Rightarrow> sql_table option"
  sql_indexes :: "ustr list"

definition column_names :: "sql_table \<Rightarrow> ustr set" where
  "column_names T = col_name ` set (table_columns T)"

datatype ddl =
    Create_table ustr "column list"
  | Add_column ustr column
  | Create_index ustr ustr ustr

text \<open>
  \<open>CREATE TABLE IF NOT EXISTS\<close>, \<open>ALTER TABLE ... ADD COLUMN\<close> and \<open>CREATE INDEX IF NOT EXISTS\<close> of SQLite;
  \<open>None\<close> is an error, which changes nothing.
\<close>

definition with_column :: "column \<Rightarrow> sql_table \<Rightarrow> sql_table" where
  "with_column c T = T\<lparr>table_columns := table_columns T @ [c],
     table_rows := map (\<lambda>r. r(col_name c \<mapsto> default_value c)) (table_rows T)\<rparr>"

fun run_ddl :: "ddl \<Rightarrow> sql_database \<Rightarrow> sql_database option" where
  "run_ddl (Create_table name cols) db =
     (if sql_tables db name \<noteq> None then Some db
      else Some (db\<lparr>sql_tables := (sql_tables db)(name \<mapsto> \<lparr>table_columns = cols, table_rows = [], row_sequence = 0\<rparr>)\<rparr>))"
| "run_ddl (Add_column name c) db =
     (case sql_tables db name of
        None \<Rightarrow> None
      | Some T \<Rightarrow>
          if col_name c \<in> column_names T \<or> (not_null c \<and> default_value c = Sql_null) then None
          else Some (db\<lparr>sql_tables := (sql_tables db)(name \<mapsto> with_column c T)\<rparr>))"
| "run_ddl (Create_index index name col) db =
     (if index \<in> set (sql_indexes db) then Some db
      else (case sql_tables db name of
          None \<Rightarrow> None
        | Some T \<Rightarrow> if col \<in> column_names T then Some (db\<lparr>sql_indexes := sql_indexes db @ [index]\<rparr>) else None))"

text \<open>
  Statements one after the other, each failing where the script of faults says so: an error stops with
  the message given for it, or is ignored where the code says \<open>let _ =\<close>.
\<close>

fun run_schema :: "(ddl \<times> ustr option) list \<Rightarrow> bool list \<Rightarrow> sql_database \<Rightarrow> (ustr + unit) \<times> sql_database" where
  "run_schema [] fs db = (Inr (), db)"
| "run_schema ((stmt, context) # rest) fs db =
     (case (if fs \<noteq> [] \<and> hd fs then None else run_ddl stmt db) of
        Some db' \<Rightarrow> run_schema rest (tl fs) db'
      | None \<Rightarrow> (case context of
          None \<Rightarrow> run_schema rest (tl fs) db
        | Some message \<Rightarrow> (Inl message, db)))"

section \<open>The tables of the console\<close>

definition nullable :: "string \<Rightarrow> column" where
  "nullable name = \<lparr>col_name = lit name, not_null = False, default_value = Sql_null, one_of = None, is_unique = False,
     cascades_from = None\<rparr>"

definition required :: "string \<Rightarrow> column" where
  "required name = (nullable name)\<lparr>not_null := True\<rparr>"

definition defaulted :: "string \<Rightarrow> int \<Rightarrow> column" where
  "defaulted name n = (required name)\<lparr>default_value := Sql_int n\<rparr>"

definition OPERATORS :: ustr where "OPERATORS = lit ''operators''"
definition TOTPS :: ustr where "TOTPS = lit ''operator_mfa_totp''"
definition CODES :: ustr where "CODES = lit ''operator_mfa_recovery_codes''"
definition SESSIONS :: ustr where "SESSIONS = lit ''kraken_sessions''"
definition CODES_INDEX :: ustr where "CODES_INDEX = lit ''idx_operator_mfa_recovery_user''"
definition SESSIONS_INDEX :: ustr where "SESSIONS_INDEX = lit ''idx_kraken_sessions_user_id''"

definition operator_columns :: "column list" where
  "operator_columns = [(required ''id_user'')\<lparr>is_unique := True\<rparr>, (required ''username'')\<lparr>is_unique := True\<rparr>,
     (required ''email'')\<lparr>is_unique := True\<rparr>,
     (required ''type'')\<lparr>one_of := Some [lit ''admin'', lit ''operator'', lit ''auditor'']\<rparr>,
     required ''encrypted_password_hash'', defaulted ''mfa_enabled'' 0, defaulted ''authz_version'' 0,
     nullable ''authenticated_at'', nullable ''reauthenticated_at'', required ''created_at'', required ''updated_at'']"

definition operator_additions :: "column list" where
  "operator_additions = [defaulted ''mfa_enabled'' 0, defaulted ''authz_version'' 0, nullable ''authenticated_at'',
     nullable ''reauthenticated_at'']"

definition totp_columns :: "column list" where
  "totp_columns = [(required ''id_totp'')\<lparr>is_unique := True\<rparr>,
     (required ''id_user'')\<lparr>is_unique := True, cascades_from := Some (OPERATORS, lit ''id_user'')\<rparr>,
     required ''encrypted_secret'', defaulted ''confirmed'' 0, required ''created_at'', nullable ''confirmed_at'',
     defaulted ''last_used_step'' 0]"

definition totp_additions :: "column list" where
  "totp_additions = [defaulted ''last_used_step'' 0]"

definition code_columns :: "column list" where
  "code_columns = [(required ''id_code'')\<lparr>is_unique := True\<rparr>,
     (required ''id_user'')\<lparr>cascades_from := Some (OPERATORS, lit ''id_user'')\<rparr>, required ''encrypted_code'',
     defaulted ''used'' 0, required ''created_at'', nullable ''used_at'']"

definition add_columns :: "ustr \<Rightarrow> column list \<Rightarrow> (ddl \<times> ustr option) list" where
  "add_columns name cs = map (\<lambda>c. (Add_column name c, None)) cs"

definition initialize_schema :: "(ddl \<times> ustr option) list" where
  "initialize_schema =
     (Create_table OPERATORS operator_columns, Some (lit ''unable to initialize operators table'')) #
     add_columns OPERATORS operator_additions @
     (Create_table TOTPS totp_columns, Some (lit ''unable to initialize operator_mfa_totp table'')) #
     add_columns TOTPS totp_additions @
     [(Create_table CODES code_columns, Some (lit ''unable to initialize operator_mfa_recovery_codes table'')),
      (Create_index CODES_INDEX CODES (lit ''id_user''), Some (lit ''unable to create the recovery-codes user index''))]"

definition session_columns :: "column list" where
  "session_columns = [(required ''id'')\<lparr>is_unique := True\<rparr>, required ''record'', required ''expiry_utc'', defaulted ''user_id'' 0]"

definition initialize_session_schema :: "(ddl \<times> ustr option) list" where
  "initialize_session_schema =
     [(Create_table SESSIONS session_columns, Some (lit ''unable to initialize the sessions table'')),
      (Add_column SESSIONS (defaulted ''user_id'' 0), None),
      (Create_index SESSIONS_INDEX SESSIONS (lit ''user_id''), Some (lit ''unable to create the sessions user_id index''))]"

text \<open>\<open>make_parent\<close> makes the directory of the file, \<open>open_pool\<close> opens the file or creates it.\<close>

definition connect :: "(ustr \<Rightarrow> ustr + unit) \<Rightarrow> (ustr \<Rightarrow> ustr + sql_database) \<Rightarrow> bool list \<Rightarrow> ustr \<Rightarrow> ustr + sql_database" where
  "connect make_parent open_pool fs path =
     (case make_parent path of
        Inl e \<Rightarrow> Inl (lit ''unable to create database directory: '' @ e)
      | Inr _ \<Rightarrow> (case open_pool path of
          Inl e \<Rightarrow> Inl (lit ''unable to connect to SQLite through SeaORM: '' @ e)
        | Inr db \<Rightarrow> (case run_schema initialize_schema fs db of (Inl e, _) \<Rightarrow> Inl e | (Inr _, db') \<Rightarrow> Inr db')))"

section \<open>Reading rows\<close>

definition int_at :: "sql_row \<Rightarrow> string \<Rightarrow> int option" where
  "int_at r name = (case r (lit name) of Some (Sql_int n) \<Rightarrow> Some n | _ \<Rightarrow> None)"

definition text_at :: "sql_row \<Rightarrow> string \<Rightarrow> ustr option" where
  "text_at r name = (case r (lit name) of Some (Sql_text t) \<Rightarrow> Some t | _ \<Rightarrow> None)"

definition text_or_null_at :: "sql_row \<Rightarrow> string \<Rightarrow> ustr option option" where
  "text_or_null_at r name =
     (case r (lit name) of Some (Sql_text t) \<Rightarrow> Some (Some t) | Some Sql_null \<Rightarrow> Some None | _ \<Rightarrow> None)"

definition operator_of :: "sql_row \<Rightarrow> operator_row option" where
  "operator_of r =
     Option.bind (int_at r ''id_user'') (\<lambda>u. Option.bind (text_at r ''username'') (\<lambda>name.
     Option.bind (text_at r ''email'') (\<lambda>addr. Option.bind (text_at r ''type'') (\<lambda>ty.
     Option.bind (text_at r ''encrypted_password_hash'') (\<lambda>hash. Option.bind (int_at r ''mfa_enabled'') (\<lambda>mfa.
     Option.bind (int_at r ''authz_version'') (\<lambda>epoch. Option.bind (text_or_null_at r ''authenticated_at'') (\<lambda>auth.
     Option.bind (text_or_null_at r ''reauthenticated_at'') (\<lambda>reauth. Option.bind (text_at r ''created_at'') (\<lambda>created.
     Option.bind (text_at r ''updated_at'') (\<lambda>updated.
     Some \<lparr>id_user = u, username = name, email = addr, operator_type = ty, encrypted_password_hash = hash, mfa_enabled = mfa,
       authz_version = epoch, authenticated_at = auth, reauthenticated_at = reauth, created_at = created,
       updated_at = updated\<rparr>)))))))))))"

definition totp_row_from :: "sql_row \<Rightarrow> totp_row option" where
  "totp_row_from r =
     Option.bind (int_at r ''id_totp'') (\<lambda>i. Option.bind (int_at r ''id_user'') (\<lambda>u.
     Option.bind (text_at r ''encrypted_secret'') (\<lambda>secret. Option.bind (int_at r ''confirmed'') (\<lambda>c.
     Option.bind (text_at r ''created_at'') (\<lambda>created. Option.bind (text_or_null_at r ''confirmed_at'') (\<lambda>conf.
     Option.bind (int_at r ''last_used_step'') (\<lambda>step.
     Some \<lparr>id_totp = i, totp_user = u, encrypted_secret = secret, confirmed = c, totp_created_at = created,
       confirmed_at = conf, last_used_step = step\<rparr>)))))))"

definition code_of_row :: "sql_row \<Rightarrow> recovery_row option" where
  "code_of_row r =
     Option.bind (int_at r ''id_code'') (\<lambda>i. Option.bind (int_at r ''id_user'') (\<lambda>u.
     Option.bind (text_at r ''encrypted_code'') (\<lambda>code. Option.bind (int_at r ''used'') (\<lambda>n.
     Option.bind (text_at r ''created_at'') (\<lambda>created. Option.bind (text_or_null_at r ''used_at'') (\<lambda>burned.
     Some \<lparr>id_code = i, code_user = u, encrypted_code = code, used = n, code_created_at = created, used_at = burned\<rparr>))))))"

text \<open>A query names every column of its entity, so it fails where one is missing.\<close>

definition read_rows :: "column list \<Rightarrow> (sql_row \<Rightarrow> 'a option) \<Rightarrow> sql_table \<Rightarrow> 'a list option" where
  "read_rows cs f T = (if col_name ` set cs \<subseteq> column_names T then those (map f (table_rows T)) else None)"

definition tables_of :: "sql_database \<Rightarrow> tables option" where
  "tables_of db =
     Option.bind (sql_tables db OPERATORS) (\<lambda>ot. Option.bind (sql_tables db TOTPS) (\<lambda>tt.
     Option.bind (sql_tables db CODES) (\<lambda>ct.
     Option.bind (read_rows operator_columns operator_of ot) (\<lambda>os.
     Option.bind (read_rows totp_columns totp_row_from tt) (\<lambda>ts.
     Option.bind (read_rows code_columns code_of_row ct) (\<lambda>cs.
     Some \<lparr>operators = os, operator_seq = row_sequence ot, totps = ts, totp_seq = row_sequence tt,
       codes = cs, code_seq = row_sequence ct\<rparr>))))))"

section \<open>Older databases\<close>

text \<open>
  A database of this or an older version: a table that is there has the columns that were always there, and
  its rows have a value for exactly its columns. What its rows mean: those of the columns that came later
  have their default.
\<close>

definition rows_ok :: "sql_table \<Rightarrow> bool" where
  "rows_ok T \<longleftrightarrow> (\<forall>r\<in>set (table_rows T). dom r = column_names T)"

definition older :: "column list \<Rightarrow> column list \<Rightarrow> sql_table \<Rightarrow> bool" where
  "older cs additions T \<longleftrightarrow> rows_ok T \<and> col_name ` set cs \<subseteq> column_names T \<union> col_name ` set additions"

definition older_database :: "sql_database \<Rightarrow> bool" where
  "older_database db \<longleftrightarrow>
     pred_option (older operator_columns operator_additions) (sql_tables db OPERATORS) \<and>
     pred_option (older totp_columns totp_additions) (sql_tables db TOTPS) \<and>
     pred_option (older code_columns []) (sql_tables db CODES)"

definition with_defaults :: "column list \<Rightarrow> sql_row \<Rightarrow> sql_row" where
  "with_defaults cs r = map_of (map (\<lambda>c. (col_name c, default_value c)) cs) ++ r"

definition meant_rows :: "column list \<Rightarrow> (sql_row \<Rightarrow> 'a option) \<Rightarrow> sql_table option \<Rightarrow> 'a list option" where
  "meant_rows additions f t = (case t of None \<Rightarrow> Some [] | Some T \<Rightarrow> those (map (\<lambda>r. f (with_defaults additions r)) (table_rows T)))"

definition sequence_of :: "sql_table option \<Rightarrow> int" where
  "sequence_of t = (case t of None \<Rightarrow> 0 | Some T \<Rightarrow> row_sequence T)"

definition meant_tables :: "sql_database \<Rightarrow> tables option" where
  "meant_tables db =
     Option.bind (meant_rows operator_additions operator_of (sql_tables db OPERATORS)) (\<lambda>os.
     Option.bind (meant_rows totp_additions totp_row_from (sql_tables db TOTPS)) (\<lambda>ts.
     Option.bind (meant_rows [] code_of_row (sql_tables db CODES)) (\<lambda>cs.
     Some \<lparr>operators = os, operator_seq = sequence_of (sql_tables db OPERATORS), totps = ts,
       totp_seq = sequence_of (sql_tables db TOTPS), codes = cs, code_seq = sequence_of (sql_tables db CODES)\<rparr>)))"

section \<open>Bringing a table forward\<close>

definition add_missing :: "column \<Rightarrow> sql_table \<Rightarrow> sql_table" where
  "add_missing c T = (if col_name c \<in> column_names T then T else with_column c T)"

definition or_created :: "column list \<Rightarrow> sql_table option \<Rightarrow> sql_table" where
  "or_created cs t = (case t of Some T \<Rightarrow> T | None \<Rightarrow> \<lparr>table_columns = cs, table_rows = [], row_sequence = 0\<rparr>)"

definition addable :: "column \<Rightarrow> bool" where
  "addable c \<longleftrightarrow> \<not> (not_null c \<and> default_value c = Sql_null)"

lemma with_column_simps [simp]:
  "column_names (with_column c T) = insert (col_name c) (column_names T)"
  "row_sequence (with_column c T) = row_sequence T"
  "table_rows (with_column c T) = map (\<lambda>r. r(col_name c \<mapsto> default_value c)) (table_rows T)"
  by (simp_all add: with_column_def column_names_def)

lemma add_missing_names [simp]: "column_names (add_missing c T) = insert (col_name c) (column_names T)"
  by (auto simp: add_missing_def)

lemma add_missing_sequence [simp]: "row_sequence (add_missing c T) = row_sequence T"
  by (simp add: add_missing_def)

lemma add_missing_rows:
  assumes "rows_ok T"
  shows "table_rows (add_missing c T) = map (with_defaults [c]) (table_rows T)" and "rows_ok (add_missing c T)"
proof -
  have "r(col_name c \<mapsto> default_value c) = with_defaults [c] r" if "r \<in> set (table_rows T)" "col_name c \<notin> column_names T" for r
    using that assms by (auto simp: rows_ok_def with_defaults_def map_add_def fun_eq_iff split: option.splits)
  moreover have "with_defaults [c] r = r" if "r \<in> set (table_rows T)" "col_name c \<in> column_names T" for r
  proof -
    have "col_name c \<in> dom r" using that assms by (auto simp: rows_ok_def)
    then show ?thesis by (auto simp: with_defaults_def map_add_def fun_eq_iff split: option.splits)
  qed
  ultimately show "table_rows (add_missing c T) = map (with_defaults [c]) (table_rows T)"
    by (auto simp: add_missing_def map_idI)
  show "rows_ok (add_missing c T)" using assms by (auto simp: add_missing_def rows_ok_def)
qed

lemma with_defaults_Cons: "with_defaults cs (with_defaults [c] r) = with_defaults (c # cs) r"
  if "col_name c \<notin> col_name ` set cs"
  using that by (auto simp: with_defaults_def map_add_def fun_eq_iff map_of_eq_None_iff image_iff split: option.splits)

lemma add_all_rows:
  assumes "rows_ok T" and "distinct (map col_name cs)"
  shows "table_rows (fold add_missing cs T) = map (with_defaults cs) (table_rows T)" and "rows_ok (fold add_missing cs T)"
    and "column_names (fold add_missing cs T) = column_names T \<union> col_name ` set cs"
    and "row_sequence (fold add_missing cs T) = row_sequence T"
  using assms
proof (induction cs arbitrary: T)
  case Nil
  { case 1 then show ?case by (simp add: with_defaults_def map_idI) next
    case 2 then show ?case by simp next
    case 3 then show ?case by simp next
    case 4 then show ?case by simp }
next
  case (Cons c cs)
  { case 1
    show ?case using Cons.IH(1) [OF add_missing_rows(2) [OF 1(1)]] add_missing_rows(1) [OF 1(1)] 1(2) by (simp add: with_defaults_Cons comp_def)
  next case 2
    show ?case using Cons.IH(2) [OF add_missing_rows(2) [OF 2(1)]] 2(2) by simp
  next case 3
    show ?case using Cons.IH(3) [OF add_missing_rows(2) [OF 3(1)]] 3(2) by auto
  next case 4
    show ?case using Cons.IH(4) [OF add_missing_rows(2) [OF 4(1)]] 4(2) by simp }
qed

lemma fold_names: "column_names (fold add_missing cs T) = column_names T \<union> col_name ` set cs"
  by (induction cs arbitrary: T) auto

lemma read_rows_brought_forward:
  assumes "pred_option (older cs additions) t" and "distinct (map col_name additions)"
  shows "read_rows cs f (fold add_missing additions (or_created cs t)) = meant_rows additions f t"
proof (cases t)
  case None
  let ?T = "or_created cs None"
  have "rows_ok ?T" "table_rows ?T = []" "column_names ?T = col_name ` set cs"
    by (simp_all add: or_created_def rows_ok_def column_names_def)
  then show ?thesis using add_all_rows [of ?T additions] assms(2) by (simp add: None read_rows_def meant_rows_def)
next
  case (Some T)
  then have "rows_ok T" "col_name ` set cs \<subseteq> column_names T \<union> col_name ` set additions" using assms(1) by (auto simp: older_def)
  then show ?thesis
    using add_all_rows [of T additions] assms(2) by (simp add: Some read_rows_def meant_rows_def or_created_def comp_def)
qed

section \<open>Running the statements\<close>

definition put_table :: "ustr \<Rightarrow> sql_table \<Rightarrow> sql_database \<Rightarrow> sql_database" where
  "put_table name T db = db\<lparr>sql_tables := (sql_tables db)(name \<mapsto> T)\<rparr>"

lemma put_table_simps [simp]:
  "sql_tables (put_table name T db) = (sql_tables db)(name \<mapsto> T)"
  "sql_indexes (put_table name T db) = sql_indexes db"
  "put_table name T (put_table name T' db) = put_table name T db"
  by (simp_all add: put_table_def)

lemma run_create: "run_schema ((Create_table name cs, m) # rest) [] db =
    run_schema rest [] (put_table name (or_created cs (sql_tables db name)) db)"
  by (cases "sql_tables db name") (auto simp: or_created_def put_table_def map_upd_triv)

lemma run_additions:
  assumes "sql_tables db name = Some T" and "list_all addable cs"
  shows "run_schema (add_columns name cs @ rest) [] db = run_schema rest [] (put_table name (fold add_missing cs T) db)"
  using assms
proof (induction cs arbitrary: T db)
  case Nil
  then show ?case by (simp add: add_columns_def put_table_def map_upd_triv)
next
  case (Cons c cs)
  let ?db = "put_table name (add_missing c T) db"
  have "run_schema (add_columns name (c # cs) @ rest) [] db = run_schema (add_columns name cs @ rest) [] ?db"
  proof (cases "col_name c \<in> column_names T")
    case True
    then show ?thesis using Cons.prems by (simp add: add_columns_def add_missing_def put_table_def map_upd_triv)
  next
    case False
    then show ?thesis using Cons.prems by (auto simp: add_columns_def add_missing_def put_table_def addable_def)
  qed
  also have "\<dots> = run_schema rest [] (put_table name (fold add_missing cs (add_missing c T)) ?db)"
    using Cons.prems by (intro Cons.IH) simp_all
  finally show ?case by simp
qed

lemma additions_ok:
  "list_all addable operator_additions" "list_all addable totp_additions"
  "distinct (map col_name operator_additions)" "distinct (map col_name totp_additions)"
  by (simp_all add: operator_additions_def totp_additions_def addable_def defaulted_def required_def nullable_def)

lemma table_names_differ: "OPERATORS \<noteq> TOTPS" "OPERATORS \<noteq> CODES" "TOTPS \<noteq> CODES"
  by (simp_all add: OPERATORS_def TOTPS_def CODES_def)

definition brought_forward :: "sql_database \<Rightarrow> sql_database" where
  "brought_forward db =
     (let db1 = put_table OPERATORS (fold add_missing operator_additions (or_created operator_columns (sql_tables db OPERATORS))) db;
          db2 = put_table TOTPS (fold add_missing totp_additions (or_created totp_columns (sql_tables db TOTPS))) db1;
          db3 = put_table CODES (or_created code_columns (sql_tables db CODES)) db2
      in db3\<lparr>sql_indexes := (if CODES_INDEX \<in> set (sql_indexes db) then sql_indexes db else sql_indexes db @ [CODES_INDEX])\<rparr>)"

lemma code_table_indexed:
  assumes "older_database db"
  shows "lit ''id_user'' \<in> column_names (or_created code_columns (sql_tables db CODES))"
proof -
  have "lit ''id_user'' \<in> col_name ` set code_columns" by (simp add: code_columns_def required_def nullable_def)
  then show ?thesis
    using assms by (cases "sql_tables db CODES") (auto simp: older_database_def older_def or_created_def column_names_def)
qed

lemma schema_run:
  assumes "older_database db"
  shows "run_schema initialize_schema [] db = (Inr (), brought_forward db)"
proof -
  let ?O = "or_created operator_columns (sql_tables db OPERATORS)" and ?T = "or_created totp_columns (sql_tables db TOTPS)"
    and ?C = "or_created code_columns (sql_tables db CODES)"
  let ?db1 = "put_table OPERATORS (fold add_missing operator_additions ?O) db"
  let ?db2 = "put_table TOTPS (fold add_missing totp_additions ?T) ?db1"
  let ?last = "[(Create_table CODES code_columns, Some (lit ''unable to initialize operator_mfa_recovery_codes table'')),
      (Create_index CODES_INDEX CODES (lit ''id_user''), Some (lit ''unable to create the recovery-codes user index''))]"
  let ?totps = "(Create_table TOTPS totp_columns, Some (lit ''unable to initialize operator_mfa_totp table'')) #
    add_columns TOTPS totp_additions @ ?last"
  have "run_schema initialize_schema [] db = run_schema ?totps [] ?db1"
    using run_additions [of "put_table OPERATORS ?O db" OPERATORS ?O operator_additions ?totps] additions_ok(1)
    unfolding initialize_schema_def append_Cons run_create by (simp del: run_schema.simps)
  also have "\<dots> = run_schema ?last [] ?db2"
    using run_additions [of "put_table TOTPS ?T ?db1" TOTPS ?T totp_additions ?last] additions_ok(2) table_names_differ
    unfolding append_Cons run_create by (simp del: run_schema.simps)
  also have "\<dots> = (Inr (), brought_forward db)"
    using code_table_indexed [OF assms] table_names_differ
    by (simp only: run_create) (simp add: brought_forward_def Let_def put_table_def)
  finally show ?thesis .
qed

lemma add_missing_idle: "col_name ` set cs \<subseteq> column_names T \<Longrightarrow> fold add_missing cs T = T"
  by (induction cs) (auto simp: add_missing_def)

lemma brought_forward_tables [simp]:
  "sql_tables (brought_forward db) OPERATORS = Some (fold add_missing operator_additions (or_created operator_columns (sql_tables db OPERATORS)))"
  "sql_tables (brought_forward db) TOTPS = Some (fold add_missing totp_additions (or_created totp_columns (sql_tables db TOTPS)))"
  "sql_tables (brought_forward db) CODES = Some (or_created code_columns (sql_tables db CODES))"
  "CODES_INDEX \<in> set (sql_indexes (brought_forward db))"
  using table_names_differ by (simp_all add: brought_forward_def Let_def)

lemma brought_forward_older:
  assumes "pred_option (older cs additions) t" and "distinct (map col_name additions)"
  shows "rows_ok (or_created cs t)" and "col_name ` set cs \<subseteq> column_names (or_created cs t) \<union> col_name ` set additions"
    and "older cs additions (fold add_missing additions (or_created cs t))"
    and "row_sequence (fold add_missing additions (or_created cs t)) = sequence_of t"
proof -
  show ok: "rows_ok (or_created cs t)" "col_name ` set cs \<subseteq> column_names (or_created cs t) \<union> col_name ` set additions"
    using assms(1) by (cases t; auto simp: or_created_def older_def rows_ok_def column_names_def)+
  show "older cs additions (fold add_missing additions (or_created cs t))"
    using ok add_all_rows [OF ok(1) assms(2)] by (auto simp: older_def)
  have "row_sequence (or_created cs t) = sequence_of t" by (cases t) (simp_all add: or_created_def sequence_of_def)
  then show "row_sequence (fold add_missing additions (or_created cs t)) = sequence_of t"
    using add_all_rows(4) [OF ok(1) assms(2)] by simp
qed

lemma older_parts:
  assumes "older_database db"
  shows "pred_option (older operator_columns operator_additions) (sql_tables db OPERATORS)"
    and "pred_option (older totp_columns totp_additions) (sql_tables db TOTPS)"
    and "pred_option (older code_columns []) (sql_tables db CODES)"
  using assms by (simp_all add: older_database_def)

lemma brought_forward_reads:
  assumes "older_database db"
  shows "tables_of (brought_forward db) = meant_tables db"
proof -
  note parts = older_parts [OF assms]
  note reads = read_rows_brought_forward [OF parts(1) additions_ok(3), of operator_of]
    read_rows_brought_forward [OF parts(2) additions_ok(4), of totp_row_from]
    read_rows_brought_forward [OF parts(3), of code_of_row, simplified]
  note sequences = brought_forward_older(4) [OF parts(1) additions_ok(3)] brought_forward_older(4) [OF parts(2) additions_ok(4)]
    brought_forward_older(4) [OF parts(3), simplified]
  show ?thesis unfolding tables_of_def meant_tables_def by (simp add: reads sequences)
qed

lemma brought_forward_idle:
  assumes "older_database db"
  shows "run_schema initialize_schema [] (brought_forward db) = (Inr (), brought_forward db)"
proof -
  note parts = older_parts [OF assms]
  let ?db = "brought_forward db"
  have "older_database ?db"
    using brought_forward_older(3) [OF parts(1) additions_ok(3)] brought_forward_older(3) [OF parts(2) additions_ok(4)]
      brought_forward_older(3) [OF parts(3)] by (simp add: older_database_def)
  then have run: "run_schema initialize_schema [] ?db = (Inr (), brought_forward ?db)" by (rule schema_run)
  have names: "col_name ` set additions \<subseteq> column_names (fold add_missing additions T)" for additions T
    by (induction additions arbitrary: T) (auto simp: fold_names)
  have "brought_forward ?db = ?db"
    unfolding brought_forward_def [of ?db] Let_def
    by (simp add: or_created_def add_missing_idle names put_table_def map_upd_triv)
  then show ?thesis using run by simp
qed

text \<open>
  Property C38 (refinement): databases of older versions are brought forward. Opening a database in which
  any of the tables, of the columns added since and of the indexes may be missing succeeds, if no statement
  fails; the tables of the console then hold the rows that were there, with the default in the columns they
  did not have (no second factor, epoch zero, no step used), and nothing else; and opening it once more
  changes nothing.
\<close>

theorem older_databases_brought_forward:
  assumes "older_database db" and "make_parent path = Inr u" and "open_pool path = Inr db"
  shows "\<exists>db'. connect make_parent open_pool [] path = Inr db' \<and> tables_of db' = meant_tables db \<and>
    run_schema initialize_schema [] db' = (Inr (), db')"
  using schema_run [OF assms(1)] brought_forward_reads [OF assms(1)] brought_forward_idle [OF assms(1)] assms(2,3)
  by (simp add: connect_def)

text \<open>An old database: operators without second factor and epochs, and nothing else.\<close>

definition old_operator :: sql_row where
  "old_operator = [lit ''id_user'' \<mapsto> Sql_int 1, lit ''username'' \<mapsto> Sql_text (lit ''ann''),
     lit ''email'' \<mapsto> Sql_text (lit ''ann@example.org''), lit ''type'' \<mapsto> Sql_text (lit ''admin''),
     lit ''encrypted_password_hash'' \<mapsto> Sql_text (lit ''hash''), lit ''created_at'' \<mapsto> Sql_text (lit ''2024''),
     lit ''updated_at'' \<mapsto> Sql_text (lit ''2024'')]"

definition old_database :: sql_database where
  "old_database = \<lparr>sql_tables = [OPERATORS \<mapsto> \<lparr>
       table_columns = filter (\<lambda>c. col_name c \<notin> col_name ` set operator_additions) operator_columns,
       table_rows = [old_operator], row_sequence = 4\<rparr>], sql_indexes = []\<rparr>"

lemma old_database_older: "older_database old_database"
  by (auto simp: older_database_def older_def rows_ok_def column_names_def old_database_def old_operator_def operator_columns_def
      operator_additions_def defaulted_def required_def nullable_def table_names_differ [symmetric])

theorem older_databases_brought_forward_witness:
  "\<exists>db' t. connect (\<lambda>_. Inr ()) (\<lambda>_. Inr old_database) [] (lit ''ui.sqlite'') = Inr db' \<and> tables_of db' = Some t \<and>
     map username (operators t) = [lit ''ann''] \<and> map authz_version (operators t) = [0] \<and> operator_seq t = 4 \<and> totps t = []"
proof -
  have "map_option (\<lambda>t. (map username (operators t), map authz_version (operators t), operator_seq t, totps t)) (meant_tables old_database) =
      Some ([lit ''ann''], [0], 4, [])" by code_simp
  then show ?thesis
    using older_databases_brought_forward [OF old_database_older, of "\<lambda>_. Inr ()" "lit ''ui.sqlite''" "()" "\<lambda>_. Inr old_database"]
    by auto
qed

section \<open>Whatever fails\<close>

definition extends_table :: "sql_table \<Rightarrow> sql_table \<Rightarrow> bool" where
  "extends_table T T' \<longleftrightarrow> row_sequence T' = row_sequence T \<and> (\<exists>cs. table_columns T' = table_columns T @ cs) \<and>
     list_all2 (\<subseteq>\<^sub>m) (table_rows T) (table_rows T')"

definition keeps_tables :: "sql_database \<Rightarrow> sql_database \<Rightarrow> bool" where
  "keeps_tables db db' \<longleftrightarrow>
     (\<forall>name T. sql_tables db name = Some T \<longrightarrow> rows_ok T \<longrightarrow>
        (\<exists>T'. sql_tables db' name = Some T' \<and> rows_ok T' \<and> extends_table T T'))"

lemma extends_table_refl: "extends_table T T"
  by (simp add: extends_table_def list.rel_refl)

lemma extends_table_trans: "extends_table T T1 \<Longrightarrow> extends_table T1 T2 \<Longrightarrow> extends_table T T2"
  unfolding extends_table_def by (auto intro: list_all2_trans [OF map_le_trans])

lemma keeps_tables_trans: "keeps_tables a b \<Longrightarrow> keeps_tables b c \<Longrightarrow> keeps_tables a c"
  unfolding keeps_tables_def by (meson extends_table_trans)

lemma extends_with_column:
  assumes "rows_ok T" and "col_name c \<notin> column_names T"
  shows "extends_table T (with_column c T)" and "rows_ok (with_column c T)"
proof -
  have "r \<subseteq>\<^sub>m r(col_name c \<mapsto> default_value c)" if "r \<in> set (table_rows T)" for r
    using that assms by (auto simp: map_le_def rows_ok_def)
  then show "extends_table T (with_column c T)"
    by (auto simp: extends_table_def list_all2_map2 list.rel_refl_strong) (simp add: with_column_def)
  show "rows_ok (with_column c T)" using assms by (auto simp: rows_ok_def)
qed

lemma run_ddl_keeps: "run_ddl stmt db = Some db' \<Longrightarrow> keeps_tables db db'"
  by (induction stmt db rule: run_ddl.induct)
    (auto simp: keeps_tables_def extends_table_refl extends_with_column split: option.splits if_splits)

lemma run_schema_keeps: "run_schema steps fs db = (r, db') \<Longrightarrow> keeps_tables db db'"
proof (induction steps fs db rule: run_schema.induct)
  case (1 fs db)
  then show ?case by (auto simp: keeps_tables_def extends_table_refl)
next
  case (2 stmt m rest fs db)
  show ?case
  proof (cases "if fs \<noteq> [] \<and> hd fs then None else run_ddl stmt db")
    case None
    then show ?thesis using 2 by (auto simp: keeps_tables_def extends_table_refl split: option.splits)
  next
    case (Some db1)
    then have "keeps_tables db db1" by (auto intro: run_ddl_keeps split: if_splits)
    moreover have "keeps_tables db1 db'" using 2 Some by (auto split: option.splits)
    ultimately show ?thesis by (rule keeps_tables_trans)
  qed
qed


text \<open>The second added column fails.\<close>

definition busy_once :: "bool list" where
  "busy_once = [False, False, True]"


text \<open>
  The errors of the added columns are all ignored, not only that of a column that is there already: where
  the database is busy once, it is opened without the column, and the first query that names it fails, at the
  start for operators but only in use for the steps of the second factor. The table of sessions is
  different: its index needs the column.
\<close>

lemma failed_column_is_ignored:
  "case connect (\<lambda>_. Inr ()) (\<lambda>_. Inr old_database) busy_once (lit ''ui.sqlite'') of Inl e \<Rightarrow> False | Inr db \<Rightarrow> tables_of db = None"
  by code_simp

lemma session_schema_complete:
  assumes "run_schema initialize_session_schema fs db = (Inr u, db')" and "SESSIONS_INDEX \<notin> set (sql_indexes db)"
  shows "\<exists>T. sql_tables db' SESSIONS = Some T \<and> lit ''user_id'' \<in> column_names T"
  using assms unfolding initialize_session_schema_def by (auto split: option.splits if_splits)

end
