(* ===== verification/Console.thy ===== *)
theory Console
  imports PasswordChange MfaPages Setup Metrics RuleManagement UpdatePage
begin

text \<open>
  The console as a whole: every endpoint of the route table with its handler (the modules of
  \<open>src/controllers\<close> put together as \<open>src/routes/mod.rs\<close> does), so that the theorems hold for any request, to
  whatever path. A form that cannot be decoded is answered by the framework; the second text of the health
  answer is its field \<open>tls\<close>.
\<close>

section \<open>All handlers\<close>

text \<open>What the handlers use: the environments of the single parts, and the numbers of the dashboard.\<close>

record 'f parts =
  auth_part :: auth_env
  encoders_part :: encoders
  rules_part :: rule_env
  monitor_part :: monitor_env
  floats_part :: "'f floats"
  metrics_net :: "ustr \<Rightarrow> ustr option \<Rightarrow> metrics_answer"
  metrics_part :: metrics_service
  dashboard_json :: "'f dashboard_data \<Rightarrow> response"
  first_time_token :: "ustr option"
  debug_part :: bool

text \<open>What a request brings besides its headers: a decoded form, or none.\<close>

datatype submitted =
    Nothing
  | Login_form ustr ustr ustr
  | Code_form ustr ustr
  | Token_form ustr
  | Insert_form operator_form
  | Delete_form delete_user_form
  | Lookup_form edit_lookup_form
  | Update_form update_user_form
  | Password_form update_password_form
  | Factor_form step_up_form
  | Confirm_form confirm_form
  | Disable_form disable_form
  | Modules_form cmc_update_form
  | Rules_form ustr regex_update_form
  | Source_form update_form
  | First_form first_time_form
  | Query query_map

definition unprocessable :: "response handler" where
  "unprocessable = hret (Status 422 [])"

definition serve_console :: "'f parts \<Rightarrow> request \<Rightarrow> submitted \<Rightarrow> endpoint \<Rightarrow> response handler" where
  "serve_console C req sub e = (let E = auth_part C; R = rules_part C in case e of
     Redirect_to p \<Rightarrow> hret (Redirect p)
   | Acl_insert_user \<Rightarrow> insert_user req
   | Acl_insert_user_action \<Rightarrow> (case sub of Insert_form f \<Rightarrow> insert_user_action E req f | _ \<Rightarrow> unprocessable)
   | Acl_delete_user \<Rightarrow> delete_user req
   | Acl_delete_user_action \<Rightarrow> (case sub of Delete_form f \<Rightarrow> delete_user_action E req f | _ \<Rightarrow> unprocessable)
   | Acl_edit_user \<Rightarrow> edit_user req
   | Acl_edit_user_lookup \<Rightarrow> (case sub of Lookup_form f \<Rightarrow> edit_user_lookup E req f | _ \<Rightarrow> unprocessable)
   | Acl_update_user_action \<Rightarrow> (case sub of Update_form f \<Rightarrow> update_user_action E req f | _ \<Rightarrow> unprocessable)
   | Acl_show_user_table \<Rightarrow> show_user_table req
   | Acl_api_operators \<Rightarrow> (case sub of Query q \<Rightarrow> api_operators E q | _ \<Rightarrow> unprocessable)
   | Acl_update_password \<Rightarrow> update_password_page req
   | Acl_update_password_action \<Rightarrow> (case sub of Password_form f \<Rightarrow> update_password_action E req f | _ \<Rightarrow> unprocessable)
   | Update_page \<Rightarrow> update_page req
   | Update_start \<Rightarrow> (case sub of Source_form f \<Rightarrow> update_start E req f | _ \<Rightarrow> unprocessable)
   | Update_status \<Rightarrow> update_status_answer
   | Rule_management_cmc_page \<Rightarrow> cmc_page R req
   | Rule_management_api_cmc_list \<Rightarrow> api_cmc_list R
   | Rule_management_cmc_update \<Rightarrow> (case sub of Modules_form f \<Rightarrow> cmc_update R req f | _ \<Rightarrow> unprocessable)
   | Rule_management_regex_select_page \<Rightarrow> regex_select_page R req
   | Rule_management_regex_edit_page \<Rightarrow> (case sub of
       Query q \<Rightarrow> (case q (lit ''rule'') of Some rule \<Rightarrow> regex_edit_page R req rule | None \<Rightarrow> unprocessable)
     | _ \<Rightarrow> unprocessable)
   | Rule_management_regex_update \<Rightarrow> (case sub of Rules_form rule f \<Rightarrow> regex_update R req rule f | _ \<Rightarrow> unprocessable)
   | Dashboard_get \<Rightarrow> dashboard_page req
   | Dashboard_api \<Rightarrow> hbind (dashboard_api (floats_part C) (metrics_net C) (metrics_part C)) (\<lambda>d. hret (dashboard_json C d))
   | Waf_show_attacks \<Rightarrow> show_attacks req
   | Waf_api_attacks \<Rightarrow> (case sub of Query q \<Rightarrow> api_attacks E q | _ \<Rightarrow> unprocessable)
   | Waf_view_waf_request \<Rightarrow> (case sub of Query q \<Rightarrow> view_waf_request E (monitor_part C) q | _ \<Rightarrow> unprocessable)
   | Mfa_mfa_overview \<Rightarrow> mfa_overview E (encoders_part C) req
   | Mfa_mfa_enroll \<Rightarrow> (case sub of Factor_form f \<Rightarrow> mfa_enroll E (encoders_part C) req f | _ \<Rightarrow> unprocessable)
   | Mfa_mfa_confirm \<Rightarrow> (case sub of Confirm_form f \<Rightarrow> mfa_confirm E (encoders_part C) req f | _ \<Rightarrow> unprocessable)
   | Mfa_mfa_disable \<Rightarrow> (case sub of Disable_form f \<Rightarrow> mfa_disable E req f | _ \<Rightarrow> unprocessable)
   | Mfa_mfa_regenerate \<Rightarrow> (case sub of Factor_form f \<Rightarrow> mfa_regenerate E (encoders_part C) req f | _ \<Rightarrow> unprocessable)
   | Auth_login_page \<Rightarrow> login_page E
   | Auth_login_submit \<Rightarrow> (case sub of Login_form login password tok \<Rightarrow> login_submit E req login password tok | _ \<Rightarrow> unprocessable)
   | Auth_mfa_challenge_page \<Rightarrow> mfa_challenge_page
   | Auth_mfa_verify \<Rightarrow> (case sub of Code_form code tok \<Rightarrow> mfa_verify E req code tok | _ \<Rightarrow> unprocessable)
   | Auth_logout \<Rightarrow> (case sub of Token_form tok \<Rightarrow> logout req tok | _ \<Rightarrow> unprocessable)
   | Setup_first_time \<Rightarrow> (case sub of First_form f \<Rightarrow> first_time E (first_time_token C) (debug_part C) req f | _ \<Rightarrow> unprocessable)
   | Health_get \<Rightarrow> hret (Status_json 200 (lit ''ok'') (lit ''true'')))"

definition console :: "'f parts \<Rightarrow> request \<Rightarrow> submitted \<Rightarrow> http_method \<Rightarrow> ustr \<Rightarrow> app \<Rightarrow> (sent \<times> app) option" where
  "console C req sub m p a = dispatch (auth_part C) (serve_console C req sub) m p a"

section \<open>Who the operators are\<close>

text \<open>An operator without password record, timestamps, flag and epoch.\<close>

definition identity :: "operator_row \<Rightarrow> int \<times> ustr \<times> ustr \<times> ustr" where
  "identity r = (id_user r, username r, email r, operator_type r)"

definition identities :: "tables \<Rightarrow> (int \<times> ustr \<times> ustr \<times> ustr) list" where
  "identities t = map identity (operators t)"

definition same_identities :: "tables \<Rightarrow> tables \<Rightarrow> bool" where
  "same_identities t t' \<longleftrightarrow> identities t' = identities t"

lemma same_identities_good [simp]: "good_relation same_identities"
  by (auto simp: good_relation_def same_identities_def)

lemma same_accounts_identities: "same_accounts t t' \<Longrightarrow> same_identities t t'"
proof -
  have "identities t = map (\<lambda>(i, n, e, ty, h). (i, n, e, ty)) (accounts t)" for t
    by (simp add: identities_def accounts_def identity_def account_def)
  then show "same_accounts t t' \<Longrightarrow> same_identities t t'" by (simp add: same_identities_def same_accounts_def)
qed

lemma same_identities_update:
  "(\<And>r. identity (f r) = identity r) \<Longrightarrow> relates same_identities (execute (update_operator_row u f))"
  by (rule relates_execute)
    (auto simp: update_operator_row_def same_identities_def identities_def map_update_where split: option.splits if_splits)

lemma same_identities_operators: "operators t' = operators t \<Longrightarrow> same_identities t t'"
  by (simp add: same_identities_def identities_def)

lemma same_identities_factor_statements:
  "relates same_identities (execute (use_step i u s))" "relates same_identities (execute (burn_code i u stamp))"
  "relates same_identities (execute (confirm_totp i u stamp s))" "relates same_identities (execute (delete_totp u))"
  "relates same_identities (execute (insert_totp r))" "relates same_identities (execute (delete_codes u))"
  "relates same_identities (execute (insert_code c))"
  by (rule relates_execute, simp, auto simp: use_step_def burn_code_def confirm_totp_def delete_totp_def insert_totp_def
      delete_codes_def insert_code_def Let_def intro!: same_identities_operators split: if_splits)+

lemma mint_codes_identities: "relates same_identities (mint_codes D u n)"
  by (induction n) (auto simp: Let_def intro!: relates_intros same_identities_factor_statements same_identities_good)

lemma same_identities_programs:
  "relates same_identities (spawn_verify E r pw)" "relates same_identities spawn_dummy" "relates same_identities (is_enabled u)"
  "relates same_identities (verify_login_code D u code)" "relates same_identities (record_reauthenticated D u)"
  "relates same_identities (record_authenticated D u)" "relates same_identities (find_by_id u)"
  "relates same_identities (find_by_username n)" "relates same_identities (find_by_email m)"
  "relates same_identities (update_encrypted_password D u h)" "relates same_identities (update_password D u pw)"
  "relates same_identities (mfa_status_of u)" "relates same_identities (pending_enrollment D u l)"
  "relates same_identities (confirm D u code)" "relates same_identities (regenerate_recovery_codes D u)"
  "relates same_identities (begin_enrollment D u l)" "relates same_identities (disable D u)"
  "relates same_identities (page_operators st len s)" "relates same_identities count_operators"
  unfolding spawn_verify_def spawn_dummy_def is_enabled_def totp_row_of_def verify_login_code_def confirmed_totp_row_def
    consume_totp_step_def consume_recovery_code_def consume_recovery_code_row_def record_reauthenticated_def
    record_authenticated_def find_by_id_def find_by_username_def find_by_email_def update_encrypted_password_def
    update_password_def load_updated_def spawn_encrypt_def
    mfa_status_of_def remaining_recovery_count_def pending_enrollment_def confirm_def
    regenerate_recovery_codes_def replace_recovery_codes_def set_operator_flag_def begin_enrollment_def disable_def
    bump_operator_authz_version_def page_operators_def count_operators_def Let_def
  by (intro relates_intros same_identities_factor_statements mint_codes_identities same_identities_update
      same_identities_good; simp add: identity_def)+

section \<open>Handlers that leave the operators alone\<close>

lemma hrelates_sum_attempt: "relates R p \<Longrightarrow> hrelates R (attempt_db p)"
  by (auto simp: hrelates_def attempt_db_def dest: relatesD split: prod.split)

lemma identities_session [hrelates_intros]:
  assumes "good_relation R"
  shows "hrelates R (session_remove k)" and "hrelates R (session_string k)" and "hrelates R cycle_id" and "hrelates R flush"
    and "hrelates R (ignore_error flush)" and "hrelates R (locked_for key)" and "hrelates R (record_failure key)"
    and "hrelates R (clear_failures key)" and "hrelates R (note_account_failure user)" and "hrelates R (audit_login ip user what)"
    and "hrelates R (persistent_login_retry_after key)" and "hrelates R (waf_query q rs)"
    and "hrelates R authenticated_username" and "hrelates R (audit_console ev)" and "hrelates R (call_waf w)"
    and "hrelates R (store_call_of op)" and "hrelates R start_update"
proof -
  have name: "keeps (\<lambda>a. tables (world a)) authenticated_username"
    unfolding keeps_def authenticated_username_def
  proof
    fix a
    obtain r a1 where s: "session_string AUTHENTICATED_USERNAME a = (r, a1)" by (cases "session_string AUTHENTICATED_USERNAME a")
    then have "tables (world a1) = tables (world a)" using keepsD [OF keeps_tables_session(5) [where g = "\<lambda>t. t"]] by blast
    then show "tables (world (snd (case session_string AUTHENTICATED_USERNAME a of (Inl x, a') \<Rightarrow> (Inr None, a') | (Inr x, a') \<Rightarrow> (Inr x, a')))) =
        tables (world a)" using s by (cases r) auto
  qed
  have audit: "keeps (\<lambda>a. tables (world a)) (audit_console ev)"
    unfolding audit_console_def by (intro keeps_hbind name keeps_update) simp
  show "hrelates R (session_remove k)" "hrelates R (session_string k)" "hrelates R cycle_id" "hrelates R flush"
    "hrelates R (ignore_error flush)" "hrelates R (store_call_of op)" "hrelates R authenticated_username"
    "hrelates R (audit_console ev)"
    by (rule hrelates_keeps [OF assms], intro keeps_intros name audit)+
  show "hrelates R (locked_for key)" "hrelates R (record_failure key)"
    "hrelates R (clear_failures key)" "hrelates R (note_account_failure user)" "hrelates R (audit_login ip user what)"
    "hrelates R (persistent_login_retry_after key)" "hrelates R (waf_query q rs)" "hrelates R (call_waf w)" "hrelates R start_update"
    by (rule hrelates_keeps [OF assms], auto simp: keeps_def locked_for_def record_failure_def clear_failures_def
        note_account_failure_def audit_login_def persistent_login_retry_after_def waf_query_def update_app_def call_waf_def
        hret_def hfail_def start_update_result dest: next_fault_tables split: prod.split option.split)+
qed

lemma hrelates_sum: "\<lbrakk>\<And>x. hrelates R (f x); \<And>y. hrelates R (g y)\<rbrakk> \<Longrightarrow> hrelates R (case z of Inl x \<Rightarrow> f x | Inr y \<Rightarrow> g y)"
  by (cases z) auto

lemma hrelates_prod: "(\<And>x y. hrelates R (f x y)) \<Longrightarrow> hrelates R (case z of (x, y) \<Rightarrow> f x y)"
  by (cases z) auto

lemmas identity_rules = hrelates_intros hrelates_sum hrelates_prod hrelates_sum_attempt same_identities_good same_identities_programs

lemma identities_step_up: "hrelates same_identities (step_up_verify E pw code)"
  using step_up_same_accounts by (auto simp: hrelates_def same_accounts_identities)

lemma identities_after_step_up:
  "\<lbrakk>\<And>m. hrelates same_identities (refuse m); \<And>r. hrelates same_identities (continue r)\<rbrakk> \<Longrightarrow>
     hrelates same_identities (after_step_up E pw code refuse continue)"
  unfolding after_step_up_def
  by (intro hrelates_hbind identities_step_up same_identities_good)
    (auto split: step_up_outcome.split intro!: hrelates_plain same_identities_good)

lemma identities_pages:
  "hrelates same_identities (render_edit_search req m c)" "hrelates same_identities (render_password req r b m c)"
  "hrelates same_identities current_operator" "hrelates same_identities (render_overview req r m c)"
  "hrelates same_identities (render_enroll X req r e m c)" "hrelates same_identities (render_recovery X req r cs m)"
  "hrelates same_identities (refresh_current_session E u)" "hrelates same_identities (audit_mfa_event w u n)"
  "hrelates same_identities (overview_or_401 req m)" "hrelates same_identities (viewer_frame sn)" "hrelates same_identities rule_frame"
  "hrelates same_identities is_admin" "hrelates same_identities is_auditor"
proof -
  show "hrelates same_identities (audit_mfa_event w u n)"
    unfolding audit_mfa_event_def by (rule hrelates_keeps, simp, rule keeps_tables_plain)
qed (unfold render_edit_search_def render_password_def current_operator_def render_overview_def render_enroll_def render_recovery_def
  refresh_current_session_def overview_or_401_def viewer_frame_def rule_frame_def is_admin_def is_auditor_def
  authenticated_role_def authenticated_operator_type_def,
  (intro identity_rules)+)

lemma identities_login:
  "hrelates same_identities (login_submit E req login password tok)" "hrelates same_identities (mfa_verify E req code tok)"
  "hrelates same_identities mfa_challenge_page" "hrelates same_identities (login_page E)" "hrelates same_identities (logout req tok)"
proof -
  have establish: "hrelates same_identities (establish_session E r)" "hrelates same_identities clear_mfa_pending" for r
    unfolding establish_session_def sync_session_identity_def clear_mfa_pending_def by (intro identity_rules)+
  have pending: "hrelates same_identities mfa_pending_user_id"
    unfolding mfa_pending_user_id_def Let_def by (intro identity_rules establish)
  have unlocked: "hrelates same_identities (when_unlocked ip user key l p ans continue)"
    if "hrelates same_identities continue" for ip user key l p ans continue
    unfolding when_unlocked_def by (intro identity_rules that)
  have refuse: "hrelates same_identities (refuse_login ip user why)" for ip user why
    unfolding refuse_login_def register_login_failure_def by (intro identity_rules)
  have "hrelates same_identities (finish_login E ip user row)" for ip user row
    unfolding finish_login_def by (intro identity_rules establish)
  then have "hrelates same_identities (check_credentials E ip user pw)" for ip user pw
    unfolding check_credentials_def by (intro identity_rules refuse)
  then show "hrelates same_identities (login_submit E req login password tok)"
    unfolding login_submit_def Let_def by (intro identity_rules unlocked)
  have "hrelates same_identities (check_second_factor E ip u c)" for ip u c
    unfolding check_second_factor_def Let_def by (intro identity_rules establish)
  then show "hrelates same_identities (mfa_verify E req code tok)"
    unfolding mfa_verify_def Let_def by (intro identity_rules unlocked pending)
  show "hrelates same_identities mfa_challenge_page" "hrelates same_identities (logout req tok)"
    unfolding mfa_challenge_page_def logout_def by (intro identity_rules pending)+
  have "hrelates same_identities (authorized_role E)"
    by (rule hrelates_keeps [OF same_identities_good keeps_tables_authorized])
  then show "hrelates same_identities (login_page E)"
    unfolding login_page_def by (intro identity_rules)
qed

lemma identities_factors:
  "hrelates same_identities (mfa_overview E X req)" "hrelates same_identities (mfa_enroll E X req f)"
  "hrelates same_identities (mfa_confirm E X req g)" "hrelates same_identities (mfa_disable E req h)"
  "hrelates same_identities (mfa_regenerate E X req f)"
proof -
  have outcome: "hrelates same_identities (case x of Confirmed cs \<Rightarrow> g cs | Invalid_code \<Rightarrow> h | No_pending_enrollment \<Rightarrow> k)"
    if "\<And>cs. hrelates same_identities (g cs)" "hrelates same_identities h" "hrelates same_identities k" for x g h and k :: "response handler"
    using that by (cases x) auto
  show "hrelates same_identities (mfa_overview E X req)" "hrelates same_identities (mfa_enroll E X req f)"
    "hrelates same_identities (mfa_confirm E X req g)" "hrelates same_identities (mfa_disable E req h)"
    "hrelates same_identities (mfa_regenerate E X req f)"
    unfolding mfa_overview_def mfa_enroll_def mfa_confirm_def mfa_disable_def mfa_regenerate_def
    by (intro identity_rules identities_pages identities_after_step_up outcome)+
qed

lemma identities_others:
  "hrelates same_identities (insert_user req)" "hrelates same_identities (delete_user req)" "hrelates same_identities (edit_user req)"
  "hrelates same_identities (edit_user_lookup E req lf)" "hrelates same_identities (show_user_table req)"
  "hrelates same_identities (api_operators E q)" "hrelates same_identities (update_password_page req)"
  "hrelates same_identities (update_password_action E req pf)" "hrelates same_identities (update_page req)"
  "hrelates same_identities update_status_answer"
  "hrelates same_identities (cmc_page R req)" "hrelates same_identities (api_cmc_list R)" "hrelates same_identities (cmc_update R req mf)"
  "hrelates same_identities (regex_select_page R req)" "hrelates same_identities (regex_edit_page R req rule)"
  "hrelates same_identities (regex_update R req rule rf)" "hrelates same_identities (dashboard_page req)"
  "hrelates same_identities (show_attacks req)" "hrelates same_identities (api_attacks E q)"
  "hrelates same_identities (view_waf_request E M q)" "hrelates same_identities unprocessable"
  "hrelates same_identities (dashboard_api N net srv)"
  unfolding insert_user_def delete_user_def edit_user_def edit_user_lookup_def show_user_table_def api_operators_def
    update_password_page_def update_password_action_def change_password_def verify_current_password_def update_page_def
    update_status_answer_def cmc_page_def api_cmc_list_def cmc_update_def
    regex_select_page_def regex_edit_page_def regex_update_def dashboard_page_def show_attacks_def api_attacks_def view_waf_request_def
    unprocessable_def dashboard_api_def Let_def
  by (intro identity_rules identities_pages)+

lemma identities_update_start: "hrelates same_identities (update_start E req f)"
proof -
  have "hrelates same_identities started_update"
    unfolding started_update_def by (intro identity_rules identities_others)
  then show ?thesis
    unfolding update_start_def
    by (intro identity_rules identities_step_up) (auto split: step_up_outcome.split intro!: identity_rules)
qed

text \<open>The four endpoints that may change who the operators are.\<close>

definition administers :: "submitted \<Rightarrow> endpoint \<Rightarrow> acl_request option" where
  "administers sub e = (case (e, sub) of
     (Acl_insert_user_action, Insert_form f) \<Rightarrow> Some (Insert_action f)
   | (Acl_delete_user_action, Delete_form f) \<Rightarrow> Some (Delete_action f)
   | (Acl_update_user_action, Update_form f) \<Rightarrow> Some (Update_action f)
   | _ \<Rightarrow> None)"

lemma identities_serve:
  assumes "administers sub e = None" and "e \<noteq> Setup_first_time"
  shows "hrelates same_identities (serve_console C req sub e)"
  using assms
  by (cases e) (auto simp: serve_console_def administers_def Let_def split: submitted.split option.split
      intro!: identities_others identities_factors identities_login identities_update_start
        hrelates_hbind hrelates_plain same_identities_good)

lemma administers_serve: "administers sub e = Some q \<Longrightarrow> serve_console C req sub e = serve_acl (auth_part C) req q"
  by (cases e; cases sub) (auto simp: serve_console_def administers_def Let_def)

section \<open>Handlers that leave firewall and updater alone\<close>

text \<open>A part of the state apart from database, sessions, throttles and logs.\<close>

definition apart :: "(app \<Rightarrow> 'b) \<Rightarrow> bool" where
  "apart f \<longleftrightarrow> aside f \<and> (\<forall>a x y z u v w. f (a\<lparr>session_db := x\<rparr>) = f a \<and> f (a\<lparr>throttle := y\<rparr>) = f a \<and> f (a\<lparr>monitor := z\<rparr>) = f a \<and>
     f (a\<lparr>login_persistent := u\<rparr>) = f a \<and> f (a\<lparr>audit_log := v\<rparr>) = f a \<and> f (a\<lparr>operator_log := w\<rparr>) = f a)"

lemma apart_parts: "apart waf_calls" "apart updater"
  using aside_updater aside_fields(1) by (simp_all add: apart_def updater_def)

lemma apart_aside: "apart f \<Longrightarrow> aside f"
  by (simp add: apart_def)

lemma apart_basic:
  assumes "apart f"
  shows "keeps f (locked_for key)" and "keeps f (record_failure key)" and "keeps f (clear_failures key)"
    and "keeps f (note_account_failure user)" and "keeps f (audit_login ip user what)" and "keeps f (persistent_login_retry_after key)"
    and "keeps f (waf_query q rs)" and "keeps f (attempt_db p)" and "keeps f (store_call_of op)"
    and "keeps f (audit_operator_event w u n)" and "keeps f (audit_mfa_event w u n)" and "keeps f (revoke_sessions u)"
    and "keeps f (ignore_error flush)"
proof -
  have eqs: "f (a\<lparr>session_db := x\<rparr>) = f a" "f (a\<lparr>throttle := y\<rparr>) = f a" "f (a\<lparr>monitor := z\<rparr>) = f a"
    "f (a\<lparr>login_persistent := l\<rparr>) = f a" "f (a\<lparr>audit_log := v\<rparr>) = f a" "f (a\<lparr>operator_log := o'\<rparr>) = f a" "f (a\<lparr>world := w'\<rparr>) = f a"
    for a x y z l v o' w' using assms by (auto simp: apart_def aside_def)
  show "keeps f (locked_for key)" "keeps f (record_failure key)" "keeps f (clear_failures key)"
    "keeps f (note_account_failure user)" "keeps f (audit_login ip user what)" "keeps f (persistent_login_retry_after key)"
    "keeps f (waf_query q rs)" "keeps f (attempt_db p)" "keeps f (audit_operator_event w u n)" "keeps f (audit_mfa_event w u n)"
    by (auto simp: keeps_def locked_for_def record_failure_def clear_failures_def note_account_failure_def audit_login_def
        persistent_login_retry_after_def waf_query_def attempt_db_def update_app_def audit_operator_event_def
        audit_mfa_event_def hret_def hfail_def eqs split: prod.split option.split)
  have store: "keeps f (store_call_of x)" for x :: "nat store_op"
    by (auto simp: keeps_def store_call_of_def eqs split: prod.split)
  show "keeps f (store_call_of op)" by (auto simp: keeps_def store_call_of_def eqs split: prod.split)
  show "keeps f (revoke_sessions u)" unfolding revoke_sessions_def by (intro keeps_intros store)
  show "keeps f (ignore_error flush)" using aside_session(7) [OF apart_aside [OF assms]] by (intro keeps_intros)
qed

lemma apart_composed:
  assumes "apart f"
  shows "keeps f (establish_session E r)" and "keeps f clear_mfa_pending" and "keeps f mfa_pending_user_id"
    and "keeps f (refresh_authenticated_session E r)" and "keeps f authenticated_user_id"
    and "keeps f is_auditor" and "keeps f current_operator" and "keeps f (render_overview req r m c)"
    and "keeps f (render_enroll X req r e m c)" and "keeps f (render_recovery X req r cs m)"
    and "keeps f (refresh_current_session E u)" and "keeps f (overview_or_401 req m)" and "keeps f (viewer_frame sn)"
    and "keeps f rule_frame" and "keeps f (render_password req r b m c)"
proof -
  note asides = aside_session [OF apart_aside [OF assms]] apart_basic [OF assms] aside_is_admin [OF apart_aside [OF assms]]
  show pending: "keeps f clear_mfa_pending" unfolding clear_mfa_pending_def by (intro keeps_intros asides)
  show user: "keeps f authenticated_user_id" unfolding authenticated_user_id_def by (intro asides)
  show refresh: "keeps f (refresh_authenticated_session E r)" for r
    unfolding refresh_authenticated_session_def sync_session_identity_def by (intro keeps_intros asides)
  show "keeps f (establish_session E r)" "keeps f mfa_pending_user_id"
    unfolding establish_session_def sync_session_identity_def set_session_timestamp_def mfa_pending_user_id_def Let_def
    by (intro keeps_intros asides pending)+
  show auditor: "keeps f is_auditor"
    unfolding is_auditor_def authenticated_role_def authenticated_operator_type_def by (intro keeps_intros asides)
  show operator: "keeps f current_operator" unfolding current_operator_def by (intro keeps_intros asides user)
  show overview: "keeps f (render_overview req r m c)" for r m c unfolding render_overview_def by (intro keeps_intros asides)
  show "keeps f (render_enroll X req r e m c)" "keeps f (render_recovery X req r cs m)" "keeps f (refresh_current_session E u)"
    "keeps f (overview_or_401 req m)" "keeps f (viewer_frame sn)" "keeps f rule_frame" "keeps f (render_password req r b m c)"
    unfolding render_enroll_def render_recovery_def refresh_current_session_def overview_or_401_def viewer_frame_def rule_frame_def
      render_password_def
    by (intro keeps_intros asides refresh operator overview auditor)+
qed

lemma keeps_sum: "\<lbrakk>\<And>x. keeps f (g x); \<And>y. keeps f (h y)\<rbrakk> \<Longrightarrow> keeps f (case z of Inl x \<Rightarrow> g x | Inr y \<Rightarrow> h y)"
  by (cases z) auto

lemma keeps_prod: "(\<And>x y. keeps f (g x y)) \<Longrightarrow> keeps f (case z of (x, y) \<Rightarrow> g x y)"
  by (cases z) auto

lemma apart_after_step_up:
  assumes "apart f" and "\<And>m. keeps f (refuse m)" and "\<And>r. keeps f (continue r)"
  shows "keeps f (after_step_up E pw code refuse continue)"
  unfolding after_step_up_def
  by (intro keeps_hbind aside_step_up apart_aside [OF assms(1)]) (auto split: step_up_outcome.split intro!: assms keeps_hret)

lemma apart_login:
  assumes "apart f"
  shows "keeps f (login_submit E req login password tok)" and "keeps f (mfa_verify E req code tok)"
    and "keeps f mfa_challenge_page" and "keeps f (login_page E)" and "keeps f (logout req tok)"
proof -
  note asides = aside_session [OF apart_aside [OF assms]] apart_basic [OF assms] apart_composed [OF assms] keeps_sum
  have unlocked: "keeps f (when_unlocked ip user key l p ans continue)" if "keeps f continue" for ip user key l p ans continue
    unfolding when_unlocked_def by (intro keeps_intros asides that)
  have refuse: "keeps f (refuse_login ip user why)" for ip user why
    unfolding refuse_login_def register_login_failure_def by (intro keeps_intros asides)
  have "keeps f (finish_login E ip user row)" for ip user row
    unfolding finish_login_def by (intro keeps_intros asides)
  then have "keeps f (check_credentials E ip user pw)" for ip user pw
    unfolding check_credentials_def by (intro keeps_intros asides refuse)
  then show "keeps f (login_submit E req login password tok)"
    unfolding login_submit_def Let_def by (intro keeps_intros unlocked)
  have "keeps f (check_second_factor E ip u c)" for ip u c
    unfolding check_second_factor_def Let_def by (intro keeps_intros asides)
  then show "keeps f (mfa_verify E req code tok)"
    unfolding mfa_verify_def Let_def by (intro keeps_intros asides unlocked)
  show "keeps f mfa_challenge_page" "keeps f (login_page E)" "keeps f (logout req tok)"
    unfolding mfa_challenge_page_def login_page_def logout_def
    by (intro keeps_intros asides aside_authorized aside_username apart_aside [OF assms])+
qed

lemma apart_factors:
  assumes "apart f"
  shows "keeps f (mfa_overview E X req)" and "keeps f (mfa_enroll E X req g)" and "keeps f (mfa_confirm E X req h)"
    and "keeps f (mfa_disable E req k)" and "keeps f (mfa_regenerate E X req g)"
proof -
  note asides = aside_session [OF apart_aside [OF assms]] apart_basic [OF assms] apart_composed [OF assms]
  have outcome: "keeps f (case x of Confirmed cs \<Rightarrow> g cs | Invalid_code \<Rightarrow> h | No_pending_enrollment \<Rightarrow> k)"
    if "\<And>cs. keeps f (g cs)" "keeps f h" "keeps f k" for x g h and k :: "response handler"
    using that by (cases x) auto
  show "keeps f (mfa_overview E X req)" "keeps f (mfa_enroll E X req g)" "keeps f (mfa_confirm E X req h)"
    "keeps f (mfa_disable E req k)" "keeps f (mfa_regenerate E X req g)"
    unfolding mfa_overview_def mfa_enroll_def mfa_confirm_def mfa_disable_def mfa_regenerate_def
    by (intro keeps_intros asides apart_after_step_up assms outcome)+
qed

lemma apart_administration:
  assumes "apart f"
  shows "keeps f (insert_user_action E req g)" and "keeps f (delete_user_action E req h)" and "keeps f (update_user_action E req k)"
    and "keeps f (edit_user_lookup E req l)" and "keeps f (api_operators E q)" and "keeps f (update_password_page req)"
    and "keeps f (update_password_action E req p)" and "keeps f (first_time E tk debug req ff)"
proof -
  note asides = aside_session [OF apart_aside [OF assms]] apart_basic [OF assms] apart_composed [OF assms] keeps_sum
  have target: "keeps f (find_target E req i continue)" if "\<And>r. keeps f (continue r)" for i continue
    unfolding find_target_def by (intro keeps_intros asides that)
  show "keeps f (insert_user_action E req g)" "keeps f (delete_user_action E req h)" "keeps f (update_user_action E req k)"
    unfolding insert_user_action_def delete_user_action_def update_user_action_def Let_def remove_user_def change_user_def
    by (intro keeps_intros asides apart_after_step_up assms target)+
  show "keeps f (edit_user_lookup E req l)" "keeps f (api_operators E q)" "keeps f (update_password_page req)"
    "keeps f (update_password_action E req p)"
    unfolding edit_user_lookup_def api_operators_def update_password_page_def update_password_action_def change_password_def
      verify_current_password_def Let_def
    by (intro keeps_intros asides)+
  have log: "keeps f (update_app (\<lambda>a. a\<lparr>operator_log := L a\<rparr>))" for L
    by (rule keeps_update) (use assms in \<open>auto simp: apart_def\<close>)
  show "keeps f (first_time E tk debug req ff)"
    unfolding first_time_def first_time_locked_def register_admin_def
    by (intro keeps_intros asides log)
qed

lemma apart_others:
  assumes "apart f"
  shows "keeps f (insert_user req)" and "keeps f (delete_user req)" and "keeps f (edit_user req)" and "keeps f (show_user_table req)"
    and "keeps f (update_page req)" and "keeps f update_status_answer" and "keeps f (cmc_page R req)"
    and "keeps f (regex_select_page R req)" and "keeps f (dashboard_page req)" and "keeps f (show_attacks req)"
    and "keeps f (api_attacks E q)" and "keeps f (view_waf_request E M q)" and "keeps f unprocessable"
    and "keeps f (dashboard_api N net srv)"
  unfolding insert_user_def delete_user_def edit_user_def show_user_table_def update_page_def update_status_answer_def
    cmc_page_def regex_select_page_def dashboard_page_def show_attacks_def api_attacks_def view_waf_request_def unprocessable_def
    dashboard_api_def Let_def
  by (intro keeps_intros keeps_prod aside_is_admin apart_aside apart_basic apart_composed assms)+

section \<open>What rules pages send\<close>

text \<open>A request made by the client of the console, for one of the paths of the control plane.\<close>

definition signed_request :: "rule_env \<Rightarrow> waf_call \<Rightarrow> bool" where
  "signed_request R c \<longleftrightarrow> (\<exists>s path. rule_management R = Some s \<and> signed_by (outside_of R) s c path)"

lemma sends_mono: "sends P w \<Longrightarrow> (\<And>c. P c \<Longrightarrow> Q c) \<Longrightarrow> sends Q w"
  unfolding sends_def by metis

lemma sends_wret: "sends P (wret x)"
  by (simp add: sends_def wret_def)

lemma sends_reads:
  "sends (\<lambda>c. signed_by X s c LIST_PATH) (list_cmc X s t seed)" "sends (\<lambda>c. signed_by X s c REGEX_VIEW_PATH) (view_regex X s t seed rule)"
proof -
  have call: "sends (\<lambda>c. signed_by X s c path) (signed_call X s t seed m path ty b what)" for path m ty b what
    using sends_signed_call by (rule sends_mono) simp
  show "sends (\<lambda>c. signed_by X s c LIST_PATH) (list_cmc X s t seed)"
    unfolding list_cmc_def by (intro sends_wbind call) (simp add: wret_def wfail_def split: sum.split)
  show "sends (\<lambda>c. signed_by X s c REGEX_VIEW_PATH) (view_regex X s t seed rule)"
  proof (cases "to_text (json_of X) (JObject [(lit ''rule_view'', JString rule)])")
    case (Inl e)
    then show ?thesis by (simp add: view_regex_def sends_wfail)
  next
    case (Inr body)
    then show ?thesis
      unfolding view_regex_def by (simp, intro sends_wbind call) (auto simp: wret_def wfail_def split: sum.split)
  qed
qed

lemma keeps_rules:
  assumes "\<And>w :: int \<Rightarrow> nat \<Rightarrow> (ustr \<times> bool) list wire. keeps f (call_waf w)"
    and "\<And>w :: int \<Rightarrow> nat \<Rightarrow> cmc_update_outcome wire. keeps f (call_waf w)"
    and "\<And>w :: int \<Rightarrow> nat \<Rightarrow> ustr wire. keeps f (call_waf w)"
    and "\<And>w :: int \<Rightarrow> nat \<Rightarrow> regex_update_outcome wire. keeps f (call_waf w)"
    and "apart f" and "\<And>ev. keeps f (audit_console ev)"
  shows "keeps f (api_cmc_list R)" and "keeps f (cmc_update R req mf)" and "keeps f (regex_edit_page R req rule)"
    and "keeps f (regex_update R req rule rf)"
  unfolding api_cmc_list_def cmc_update_def regex_edit_page_def regex_update_def
  by (intro keeps_intros keeps_sum keeps_prod assms apart_composed)+

lemma api_cmc_list_sends: "hsends (signed_request R) (api_cmc_list R)"
proof (cases "rule_management R")
  case (Some s)
  have "hsends (signed_request R) (call_waf (list_cmc (outside_of R) s))"
    by (intro hsends_mono [OF hsends_call_waf [OF sends_reads(1)]]) (auto simp: signed_request_def Some)
  then show ?thesis unfolding api_cmc_list_def Some
    by (simp only: option.case) (rule hsends_then, auto split: sum.split intro!: keeps_hret)
qed (simp add: api_cmc_list_def hsends_hret)

lemma hsends_if: "\<lbrakk>hsends P g; hsends P h\<rbrakk> \<Longrightarrow> hsends P (if b then g else h)"
  by simp

lemma regex_edit_page_sends: "hsends (signed_request R) (regex_edit_page R req rule)"
proof -
  have frame: "keeps waf_calls rule_frame" using apart_composed(14) apart_parts(1) by blast
  have first: "hsends (signed_request R) (case rule_management R of
      None \<Rightarrow> hret ([], False, lit ''Rule management is not configured.'')
    | Some s \<Rightarrow> hbind (call_waf (\<lambda>t n. view_regex (outside_of R) s t n r)) (\<lambda>r. case r of
        Inr content \<Rightarrow> hret (content, True, []) | Inl _ \<Rightarrow> hret ([], False, WAF_ERROR_MESSAGE)))" for r
  proof (cases "rule_management R")
    case (Some s)
    have "hsends (signed_request R) (call_waf (\<lambda>t n. view_regex (outside_of R) s t n r))"
      by (intro hsends_mono [OF hsends_call_waf [OF sends_reads(2)]]) (auto simp: signed_request_def Some)
    then show ?thesis unfolding Some
      by (simp only: option.case) (rule hsends_then, auto split: sum.split intro!: keeps_hret)
  qed (simp add: hsends_hret)
  show ?thesis
  proof (cases "parse_rule_list rule")
    case None
    then show ?thesis by (simp add: regex_edit_page_def hsends_hret)
  next
    case (Some l)
    have failed: "hsends P (hfail e)" for P and e :: app_error by (simp add: hsends_keeps keeps_hfail)
    show ?thesis unfolding regex_edit_page_def Some option.case
      by (intro hsends_if failed hsends_then [OF first] keeps_prod keeps_intros frame)
  qed
qed

lemma rule_changes_signed: "module_change R req f c \<Longrightarrow> signed_request R c" "rule_file_change R req rule g c \<Longrightarrow> signed_request R c"
  by (auto simp: module_change_def rule_file_change_def signed_request_def)

text \<open>Every endpoint: what it may send, and what it may do to the updater.\<close>

lemma update_start_sends_nothing: "keeps waf_calls (update_start E r f)"
proof -
  have "keeps waf_calls started_update"
    unfolding started_update_def start_update_def update_status_answer_def
    by (intro keeps_intros keeps_calls_audit keeps_update) simp_all
  then show ?thesis unfolding update_start_def
    by (intro keeps_if keeps_hbind aside_step_up aside_fields keeps_hret)
      (auto split: step_up_outcome.split intro!: keeps_hret)
qed

lemma serve_silent: "least_role e \<noteq> Some Operator \<Longrightarrow> keeps waf_calls (serve_console C req sub e)"
proof -
  note calls = apart_parts(1)
  note quiet = apart_login [OF calls] apart_factors [OF calls] apart_administration [OF calls] apart_others [OF calls] keeps_hret
    keeps_hbind update_start_sends_nothing
  show "least_role e \<noteq> Some Operator \<Longrightarrow> keeps waf_calls (serve_console C req sub e)"
    by (cases e) (auto simp: serve_console_def Let_def split: submitted.split intro!: quiet)
qed

lemma serve_sends: "hsends (signed_request (rules_part C)) (serve_console C req sub e)"
proof (cases "least_role e = Some Operator")
  case True
  note calls = apart_parts(1)
  have cmc: "hsends (signed_request R) (cmc_update R req f)" for R f
    by (rule hsends_mono [OF cmc_update_sends rule_changes_signed(1)])
  have regex: "hsends (signed_request R) (regex_update R req rule g)" for R rule g
    by (rule hsends_mono [OF regex_update_sends rule_changes_signed(2)])
  have pages: "hsends P (cmc_page R req)" "hsends P (regex_select_page R req)" "hsends P unprocessable" for P R
    by (intro hsends_keeps apart_others calls)+
  note rules = cmc regex pages api_cmc_list_sends regex_edit_page_sends
  from True show ?thesis
    by (cases e) (auto simp: serve_console_def Let_def split: submitted.split option.split intro!: rules hsends_hret)
qed (simp add: serve_silent hsends_keeps)

lemma serve_updater:
  assumes "updater (snd (serve_console C req sub e a)) \<noteq> updater a"
  shows "\<exists>f. e = Update_start \<and> sub = Source_form f"
proof (rule ccontr)
  assume not: "\<nexists>f. e = Update_start \<and> sub = Source_form f"
  note quiet = apart_login [OF apart_parts(2)] apart_factors [OF apart_parts(2)] apart_administration [OF apart_parts(2)]
    apart_others [OF apart_parts(2)] keeps_hret keeps_hbind
  have call: "keeps updater (call_waf w)" for w :: "int \<Rightarrow> nat \<Rightarrow> 'b wire"
    by (auto simp: keeps_def call_waf_def updater_def split: prod.split)
  note rules = keeps_rules [OF call call call call apart_parts(2) keeps_updater_audit]
  have "keeps updater (serve_console C req sub e)"
    using not by (cases e) (auto simp: serve_console_def Let_def split: submitted.split option.split intro!: quiet rules)
  then show False using assms by (simp add: keeps_def)
qed

end
