(* ===== verification/Mediation.thy ===== *)
theory Mediation
  imports Console
begin

text \<open>
  What holds of the console as a whole (theory \<open>Console\<close>), for any request to any path: who may change the
  operators, start an update or talk to the firewall, and that an administrator, once there is one, remains.
\<close>

section \<open>What one request does\<close>

lemma find_Some_route:
  assumes "find (\<lambda>r. fst r = m \<and> fst (snd r) = p) rs = Some r"
  shows "\<exists>g e. r = (m, p, g, e) \<and> (m, p, g, e) \<in> set rs"
proof -
  have "r \<in> set rs \<and> fst r = m \<and> fst (snd r) = p" using assms by (induction rs) (auto split: if_splits)
  then show ?thesis by (metis prod.collapse)
qed

text \<open>A request either goes no further than the guard, or the handler runs, for a caller of the right role.\<close>

lemma console_cases:
  assumes "console C req sub m p a = Some (out, a')"
  obtains (Refused) g e where "(m, p, g, e) \<in> set all_routes" "a' = snd (authorized_role (auth_part C) a)"
  | (Open) e where "(m, p, Unguarded, e) \<in> set all_routes" "least_role e = None" "a' = snd (serve_console C req sub e a)"
  | (Granted) g e needed r where "(m, p, g, e) \<in> set all_routes" "least_role e = Some needed"
      "granted_role (auth_part C) a = Some r" "needed \<le> r"
      "a' = snd (serve_console C req sub e (snd (authorized_role (auth_part C) a)))"
proof -
  let ?E = "auth_part C"
  obtain r where r: "find (\<lambda>r. fst r = m \<and> fst (snd r) = p) all_routes = Some r"
    using assms by (cases "find (\<lambda>r. fst r = m \<and> fst (snd r) = p) all_routes") (simp_all add: console_def dispatch_def)
  from find_Some_route [OF this] obtain g e where "r = (m, p, g, e)" and route: "(m, p, g, e) \<in> set all_routes" by blast
  with r have found: "find (\<lambda>r. fst r = m \<and> fst (snd r) = p) all_routes = Some (m, p, g, e)" by simp
  have policy: "least_role e = group_role g" using routes_follow_policy route by (force simp: list_all_iff)
  have guarded: thesis if "guard ?E roles (serve_console C req sub e) a = (out, a')" "least_role e = Some needed"
      "\<And>r. r \<in> set roles \<longleftrightarrow> needed \<le> r" for roles needed
  proof (cases "\<exists>r. granted_role ?E a = Some r \<and> needed \<le> r")
    case True
    then obtain r where r: "granted_role ?E a = Some r" "needed \<le> r" by blast
    then have "a' = snd (serve_console C req sub e (snd (authorized_role ?E a)))"
      using that(1,3) by (auto simp: guard_result run_endpoint_def split: prod.splits sum.splits)
    then show thesis by (rule Granted [OF route that(2) r])
  next
    case False
    then have "a' = snd (authorized_role ?E a)"
      using that(1,3) by (auto simp: guard_result split: option.splits)
    then show thesis by (rule Refused [OF route])
  qed
  show thesis
  proof (cases g)
    case Unguarded
    then have "a' = snd (serve_console C req sub e a)"
      using assms by (auto simp: console_def dispatch_def found run_endpoint_def split: prod.splits sum.splits)
    then show thesis using Open route policy Unguarded by (simp add: group_role_def)
  qed (use assms guarded group_roles policy in \<open>auto simp: console_def dispatch_def found group_role_def
      require_admin_def require_operator_def require_console_viewer_def\<close>)
qed

text \<open>The guard itself touches none of the three.\<close>

lemma guard_leaves:
  "tables (world (snd (authorized_role E a))) = tables (world a)"
  "waf_calls (snd (authorized_role E a)) = waf_calls a" "updater (snd (authorized_role E a)) = updater a"
  using keeps_tables_authorized aside_authorized [OF apart_aside [OF apart_parts(1)]]
    aside_authorized [OF apart_aside [OF apart_parts(2)]]
  by (auto simp: keeps_def)

lemma endpoint_roles:
  "administers sub e = Some q \<Longrightarrow> least_role e = Some Admin" "least_role Update_start = Some Admin"
  "least_role Setup_first_time = None"
  by (auto simp: administers_def split: endpoint.splits submitted.splits)

section \<open>Creating the first administrator\<close>

lemma first_time_changes:
  assumes "operators (tables (world (snd (first_time E tk debug req form a)))) \<noteq> operators (tables (world a))"
  shows "operators_empty a \<and> first_time_checks tk debug req form = None"
proof -
  have checks: "first_time_checks tk debug req form = None"
    using assms by (cases "first_time_checks tk debug req form") (auto simp: first_time_def hret_def)
  obtain r a1 where count: "database count_operators a = (r, a1)" by fastforce
  have same: "tables (world a1) = tables (world a)"
    using count by (auto simp: database_def count_operators_def dest: query_tables split: prod.splits)
  have "operators_empty a"
  proof (rule ccontr)
    assume "\<not> operators_empty a"
    then have "snd (first_time E tk debug req form a) = a1"
      using count_operators_result [OF count]
      by (cases r) (auto simp: first_time_def checks first_time_locked_def hbind_def count hret_def)
    then show False using assms same by simp
  qed
  then show ?thesis using checks by simp
qed

section \<open>Complete mediation\<close>

text \<open>An administrator who has just given the current password, and a code where a factor is set up.\<close>

definition stepped_up_admin :: "auth_env \<Rightarrow> app \<Rightarrow> ustr \<Rightarrow> ustr \<Rightarrow> bool" where
  "stepped_up_admin E a pw code \<longleftrightarrow> granted_role E a = Some Admin \<and>
     (\<exists>row. let a1 = snd (authorized_role E a) in
        stepped_up E pw code (data (session a1)) (tables (world a1)) (clock (world a1)) row)"

lemma admin_least: "Admin \<le> r \<Longrightarrow> r = Admin"
  using group_roles(1) by simp

lemma serve_acl_changes:
  assumes "\<not> same_identities (tables (world a)) (tables (world (snd (serve_acl E req q a))))"
  shows "csrf_verify req (csrf_of q) \<and>
    (\<exists>row. stepped_up E (password_of q) (code_of q) (data (session a)) (tables (world a)) (clock (world a)) row)"
proof
  show "csrf_verify req (csrf_of q)"
  proof (rule ccontr)
    assume "\<not> csrf_verify req (csrf_of q)"
    then have "serve_acl E req q = hret csrf_error_response"
      by (cases q) (simp_all add: insert_user_action_def delete_user_action_def update_user_action_def)
    then show False using assms by (simp add: hret_def same_identities_def)
  qed
  show "\<exists>row. stepped_up E (password_of q) (code_of q) (data (session a)) (tables (world a)) (clock (world a)) row"
    using serve_acl_acts [of E q "data (session a)" req] assms same_accounts_identities unfolding acts_def by blast
qed

lemma console_identities:
  assumes "console C req sub m p a = Some (out, a')"
    and "\<not> same_identities (tables (world a)) (tables (world a'))"
  shows "(\<exists>g e q. (m, p, g, e) \<in> set all_routes \<and> administers sub e = Some q \<and> csrf_verify req (csrf_of q) \<and>
       stepped_up_admin (auth_part C) a (password_of q) (code_of q)) \<or>
    (\<exists>f. (m, p, Unguarded, Setup_first_time) \<in> set all_routes \<and> sub = First_form f \<and> operators_empty a \<and>
       first_time_checks (first_time_token C) (debug_part C) req f = None)"
  using assms(1)
proof (cases rule: console_cases)
  case (Refused g e)
  then show ?thesis using assms(2) guard_leaves(1) by (simp add: same_identities_def)
next
  case (Open e)
  have "administers sub e = None" using Open(2) endpoint_roles(1) by fastforce
  then have e: "e = Setup_first_time" using identities_serve assms(2) Open(3) by (force simp: hrelates_def)
  have moved: "operators (tables (world (snd (serve_console C req sub e a)))) \<noteq> operators (tables (world a))"
    using assms(2) Open(3) same_identities_operators by metis
  then obtain f where f: "sub = First_form f"
    by (cases sub) (auto simp: e serve_console_def unprocessable_def hret_def Let_def)
  then show ?thesis using first_time_changes [of "auth_part C"] moved Open(1) by (auto simp: e serve_console_def Let_def)
next
  case (Granted g e needed r)
  let ?a1 = "snd (authorized_role (auth_part C) a)"
  have moved: "\<not> same_identities (tables (world ?a1)) (tables (world (snd (serve_console C req sub e ?a1))))"
    using assms(2) Granted(5) guard_leaves(1) by simp
  have "e \<noteq> Setup_first_time" using Granted(2) endpoint_roles(3) by auto
  then obtain q where q: "administers sub e = Some q"
    using identities_serve [of sub e] moved by (cases "administers sub e") (auto simp: hrelates_def)
  then have "granted_role (auth_part C) a = Some Admin"
    using Granted(2-4) endpoint_roles(1) admin_least by fastforce
  moreover have "csrf_verify req (csrf_of q) \<and>
    (\<exists>row. stepped_up (auth_part C) (password_of q) (code_of q) (data (session ?a1)) (tables (world ?a1)) (clock (world ?a1)) row)"
    using moved unfolding administers_serve [OF q] by (rule serve_acl_changes)
  ultimately show ?thesis using q Granted(1) by (auto simp: stepped_up_admin_def Let_def)
qed

lemma console_updater:
  assumes "console C req sub m p a = Some (out, a')" and "updater a' \<noteq> updater a"
  shows "\<exists>f. sub = Source_form f \<and> csrf_verify req (kf_csrf_token f) \<and>
    stepped_up_admin (auth_part C) a (kf_current_password f) (kf_mfa_code f) \<and> \<not> update_running a"
  using assms(1)
proof (cases rule: console_cases)
  case (Refused g e)
  then show ?thesis using assms(2) guard_leaves(3) by simp
next
  case (Open e)
  then show ?thesis using serve_updater [of C req sub e a] assms(2) endpoint_roles(2) by auto
next
  case (Granted g e needed r)
  let ?a1 = "snd (authorized_role (auth_part C) a)"
  have moved: "updater (snd (serve_console C req sub e ?a1)) \<noteq> updater ?a1"
    using assms(2) Granted(5) guard_leaves(3) by simp
  then obtain f where f: "e = Update_start" "sub = Source_form f" using serve_updater by blast
  have "granted_role (auth_part C) a = Some Admin"
    using Granted(2-4) f(1) endpoint_roles(2) admin_least by fastforce
  moreover have "serve_console C req sub e = update_start (auth_part C) req f"
    by (simp add: serve_console_def f Let_def)
  moreover have "update_running ?a1 = update_running a" using guard_leaves(3) by (simp add: updater_def)
  ultimately show ?thesis
    using update_start_changes [of "auth_part C" req f ?a1] moved f(2) by (auto simp: stepped_up_admin_def Let_def)
qed

lemma console_sends:
  assumes "console C req sub m p a = Some (out, a')" and "waf_calls a' \<noteq> waf_calls a"
  shows "granted_role (auth_part C) a \<in> {Some Admin, Some Operator} \<and>
    (\<exists>c. signed_request (rules_part C) c \<and> waf_calls a' = c # waf_calls a)"
  using assms(1)
proof (cases rule: console_cases)
  case (Refused g e)
  then show ?thesis using assms(2) guard_leaves(2) by simp
next
  case (Open e)
  then show ?thesis using serve_silent [of e C req sub] assms(2) by (simp add: keeps_def)
next
  case (Granted g e needed r)
  let ?a1 = "snd (authorized_role (auth_part C) a)"
  have moved: "waf_calls (snd (serve_console C req sub e ?a1)) \<noteq> waf_calls ?a1"
    using assms(2) Granted(5) guard_leaves(2) by simp
  then have "least_role e = Some Operator" using serve_silent [of e C req sub] by (auto simp: keeps_def)
  then have "granted_role (auth_part C) a \<in> {Some Admin, Some Operator}"
    using Granted(2-4) group_roles(2) by auto
  moreover have "\<exists>c. signed_request (rules_part C) c \<and> waf_calls a' = c # waf_calls a"
    using serve_sends [of C req sub e] moved Granted(5) guard_leaves(2) unfolding hsends_def by metis
  ultimately show ?thesis by blast
qed

text \<open>
  Property C5 (safety): every change the console can make passes its checks. Take any request, to any
  path, with any form. If it adds or removes an operator or changes one's name, address or role, then either
  it is one of the three actions of user administration and the guard has granted the caller the role of an
  administrator, the CSRF token was right and the operator of the session has given the current password and,
  with a second factor, an accepted code; or it is the first-time registration with its checks passed and no
  operator stored. If it touches the updater, it is a start of an update by an administrator who has stepped up
  the same way, while none ran. If the firewall is sent anything, it is one signed request, on behalf of an
  operator or administrator.
\<close>

theorem console_changes_are_mediated:
  assumes "console C req sub m p a = Some (out, a')"
  shows "(\<not> same_identities (tables (world a)) (tables (world a')) \<longrightarrow>
      (\<exists>g e q. (m, p, g, e) \<in> set all_routes \<and> administers sub e = Some q \<and> csrf_verify req (csrf_of q) \<and>
         stepped_up_admin (auth_part C) a (password_of q) (code_of q)) \<or>
      (\<exists>f. (m, p, Unguarded, Setup_first_time) \<in> set all_routes \<and> sub = First_form f \<and> operators_empty a \<and>
         first_time_checks (first_time_token C) (debug_part C) req f = None)) \<and>
    (updater a' \<noteq> updater a \<longrightarrow>
      (\<exists>f. sub = Source_form f \<and> csrf_verify req (kf_csrf_token f) \<and>
         stepped_up_admin (auth_part C) a (kf_current_password f) (kf_mfa_code f) \<and> \<not> update_running a)) \<and>
    (waf_calls a' \<noteq> waf_calls a \<longrightarrow>
      granted_role (auth_part C) a \<in> {Some Admin, Some Operator} \<and>
      (\<exists>c. signed_request (rules_part C) c \<and> waf_calls a' = c # waf_calls a))"
  using console_identities [OF assms] console_updater [OF assms] console_sends [OF assms] by blast

definition sample_parts :: "nat parts" where
  "sample_parts = \<lparr>auth_part = sample_env, encoders_part = sample_encoders, rules_part = sample_rules,
     monitor_part = plain_monitor, floats_part = whole_numbers, metrics_net = (\<lambda>_ _. No_answer []),
     metrics_part = \<lparr>metrics_endpoint = [], authorization = None\<rparr>, dashboard_json = (\<lambda>_. Status_json 200 [] []),
     first_time_token = Some (lit ''tok''), debug_part = False\<rparr>"

definition delete_form :: submitted where
  "delete_form = Delete_form (case delete_bob of Delete_action f \<Rightarrow> f)"

definition delete_path :: ustr where
  "delete_path = lit ''/kraken_ui/auth/delete_user_action''"

theorem console_changes_are_mediated_witness:
  "map_option (\<lambda>(_, a). map fst (identities (tables (world a))))
     (console sample_parts sample_request delete_form Post delete_path (sample_app two_admins sample_session)) = Some [1] \<and>
   map fst (identities (tables two_admins)) = [1, 2] \<and>
   (\<exists>q. stepped_up_admin sample_env (sample_app two_admins sample_session) (password_of q) (code_of q))"
proof -
  let ?a = "sample_app two_admins sample_session"
  have ids: "map_option (\<lambda>(_, a). map fst (identities (tables (world a))))
      (console sample_parts sample_request delete_form Post delete_path ?a) = Some [1]"
    "map fst (identities (tables (world ?a))) = [1, 2]" by code_simp+
  then obtain out a' where run: "console sample_parts sample_request delete_form Post delete_path ?a = Some (out, a')"
    and left: "map fst (identities (tables (world a'))) = [1]" by auto
  have "\<not> same_identities (tables (world ?a)) (tables (world a'))"
  proof
    assume "same_identities (tables (world ?a)) (tables (world a'))"
    then have "map fst (identities (tables (world a'))) = map fst (identities (tables (world ?a)))"
      by (simp add: same_identities_def)
    then show False using left ids(2) by simp
  qed
  moreover have "\<not> operators_empty ?a" by code_simp
  moreover have "auth_part sample_parts = sample_env" by (simp add: sample_parts_def)
  ultimately have "\<exists>q. stepped_up_admin sample_env ?a (password_of q) (code_of q)"
    using console_changes_are_mediated [OF run] by auto
  then show ?thesis using ids by (simp add: sample_app_def)
qed

section \<open>An administrator remains\<close>

text \<open>
  Requests one after the other, each from its own session, at its own time and with its own faults of
  the database; what is not routed changes nothing.
\<close>

record visit =
  visit_request :: request
  visit_form :: submitted
  visit_method :: http_method
  visit_path :: ustr
  visit_session :: session
  visit_clock :: int
  visit_dice :: nat
  visit_faults :: "bool list"

definition arriving :: "app \<Rightarrow> visit \<Rightarrow> app" where
  "arriving a v = a\<lparr>session := visit_session v,
     world := (world a)\<lparr>clock := visit_clock v, dice := visit_dice v, faults := visit_faults v\<rparr>\<rparr>"

definition visit_step :: "'f parts \<Rightarrow> app \<Rightarrow> visit \<Rightarrow> app option" where
  "visit_step C a v = (case console C (visit_request v) (visit_form v) (visit_method v) (visit_path v) (arriving a v) of
     None \<Rightarrow> Some a | Some (_, a') \<Rightarrow> Some a')"

text \<open>There is an administrator or, where that is allowed, no operator at all.\<close>

definition administered :: "bool \<Rightarrow> tables \<Rightarrow> bool" where
  "administered fresh t \<longleftrightarrow> has_admin t \<or> fresh \<and> operators t = []"

definition stays_administered :: "tables \<Rightarrow> tables \<Rightarrow> bool" where
  "stays_administered t t' \<longleftrightarrow> (\<forall>fresh. administered fresh t \<longrightarrow> administered fresh t')"

lemma stays_administered_good [simp]: "good_relation stays_administered"
  unfolding good_relation_def stays_administered_def administered_def by metis

lemma same_types_administered:
  assumes "map operator_type (operators t') = map operator_type (operators t)"
  shows "stays_administered t t'"
proof -
  have "has_admin u \<longleftrightarrow> role_str Admin \<in> set (map operator_type (operators u))"
    "operators u = [] \<longleftrightarrow> map operator_type (operators u) = []" for u
    by (simp_all add: has_admin_def image_iff Bex_def eq_commute)
  then have "administered fresh u \<longleftrightarrow> role_str Admin \<in> set (map operator_type (operators u)) \<or>
      fresh \<and> map operator_type (operators u) = []" for fresh u
    by (simp only: administered_def)
  then show ?thesis unfolding stays_administered_def assms by (simp only: assms) blast
qed

lemma same_identities_administered: "same_identities t t' \<Longrightarrow> stays_administered t t'"
proof -
  have "map operator_type (operators t) = map (\<lambda>(_, _, _, ty). ty) (identities t)" for t
    by (simp add: identities_def identity_def)
  then show "same_identities t t' \<Longrightarrow> stays_administered t t'"
    by (simp add: same_identities_def same_types_administered)
qed

lemma insert_admin: "operator_type r = role_str Admin \<Longrightarrow> relates stays_administered (execute (insert_operator r))"
  by (rule relates_execute)
    (auto simp: insert_operator_def stays_administered_def administered_def has_admin_def Let_def split: if_splits)

lemma update_admin:
  "(\<And>r. operator_type (f r) = operator_type r) \<Longrightarrow> relates stays_administered (execute (update_operator_row u f))"
  by (rule relates_execute)
    (auto simp: update_operator_row_def map_update_where intro!: same_types_administered split: option.splits if_splits)

lemma create_admin: "relates stays_administered (create_operator D name addr (lit ''admin'') pw)"
proof -
  have "role_str Admin = lit ''admin''" by simp
  then show ?thesis unfolding create_operator_def spawn_encrypt_def
    by (intro relates_intros insert_admin update_admin stays_administered_good) simp_all
qed

lemma first_time_administered: "hrelates stays_administered (first_time E tk debug req form)"
proof -
  have count: "relates stays_administered count_operators"
    unfolding count_operators_def by (intro relates_intros stays_administered_good)
  show ?thesis
    unfolding first_time_def first_time_locked_def register_admin_def
    by (intro hrelates_intros count create_admin hrelates_keeps keeps_update stays_administered_good) simp_all
qed

lemma granted_result: "granted_role E a = Some r \<Longrightarrow> authorized_role E a = (Inr (Some r), snd (authorized_role E a))"
  by (auto simp: granted_role_def prod_eq_iff split: sum.splits option.splits)

lemma granted_not_empty: "granted_role E a = Some r \<Longrightarrow> operators (tables (world a)) \<noteq> []"
  by (auto simp: lookup_operator_def dest: authorized_role_SomeD [OF granted_result])

lemma serve_acl_administered:
  assumes "has_admin (tables (world a))" and "granted_role E a = Some Admin"
  shows "has_admin (tables (world (snd (serve_acl E req q (snd (authorized_role E a))))))"
proof -
  have "snd (require_admin E (serve_acl E req q) a) = snd (serve_acl E req q (snd (authorized_role E a)))"
    by (simp add: require_admin_def guard_result assms(2) run_endpoint_def split: prod.split sum.split)
  then show ?thesis using administration_keeps_an_admin [OF assms(1)] by metis
qed

lemma console_administered:
  assumes "console C req sub m p a = Some (out, a')"
  shows "stays_administered (tables (world a)) (tables (world a'))"
  using assms
proof (cases rule: console_cases)
  case (Refused g e)
  then show ?thesis using guard_leaves(1) stays_administered_good by (simp add: good_relation_def)
next
  case (Open e)
  show ?thesis
  proof (cases "e = Setup_first_time")
    case True
    then show ?thesis
      using first_time_administered Open(3) stays_administered_good
      by (cases sub) (auto simp: serve_console_def Let_def hrelates_def unprocessable_def hret_def good_relation_def)
  next
    case False
    have "administers sub e = None" using Open(2) endpoint_roles(1) by fastforce
    then have "hrelates same_identities (serve_console C req sub e)" using False by (rule identities_serve)
    then show ?thesis using Open(3) same_identities_administered by (simp add: hrelates_def)
  qed
next
  case (Granted g e needed r)
  let ?a1 = "snd (authorized_role (auth_part C) a)"
  show ?thesis
  proof (cases "administers sub e")
    case None
    moreover have "e \<noteq> Setup_first_time" using Granted(2) endpoint_roles(3) by auto
    ultimately have "hrelates same_identities (serve_console C req sub e)" by (rule identities_serve)
    then have "same_identities (tables (world ?a1)) (tables (world (snd (serve_console C req sub e ?a1))))"
      by (simp add: hrelates_def)
    then show ?thesis using Granted(5) guard_leaves(1) same_identities_administered by simp
  next
    case (Some q)
    then have admin: "granted_role (auth_part C) a = Some Admin"
      using Granted(2-4) endpoint_roles(1) admin_least by fastforce
    then show ?thesis
      using serve_acl_administered [OF _ admin] granted_not_empty [OF admin] Granted(5)
      by (auto simp: stays_administered_def administered_def administers_serve [OF Some])
  qed
qed

interpretation co: invariant_system "visit_step C" "\<lambda>a. administered fresh (tables (world a))" for C fresh
proof unfold_locales
  fix a v a' assume inv: "administered fresh (tables (world a))" and step: "visit_step C a v = Some a'"
  have "tables (world (arriving a v)) = tables (world a)" by (simp add: arriving_def)
  then show "administered fresh (tables (world a'))"
    using inv step console_administered [of C "visit_request v" "visit_form v" "visit_method v" "visit_path v" "arriving a v"]
    by (auto simp: visit_step_def stays_administered_def split: option.splits)
qed


text \<open>The first administrator registers, and then another one would; an administrator deletes the other and then would delete itself.\<close>

definition registration :: visit where
  "registration = \<lparr>visit_request = sample_request\<lparr>peer := V4 [127, 0, 0, 1]\<rparr>, visit_form = First_form first_form, visit_method = Post,
     visit_path = lit ''/kraken_ui/auth/first_time'', visit_session = \<lparr>session_id = 7, id_known = True, data = \<lambda>_. None\<rparr>,
     visit_clock = 70, visit_dice = 5, visit_faults = []\<rparr>"

definition deletion :: "ustr \<Rightarrow> visit" where
  "deletion who = \<lparr>visit_request = sample_request,
     visit_form = Delete_form \<lparr>df_user_identity = who, df_current_password = lit ''pw'', df_mfa_code = lit ''000002'',
       df_csrf_token = lit ''tok''\<rparr>, visit_method = Post, visit_path = delete_path,
     visit_session = \<lparr>session_id = 1, id_known = True, data = sample_session\<rparr>,
     visit_clock = 65, visit_dice = 5, visit_faults = []\<rparr>"


end
